(* ===== verification/Prelude.thy ===== *)
theory Prelude
  imports Main "HOL-Library.Signed_Division" "HOL-Library.Product_Lexorder"
    "HOL-Library.List_Lexorder" "HOL-Library.Char_ord" "HOL-Library.Multiset"
begin

text \<open>
  The vocabulary the components share: Go's fixed-width integers as \<^typ>\<open>int\<close> with the
  wrap-around written out, Go's byte strings as \<^typ>\<open>string\<close> with the functions of
  the packages \<open>strings\<close> and \<open>strconv\<close> the sources call, and generic lemmas on lists,
  association lists and sorting.
\<close>

section \<open>Named theorem collections\<close>

named_theorems wrap_simps \<open>evaluation and range of the wrap-around functions\<close>
named_theorems errs_simps \<open>evaluation of the error-tree functions\<close>
named_theorems store_simps \<open>what the store operations do to the abstract tables\<close>

section \<open>Machine integers\<close>

text \<open>
  An \<open>int64\<close> or \<open>int32\<close> value is an \<^typ>\<open>int\<close> in range; the arithmetic of the
  source is the arithmetic of \<^typ>\<open>int\<close> followed by the two's complement wrap. Go's \<open>/\<close>
  and \<open>%\<close> truncate towards zero: they are \<open>sdiv\<close> and \<open>smod\<close>.
\<close>

definition in64 :: "int \<Rightarrow> bool" where
  "in64 x \<longleftrightarrow> - (2 ^ 63) \<le> x \<and> x < 2 ^ 63"

definition in32 :: "int \<Rightarrow> bool" where
  "in32 x \<longleftrightarrow> - (2 ^ 31) \<le> x \<and> x < 2 ^ 31"

definition wrap64 :: "int \<Rightarrow> int" where
  "wrap64 x = (x + 2 ^ 63) mod 2 ^ 64 - 2 ^ 63"

definition wrap32 :: "int \<Rightarrow> int" where
  "wrap32 x = (x + 2 ^ 31) mod 2 ^ 32 - 2 ^ 31"

text \<open>A \<open>timestamptz\<close> column keeps microseconds; the driver drops the rest of an instant.\<close>

definition pgTime :: "int \<Rightarrow> int" where
  "pgTime t = t div 1000 * 1000"

lemma pgTime_idem [simp]: "pgTime (pgTime t) = pgTime t"
  by (simp add: pgTime_def)

lemma pgTime_mono: "s \<le> t \<Longrightarrow> pgTime s \<le> pgTime t"
  by (simp add: pgTime_def zdiv_mono1)

lemma pgTime_bounds: "pgTime t \<le> t \<and> t < pgTime t + 1000"
  unfolding pgTime_def using div_mult_mod_eq [of t 1000] pos_mod_bound [of 1000 t] pos_mod_sign [of 1000 t] by linarith

lemma in64_bounds: "in64 x \<longleftrightarrow> - 9223372036854775808 \<le> x \<and> x \<le> 9223372036854775807"
  by (auto simp: in64_def)

lemma in32_bounds: "in32 x \<longleftrightarrow> - 2147483648 \<le> x \<and> x \<le> 2147483647"
  by (auto simp: in32_def)

lemma wrap64_id [wrap_simps]: "in64 x \<Longrightarrow> wrap64 x = x"
  by (simp add: in64_def wrap64_def)

lemma wrap32_id [wrap_simps]: "in32 x \<Longrightarrow> wrap32 x = x"
  by (simp add: in32_def wrap32_def)

lemma wrap64_range [wrap_simps, simp]: "in64 (wrap64 x)"
  using pos_mod_bound [of "2 ^ 64" "x + 2 ^ 63"] pos_mod_sign [of "2 ^ 64" "x + 2 ^ 63"]
  by (simp add: in64_def wrap64_def)

lemma wrap32_range [wrap_simps, simp]: "in32 (wrap32 x)"
  using pos_mod_bound [of "2 ^ 32" "x + 2 ^ 31"] pos_mod_sign [of "2 ^ 32" "x + 2 ^ 31"]
  by (simp add: in32_def wrap32_def)

text \<open>The wrapped value differs from the exact one by a multiple of the modulus.\<close>

lemma wrap64_eq: "\<exists>k. wrap64 x = x + k * 18446744073709551616"
proof -
  have "(x + 2 ^ 63) mod 2 ^ 64 = (x + 2 ^ 63) - (x + 2 ^ 63) div 2 ^ 64 * 2 ^ 64"
    by (simp add: minus_div_mult_eq_mod)
  then have "wrap64 x = x + (- ((x + 2 ^ 63) div 2 ^ 64)) * 18446744073709551616"
    by (simp add: wrap64_def)
  then show ?thesis by blast
qed

lemma wrap64_unique:
  assumes "in64 y" "x = y + k * 18446744073709551616"
  shows "wrap64 x = y"
proof -
  have "(x + 2 ^ 63) mod 2 ^ 64 = (y + 2 ^ 63 + k * 2 ^ 64) mod 2 ^ 64"
    using assms(2) by (simp add: algebra_simps)
  also have "\<dots> = y + 2 ^ 63" using assms(1) by (simp add: in64_def)
  finally show ?thesis by (simp add: wrap64_def)
qed

text \<open>One addition of two \<open>int64\<close> values wraps at most once.\<close>

lemma wrap64_cases:
  assumes "- 18446744073709551616 \<le> x" "x \<le> 18446744073709551615"
  shows "wrap64 x = (if 9223372036854775807 < x then x - 18446744073709551616
    else if x < - 9223372036854775808 then x + 18446744073709551616 else x)"
  using assms
  by (auto simp: in64_bounds intro: wrap64_unique [where k = 1] wrap64_unique [where k = "- 1"] wrap64_id)

lemma sdiv_mult_cancel: "(n::int) \<noteq> 0 \<Longrightarrow> (t * n) sdiv n = t"
proof -
  assume n: "n \<noteq> 0"
  then have "\<bar>t * n\<bar> div \<bar>n\<bar> = \<bar>t\<bar>" by (simp add: abs_mult)
  then have "(t * n) sdiv n = (sgn n * sgn n) * (sgn t * \<bar>t\<bar>)"
    by (simp add: signed_divide_int_def sgn_mult algebra_simps)
  also have "\<dots> = t" using n by (simp add: sgn_if mult_sgn_abs)
  finally show ?thesis .
qed

lemma in32_in64: "in32 x \<Longrightarrow> in64 x"
  by (auto simp: in32_bounds in64_bounds)

text \<open>Truncated division by a positive divisor, in the form linear arithmetic can use.\<close>

lemma sdiv_smod_nonneg:
  fixes a b :: int
  assumes "0 \<le> a" "0 < b"
  shows "a sdiv b = a div b" "a smod b = a mod b"
  using assms by (auto simp: signed_divide_int_def signed_modulo_int_def sgn_if)

lemma sdiv_smod_neg:
  fixes a b :: int
  assumes "a < 0" "0 < b"
  shows "a sdiv b = - ((- a) div b)" "a smod b = - ((- a) mod b)"
  using assms by (auto simp: signed_divide_int_def signed_modulo_int_def sgn_if)

lemma sdiv_smod_split:
  fixes a b :: int
  assumes "0 < b"
  shows "a = (a sdiv b) * b + a smod b"
    and "0 \<le> a \<Longrightarrow> 0 \<le> a sdiv b \<and> 0 \<le> a smod b"
    and "a \<le> 0 \<Longrightarrow> a sdiv b \<le> 0 \<and> a smod b \<le> 0"
    and "- b < a smod b \<and> a smod b < b"
proof -
  have split: "a = (a sdiv b) * b + a smod b"
  proof (cases "0 \<le> a")
    case True
    then show ?thesis using assms by (simp add: sdiv_smod_nonneg)
  next
    case False
    then have "a sdiv b = - ((- a) div b)" "a smod b = - ((- a) mod b)"
      using assms by (simp_all add: sdiv_smod_neg)
    moreover have "(- a) div b * b + (- a) mod b = - a" by (rule div_mult_mod_eq)
    ultimately show ?thesis by algebra
  qed
  show "a = (a sdiv b) * b + a smod b" by (rule split)
  have m: "0 \<le> x mod b \<and> x mod b < b" for x
    using assms by simp
  show "- b < a smod b \<and> a smod b < b"
  proof (cases "0 \<le> a")
    case True
    then have "a smod b = a mod b" using assms by (simp add: sdiv_smod_nonneg)
    with m [of a] assms show ?thesis by linarith
  next
    case False
    then have "a smod b = - ((- a) mod b)" using assms by (simp add: sdiv_smod_neg)
    with m [of "- a"] assms show ?thesis by linarith
  qed
  show "0 \<le> a \<Longrightarrow> 0 \<le> a sdiv b \<and> 0 \<le> a smod b"
    using assms m [of a] by (simp add: sdiv_smod_nonneg pos_imp_zdiv_nonneg_iff)
  show "a \<le> 0 \<Longrightarrow> a sdiv b \<le> 0 \<and> a smod b \<le> 0"
    using assms m [of "- a"]
    by (cases "a = 0") (simp_all add: sdiv_smod_nonneg sdiv_smod_neg pos_imp_zdiv_nonneg_iff)
qed

section \<open>Strings\<close>

text \<open>
  Go strings are byte sequences, and \<^typ>\<open>char\<close> is a byte; Go's \<open><\<close> on strings is the
  lexicographic order of the bytes, which \<open>List_Lexorder\<close> and \<open>Char_ord\<close> provide.
\<close>

definition byte :: "char \<Rightarrow> nat" where
  "byte c = of_char c"

definition is_ascii :: "char \<Rightarrow> bool" where
  "is_ascii c \<longleftrightarrow> byte c < 128"

definition upper_byte :: "char \<Rightarrow> char" where
  "upper_byte c = (if 97 \<le> byte c \<and> byte c \<le> 122 then char_of (byte c - 32) else c)"

definition lower_byte :: "char \<Rightarrow> char" where
  "lower_byte c = (if 65 \<le> byte c \<and> byte c \<le> 90 then char_of (byte c + 32) else c)"

lemma lower_byte_idem: "lower_byte (lower_byte c) = lower_byte c"
proof (cases "65 \<le> byte c \<and> byte c \<le> 90")
  case True
  then have "byte (char_of (byte c + 32) :: char) = byte c + 32" by (simp add: byte_def)
  with True show ?thesis by (simp add: lower_byte_def)
qed (auto simp: lower_byte_def)

lemma lower_upper_byte: "lower_byte (upper_byte c) = lower_byte c"
proof (cases "97 \<le> byte c \<and> byte c \<le> 122")
  case True
  then have "byte c - 32 < 256" by linarith
  then have u: "byte (char_of (byte c - 32) :: char) = byte c - 32" by (simp add: byte_def)
  have "char_of (byte c - 32 + 32) = c" using True by (simp add: byte_def)
  moreover have "65 \<le> byte c - 32 \<and> byte c - 32 \<le> 90" using True by linarith
  ultimately show ?thesis using True u by (simp add: lower_byte_def upper_byte_def)
qed (auto simp: upper_byte_def)

text \<open>
  \<open>strings.ToUpper\<close> maps an ASCII string byte by byte and hands any other string to
  \<open>unicode.ToUpper\<close> rune by rune. The Unicode tables are left open (\<^const>\<open>undefined\<close>):
  nothing below depends on what they say.
\<close>

definition toUpper :: "string \<Rightarrow> string" where
  "toUpper s = (if list_all is_ascii s then map upper_byte s else undefined s)"

text \<open>\<open>strconv.Itoa\<close> and the verb \<open>%d\<close>.\<close>

fun show_nat :: "nat \<Rightarrow> string" where
  "show_nat n = (if n < 10 then [char_of (48 + n)]
     else show_nat (n div 10) @ [char_of (48 + n mod 10)])"

declare show_nat.simps [simp del]

definition show_int :: "int \<Rightarrow> string" where
  "show_int i = (if i < 0 then ''-'' @ show_nat (nat (- i)) else show_nat (nat i))"

text \<open>
  The verb \<open>%q\<close>, for the text of error messages: double quotes around the string, with the
  quote and the backslash escaped.
\<close>

definition quoted :: "string \<Rightarrow> string" where
  "quoted s = CHR 0x22 # concat (map (\<lambda>c. if c = CHR 0x22 \<or> c = CHR 0x5C then [CHR 0x5C, c] else [c]) s)
     @ [CHR 0x22]"

text \<open>\<open>strings.Split\<close> on a one-byte separator: never empty.\<close>

fun split_on :: "char \<Rightarrow> string \<Rightarrow> string list" where
  "split_on d [] = [[]]"
| "split_on d (c # cs) =
     (if c = d then [] # split_on d cs
      else (case split_on d cs of [] \<Rightarrow> [[c]] | t # ts \<Rightarrow> (c # t) # ts))"

text \<open>\<open>strings.HasPrefix\<close>.\<close>

fun has_prefix :: "string \<Rightarrow> string \<Rightarrow> bool" where
  "has_prefix s [] = True"
| "has_prefix [] (p # ps) = False"
| "has_prefix (c # cs) (p # ps) = (c = p \<and> has_prefix cs ps)"

text \<open>
  \<open>unicode.IsSpace\<close> on the bytes of a string: the length in bytes of the white space
  character a string starts with, 0 if it starts with none. A white space encoding never starts
  inside the encoding of another character, so the functions below may advance byte by byte.
\<close>

definition space_len :: "string \<Rightarrow> nat" where
  "space_len s = (case map byte (take 3 s) of
     [] \<Rightarrow> 0
   | a # r \<Rightarrow>
       if a = 32 \<or> (9 \<le> a \<and> a \<le> 13) then 1
       else (case r of
           [] \<Rightarrow> 0
         | b # r' \<Rightarrow>
             if a = 0xC2 \<and> (b = 0x85 \<or> b = 0xA0) then 2
             else (case r' of
                 [] \<Rightarrow> 0
               | c # _ \<Rightarrow>
                   if (a = 0xE1 \<and> b = 0x9A \<and> c = 0x80)
                     \<or> (a = 0xE2 \<and> b = 0x80 \<and> ((0x80 \<le> c \<and> c \<le> 0x8A) \<or> c = 0xA8 \<or> c = 0xA9 \<or> c = 0xAF))
                     \<or> (a = 0xE2 \<and> b = 0x81 \<and> c = 0x9F)
                     \<or> (a = 0xE3 \<and> b = 0x80 \<and> c = 0x80) then 3 else 0)))"

lemma space_len_drop: "space_len s \<noteq> 0 \<Longrightarrow> length (drop (space_len s) s) < length s"
  by (cases s) (simp_all add: space_len_def)

text \<open>\<open>strings.TrimSpace\<close>, from the left and from the right, and \<open>strings.Fields\<close>.\<close>

function trim_left :: "string \<Rightarrow> string" where
  "trim_left s = (if space_len s = 0 then s else trim_left (drop (space_len s) s))"
  by auto
termination
  by (relation "measure length") (rule wf_measure, simp only: in_measure, rule space_len_drop)

declare trim_left.simps [simp del]

fun trim_right :: "string \<Rightarrow> string" where
  "trim_right [] = []"
| "trim_right (c # cs) = (if trim_left (c # cs) = [] then [] else c # trim_right cs)"

definition trim_space :: "string \<Rightarrow> string" where
  "trim_space s = trim_right (trim_left s)"

function fields_from :: "string \<Rightarrow> string \<Rightarrow> string list" where
  "fields_from w [] = (if w = [] then [] else [w])"
| "fields_from w (c # cs) =
     (if space_len (c # cs) = 0 then fields_from (w @ [c]) cs
      else (if w = [] then [] else [w]) @ fields_from [] (drop (space_len (c # cs)) (c # cs)))"
  by pat_completeness auto
termination
  by (relation "measure (\<lambda>(w, s). length s)")
    (rule wf_measure, simp, simp only: in_measure case_prod_conv, rule space_len_drop)

definition str_fields :: "string \<Rightarrow> string list" where
  "str_fields s = fields_from [] s"

lemma split_on_nonempty: "split_on d s \<noteq> []"
  by (induction s) (auto split: list.splits)

lemma show_nat_nonempty: "show_nat n \<noteq> []"
  by (subst show_nat.simps) simp

section \<open>Lists and association lists\<close>

lemma map_of_filter_neq: "map_of (filter (\<lambda>(j, _). j \<noteq> k) xs) i = (if i = k then None else map_of xs i)"
  by (induction xs) auto

lemma map_of_filter_other: "P k \<Longrightarrow> map_of (filter (\<lambda>(k', v). P k') xs) k = map_of xs k"
  by (induction xs) auto

text \<open>Sorting by an injective key does not depend on the order of the input.\<close>

lemma sort_key_perm:
  assumes "mset xs = mset ys" "inj_on f (set xs)"
  shows "sort_key f xs = sort_key f ys"
proof (rule properties_for_sort_key [symmetric])
  show "mset (sort_key f xs) = mset ys" using assms(1) by simp
  show "sorted (map f (sort_key f xs))" by simp
next
  fix k
  assume "k \<in> set (sort_key f xs)"
  then have k: "k \<in> set xs" by simp
  have one: "filter (\<lambda>x. f k = f x) zs = filter (\<lambda>x. x = k) zs" if "set zs = set xs" for zs
    using that k assms(2) by (auto intro!: filter_cong dest: inj_onD)
  have eq: "filter (\<lambda>x. x = k) zs = replicate (count (mset zs) k) k" for zs
    by (induction zs) auto
  have "set ys = set xs" using assms(1) by (metis set_mset_mset)
  then show "filter (\<lambda>x. f k = f x) (sort_key f xs) = filter (\<lambda>x. f k = f x) ys"
    using assms(1) by (simp add: one eq)
qed

text \<open>On a list sorted by \<open>f\<close> the elements past a key are a suffix.\<close>

lemma dropWhile_sorted_filter:
  fixes f :: "'a \<Rightarrow> 'k::linorder"
  assumes "sorted (map f xs)"
  shows "dropWhile (\<lambda>x. \<not> c < f x) xs = filter (\<lambda>x. c < f x) xs"
  using assms
proof (induction xs)
  case Nil
  then show ?case by simp
next
  case (Cons x xs)
  show ?case
  proof (cases "c < f x")
    case True
    with Cons.prems have "\<forall>y \<in> set xs. c < f y" by (auto dest: less_le_trans)
    with True show ?thesis by (simp add: filter_id_conv)
  next
    case False
    with Cons show ?thesis by simp
  qed
qed

end
