(* ===== verification/Float64.thy ===== *)
theory Float64
  imports Complex_Main Prelude
begin

text \<open>
  Go's \<open>float64\<close> as far as the sources use it: values, the correctly rounded operations of
  IEEE 754 (round to nearest, ties to even), comparisons and the conversions from and to
  integers. A finite value is \<open>Fin m e\<close>, the number \<open>m * 2 ^ e\<close>; the sign of zero is not kept,
  since no source looks at it. The lemmas bound the rounding error by half a unit in the last
  place.
\<close>

section \<open>Values and rounding\<close>

datatype float64 = FNaN | FInf bool | Fin int int

text \<open>The integer nearest to \<open>n / d\<close>, the even one of two.\<close>

definition half_even :: "int \<Rightarrow> int \<Rightarrow> int" where
  "half_even n d = (let k = n div d; r = n mod d in if 2 * r < d \<or> (2 * r = d \<and> even k) then k else k + 1)"

text \<open>\<open>bits.Len\<close>, and the binary logarithm of \<open>p / q\<close> rounded down.\<close>

function bits_len :: "int \<Rightarrow> nat" where
  "bits_len n = (if n \<le> 0 then 0 else Suc (bits_len (n div 2)))"
  by auto
termination by (relation "measure nat") auto

declare bits_len.simps [simp del]

definition log2q :: "int \<Rightarrow> int \<Rightarrow> int" where
  "log2q p q = (let l = int (bits_len p) - int (bits_len q) in
     if (if 0 \<le> l then q * 2 ^ nat l \<le> p else q \<le> p * 2 ^ nat (- l)) then l else l - 1)"

text \<open>
  The double nearest to \<open>p / q\<close>, for \<open>p \<ge> 0\<close> and \<open>q > 0\<close>: the exponent leaves 53 bits of
  mantissa, and is never below the one of the subnormal numbers.
\<close>

definition roundPos :: "int \<Rightarrow> int \<Rightarrow> float64" where
  "roundPos p q = (if p = 0 then Fin 0 0 else
     let e = max (- 1074) (log2q p q - 52);
         m = (if 0 \<le> e then half_even p (q * 2 ^ nat e) else half_even (p * 2 ^ nat (- e)) q)
     in if 971 < e \<or> (e = 971 \<and> 2 ^ 53 \<le> m) then FInf False else Fin m e)"

fun fneg :: "float64 \<Rightarrow> float64" where
  "fneg FNaN = FNaN"
| "fneg (FInf s) = FInf (\<not> s)"
| "fneg (Fin m e) = Fin (- m) e"

definition rnd :: "int \<Rightarrow> int \<Rightarrow> float64" where
  "rnd p q = (if p < 0 then fneg (roundPos (- p) q) else roundPos p q)"

section \<open>Operations\<close>

text \<open>\<open>m * 2 ^ e\<close> as a quotient of integers, and rounded.\<close>

definition numer :: "int \<Rightarrow> int \<Rightarrow> int" where
  "numer m e = m * 2 ^ nat e"

definition rndScaled :: "int \<Rightarrow> int \<Rightarrow> float64" where
  "rndScaled m e = rnd (numer m e) (2 ^ nat (- e))"

definition fofint :: "int \<Rightarrow> float64" where
  "fofint i = rnd i 1"

fun fmul :: "float64 \<Rightarrow> float64 \<Rightarrow> float64" where
  "fmul (Fin m e) (Fin m' e') = rndScaled (m * m') (e + e')"
| "fmul (FInf s) (Fin m e) = (if m = 0 then FNaN else FInf (s \<noteq> (m < 0)))"
| "fmul (Fin m e) (FInf s) = (if m = 0 then FNaN else FInf (s \<noteq> (m < 0)))"
| "fmul (FInf s) (FInf t) = FInf (s \<noteq> t)"
| "fmul _ _ = FNaN"

fun fsub :: "float64 \<Rightarrow> float64 \<Rightarrow> float64" where
  "fsub (Fin m e) (Fin m' e') = rndScaled (numer m (e - min e e') - numer m' (e' - min e e')) (min e e')"
| "fsub (FInf s) (Fin m e) = FInf s"
| "fsub (Fin m e) (FInf s) = FInf (\<not> s)"
| "fsub (FInf s) (FInf t) = (if s = t then FNaN else FInf s)"
| "fsub _ _ = FNaN"

text \<open>Division; a zero divisor gives an infinity (the divisors of the sources are positive).\<close>

fun fdiv :: "float64 \<Rightarrow> float64 \<Rightarrow> float64" where
  "fdiv (Fin m e) (Fin m' e') =
     (if m' = 0 then (if m = 0 then FNaN else FInf (m < 0))
      else rnd (sgn m' * numer m (e - min e e')) (\<bar>m'\<bar> * 2 ^ nat (e' - min e e')))"
| "fdiv (FInf s) (Fin m e) = FInf (s \<noteq> (m < 0))"
| "fdiv (Fin m e) (FInf s) = Fin 0 0"
| "fdiv _ _ = FNaN"

text \<open>Comparisons: every comparison with a NaN is false.\<close>

fun fle :: "float64 \<Rightarrow> float64 \<Rightarrow> bool" where
  "fle (Fin m e) (Fin m' e') \<longleftrightarrow> numer m (e - min e e') \<le> numer m' (e' - min e e')"
| "fle (FInf s) (Fin m e) \<longleftrightarrow> s"
| "fle (Fin m e) (FInf s) \<longleftrightarrow> \<not> s"
| "fle (FInf s) (FInf t) \<longleftrightarrow> s \<or> \<not> t"
| "fle _ _ \<longleftrightarrow> False"

fun flt :: "float64 \<Rightarrow> float64 \<Rightarrow> bool" where
  "flt (Fin m e) (Fin m' e') \<longleftrightarrow> numer m (e - min e e') < numer m' (e' - min e e')"
| "flt (FInf s) (Fin m e) \<longleftrightarrow> s"
| "flt (Fin m e) (FInf s) \<longleftrightarrow> \<not> s"
| "flt (FInf s) (FInf t) \<longleftrightarrow> s \<and> \<not> t"
| "flt _ _ \<longleftrightarrow> False"

text \<open>Conversion to an integer drops the fraction; a NaN or an infinity has no integer value.\<close>

fun ftrunc :: "float64 \<Rightarrow> int option" where
  "ftrunc (Fin m e) = Some (numer m e sdiv 2 ^ nat (- e))"
| "ftrunc _ = None"

section \<open>The error of rounding\<close>

definition scaled :: "int \<Rightarrow> int \<Rightarrow> real" where
  "scaled m e = of_int m * 2 powi e"

text \<open>The number a finite value stands for.\<close>

fun fval :: "float64 \<Rightarrow> real" where
  "fval (Fin m e) = scaled m e"
| "fval _ = 0"

fun is_fin :: "float64 \<Rightarrow> bool" where
  "is_fin (Fin m e) \<longleftrightarrow> True"
| "is_fin _ \<longleftrightarrow> False"

lemma powi_nat_split: "(2::real) powi e = 2 ^ nat e / 2 ^ nat (- e)"
  by (cases "0 \<le> e") (simp_all add: power_int_def power_inverse field_simps)

lemma powi_less_exp: "(2::real) powi a < 2 powi b \<Longrightarrow> a < b"
  using power_int_increasing [of b a "2::real"] by (cases "a < b") auto

lemma numer_scaled: "scaled m e = of_int (numer m e) / of_int (2 ^ nat (- e))"
  by (simp add: scaled_def numer_def powi_nat_split)

lemma bits_len_bounds: "0 < n \<Longrightarrow> 2 ^ (bits_len n - 1) \<le> n \<and> n < 2 ^ bits_len n \<and> 0 < bits_len n"
proof (induction n rule: bits_len.induct)
  case (1 n)
  show ?case
  proof (cases "n = 1")
    case True
    then show ?thesis by (simp add: bits_len.simps)
  next
    case False
    let ?k = "bits_len (n div 2)"
    have h: "2 ^ (?k - 1) \<le> n div 2 \<and> n div 2 < 2 ^ ?k \<and> 0 < ?k"
      using 1 False by (intro 1(1)) auto
    have n: "bits_len n = Suc ?k" using 1 by (subst bits_len.simps) simp
    obtain j where j: "?k = Suc j" using h by (cases ?k) auto
    define a :: int where "a = 2 ^ j"
    have "a \<le> n div 2" "n div 2 < 2 * a" using h by (simp_all add: j a_def)
    then have "2 * a \<le> n" "n < 4 * a" by linarith+
    then show ?thesis unfolding n j by (simp add: a_def)
  qed
qed

lemma half_even_error:
  assumes "0 < d"
  shows "\<bar>of_int (half_even n d) - of_int n / of_int d\<bar> \<le> (1/2 :: real)"
proof -
  define k r where kr: "k = n div d" "r = n mod d"
  have n: "n = k * d + r" and r: "0 \<le> r" "r < d" using assms by (simp_all add: kr)
  have q: "of_int n / of_int d = of_int k + of_int r / (of_int d :: real)"
    using assms by (simp add: n field_simps)
  have d: "(0::real) < of_int d" using assms by simp
  show ?thesis
  proof (cases "2 * r < d \<or> (2 * r = d \<and> even k)")
    case True
    then have "half_even n d = k" "2 * r \<le> d" by (auto simp: half_even_def Let_def kr)
    moreover have "of_int (2 * r) \<le> (of_int d :: real)" using \<open>2 * r \<le> d\<close> by (simp only: of_int_le_iff)
    ultimately show ?thesis using r(1) d by (simp add: q field_simps)
  next
    case False
    then have "half_even n d = k + 1" "d \<le> 2 * r" by (auto simp: half_even_def Let_def kr)
    moreover have "of_int d \<le> (of_int (2 * r) :: real)" using \<open>d \<le> 2 * r\<close> by (simp only: of_int_le_iff)
    moreover have "of_int r < (of_int d :: real)" using r(2) by simp
    ultimately show ?thesis using d by (simp add: q field_simps)
  qed
qed

text \<open>The quotient lies between \<open>2 ^ l\<close> and \<open>2 ^ (l + 1)\<close>.\<close>

lemma log2q_bounds:
  assumes "0 < p" "0 < q"
  shows "2 powi (log2q p q) \<le> (of_int p / of_int q :: real)" "(of_int p / of_int q :: real) < 2 powi (log2q p q + 1)"
proof -
  define l where "l = int (bits_len p) - int (bits_len q)"
  define c where "c \<longleftrightarrow> (if 0 \<le> l then q * 2 ^ nat l \<le> p else q \<le> p * 2 ^ nat (- l))"
  have qq: "(0::real) < of_int q" using assms by simp
  have c: "c \<longleftrightarrow> 2 powi l \<le> (of_int p / of_int q :: real)"
  proof (cases "0 \<le> l")
    case True
    have "(of_int (q * 2 ^ nat l) \<le> (of_int p :: real)) \<longleftrightarrow> q * 2 ^ nat l \<le> p" by (simp only: of_int_le_iff)
    then show ?thesis using True qq by (simp add: c_def power_int_def field_simps)
  next
    case False
    have "(of_int q \<le> (of_int (p * 2 ^ nat (- l)) :: real)) \<longleftrightarrow> q \<le> p * 2 ^ nat (- l)" by (simp only: of_int_le_iff)
    then show ?thesis using False qq by (simp add: c_def power_int_def power_inverse field_simps)
  qed
  have p: "2 ^ (bits_len p - 1) \<le> p" "p < 2 ^ bits_len p" "0 < bits_len p" using bits_len_bounds assms(1) by auto
  have q: "2 ^ (bits_len q - 1) \<le> q" "q < 2 ^ bits_len q" "0 < bits_len q" using bits_len_bounds assms(2) by auto
  have rp: "2 powi (int (bits_len p) - 1) \<le> (of_int p :: real)" "(of_int p :: real) < 2 powi int (bits_len p)"
  proof -
    have "of_int (2 ^ (bits_len p - 1)) \<le> (of_int p :: real)" using p(1) by (simp only: of_int_le_iff)
    then show "2 powi (int (bits_len p) - 1) \<le> (of_int p :: real)" using p(3) by (simp add: power_int_def nat_diff_distrib)
    have "of_int p < (of_int (2 ^ bits_len p) :: real)" using p(2) by (simp only: of_int_less_iff)
    then show "(of_int p :: real) < 2 powi int (bits_len p)" by simp
  qed
  have rq: "2 powi (int (bits_len q) - 1) \<le> (of_int q :: real)" "(of_int q :: real) < 2 powi int (bits_len q)"
  proof -
    have "of_int (2 ^ (bits_len q - 1)) \<le> (of_int q :: real)" using q(1) by (simp only: of_int_le_iff)
    then show "2 powi (int (bits_len q) - 1) \<le> (of_int q :: real)" using q(3) by (simp add: power_int_def nat_diff_distrib)
    have "of_int q < (of_int (2 ^ bits_len q) :: real)" using q(2) by (simp only: of_int_less_iff)
    then show "(of_int q :: real) < 2 powi int (bits_len q)" by simp
  qed
  have up: "of_int p / of_int q < (2 powi (l + 1) :: real)"
  proof -
    have "of_int p / of_int q < 2 powi int (bits_len p) / (2 powi (int (bits_len q) - 1) :: real)"
      using rp(2) rq(1) qq by (intro frac_less) (auto simp: assms less_imp_le)
    also have "\<dots> = 2 powi (int (bits_len p) - (int (bits_len q) - 1))" by (subst power_int_diff) simp_all
    also have "int (bits_len p) - (int (bits_len q) - 1) = l + 1" by (simp add: l_def)
    finally show ?thesis .
  qed
  have low: "(2 powi (l - 1) :: real) \<le> of_int p / of_int q"
  proof -
    have "l - 1 = (int (bits_len p) - 1) - int (bits_len q)" by (simp add: l_def)
    then have "(2 powi (l - 1) :: real) = 2 powi (int (bits_len p) - 1) / 2 powi int (bits_len q)"
      by (simp only: power_int_diff [OF disjI1, of "2::real", simplified])
    also have "\<dots> \<le> of_int p / of_int q" using rp(1) rq(2) qq by (intro frac_le) (auto simp: less_imp_le assms)
    finally show ?thesis .
  qed
  have lg: "log2q p q = (if c then l else l - 1)" by (simp add: log2q_def Let_def l_def c_def)
  show "2 powi (log2q p q) \<le> (of_int p / of_int q :: real)" using c low by (simp add: lg)
  show "(of_int p / of_int q :: real) < 2 powi (log2q p q + 1)" using c up by (simp add: lg)
qed

text \<open>
  A quotient in the normal range is rounded with a relative error of at most \<open>2 ^ -53\<close>; below it
  the absolute error is at most half the smallest double.
\<close>

lemma roundPos_error:
  assumes "0 < p" "0 < q" "roundPos p q = Fin m e" "2 powi (- 1022) \<le> (of_int p / of_int q :: real)"
  shows "\<bar>scaled m e - of_int p / of_int q\<bar> \<le> of_int p / of_int q * 2 powi (- 53)" "0 \<le> m"
proof -
  define x where "x = (of_int p / of_int q :: real)"
  define l where "l = log2q p q"
  have l: "2 powi l \<le> x" "x < 2 powi (l + 1)" using log2q_bounds [OF assms(1,2)] by (simp_all add: x_def l_def)
  have "- 1022 < l + 1"
    using le_less_trans [OF assms(4) [folded x_def] l(2)] by (rule powi_less_exp)
  then have e: "e = l - 52" using assms(1,3) by (auto simp: roundPos_def Let_def l_def split: if_splits)
  define n d where nd: "n = numer p (- e)" "d = q * 2 ^ nat e"
  have d: "0 < d" using assms(2) by (simp add: nd)
  have m: "m = half_even n d"
    using assms(1,3) e \<open>- 1022 < l + 1\<close>
    by (auto simp: roundPos_def Let_def nd numer_def l_def split: if_splits)
  have nd': "of_int n / of_int d = x / 2 powi e"
    by (simp add: nd x_def numer_def powi_nat_split field_simps)
  have err: "\<bar>of_int m - x / 2 powi e\<bar> \<le> 1/2" using half_even_error [OF d, of n] by (simp add: m nd')
  have "scaled m e - x = (of_int m - x / 2 powi e) * 2 powi e" by (simp add: scaled_def field_simps)
  then have "\<bar>scaled m e - x\<bar> \<le> 1/2 * 2 powi e"
    using mult_right_mono [OF err, of "2 powi e"] by (simp add: abs_mult)
  also have "\<dots> = 2 powi (l - 53)" by (simp add: e power_int_diff)
  also have "\<dots> \<le> x * 2 powi (- 53)" using l(1) by (simp add: power_int_diff power_int_minus field_simps)
  finally show "\<bar>scaled m e - of_int p / of_int q\<bar> \<le> of_int p / of_int q * 2 powi (- 53)" by (simp add: x_def)
  have "0 \<le> n" using assms(1) by (simp add: nd numer_def)
  then show "0 \<le> m" using d by (simp add: m half_even_def Let_def pos_imp_zdiv_nonneg_iff)
qed

text \<open>Nothing below \<open>2 ^ 1023\<close> overflows.\<close>

lemma roundPos_finite:
  assumes "0 \<le> p" "0 < q" "(of_int p / of_int q :: real) < 2 powi 1023"
  shows "is_fin (roundPos p q)"
proof (cases "p = 0")
  case True
  then show ?thesis by (simp add: roundPos_def)
next
  case False
  then have "2 powi (log2q p q) \<le> (of_int p / of_int q :: real)" using assms log2q_bounds(1) by simp
  then have "log2q p q < 1023" using assms(3) by (intro powi_less_exp) (rule le_less_trans)
  then show ?thesis by (simp add: roundPos_def Let_def)
qed


section \<open>The operations in terms of numbers\<close>

lemma rnd_ok:
  assumes "0 < p" "0 < q" "2 powi (- 1022) \<le> (of_int p / of_int q :: real)" "(of_int p / of_int q :: real) < 2 powi 1023"
  shows "is_fin (rnd p q)" "\<bar>fval (rnd p q) - of_int p / of_int q\<bar> \<le> of_int p / of_int q * 2 powi (- 53)"
    "0 \<le> fval (rnd p q)"
proof -
  have r: "rnd p q = roundPos p q" using assms(1) by (simp add: rnd_def)
  show "is_fin (rnd p q)" using roundPos_finite assms by (simp add: r)
  then obtain m e where me: "roundPos p q = Fin m e" by (cases "roundPos p q") (auto simp: r)
  note err = roundPos_error [OF assms(1,2) me assms(3)]
  show "\<bar>fval (rnd p q) - of_int p / of_int q\<bar> \<le> of_int p / of_int q * 2 powi (- 53)"
    using err(1) by (simp add: r me)
  show "0 \<le> fval (rnd p q)" using err(2) by (simp add: r me scaled_def)
qed

lemma rndScaled_ok:
  assumes "0 < m" "2 powi (- 1022) \<le> scaled m e" "scaled m e < 2 powi 1023"
  shows "is_fin (rndScaled m e)" "\<bar>fval (rndScaled m e) - scaled m e\<bar> \<le> scaled m e * 2 powi (- 53)"
    "0 \<le> fval (rndScaled m e)"
proof -
  have "0 < numer m e" "(0::int) < 2 ^ nat (- e)" using assms(1) by (simp_all add: numer_def)
  note ok = rnd_ok [OF this]
  show "is_fin (rndScaled m e)" "\<bar>fval (rndScaled m e) - scaled m e\<bar> \<le> scaled m e * 2 powi (- 53)"
    "0 \<le> fval (rndScaled m e)"
    using ok assms(2,3) unfolding numer_scaled rndScaled_def by blast+
qed

lemma scaled_shift: "c \<le> e \<Longrightarrow> scaled m e = of_int (numer m (e - c)) * 2 powi c"
  by (simp add: scaled_def numer_def power_int_diff flip: power_int_of_nat)

lemma fle_fval: "is_fin x \<Longrightarrow> is_fin y \<Longrightarrow> fle x y \<longleftrightarrow> fval x \<le> fval y"
proof (cases x; cases y)
  fix m e m' e'
  assume "x = Fin m e" "y = Fin m' e'"
  then show ?thesis
    using scaled_shift [of "min e e'" e m] scaled_shift [of "min e e'" e' m'] by simp
qed auto

lemma flt_fval: "is_fin x \<Longrightarrow> is_fin y \<Longrightarrow> flt x y \<longleftrightarrow> fval x < fval y"
proof (cases x; cases y)
  fix m e m' e'
  assume "x = Fin m e" "y = Fin m' e'"
  then show ?thesis
    using scaled_shift [of "min e e'" e m] scaled_shift [of "min e e'" e' m'] by simp
qed auto

lemma fsub_Fin: "fsub (Fin m e) (Fin m' e') = rndScaled (numer m (e - min e e') - numer m' (e' - min e e')) (min e e')"
    "scaled (numer m (e - min e e') - numer m' (e' - min e e')) (min e e') = scaled m e - scaled m' e'"
  using scaled_shift [of "min e e'" e m] scaled_shift [of "min e e'" e' m']
  by (simp_all add: scaled_def left_diff_distrib)

lemma scaled_mult: "scaled (m * m') (e + e') = scaled m e * scaled m' e'"
  by (simp add: scaled_def power_int_add)

lemma scaled_pos_iff: "0 < scaled m e \<longleftrightarrow> 0 < m"
proof -
  have "\<not> (2::real) powi e < 0" by (simp add: not_less)
  then show ?thesis by (simp add: scaled_def zero_less_mult_iff)
qed

lemma ftrunc_floor: "0 \<le> fval x \<Longrightarrow> is_fin x \<Longrightarrow> ftrunc x = Some \<lfloor>fval x\<rfloor>"
proof (cases x)
  fix m e
  assume x: "x = Fin m e" and "0 \<le> fval x"
  then have "0 \<le> m" using scaled_pos_iff [of "- m" e] by (simp add: scaled_def)
  then have "numer m e sdiv 2 ^ nat (- e) = numer m e div 2 ^ nat (- e)"
    by (intro sdiv_smod_nonneg) (simp_all add: numer_def)
  also have "\<dots> = \<lfloor>scaled m e\<rfloor>" unfolding numer_scaled by (rule floor_divide_of_int_eq [symmetric])
  finally show ?thesis by (simp add: x)
qed auto

end
