(* ===== verification/Strconv.thy ===== *)
theory Strconv
  imports Float64
begin

text \<open>
  The parsers of Go's standard library the configuration is read with: \<open>strconv.Atoi\<close>,
  \<open>strconv.ParseBool\<close>, \<open>strconv.ParseFloat\<close> and \<open>time.ParseDuration\<close>. Only whether they fail
  matters to the callers, so each returns an option. Durations are nanoseconds.
\<close>

section \<open>Integers and booleans\<close>

definition is_digit :: "char \<Rightarrow> bool" where
  "is_digit c \<longleftrightarrow> 48 \<le> byte c \<and> byte c \<le> 57"

definition digit :: "char \<Rightarrow> int" where
  "digit c = int (byte c) - 48"

definition digits_val :: "string \<Rightarrow> int" where
  "digits_val s = foldl (\<lambda>n c. n * 10 + digit c) 0 s"

text \<open>An optional sign: whether it is a minus, and what follows.\<close>

fun signOf :: "string \<Rightarrow> bool \<times> string" where
  "signOf (c # cs) = (if c = CHR ''-'' then (True, cs) else if c = CHR ''+'' then (False, cs) else (False, c # cs))"
| "signOf [] = (False, [])"

definition Atoi :: "string \<Rightarrow> int option" where
  "Atoi s = (let (neg, ds) = signOf s; n = (if neg then - digits_val ds else digits_val ds) in
     if ds \<noteq> [] \<and> list_all is_digit ds \<and> in64 n then Some n else None)"

definition ParseBool :: "string \<Rightarrow> bool option" where
  "ParseBool s =
     (if s \<in> set [''1'', ''t'', ''T'', ''true'', ''TRUE'', ''True''] then Some True
      else if s \<in> set [''0'', ''f'', ''F'', ''false'', ''FALSE'', ''False''] then Some False
      else None)"

section \<open>Floating point numbers\<close>

text \<open>\<open>strconv.underscoreOK\<close>: \<open>saw\<close> is the last character seen.\<close>

fun underscoresFrom :: "bool \<Rightarrow> char \<Rightarrow> string \<Rightarrow> bool" where
  "underscoresFrom hex saw [] \<longleftrightarrow> saw \<noteq> CHR ''_''"
| "underscoresFrom hex saw (c # cs) \<longleftrightarrow>
     (if is_digit c \<or> (hex \<and> 97 \<le> byte (lower_byte c) \<and> byte (lower_byte c) \<le> 102) then underscoresFrom hex (CHR ''0'') cs
      else if c = CHR ''_'' then saw = CHR ''0'' \<and> underscoresFrom hex (CHR ''_'') cs
      else saw \<noteq> CHR ''_'' \<and> underscoresFrom hex (CHR ''!'') cs)"

definition underscoreOK :: "string \<Rightarrow> bool" where
  "underscoreOK s = (let t = snd (signOf s) in
     (case t of
        z # b # r \<Rightarrow>
          if z = CHR ''0'' \<and> lower_byte b \<in> set ''box'' then underscoresFrom (lower_byte b = CHR ''x'') (CHR ''0'') r
          else underscoresFrom False (CHR ''^'') t
      | _ \<Rightarrow> underscoresFrom False (CHR ''^'') t))"

definition digitOf :: "bool \<Rightarrow> char \<Rightarrow> int option" where
  "digitOf hex c = (if is_digit c then Some (digit c)
     else if hex \<and> 97 \<le> byte (lower_byte c) \<and> byte (lower_byte c) \<le> 102 then Some (int (byte (lower_byte c)) - 87)
     else None)"

text \<open>
  The mantissa: whether a digit was seen, the digits as a number, how many follow the point, and
  the rest of the string.
\<close>

fun readMant :: "bool \<Rightarrow> bool \<Rightarrow> bool \<Rightarrow> int \<Rightarrow> int \<Rightarrow> string \<Rightarrow> bool \<times> int \<times> int \<times> string" where
  "readMant hex dot seen m f [] = (seen, m, f, [])"
| "readMant hex dot seen m f (c # cs) =
     (if c = CHR ''_'' then readMant hex dot seen m f cs
      else if c = CHR ''.'' then (if dot then (seen, m, f, c # cs) else readMant hex True seen m f cs)
      else (case digitOf hex c of
          Some d \<Rightarrow> readMant hex dot True (m * (if hex then 16 else 10) + d) (if dot then f + 1 else f) cs
        | None \<Rightarrow> (seen, m, f, c # cs)))"

text \<open>The digits of the exponent; a value of 10000 or more is not read further.\<close>

fun readExp :: "int \<Rightarrow> string \<Rightarrow> int \<times> string" where
  "readExp e [] = (e, [])"
| "readExp e (c # cs) =
     (if c = CHR ''_'' then readExp e cs
      else if is_digit c then readExp (if e < 10000 then e * 10 + digit c else e) cs
      else (e, c # cs))"

definition readExponent :: "string \<Rightarrow> (int \<times> string) option" where
  "readExponent s = (let (neg, t) = signOf s in
     (case t of
        [] \<Rightarrow> None
      | c # _ \<Rightarrow> if is_digit c then (let (e, r) = readExp 0 t in Some (if neg then - e else e, r)) else None))"

text \<open>\<open>m * b ^ k\<close> rounded to a double.\<close>

definition fromBase :: "int \<Rightarrow> int \<Rightarrow> int \<Rightarrow> float64" where
  "fromBase b m k = rnd (m * b ^ nat k) (b ^ nat (- k))"

definition ParseFloat :: "string \<Rightarrow> float64 option" where
  "ParseFloat s = (let (neg, t) = signOf s; low = map lower_byte t in
     if map lower_byte s = ''nan'' then Some FNaN
     else if low = ''inf'' \<or> low = ''infinity'' then Some (FInf neg)
     else let hex = (2 < length t \<and> take 1 t = ''0'' \<and> take 1 (drop 1 low) = ''x'');
              (seen, m, f, r) = readMant hex False False 0 0 (if hex then drop 2 t else t);
              value = (\<lambda>e. if hex then fromBase 2 m (e - 4 * f) else fromBase 10 m (e - f));
              result = (case r of
                  [] \<Rightarrow> if hex then None else Some (value 0)
                | c # r' \<Rightarrow>
                    if lower_byte c = (if hex then CHR ''p'' else CHR ''e'') then
                      (case readExponent r' of Some (e, []) \<Rightarrow> Some (value e) | _ \<Rightarrow> None)
                    else None)
          in (case result of
                Some (Fin m' e') \<Rightarrow>
                  if seen \<and> (CHR ''_'' \<in> set s \<longrightarrow> underscoreOK s) then Some (if neg then fneg (Fin m' e') else Fin m' e')
                  else None
              | _ \<Rightarrow> None))"

section \<open>Durations\<close>

definition unitNanos :: "string \<Rightarrow> int option" where
  "unitNanos u = map_of
     [(''ns'', 1), (''us'', 1000), ([CHR 0xC2, CHR 0xB5, CHR ''s''], 1000), ([CHR 0xCE, CHR 0xBC, CHR ''s''], 1000),
      (''ms'', 1000000), (''s'', 1000000000), (''m'', 60000000000), (''h'', 3600000000000)] u"

fun leadingInt :: "int \<Rightarrow> string \<Rightarrow> (int \<times> string) option" where
  "leadingInt x [] = Some (x, [])"
| "leadingInt x (c # cs) =
     (if \<not> is_digit c then Some (x, c # cs)
      else if 2 ^ 63 div 10 < x then None
      else if 2 ^ 63 < x * 10 + digit c then None
      else leadingInt (x * 10 + digit c) cs)"

text \<open>After an overflow the remaining digits are skipped.\<close>

fun leadingFraction :: "int \<Rightarrow> float64 \<Rightarrow> bool \<Rightarrow> string \<Rightarrow> int \<times> float64 \<times> string" where
  "leadingFraction x scale overflow [] = (x, scale, [])"
| "leadingFraction x scale overflow (c # cs) =
     (if \<not> is_digit c then (x, scale, c # cs)
      else if overflow then leadingFraction x scale True cs
      else if (2 ^ 63 - 1) div 10 < x then leadingFraction x scale True cs
      else if 2 ^ 63 < x * 10 + digit c then leadingFraction x scale True cs
      else leadingFraction (x * 10 + digit c) (fmul scale (fofint 10)) False cs)"

text \<open>
  One number with its unit, added to the sum \<open>d\<close> (a \<open>uint64\<close>): the new sum and the rest.
\<close>

definition durationPart :: "int \<Rightarrow> string \<Rightarrow> (int \<times> string) option" where
  "durationPart d s = (if \<not> (take 1 s = ''.'' \<or> is_digit (hd s)) then None else
     (case leadingInt 0 s of
        None \<Rightarrow> None
      | Some (v, s1) \<Rightarrow>
          let pre = (length s1 \<noteq> length s);
              (f, scale, s2) = (if take 1 s1 = ''.'' then leadingFraction 0 (fofint 1) False (drop 1 s1) else (0, fofint 1, s1));
              post = (take 1 s1 = ''.'' \<and> length s2 \<noteq> length (drop 1 s1));
              u = takeWhile (\<lambda>c. \<not> (c = CHR ''.'' \<or> is_digit c)) s2;
              rest = drop (length u) s2
          in if \<not> pre \<and> \<not> post then None
             else if u = [] then None
             else (case unitNanos u of
                 None \<Rightarrow> None
               | Some unit \<Rightarrow>
                   if 2 ^ 63 div unit < v then None
                   else let v1 = v * unit;
                            v2 = (if 0 < f then v1 + (case ftrunc (fmul (fofint f) (fdiv (fofint unit) scale)) of
                                                         Some n \<Rightarrow> n | None \<Rightarrow> 0) else v1);
                            d' = (d + v2) mod 2 ^ 64
                        in if 0 < f \<and> 2 ^ 63 < v2 then None
                           else if 2 ^ 63 < d' then None
                           else Some (d', rest))))"

lemma leadingInt_length: "leadingInt x s = Some (v, r) \<Longrightarrow> length r \<le> length s"
  by (induction x s rule: leadingInt.induct) (auto split: if_splits)

lemma leadingFraction_length: "leadingFraction x sc b s = (f, sc', r) \<Longrightarrow> length r \<le> length s"
  by (induction x sc b s rule: leadingFraction.induct) (auto split: if_splits)

lemma durationPart_length: "durationPart d s = Some (d', r) \<Longrightarrow> length r < length s"
proof -
  assume a: "durationPart d s = Some (d', r)"
  then obtain v s1 where v: "leadingInt 0 s = Some (v, s1)"
    by (auto simp: durationPart_def split: if_splits option.splits)
  define p where "p = (if take 1 s1 = ''.'' then leadingFraction 0 (fofint 1) False (drop 1 s1) else (0, fofint 1, s1))"
  obtain f scale s2 where s2: "p = (f, scale, s2)" by (cases p)
  have "length s2 \<le> length s1"
    using s2 leadingFraction_length [of 0 "fofint 1" False "drop 1 s1" f scale s2] by (auto simp: p_def split: if_splits)
  moreover have "length s1 \<le> length s" by (rule leadingInt_length [OF v])
  moreover define u where "u = takeWhile (\<lambda>c. \<not> (c = CHR ''.'' \<or> is_digit c)) s2"
  have "u \<noteq> [] \<and> r = drop (length u) s2"
    using a v s2 by (auto simp: durationPart_def Let_def p_def u_def split: if_splits option.splits)
  moreover have "length u \<le> length s2" unfolding u_def by (rule length_takeWhile_le)
  ultimately show ?thesis by (cases u) auto
qed

function durationParts :: "int \<Rightarrow> string \<Rightarrow> int option" where
  "durationParts d s = (if s = [] then Some d else
     (case durationPart d s of None \<Rightarrow> None | Some (d', r) \<Rightarrow> durationParts d' r))"
  by auto
termination
  by (relation "measure (\<lambda>(d, s). length s)") (auto dest: durationPart_length)

declare durationParts.simps [simp del]

definition ParseDuration :: "string \<Rightarrow> int option" where
  "ParseDuration s = (let (neg, t) = signOf s in
     if t = ''0'' then Some 0
     else if t = [] then None
     else (case durationParts 0 t of
         None \<Rightarrow> None
       | Some d \<Rightarrow>
           if neg then Some (wrap64 (- wrap64 d))
           else if 2 ^ 63 - 1 < d then None
           else Some d))"

section \<open>Lemmas\<close>

lemma Atoi_in64: "Atoi s = Some n \<Longrightarrow> in64 n"
  by (auto simp: Atoi_def Let_def split: prod.splits if_splits)

lemma durationPart_range: "durationPart d s = Some (d', r) \<Longrightarrow> 0 \<le> d' \<and> d' \<le> 2 ^ 63"
  by (auto simp: durationPart_def Let_def split: if_splits option.splits prod.splits)

lemma durationParts_range: "durationParts d s = Some d' \<Longrightarrow> 0 \<le> d \<Longrightarrow> d \<le> 2 ^ 63 \<Longrightarrow> 0 \<le> d' \<and> d' \<le> 2 ^ 63"
proof (induction d s rule: durationParts.induct)
  case (1 d s)
  from "1.prems"(1) show ?case
    unfolding durationParts.simps [of d s]
    using 1 durationPart_range [of d s] by (auto split: if_splits option.splits)
qed

lemma ParseDuration_in64: "ParseDuration s = Some d \<Longrightarrow> in64 d"
  using durationParts_range [of 0 "snd (signOf s)"]
  by (auto simp: ParseDuration_def in64_bounds split: prod.splits if_splits option.splits)
    (use wrap64_range in \<open>auto simp: in64_bounds\<close>)

end
