(* ===== verification/Appconfig.thy ===== *)
theory Appconfig
  imports Strconv "HOL-Library.State_Monad" "HOL-Library.Monad_Syntax" "HOL-Library.AList"
begin

text \<open>
  Package \<open>internal/platform/config\<close>: the environment is parsed into a configuration with
  defaults, and the configuration is validated. The parser object, with the environment and the
  errors found so far, is the state of a state monad; an error is its format string with the
  arguments, and a list of errors is what \<open>errors.Join\<close> receives.
\<close>

section \<open>Data\<close>

definition EnvDevelopment :: string where "EnvDevelopment = ''development''"
definition EnvStaging :: string where "EnvStaging = ''staging''"
definition EnvProduction :: string where "EnvProduction = ''production''"
definition StoreMemory :: string where "StoreMemory = ''memory''"
definition StorePostgres :: string where "StorePostgres = ''postgres''"
definition AuthDev :: string where "AuthDev = ''dev''"
definition AuthOIDC :: string where "AuthOIDC = ''oidc''"

lemmas config_names = EnvDevelopment_def EnvStaging_def EnvProduction_def StoreMemory_def StorePostgres_def
  AuthDev_def AuthOIDC_def

datatype Role = RoleServer | RoleWorker

datatype Secret = Secret (Reveal: string)

definition SecretString :: "Secret \<Rightarrow> string" where
  "SecretString s = ''[REDACTED]''"

definition SecretMarshalJSON :: "Secret \<Rightarrow> string" where
  "SecretMarshalJSON s = CHR 0x22 # ''[REDACTED]'' @ [CHR 0x22]"

text \<open>An error: the format string and its arguments.\<close>

datatype arg = AStr string | AInt int | ADur int | AFloat float64
datatype cfgerr = Fmt string "arg list"

abbreviation millis :: int where "millis \<equiv> 1000000"
abbreviation seconds :: int where "seconds \<equiv> 1000000000"
abbreviation minutes :: int where "minutes \<equiv> 60000000000"
abbreviation hours :: int where "hours \<equiv> 3600000000000"

record TelemetryConfig =
  OTLPEndpoint :: string
  TraceSampleRatio :: float64

record PostgresConfig =
  DSN :: Secret
  MaxOpenConns :: int
  MaxIdleConns :: int
  ConnMaxLifetime :: int
  ConnMaxIdleTime :: int

record OIDCConfig =
  cIssuerURL :: string
  cAudience :: string
  cJWKSURL :: string
  cLeeway :: int
  cTenantClaim :: string
  cScopeClaim :: string
  cServiceClaim :: string
  cMaxKeyAge :: int
  cAllowInsecureIssuer :: bool

record RedisConfig =
  rdAddr :: string
  rdPassword :: Secret
  rdDB :: int
  RateLimitPerMinute :: int
  RateLimitBurst :: int

record OutboxConfig =
  obBatchSize :: int
  PollInterval :: int
  MaxConns :: int
  ObserveInterval :: int

record RetentionConfig =
  rtOutbox :: int
  rtProcessedEvents :: int
  rtBatchSize :: int

record NATSConfig =
  natsURL :: string
  natsStream :: string
  natsSubjectPrefix :: string
  natsDLQSubjectPrefix :: string
  DuplicateWindow :: int
  StreamMaxAge :: int
  natsConsumer :: string
  natsMaxDeliver :: int
  AckWait :: int

record UpstreamConfig =
  upDefaultTimeout :: int
  ReserveFraction :: float64
  MinBudget :: int

record ServerConfig =
  MaxConcurrentStreams :: int
  MaxRecvMsgBytes :: int
  MaxConnectionAge :: int
  MaxConnectionAgeGrace :: int
  KeepaliveMinTime :: int
  AdmissionLimit :: int
  srvDefaultTimeout :: int
  MaxTimeout :: int

record ShutdownConfig =
  DrainDelay :: int
  GracePeriod :: int

record AppConfig =
  cRole :: Role
  AppEnv :: string
  ServiceName :: string
  Version :: string
  GRPCAddr :: string
  AdminAddr :: string
  GatewayAddr :: string
  LogLevel :: string
  LogFormat :: string
  StoreDriver :: string
  AuthMode :: string
  Postgres :: PostgresConfig
  OIDC :: OIDCConfig
  Redis :: RedisConfig
  OutboxCfg :: OutboxConfig
  Retention :: RetentionConfig
  NATS :: NATSConfig
  Upstream :: UpstreamConfig
  Telemetry :: TelemetryConfig
  Server :: ServerConfig
  ShutdownCfg :: ShutdownConfig

definition IsProduction :: "AppConfig \<Rightarrow> bool" where
  "IsProduction c \<longleftrightarrow> AppEnv c = EnvProduction"

section \<open>The parser\<close>

record parser =
  env :: "(string \<times> string) list"
  errs :: "cfgerr list"

type_synonym 'a parse = "(parser, 'a) state"

text \<open>A variable that is set to something else than the empty string.\<close>

definition lookupSet :: "parser \<Rightarrow> string \<Rightarrow> string option" where
  "lookupSet p key = (case map_of (env p) key of Some v \<Rightarrow> if v = [] then None else Some v | None \<Rightarrow> None)"

definition str :: "string \<Rightarrow> string \<Rightarrow> string parse" where
  "str key dflt = State (\<lambda>p. (case lookupSet p key of Some v \<Rightarrow> v | None \<Rightarrow> dflt, p))"

definition strOptional :: "string \<Rightarrow> string \<Rightarrow> string parse" where
  "strOptional key dflt = State (\<lambda>p. (case map_of (env p) key of Some v \<Rightarrow> v | None \<Rightarrow> dflt, p))"

text \<open>What the typed getters share: a value the parser refuses is recorded with the given message.\<close>

definition parsed :: "(string \<Rightarrow> 'a option) \<Rightarrow> string \<Rightarrow> string \<Rightarrow> 'a \<Rightarrow> 'a parse" where
  "parsed f message key dflt = State (\<lambda>p. case lookupSet p key of
     None \<Rightarrow> (dflt, p)
   | Some raw \<Rightarrow> (case f raw of
       Some v \<Rightarrow> (v, p)
     | None \<Rightarrow> (dflt, p\<lparr>errs := errs p @ [Fmt message [AStr key, AStr raw]]\<rparr>)))"

definition boolVal :: "string \<Rightarrow> bool \<Rightarrow> bool parse" where
  "boolVal = parsed ParseBool ''%s: %q is not a boolean (try true or false)''"

definition intVal :: "string \<Rightarrow> int \<Rightarrow> int parse" where
  "intVal = parsed Atoi ''%s: %q is not an integer''"

definition floatVal :: "string \<Rightarrow> float64 \<Rightarrow> float64 parse" where
  "floatVal = parsed ParseFloat ''%s: %q is not a number''"

definition dur :: "string \<Rightarrow> int \<Rightarrow> int parse" where
  "dur = parsed ParseDuration ''%s: %q is not a duration (try 30s, 5m)''"

text \<open>\<open>strings.Cut\<close> at the first \<open>=\<close>, and \<open>environ\<close>: of two entries for a key the later counts.\<close>

fun cutEq :: "string \<Rightarrow> (string \<times> string) option" where
  "cutEq [] = None"
| "cutEq (c # cs) = (if c = CHR ''='' then Some ([], cs) else map_option (\<lambda>(k, v). (c # k, v)) (cutEq cs))"

definition environ :: "string list \<Rightarrow> (string \<times> string) list" where
  "environ osEnviron = foldl (\<lambda>out kv. case cutEq kv of Some (k, v) \<Rightarrow> AList.update k v out | None \<Rightarrow> out) [] osEnviron"

definition oneOf :: "string \<Rightarrow> string list \<Rightarrow> bool" where
  "oneOf v allowed \<longleftrightarrow> list_ex (\<lambda>a. v = a) allowed"

text \<open>\<open>strings.ToLower\<close>, with the Unicode tables left open for text that is not ASCII.\<close>

definition toLower :: "string \<Rightarrow> string" where
  "toLower s = (if list_all is_ascii s then map lower_byte s else undefined s)"

definition parseLevel :: "string \<Rightarrow> cfgerr + int" where
  "parseLevel s = (let l = toLower s in
     if l = ''debug'' then Inr (- 4)
     else if l = ''info'' then Inr 0
     else if l = ''warn'' \<or> l = ''warning'' then Inr 4
     else if l = ''error'' then Inr 8
     else Inl (Fmt ''LOG_LEVEL %q must be one of debug, info, warn, error'' [AStr s]))"

section \<open>Validation\<close>

text \<open>An error that is appended when a condition holds.\<close>

definition appendIf :: "bool \<Rightarrow> string \<Rightarrow> arg list \<Rightarrow> cfgerr list" where
  "appendIf b message args = (if b then [Fmt message args] else [])"

definition prefixed :: "string \<Rightarrow> string \<Rightarrow> bool" where
  "prefixed subject pre \<longleftrightarrow> subject = pre \<or> has_prefix subject (pre @ ''.'')"

definition ContainsAny :: "string \<Rightarrow> string \<Rightarrow> bool" where
  "ContainsAny s chars \<longleftrightarrow> list_ex (\<lambda>c. c \<in> set chars) s"

definition validateName :: "string \<times> string \<Rightarrow> cfgerr list" where
  "validateName f = (case f of (name, v) \<Rightarrow>
     if trim_space v = [] then [Fmt ''%s must not be empty when NATS_URL is set'' [AStr name]]
     else appendIf (ContainsAny v [CHR ''*'', CHR ''>'', CHR '' '', CHR 0x09, CHR 0x0D, CHR 0x0A])
       ''%s %q must not contain a wildcard (* or >) or whitespace'' [AStr name, AStr v])"

definition validateNATS :: "AppConfig \<Rightarrow> cfgerr list" where
  "validateNATS c = (let n = NATS c in if natsURL n = [] then [] else
     concat (map validateName
       [(''NATS_STREAM'', natsStream n), (''NATS_SUBJECT_PREFIX'', natsSubjectPrefix n),
        (''NATS_DLQ_SUBJECT_PREFIX'', natsDLQSubjectPrefix n), (''NATS_CONSUMER'', natsConsumer n)])
     @ appendIf (prefixed (natsDLQSubjectPrefix n) (natsSubjectPrefix n))
         (''NATS_DLQ_SUBJECT_PREFIX %q is inside NATS_SUBJECT_PREFIX %q: the consumer would ''
          @ ''redeliver its own dead letters forever'') [AStr (natsDLQSubjectPrefix n), AStr (natsSubjectPrefix n)]
     @ (if DuplicateWindow n \<le> 0 then
          [Fmt ''NATS_DUPLICATE_WINDOW must be positive, got %s'' [ADur (DuplicateWindow n)]]
        else appendIf (DuplicateWindow n \<le> PollInterval (OutboxCfg c))
          (''NATS_DUPLICATE_WINDOW (%s) must exceed OUTBOX_POLL_INTERVAL (%s): a republished ''
           @ ''batch arriving after the window is stored again instead of deduplicated'')
          [ADur (DuplicateWindow n), ADur (PollInterval (OutboxCfg c))])
     @ appendIf (StreamMaxAge n \<le> 0) ''NATS_STREAM_MAX_AGE must be positive, got %s'' [ADur (StreamMaxAge n)]
     @ appendIf (natsMaxDeliver n \<le> 0) ''NATS_MAX_DELIVER must be positive, got %d'' [AInt (natsMaxDeliver n)]
     @ appendIf (AckWait n \<le> 0) ''NATS_ACK_WAIT must be positive, got %s'' [ADur (AckWait n)])"

text \<open>The modes, and the settings that are refused together.\<close>

definition validateModes :: "AppConfig \<Rightarrow> cfgerr list" where
  "validateModes c =
     appendIf (\<not> oneOf (AppEnv c) [EnvDevelopment, EnvStaging, EnvProduction])
       ''APP_ENV %q must be one of development, staging, production'' [AStr (AppEnv c)]
     @ appendIf (\<not> oneOf (StoreDriver c) [StoreMemory, StorePostgres])
         ''STORE_DRIVER %q must be one of memory, postgres'' [AStr (StoreDriver c)]
     @ appendIf (\<not> oneOf (AuthMode c) [AuthDev, AuthOIDC]) ''AUTH_MODE %q must be one of dev, oidc'' [AStr (AuthMode c)]
     @ appendIf (cRole c = RoleServer \<and> AppEnv c = EnvProduction \<and> AuthMode c = AuthDev)
         ''AUTH_MODE=dev is refused when APP_ENV=production: the dev verifier accepts any token'' []
     @ appendIf (AppEnv c = EnvProduction \<and> cAllowInsecureIssuer (OIDC c))
         (''OIDC_ALLOW_INSECURE_ISSUER=true is refused when APP_ENV=production: it permits an ''
          @ ''http:// issuer on a routable host, so bearer tokens and signing keys would ''
          @ ''cross the network in cleartext'') []
     @ appendIf (cRole c = RoleWorker \<and> Reveal (DSN (Postgres c)) = [])
         ''POSTGRES_DSN is required: the outbox lives in the database'' []
     @ appendIf (StoreDriver c = StorePostgres \<and> Reveal (DSN (Postgres c)) = [])
         ''POSTGRES_DSN is required when STORE_DRIVER=postgres'' []"

definition validateRetention :: "AppConfig \<Rightarrow> cfgerr list" where
  "validateRetention c = (let r = Retention c in
     appendIf (0 < rtProcessedEvents r \<and> rtProcessedEvents r \<le> StreamMaxAge (NATS c))
       (''RETENTION_PROCESSED_EVENTS (%s) must be GREATER than NATS_STREAM_MAX_AGE (%s): ''
        @ ''a deduplication row deleted while the broker can still redeliver its message ''
        @ ''lets the consumer apply that event twice, silently and permanently'')
       [ADur (rtProcessedEvents r), ADur (StreamMaxAge (NATS c))]
     @ appendIf (rtOutbox r \<le> 0) ''RETENTION_OUTBOX (%s) must be positive'' [ADur (rtOutbox r)]
     @ appendIf (rtProcessedEvents r \<le> 0) ''RETENTION_PROCESSED_EVENTS (%s) must be positive'' [ADur (rtProcessedEvents r)]
     @ appendIf (rtBatchSize r \<le> 0) (''RETENTION_BATCH_SIZE (%d) must be positive; an unbounded ''
         @ ''DELETE holds a lock for its whole duration'') [AInt (rtBatchSize r)])"

definition validateOIDC :: "AppConfig \<Rightarrow> cfgerr list" where
  "validateOIDC c = (if AuthMode c \<noteq> AuthOIDC then [] else
     appendIf (cIssuerURL (OIDC c) = []) ''OIDC_ISSUER_URL is required when AUTH_MODE=oidc'' []
     @ appendIf (cAudience (OIDC c) = [])
         (''OIDC_AUDIENCE is required when AUTH_MODE=oidc: without it this service accepts ''
          @ ''any token the issuer signed, including tokens issued to other applications'') []
     @ appendIf (trim_space (cTenantClaim (OIDC c)) = [])
         (''OIDC_TENANT_CLAIM must not be empty: the tenant comes from the verified token, ''
          @ ''never from the request body'') [])"

definition validateRedis :: "AppConfig \<Rightarrow> cfgerr list" where
  "validateRedis c = (if rdAddr (Redis c) = [] then [] else
     appendIf (RateLimitPerMinute (Redis c) \<le> 0)
       ''RATE_LIMIT_PER_MINUTE must be positive when REDIS_ADDR is set, got %d'' [AInt (RateLimitPerMinute (Redis c))]
     @ appendIf (RateLimitBurst (Redis c) \<le> 0)
         ''RATE_LIMIT_BURST must be positive when REDIS_ADDR is set, got %d'' [AInt (RateLimitBurst (Redis c))])"

definition validateOutbox :: "AppConfig \<Rightarrow> cfgerr list" where
  "validateOutbox c =
     appendIf (obBatchSize (OutboxCfg c) \<le> 0) ''OUTBOX_BATCH_SIZE must be positive, got %d'' [AInt (obBatchSize (OutboxCfg c))]
     @ appendIf (MaxConns (OutboxCfg c) \<le> 0) ''OUTBOX_MAX_CONNS must be positive, got %d'' [AInt (MaxConns (OutboxCfg c))]"

definition validateUpstream :: "AppConfig \<Rightarrow> cfgerr list" where
  "validateUpstream c = (let u = Upstream c in
     appendIf (fle (ReserveFraction u) (fofint 0) \<or> fle (fofint 1) (ReserveFraction u))
       (''UPSTREAM_RESERVE_FRACTION %v must be between 0 and 1 exclusive: at 0 an upstream ''
        @ ''call consumes the caller'' @ [CHR 0x27]
        @ ''s whole deadline and your handler is cancelled with it'') [AFloat (ReserveFraction u)]
     @ appendIf (upDefaultTimeout u \<le> 0) ''UPSTREAM_DEFAULT_TIMEOUT must be positive, got %s'' [ADur (upDefaultTimeout u)]
     @ appendIf (MinBudget u \<le> 0) ''UPSTREAM_MIN_BUDGET must be positive, got %s'' [ADur (MinBudget u)]
     @ appendIf (upDefaultTimeout u \<le> MinBudget u)
         (''UPSTREAM_MIN_BUDGET (%s) must be less than UPSTREAM_DEFAULT_TIMEOUT (%s), or every ''
          @ ''call with no deadline is refused before it is made'') [ADur (MinBudget u), ADur (upDefaultTimeout u)])"

definition validateRest :: "AppConfig \<Rightarrow> cfgerr list" where
  "validateRest c =
     appendIf (MaxOpenConns (Postgres c) \<le> 0) ''POSTGRES_MAX_OPEN_CONNS must be positive and explicit'' []
     @ appendIf (MaxTimeout (Server c) < srvDefaultTimeout (Server c))
         ''MAX_TIMEOUT (%s) must be >= DEFAULT_TIMEOUT (%s)'' [ADur (MaxTimeout (Server c)), ADur (srvDefaultTimeout (Server c))]
     @ appendIf (flt (TraceSampleRatio (Telemetry c)) (fofint 0) \<or> flt (fofint 1) (TraceSampleRatio (Telemetry c)))
         ''OTEL_TRACE_SAMPLE_RATIO %v must be between 0 and 1'' [AFloat (TraceSampleRatio (Telemetry c))]
     @ appendIf (\<not> oneOf (LogFormat c) [''json'', ''text'']) ''LOG_FORMAT %q must be json or text'' [AStr (LogFormat c)]
     @ (case parseLevel (LogLevel c) of Inl err \<Rightarrow> [err] | Inr _ \<Rightarrow> [])"

definition validateConfig :: "AppConfig \<Rightarrow> cfgerr list" where
  "validateConfig c = validateModes c @ validateRetention c @ validateOIDC c @ validateRedis c @ validateOutbox c
     @ validateNATS c @ validateUpstream c @ validateRest c"

section \<open>Parsing\<close>

text \<open>The composite literal of \<open>ParseFor\<close>, one definition for each nested struct.\<close>

definition parsePostgres :: "PostgresConfig parse" where
  "parsePostgres = do {
     dsn \<leftarrow> str ''POSTGRES_DSN'' [];
     maxOpen \<leftarrow> intVal ''POSTGRES_MAX_OPEN_CONNS'' 10;
     maxIdle \<leftarrow> intVal ''POSTGRES_MAX_IDLE_CONNS'' 5;
     lifetime \<leftarrow> dur ''POSTGRES_CONN_MAX_LIFETIME'' (30 * minutes);
     idleTime \<leftarrow> dur ''POSTGRES_CONN_MAX_IDLE_TIME'' (5 * minutes);
     State_Monad.return \<lparr>DSN = Secret dsn, MaxOpenConns = maxOpen, MaxIdleConns = maxIdle, ConnMaxLifetime = lifetime,
       ConnMaxIdleTime = idleTime\<rparr> }"

definition parseOIDC :: "OIDCConfig parse" where
  "parseOIDC = do {
     issuer \<leftarrow> str ''OIDC_ISSUER_URL'' [];
     audience \<leftarrow> str ''OIDC_AUDIENCE'' [];
     jwks \<leftarrow> str ''OIDC_JWKS_URL'' [];
     leeway \<leftarrow> dur ''OIDC_LEEWAY'' (30 * seconds);
     tenant \<leftarrow> str ''OIDC_TENANT_CLAIM'' ''tenant_id'';
     scope \<leftarrow> str ''OIDC_SCOPE_CLAIM'' ''scope'';
     service \<leftarrow> str ''OIDC_SERVICE_CLAIM'' ''token_use'';
     maxAge \<leftarrow> dur ''OIDC_MAX_KEY_AGE'' (15 * minutes);
     insecure \<leftarrow> boolVal ''OIDC_ALLOW_INSECURE_ISSUER'' False;
     State_Monad.return \<lparr>cIssuerURL = issuer, cAudience = audience, cJWKSURL = jwks, cLeeway = leeway, cTenantClaim = tenant,
       cScopeClaim = scope, cServiceClaim = service, cMaxKeyAge = maxAge, cAllowInsecureIssuer = insecure\<rparr> }"

definition parseRedis :: "RedisConfig parse" where
  "parseRedis = do {
     addr \<leftarrow> str ''REDIS_ADDR'' [];
     password \<leftarrow> str ''REDIS_PASSWORD'' [];
     db \<leftarrow> intVal ''REDIS_DB'' 0;
     perMinute \<leftarrow> intVal ''RATE_LIMIT_PER_MINUTE'' 600;
     burst \<leftarrow> intVal ''RATE_LIMIT_BURST'' 100;
     State_Monad.return \<lparr>rdAddr = addr, rdPassword = Secret password, rdDB = db, RateLimitPerMinute = perMinute,
       RateLimitBurst = burst\<rparr> }"

definition parseOutbox :: "OutboxConfig parse" where
  "parseOutbox = do {
     batch \<leftarrow> intVal ''OUTBOX_BATCH_SIZE'' 100;
     poll \<leftarrow> dur ''OUTBOX_POLL_INTERVAL'' seconds;
     conns \<leftarrow> intVal ''OUTBOX_MAX_CONNS'' 2;
     observe \<leftarrow> dur ''OUTBOX_OBSERVE_INTERVAL'' (15 * seconds);
     State_Monad.return \<lparr>obBatchSize = batch, PollInterval = poll, MaxConns = conns, ObserveInterval = observe\<rparr> }"

definition parseRetention :: "RetentionConfig parse" where
  "parseRetention = do {
     outbox \<leftarrow> dur ''RETENTION_OUTBOX'' (168 * hours);
     processed \<leftarrow> dur ''RETENTION_PROCESSED_EVENTS'' (192 * hours);
     batch \<leftarrow> intVal ''RETENTION_BATCH_SIZE'' 1000;
     State_Monad.return \<lparr>rtOutbox = outbox, rtProcessedEvents = processed, rtBatchSize = batch\<rparr> }"

definition parseNATS :: "NATSConfig parse" where
  "parseNATS = do {
     url \<leftarrow> str ''NATS_URL'' [];
     stream \<leftarrow> str ''NATS_STREAM'' ''EVENTS'';
     subject \<leftarrow> str ''NATS_SUBJECT_PREFIX'' ''events'';
     dlq \<leftarrow> str ''NATS_DLQ_SUBJECT_PREFIX'' ''dlq'';
     window \<leftarrow> dur ''NATS_DUPLICATE_WINDOW'' (2 * minutes);
     maxAge \<leftarrow> dur ''NATS_STREAM_MAX_AGE'' (168 * hours);
     consumer \<leftarrow> str ''NATS_CONSUMER'' ''order-projection'';
     maxDeliver \<leftarrow> intVal ''NATS_MAX_DELIVER'' 5;
     ackWait \<leftarrow> dur ''NATS_ACK_WAIT'' (30 * seconds);
     State_Monad.return \<lparr>natsURL = url, natsStream = stream, natsSubjectPrefix = subject, natsDLQSubjectPrefix = dlq,
       DuplicateWindow = window, StreamMaxAge = maxAge, natsConsumer = consumer, natsMaxDeliver = maxDeliver,
       AckWait = ackWait\<rparr> }"

definition parseUpstream :: "UpstreamConfig parse" where
  "parseUpstream = do {
     timeout \<leftarrow> dur ''UPSTREAM_DEFAULT_TIMEOUT'' (10 * seconds);
     reserve \<leftarrow> floatVal ''UPSTREAM_RESERVE_FRACTION'' (rnd 1 10);
     budget \<leftarrow> dur ''UPSTREAM_MIN_BUDGET'' (50 * millis);
     State_Monad.return \<lparr>upDefaultTimeout = timeout, ReserveFraction = reserve, MinBudget = budget\<rparr> }"

definition parseTelemetry :: "TelemetryConfig parse" where
  "parseTelemetry = do {
     endpoint \<leftarrow> str ''OTEL_EXPORTER_OTLP_ENDPOINT'' [];
     ratio \<leftarrow> floatVal ''OTEL_TRACE_SAMPLE_RATIO'' (fofint 1);
     State_Monad.return \<lparr>OTLPEndpoint = endpoint, TraceSampleRatio = ratio\<rparr> }"

text \<open>The conversion of the stream limit to \<open>uint32\<close> keeps the low 32 bits.\<close>

definition parseServer :: "ServerConfig parse" where
  "parseServer = do {
     streams \<leftarrow> intVal ''GRPC_MAX_CONCURRENT_STREAMS'' 250;
     recv \<leftarrow> intVal ''GRPC_MAX_RECV_MSG_BYTES'' (4 * 2 ^ 20);
     age \<leftarrow> dur ''GRPC_MAX_CONNECTION_AGE'' (30 * minutes);
     grace \<leftarrow> dur ''GRPC_MAX_CONNECTION_AGE_GRACE'' (30 * seconds);
     keepalive \<leftarrow> dur ''GRPC_KEEPALIVE_MIN_TIME'' (30 * seconds);
     admission \<leftarrow> intVal ''ADMISSION_LIMIT'' 0;
     timeout \<leftarrow> dur ''DEFAULT_TIMEOUT'' (15 * seconds);
     maxTimeout \<leftarrow> dur ''MAX_TIMEOUT'' (60 * seconds);
     State_Monad.return \<lparr>MaxConcurrentStreams = streams mod 2 ^ 32, MaxRecvMsgBytes = recv, MaxConnectionAge = age,
       MaxConnectionAgeGrace = grace, KeepaliveMinTime = keepalive, AdmissionLimit = admission,
       srvDefaultTimeout = timeout, MaxTimeout = maxTimeout\<rparr> }"

definition parseShutdown :: "ShutdownConfig parse" where
  "parseShutdown = do {
     drain \<leftarrow> dur ''SHUTDOWN_DRAIN_DELAY'' (5 * seconds);
     grace \<leftarrow> dur ''SHUTDOWN_GRACE_PERIOD'' (25 * seconds);
     State_Monad.return \<lparr>DrainDelay = drain, GracePeriod = grace\<rparr> }"

definition parseConfig :: "Role \<Rightarrow> AppConfig parse" where
  "parseConfig role = do {
     appEnv \<leftarrow> str ''APP_ENV'' EnvDevelopment;
     name \<leftarrow> str ''SERVICE_NAME'' ''orderd'';
     version \<leftarrow> str ''VERSION'' ''dev'';
     grpcAddr \<leftarrow> str ''GRPC_ADDR'' '':50051'';
     adminAddr \<leftarrow> str ''ADMIN_ADDR'' ''127.0.0.1:9090'';
     gatewayAddr \<leftarrow> strOptional ''GATEWAY_ADDR'' '':8080'';
     level \<leftarrow> str ''LOG_LEVEL'' ''info'';
     format \<leftarrow> str ''LOG_FORMAT'' ''json'';
     driver \<leftarrow> str ''STORE_DRIVER'' StoreMemory;
     auth \<leftarrow> str ''AUTH_MODE'' AuthDev;
     postgres \<leftarrow> parsePostgres;
     oidc \<leftarrow> parseOIDC;
     redis \<leftarrow> parseRedis;
     outbox \<leftarrow> parseOutbox;
     retention \<leftarrow> parseRetention;
     nats \<leftarrow> parseNATS;
     upstream \<leftarrow> parseUpstream;
     telemetry \<leftarrow> parseTelemetry;
     server \<leftarrow> parseServer;
     shutdown \<leftarrow> parseShutdown;
     State_Monad.return \<lparr>cRole = role, AppEnv = appEnv, ServiceName = name, Version = version, GRPCAddr = grpcAddr,
       AdminAddr = adminAddr, GatewayAddr = gatewayAddr, LogLevel = level, LogFormat = format, StoreDriver = driver,
       AuthMode = auth, Postgres = postgres, OIDC = oidc, Redis = redis, OutboxCfg = outbox, Retention = retention,
       NATS = nats, Upstream = upstream, Telemetry = telemetry, Server = server, ShutdownCfg = shutdown\<rparr> }"

text \<open>An admission limit of 0 is derived from the pool.\<close>

definition deriveAdmission :: "AppConfig \<Rightarrow> AppConfig" where
  "deriveAdmission c = (if AdmissionLimit (Server c) = 0
     then c\<lparr>Server := (Server c)\<lparr>AdmissionLimit := wrap64 (MaxOpenConns (Postgres c) * 4)\<rparr>\<rparr> else c)"

definition ParseFor :: "(string \<times> string) list \<Rightarrow> Role \<Rightarrow> cfgerr list + AppConfig" where
  "ParseFor vars role = (case run_state (parseConfig role) \<lparr>env = vars, errs = []\<rparr> of
     (c, p) \<Rightarrow>
       if errs p \<noteq> [] then Inl (errs p)
       else let c' = deriveAdmission c in if validateConfig c' \<noteq> [] then Inl (validateConfig c') else Inr c')"

definition Parse :: "(string \<times> string) list \<Rightarrow> cfgerr list + AppConfig" where
  "Parse vars = ParseFor vars RoleServer"

definition Load :: "string list \<Rightarrow> cfgerr list + AppConfig" where
  "Load osEnviron = Parse (environ osEnviron)"

definition LoadWorker :: "string list \<Rightarrow> cfgerr list + AppConfig" where
  "LoadWorker osEnviron = ParseFor (environ osEnviron) RoleWorker"

section \<open>What a parser can return\<close>

text \<open>\<open>yields P m\<close>: whatever the environment, the value \<open>m\<close> returns satisfies \<open>P\<close>.\<close>

definition yields :: "('a \<Rightarrow> bool) \<Rightarrow> 'a parse \<Rightarrow> bool" where
  "yields P m \<longleftrightarrow> (\<forall>p. P (fst (run_state m p)))"

lemma yields_return: "P a \<Longrightarrow> yields P (State_Monad.return a)"
  by (simp add: yields_def State_Monad.return_def)

lemma yields_bind: "yields P m \<Longrightarrow> (\<And>a. P a \<Longrightarrow> yields Q (f a)) \<Longrightarrow> yields Q (m \<bind> f)"
  by (auto simp: yields_def State_Monad.bind_def split: prod.splits) (metis fst_conv)

lemma yields_str: "yields (\<lambda>_. True) (str key d)" "yields (\<lambda>_. True) (strOptional key d)"
    "yields (\<lambda>_. True) (floatVal key x)" "yields (\<lambda>_. True) (boolVal key b)"
  by (simp_all add: yields_def)

lemma yields_parsed: "P d \<Longrightarrow> (\<And>s v. f s = Some v \<Longrightarrow> P v) \<Longrightarrow> yields P (parsed f message key d)"
  by (auto simp: yields_def parsed_def split: option.splits)

lemma yields_intVal: "in64 d \<Longrightarrow> yields in64 (intVal key d)"
  unfolding intVal_def by (rule yields_parsed) (auto intro: Atoi_in64)

lemma yields_dur: "in64 d \<Longrightarrow> yields in64 (dur key d)"
  unfolding dur_def by (rule yields_parsed) (auto intro: ParseDuration_in64)

lemmas yields_intros = yields_bind [OF yields_intVal] yields_bind [OF yields_dur] yields_bind [OF yields_str(1)]
  yields_bind [OF yields_str(2)] yields_bind [OF yields_str(3)] yields_bind [OF yields_str(4)] yields_return

text \<open>Every number of a configuration is in the range of its Go type.\<close>

definition typed_sections :: "AppConfig \<Rightarrow> bool" where
  "typed_sections c \<longleftrightarrow>
     list_all in64 [MaxOpenConns (Postgres c), MaxIdleConns (Postgres c), ConnMaxLifetime (Postgres c),
       ConnMaxIdleTime (Postgres c)]
   \<and> list_all in64 [cLeeway (OIDC c), cMaxKeyAge (OIDC c)]
   \<and> list_all in64 [rdDB (Redis c), RateLimitPerMinute (Redis c), RateLimitBurst (Redis c)]
   \<and> list_all in64 [obBatchSize (OutboxCfg c), PollInterval (OutboxCfg c), MaxConns (OutboxCfg c), ObserveInterval (OutboxCfg c)]
   \<and> list_all in64 [rtOutbox (Retention c), rtProcessedEvents (Retention c), rtBatchSize (Retention c)]
   \<and> list_all in64 [DuplicateWindow (NATS c), StreamMaxAge (NATS c), natsMaxDeliver (NATS c), AckWait (NATS c)]
   \<and> list_all in64 [upDefaultTimeout (Upstream c), MinBudget (Upstream c)]
   \<and> list_all in64 [MaxRecvMsgBytes (Server c), MaxConnectionAge (Server c), MaxConnectionAgeGrace (Server c),
       KeepaliveMinTime (Server c), AdmissionLimit (Server c), srvDefaultTimeout (Server c), MaxTimeout (Server c)]
   \<and> list_all in64 [DrainDelay (ShutdownCfg c), GracePeriod (ShutdownCfg c)]
   \<and> 0 \<le> MaxConcurrentStreams (Server c) \<and> MaxConcurrentStreams (Server c) < 2 ^ 32"

lemma yields_postgres: "yields (\<lambda>x. list_all in64 [MaxOpenConns x, MaxIdleConns x, ConnMaxLifetime x, ConnMaxIdleTime x]) parsePostgres"
  unfolding parsePostgres_def by (rule yields_intros | simp add: in64_bounds | assumption)+

lemma yields_oidc: "yields (\<lambda>x. list_all in64 [cLeeway x, cMaxKeyAge x]) parseOIDC"
  unfolding parseOIDC_def by (rule yields_intros | simp add: in64_bounds | assumption)+

lemma yields_redis: "yields (\<lambda>x. list_all in64 [rdDB x, RateLimitPerMinute x, RateLimitBurst x]) parseRedis"
  unfolding parseRedis_def by (rule yields_intros | simp add: in64_bounds | assumption)+

lemma yields_outbox: "yields (\<lambda>x. list_all in64 [obBatchSize x, PollInterval x, MaxConns x, ObserveInterval x]) parseOutbox"
  unfolding parseOutbox_def by (rule yields_intros | simp add: in64_bounds | assumption)+

lemma yields_retention: "yields (\<lambda>x. list_all in64 [rtOutbox x, rtProcessedEvents x, rtBatchSize x]) parseRetention"
  unfolding parseRetention_def by (rule yields_intros | simp add: in64_bounds | assumption)+

lemma yields_nats: "yields (\<lambda>x. list_all in64 [DuplicateWindow x, StreamMaxAge x, natsMaxDeliver x, AckWait x]) parseNATS"
  unfolding parseNATS_def by (rule yields_intros | simp add: in64_bounds | assumption)+

lemma yields_upstream: "yields (\<lambda>x. list_all in64 [upDefaultTimeout x, MinBudget x]) parseUpstream"
  unfolding parseUpstream_def by (rule yields_intros | simp add: in64_bounds | assumption)+

lemma yields_telemetry: "yields (\<lambda>_. True) parseTelemetry"
  by (simp add: yields_def)

lemma yields_server: "yields (\<lambda>x. list_all in64 [MaxRecvMsgBytes x, MaxConnectionAge x, MaxConnectionAgeGrace x, KeepaliveMinTime x,
    AdmissionLimit x, srvDefaultTimeout x, MaxTimeout x] \<and> 0 \<le> MaxConcurrentStreams x \<and> MaxConcurrentStreams x < 2 ^ 32) parseServer"
  unfolding parseServer_def by (rule yields_intros | simp add: in64_bounds | assumption)+

lemma yields_shutdown: "yields (\<lambda>x. list_all in64 [DrainDelay x, GracePeriod x]) parseShutdown"
  unfolding parseShutdown_def by (rule yields_intros | simp add: in64_bounds | assumption)+

lemmas yields_sections = yields_bind [OF yields_postgres] yields_bind [OF yields_oidc] yields_bind [OF yields_redis]
  yields_bind [OF yields_outbox] yields_bind [OF yields_retention] yields_bind [OF yields_nats] yields_bind [OF yields_upstream]
  yields_bind [OF yields_telemetry] yields_bind [OF yields_server] yields_bind [OF yields_shutdown]

lemma yields_config: "yields (\<lambda>c. typed_sections c \<and> cRole c = role) (parseConfig role)"
  unfolding parseConfig_def
  by (rule yields_sections yields_bind [OF yields_str(1)] yields_bind [OF yields_str(2)] yields_return
      | simp add: typed_sections_def)+

text \<open>What \<open>ParseFor\<close> returns is typed and validated.\<close>

lemma ParseFor_Inr:
  assumes "ParseFor vars role = Inr c"
  shows "typed_sections c" "cRole c = role" "validateConfig c = []"
proof -
  obtain c0 p where r: "run_state (parseConfig role) \<lparr>env = vars, errs = []\<rparr> = (c0, p)" by (cases "run_state (parseConfig role) \<lparr>env = vars, errs = []\<rparr>")
  then have t: "typed_sections c0 \<and> cRole c0 = role" using yields_config [of role] unfolding yields_def by (metis fst_conv)
  have c: "c = deriveAdmission c0" "validateConfig c = []"
    using assms by (auto simp: ParseFor_def r Let_def split: if_splits)
  show "validateConfig c = []" by (rule c(2))
  show "typed_sections c" "cRole c = role" using t by (auto simp: c(1) deriveAdmission_def typed_sections_def)
qed

lemma appendIf_Nil [simp]: "appendIf b message args = [] \<longleftrightarrow> \<not> b"
  by (simp add: appendIf_def)

lemma validateConfig_Nil:
  assumes "validateConfig c = []"
  shows "validateModes c = []" "validateRetention c = []" "validateOIDC c = []" "validateRedis c = []"
    "validateOutbox c = []" "validateNATS c = []" "validateUpstream c = []" "validateRest c = []"
  using assms by (simp_all add: validateConfig_def)

section \<open>Properties\<close>

text \<open>
  C18: What the rest of the service is given. Whatever the environment holds, a configuration that is
  returned has every number within its Go type and every mode one of its named values; the pool
  and the batch sizes are positive, deduplication rows outlive the messages of the stream, the
  default timeout does not exceed the maximal one, and a process that needs the database has an
  address for it.
\<close>

theorem parsed_config_well_typed:
  assumes "ParseFor vars role = Inr c"
  shows "typed_sections c \<and> cRole c = role
    \<and> AppEnv c \<in> {EnvDevelopment, EnvStaging, EnvProduction} \<and> StoreDriver c \<in> {StoreMemory, StorePostgres}
    \<and> AuthMode c \<in> {AuthDev, AuthOIDC} \<and> LogFormat c \<in> {''json'', ''text''} \<and> (\<exists>l. parseLevel (LogLevel c) = Inr l)
    \<and> 0 < MaxOpenConns (Postgres c) \<and> 0 < obBatchSize (OutboxCfg c) \<and> 0 < rtBatchSize (Retention c)
    \<and> 0 < rtOutbox (Retention c) \<and> 0 < rtProcessedEvents (Retention c)
    \<and> StreamMaxAge (NATS c) < rtProcessedEvents (Retention c)
    \<and> srvDefaultTimeout (Server c) \<le> MaxTimeout (Server c)
    \<and> 0 < MinBudget (Upstream c) \<and> MinBudget (Upstream c) < upDefaultTimeout (Upstream c)
    \<and> (role = RoleWorker \<or> StoreDriver c = StorePostgres \<longrightarrow> Reveal (DSN (Postgres c)) \<noteq> [])"
proof -
  note p = ParseFor_Inr [OF assms] and v = validateConfig_Nil [OF ParseFor_Inr(3) [OF assms]]
  have m: "AppEnv c \<in> {EnvDevelopment, EnvStaging, EnvProduction}" "StoreDriver c \<in> {StoreMemory, StorePostgres}"
      "AuthMode c \<in> {AuthDev, AuthOIDC}"
      "role = RoleWorker \<or> StoreDriver c = StorePostgres \<longrightarrow> Reveal (DSN (Postgres c)) \<noteq> []"
    using v(1) p(2) by (auto simp: validateModes_def oneOf_def)
  have r: "0 < rtOutbox (Retention c)" "0 < rtProcessedEvents (Retention c)" "0 < rtBatchSize (Retention c)"
      "StreamMaxAge (NATS c) < rtProcessedEvents (Retention c)"
    using v(2) by (auto simp: validateRetention_def Let_def)
  have u: "0 < MinBudget (Upstream c)" "MinBudget (Upstream c) < upDefaultTimeout (Upstream c)"
    using v(7) by (auto simp: validateUpstream_def Let_def)
  have x: "0 < MaxOpenConns (Postgres c)" "srvDefaultTimeout (Server c) \<le> MaxTimeout (Server c)" "LogFormat c \<in> {''json'', ''text''}"
      "\<exists>l. parseLevel (LogLevel c) = Inr l"
    using v(8) by (auto simp: validateRest_def oneOf_def split: sum.splits)
  have "0 < obBatchSize (OutboxCfg c)" using v(5) by (auto simp: validateOutbox_def)
  with m r u x p(1,2) show ?thesis by blast
qed

text \<open>The shipped defaults are accepted for the server.\<close>

theorem parsed_config_well_typed_witness:
  "\<exists>c. ParseFor [] RoleServer = Inr c \<and> typed_sections c \<and> StreamMaxAge (NATS c) < rtProcessedEvents (Retention c)"
proof -
  have "\<not> isl (ParseFor [] RoleServer)" by code_simp
  then obtain c where "ParseFor [] RoleServer = Inr c" by (cases "ParseFor [] RoleServer") auto
  with parsed_config_well_typed [OF this] show ?thesis by blast
qed

end
