(* ===== verification/Errors.thy ===== *)
theory Errors
  imports Prelude
begin

text \<open>
  Go errors as values, and the error model of the service
  (\<open>internal/platform/apperr\<close>). An \<open>error\<close> is a tree: a package-level sentinel, a
  plain error known by its text, a \<open>fmt.Errorf\<close> value holding its formatted text and the
  operands of its \<open>%w\<close> verbs, or one of the program's own error types. \<open>errors.Is\<close> and
  \<open>errors.As\<close> walk that tree depth first. \<open>nil\<close> is \<^const>\<open>None\<close> of
  \<^typ>\<open>'a option\<close>.
\<close>

section \<open>gRPC codes, kinds, sentinels\<close>

text \<open>\<open>google.golang.org/grpc/codes.Code\<close> is an open \<open>uint32\<close>; the last constructor
  stands for the values with no name.\<close>

datatype codes = OK | Canceled | Unknown | InvalidArgument | DeadlineExceeded | NotFound
  | AlreadyExists | PermissionDenied | ResourceExhausted | FailedPrecondition | Aborted
  | OutOfRange | Unimplemented | Internal | Unavailable | DataLoss | Unauthenticated
  | OtherCode nat

text \<open>\<open>apperr.Kind\<close>, an open \<open>uint8\<close>: a value the table does not list is
  \<open>KindOther\<close>.\<close>

datatype Kind = KindUnknown | KindInvalidArgument | KindFailedPrecondition | KindNotFound
  | KindAlreadyExists | KindPermissionDenied | KindUnauthenticated | KindResourceExhausted
  | KindUnavailable | KindInternal | KindCanceled | KindDeadlineExceeded
  | KindOther nat

text \<open>The package-level \<open>errors.New\<close> values that some code compares with
  \<open>errors.Is\<close>.\<close>

datatype sentinel = ErrNotFound | ErrDuplicate | ErrInvalidTransition | ErrNoItems
  | ErrInvalidItem | ErrMissingTenant | ErrInvalidPageToken
  | ErrCurrencyMismatch | ErrMoneyOverflow | ErrInvalidCurrencyCode | ErrInvalidMoney
  | ContextCanceled | ContextDeadlineExceeded
  | ErrNoCredentials | ErrInvalidToken
  | NatsErrMaxPayload | NatsErrBadSubject
  | ErrBudgetExhausted | SqlErrNoRows
  | GormErrRecordNotFound | GormErrDuplicatedKey | ErrNoTenantInContext

fun sentinel_text :: "sentinel \<Rightarrow> string" where
  "sentinel_text ErrNotFound = ''order not found''"
| "sentinel_text ErrDuplicate = ''order already exists''"
| "sentinel_text ErrInvalidTransition = ''invalid status transition''"
| "sentinel_text ErrNoItems = ''order must have at least one item''"
| "sentinel_text ErrInvalidItem = ''invalid order item''"
| "sentinel_text ErrMissingTenant = ''tenant id is required''"
| "sentinel_text ErrInvalidPageToken = ''invalid page token''"
| "sentinel_text ErrCurrencyMismatch = ''currency mismatch''"
| "sentinel_text ErrMoneyOverflow = ''money overflow''"
| "sentinel_text ErrInvalidCurrencyCode = ''invalid currency code''"
| "sentinel_text ErrInvalidMoney = ''invalid money''"
| "sentinel_text ContextCanceled = ''context canceled''"
| "sentinel_text ContextDeadlineExceeded = ''context deadline exceeded''"
| "sentinel_text ErrNoCredentials = ''no credentials presented''"
| "sentinel_text ErrInvalidToken = ''token verification failed''"
| "sentinel_text NatsErrMaxPayload = ''nats: maximum payload exceeded''"
| "sentinel_text NatsErrBadSubject = ''nats: invalid subject''"
| "sentinel_text ErrBudgetExhausted = ''client: deadline budget exhausted before the call was made''"
| "sentinel_text SqlErrNoRows = ''sql: no rows in result set''"
| "sentinel_text GormErrRecordNotFound = ''record not found''"
| "sentinel_text GormErrDuplicatedKey = ''duplicated key not allowed''"
| "sentinel_text ErrNoTenantInContext = ''tenant-scoped query with no tenant in context''"

text \<open>The \<open>google.rpc\<close> detail messages a status carries.\<close>

record field_violation =
  Field :: string
  Description :: string
  ViolationReason :: string

datatype detail =
    ErrorInfo string string "(string \<times> string) list"
  | RetryInfo int
  | BadRequest "field_violation list"
  | OtherDetail string

section \<open>The error tree\<close>

text \<open>
  \<open>Errorf msg es\<close> is a \<open>fmt.Errorf\<close> value: its text and what it wraps.
  \<open>PermanentErr\<close> is \<open>outbox.permanent\<close>, \<open>AppErr\<close> is \<open>*apperr.Error\<close> (kind,
  reason, message, metadata, details, wrapped), \<open>StatusErr\<close> is the error of a gRPC
  status, \<open>UpstreamErr\<close> is \<open>*client.Error\<close> (target, method, code, reason, domain,
  message, retry-after, cause), \<open>PgError\<close> is \<open>*pgconn.PgError\<close> (code, constraint name,
  message).
\<close>

datatype goerr =
    Sentinel sentinel
  | Plain string
  | Errorf string "goerr list"
  | PermanentErr goerr
  | AppErr Kind string string "(string \<times> string) list" "detail list" "goerr option"
  | StatusErr codes string "detail list"
  | UpstreamErr string string codes string string string int goerr
  | PgError string string string

type_synonym 'a res = "goerr + 'a"

fun code_name :: "codes \<Rightarrow> string" where
  "code_name OK = ''OK''"
| "code_name Canceled = ''Canceled''"
| "code_name Unknown = ''Unknown''"
| "code_name InvalidArgument = ''InvalidArgument''"
| "code_name DeadlineExceeded = ''DeadlineExceeded''"
| "code_name NotFound = ''NotFound''"
| "code_name AlreadyExists = ''AlreadyExists''"
| "code_name PermissionDenied = ''PermissionDenied''"
| "code_name ResourceExhausted = ''ResourceExhausted''"
| "code_name FailedPrecondition = ''FailedPrecondition''"
| "code_name Aborted = ''Aborted''"
| "code_name OutOfRange = ''OutOfRange''"
| "code_name Unimplemented = ''Unimplemented''"
| "code_name Internal = ''Internal''"
| "code_name Unavailable = ''Unavailable''"
| "code_name DataLoss = ''DataLoss''"
| "code_name Unauthenticated = ''Unauthenticated''"
| "code_name (OtherCode n) = ''Code('' @ show_nat n @ '')''"

text \<open>\<open>err.Error()\<close>.\<close>

fun errorText :: "goerr \<Rightarrow> string" where
  "errorText (Sentinel s) = sentinel_text s"
| "errorText (Plain t) = t"
| "errorText (Errorf t es) = t"
| "errorText (PermanentErr e) = errorText e"
| "errorText (AppErr k r m md ds w) =
     (case w of None \<Rightarrow> r @ '': '' @ m | Some e \<Rightarrow> r @ '': '' @ m @ '': '' @ errorText e)"
| "errorText (StatusErr c m ds) = ''rpc error: code = '' @ code_name c @ '' desc = '' @ m"
| "errorText (UpstreamErr tgt mth c r d m ra e) =
     (if r \<noteq> [] then ''upstream '' @ tgt @ '': '' @ mth @ '' failed: '' @ code_name c @ '' ('' @ r @ '')''
      else ''upstream '' @ tgt @ '': '' @ mth @ '' failed: '' @ code_name c)"
| "errorText (PgError code constraint m) = ''ERROR: '' @ m @ '' (SQLSTATE '' @ code @ '')''"

text \<open>\<open>errors.Is(err, target)\<close> for a sentinel target.\<close>

fun errorsIs :: "goerr \<Rightarrow> sentinel \<Rightarrow> bool" where
  "errorsIs (Sentinel s) t = (s = t)"
| "errorsIs (Plain _) t = False"
| "errorsIs (Errorf _ es) t = list_ex (\<lambda>e. errorsIs e t) es"
| "errorsIs (PermanentErr e) t = errorsIs e t"
| "errorsIs (AppErr _ _ _ _ _ w) t = (case w of None \<Rightarrow> False | Some e \<Rightarrow> errorsIs e t)"
| "errorsIs (StatusErr _ _ _) t = False"
| "errorsIs (UpstreamErr _ _ _ _ _ _ _ e) t = errorsIs e t"
| "errorsIs (PgError _ _ _) t = False"

text \<open>\<open>errors.As\<close> into each of the program's error types: the first node of the tree, depth
  first, that has the type.\<close>

fun asApp :: "goerr \<Rightarrow> goerr option" and asApps :: "goerr list \<Rightarrow> goerr option" where
  "asApp (Sentinel s) = None"
| "asApp (Plain t) = None"
| "asApp (Errorf t es) = asApps es"
| "asApp (PermanentErr e) = asApp e"
| "asApp (AppErr k r m md ds w) = Some (AppErr k r m md ds w)"
| "asApp (StatusErr c m ds) = None"
| "asApp (UpstreamErr tgt mth c r d m ra e) = asApp e"
| "asApp (PgError code constraint m) = None"
| "asApps [] = None"
| "asApps (e # es) = (case asApp e of Some a \<Rightarrow> Some a | None \<Rightarrow> asApps es)"

fun asUpstream :: "goerr \<Rightarrow> goerr option" and asUpstreams :: "goerr list \<Rightarrow> goerr option" where
  "asUpstream (Sentinel s) = None"
| "asUpstream (Plain t) = None"
| "asUpstream (Errorf t es) = asUpstreams es"
| "asUpstream (PermanentErr e) = asUpstream e"
| "asUpstream (AppErr k r m md ds w) = (case w of None \<Rightarrow> None | Some e \<Rightarrow> asUpstream e)"
| "asUpstream (StatusErr c m ds) = None"
| "asUpstream (UpstreamErr tgt mth c r d m ra e) = Some (UpstreamErr tgt mth c r d m ra e)"
| "asUpstream (PgError code constraint m) = None"
| "asUpstreams [] = None"
| "asUpstreams (e # es) = (case asUpstream e of Some a \<Rightarrow> Some a | None \<Rightarrow> asUpstreams es)"

fun asPg :: "goerr \<Rightarrow> (string \<times> string) option" and asPgs :: "goerr list \<Rightarrow> (string \<times> string) option" where
  "asPg (Sentinel s) = None"
| "asPg (Plain t) = None"
| "asPg (Errorf t es) = asPgs es"
| "asPg (PermanentErr e) = asPg e"
| "asPg (AppErr k r m md ds w) = (case w of None \<Rightarrow> None | Some e \<Rightarrow> asPg e)"
| "asPg (StatusErr c m ds) = None"
| "asPg (UpstreamErr tgt mth c r d m ra e) = asPg e"
| "asPg (PgError code constraint m) = Some (code, constraint)"
| "asPgs [] = None"
| "asPgs (e # es) = (case asPg e of Some a \<Rightarrow> Some a | None \<Rightarrow> asPgs es)"

text \<open>
  \<open>status.FromError\<close> finds the first gRPC status of the tree; for one that is wrapped, the
  message is the text of the whole error.
\<close>

fun asStatus :: "goerr \<Rightarrow> (codes \<times> string \<times> detail list) option"
  and asStatuses :: "goerr list \<Rightarrow> (codes \<times> string \<times> detail list) option" where
  "asStatus (Sentinel s) = None"
| "asStatus (Plain t) = None"
| "asStatus (Errorf t es) = asStatuses es"
| "asStatus (PermanentErr e) = asStatus e"
| "asStatus (AppErr k r m md ds w) = (case w of None \<Rightarrow> None | Some e \<Rightarrow> asStatus e)"
| "asStatus (StatusErr c m ds) = Some (c, m, ds)"
| "asStatus (UpstreamErr tgt mth c r d m ra e) = asStatus e"
| "asStatus (PgError code constraint m) = None"
| "asStatuses [] = None"
| "asStatuses (e # es) = (case asStatus e of Some a \<Rightarrow> Some a | None \<Rightarrow> asStatuses es)"

definition statusFromError :: "goerr \<Rightarrow> (codes \<times> string \<times> detail list) option" where
  "statusFromError e = (case e of StatusErr c m ds \<Rightarrow> Some (c, m, ds)
     | _ \<Rightarrow> (case asStatus e of None \<Rightarrow> None | Some (c, m, ds) \<Rightarrow> Some (c, errorText e, ds)))"

section \<open>Permanent errors (internal/platform/outbox/outbox.go)\<close>

definition Permanent :: "goerr option \<Rightarrow> goerr option" where
  "Permanent err = (case err of None \<Rightarrow> None | Some e \<Rightarrow> Some (PermanentErr e))"

text \<open>\<open>errors.As(err, &permanent{})\<close>.\<close>

fun IsPermanent :: "goerr \<Rightarrow> bool" where
  "IsPermanent (PermanentErr e) = True"
| "IsPermanent (Sentinel s) = False"
| "IsPermanent (Plain t) = False"
| "IsPermanent (Errorf t es) = list_ex IsPermanent es"
| "IsPermanent (AppErr k r m md ds w) = (case w of None \<Rightarrow> False | Some e \<Rightarrow> IsPermanent e)"
| "IsPermanent (StatusErr c m ds) = False"
| "IsPermanent (UpstreamErr tgt mth c r d m ra e) = IsPermanent e"
| "IsPermanent (PgError code constraint m) = False"

section \<open>apperr\<close>

subsection \<open>The one table\<close>

record kind_row =
  Code :: codes
  HTTP :: int
  Name :: string

definition kindInfo :: "(Kind \<times> kind_row) list" where
  "kindInfo =
    [(KindUnknown, \<lparr>Code = Internal, HTTP = 500, Name = ''UNKNOWN''\<rparr>),
     (KindInvalidArgument, \<lparr>Code = InvalidArgument, HTTP = 400, Name = ''INVALID_ARGUMENT''\<rparr>),
     (KindFailedPrecondition, \<lparr>Code = FailedPrecondition, HTTP = 400, Name = ''FAILED_PRECONDITION''\<rparr>),
     (KindNotFound, \<lparr>Code = NotFound, HTTP = 404, Name = ''NOT_FOUND''\<rparr>),
     (KindAlreadyExists, \<lparr>Code = AlreadyExists, HTTP = 409, Name = ''ALREADY_EXISTS''\<rparr>),
     (KindPermissionDenied, \<lparr>Code = PermissionDenied, HTTP = 403, Name = ''PERMISSION_DENIED''\<rparr>),
     (KindUnauthenticated, \<lparr>Code = Unauthenticated, HTTP = 401, Name = ''UNAUTHENTICATED''\<rparr>),
     (KindResourceExhausted, \<lparr>Code = ResourceExhausted, HTTP = 429, Name = ''RESOURCE_EXHAUSTED''\<rparr>),
     (KindUnavailable, \<lparr>Code = Unavailable, HTTP = 503, Name = ''UNAVAILABLE''\<rparr>),
     (KindInternal, \<lparr>Code = Internal, HTTP = 500, Name = ''INTERNAL''\<rparr>),
     (KindCanceled, \<lparr>Code = Canceled, HTTP = 499, Name = ''CANCELED''\<rparr>),
     (KindDeadlineExceeded, \<lparr>Code = DeadlineExceeded, HTTP = 504, Name = ''DEADLINE_EXCEEDED''\<rparr>)]"

definition AllKinds :: "Kind list" where
  "AllKinds = [KindUnknown, KindInvalidArgument, KindFailedPrecondition, KindNotFound,
     KindAlreadyExists, KindPermissionDenied, KindUnauthenticated,
     KindResourceExhausted, KindUnavailable, KindInternal,
     KindCanceled, KindDeadlineExceeded]"

definition GRPCCode :: "Kind \<Rightarrow> codes" where
  "GRPCCode k = (case map_of kindInfo k of Some info \<Rightarrow> Code info | None \<Rightarrow> Internal)"

definition HTTPStatus :: "Kind \<Rightarrow> int" where
  "HTTPStatus k = (case map_of kindInfo k of Some info \<Rightarrow> HTTP info | None \<Rightarrow> 500)"

definition KindString :: "Kind \<Rightarrow> string" where
  "KindString k = (case map_of kindInfo k of Some info \<Rightarrow> Name info | None \<Rightarrow> ''UNKNOWN'')"

definition Redacts :: "Kind \<Rightarrow> bool" where
  "Redacts k \<longleftrightarrow> k = KindInternal \<or> k = KindUnknown"

text \<open>
  \<open>HTTPStatusFromCode\<close> ranges over the Go map, so the order in which it meets the rows is not
  determined: the argument \<open>rows\<close> is the order of one iteration, any permutation of the
  table.
\<close>

fun HTTPStatusFromCode :: "(Kind \<times> kind_row) list \<Rightarrow> codes \<Rightarrow> int" where
  "HTTPStatusFromCode [] code =
     (case code of OK \<Rightarrow> 200 | Unimplemented \<Rightarrow> 501 | _ \<Rightarrow> 500)"
| "HTTPStatusFromCode ((k, info) # rows) code =
     (if Code info = code then HTTP info else HTTPStatusFromCode rows code)"

subsection \<open>Error values\<close>

definition appNew :: "Kind \<Rightarrow> string \<Rightarrow> string \<Rightarrow> goerr" where
  "appNew k reason msg = AppErr k reason msg [] [] None"

definition appWrap :: "goerr \<Rightarrow> Kind \<Rightarrow> string \<Rightarrow> string \<Rightarrow> goerr" where
  "appWrap e k reason msg = AppErr k reason msg [] [] (Some e)"

fun WithDetails :: "goerr \<Rightarrow> detail list \<Rightarrow> goerr" where
  "WithDetails (AppErr k r m md ds w) ds' = AppErr k r m md (ds @ ds') w"
| "WithDetails e ds' = e"

text \<open>Writing a key of the metadata map replaces the value it had.\<close>

fun setKey :: "(string \<times> string) list \<Rightarrow> string \<Rightarrow> string \<Rightarrow> (string \<times> string) list" where
  "setKey [] k v = [(k, v)]"
| "setKey ((k', v') # md) k v = (if k' = k then (k, v) # md else (k', v') # setKey md k v)"

fun WithMetadata :: "goerr \<Rightarrow> (string \<times> string) list \<Rightarrow> goerr" where
  "WithMetadata (AppErr k r m md ds w) kv = AppErr k r m (fold (\<lambda>(a, b) acc. setKey acc a b) kv md) ds w"
| "WithMetadata e kv = e"

text \<open>\<open>apperr.From\<close> is \<^const>\<open>asApp\<close>.\<close>

definition classify :: "goerr \<Rightarrow> Kind \<times> string \<times> string" where
  "classify e =
     (if errorsIs e ContextCanceled then
        (KindCanceled, ''CANCELED'', ''the request was cancelled by the caller'')
      else if errorsIs e ContextDeadlineExceeded then
        (KindDeadlineExceeded, ''DEADLINE_EXCEEDED'', ''the request deadline elapsed'')
      else (KindInternal, ''INTERNAL'', errorText e))"

definition KindOf :: "goerr option \<Rightarrow> Kind" where
  "KindOf err = (case err of None \<Rightarrow> KindUnknown
     | Some e \<Rightarrow> (case asApp e of Some (AppErr k _ _ _ _ _) \<Rightarrow> k | _ \<Rightarrow> fst (classify e)))"

fun ClientMessage :: "goerr \<Rightarrow> string" where
  "ClientMessage (AppErr k r m md ds w) = (if Redacts k then ''internal error'' else m)"
| "ClientMessage e = []"

subsection \<open>ToStatus\<close>

record grpc_status =
  StCode :: codes
  StMessage :: string
  StDetails :: "detail list"

text \<open>The \<open>*apperr.Error\<close> that \<open>ToStatus\<close> works on.\<close>

definition toApp :: "goerr \<Rightarrow> goerr" where
  "toApp e = (case asApp e of Some ae \<Rightarrow> ae
     | None \<Rightarrow> (let (kind, reason, message) = classify e in appWrap e kind reason message))"

fun appStatus :: "(detail \<Rightarrow> bool) \<Rightarrow> goerr \<Rightarrow> string \<Rightarrow> grpc_status" where
  "appStatus marshals (AppErr k r m md ds w) domain =
     (let st = \<lparr>StCode = GRPCCode k, StMessage = ClientMessage (AppErr k r m md ds w), StDetails = []\<rparr>;
          metadata = (if Redacts k then [] else md);
          details = ErrorInfo r domain metadata # ds
      in if StCode st \<noteq> OK \<and> list_all marshals details then st\<lparr>StDetails := details\<rparr> else st)"
| "appStatus marshals e domain = \<lparr>StCode = Internal, StMessage = [], StDetails = []\<rparr>"

text \<open>
  \<open>status.WithDetails\<close> fails when the code is OK or a detail does not marshal; which details
  marshal is the protobuf library's business, the argument \<open>marshals\<close>.
\<close>

definition ToStatus :: "(detail \<Rightarrow> bool) \<Rightarrow> goerr option \<Rightarrow> string \<Rightarrow> grpc_status" where
  "ToStatus marshals err domain = (case err of
       None \<Rightarrow> \<lparr>StCode = OK, StMessage = [], StDetails = []\<rparr>
     | Some e \<Rightarrow> appStatus marshals (toApp e) domain)"

text \<open>\<open>ToError\<close>: the status as an error (\<open>Status.Err\<close> is nil for the code OK).\<close>

definition ToError :: "(detail \<Rightarrow> bool) \<Rightarrow> goerr option \<Rightarrow> string \<Rightarrow> goerr option" where
  "ToError marshals err domain = (case err of None \<Rightarrow> None
     | Some e \<Rightarrow> (let st = ToStatus marshals err domain in
         if StCode st = OK then None else Some (StatusErr (StCode st) (StMessage st) (StDetails st))))"


section \<open>Lemmas\<close>

lemma asApp_AppErr:
  "asApp e = Some a \<Longrightarrow> \<exists>k r m md ds w. a = AppErr k r m md ds w"
  "asApps es = Some a \<Longrightarrow> \<exists>k r m md ds w. a = AppErr k r m md ds w"
  by (induction e and es rule: asApp_asApps.induct) (auto split: option.splits)

lemma toApp_cases:
  obtains k r m md ds w where "toApp e = AppErr k r m md ds w" "k = KindOf (Some e)"
proof (cases "asApp e")
  case None
  obtain k r m where c: "classify e = (k, r, m)" by (cases "classify e") auto
  show ?thesis
    by (rule that [of k r m "[]" "[]" "Some e"])
      (simp_all add: None c toApp_def appWrap_def KindOf_def)
next
  case (Some a)
  then obtain k r m md ds w where "a = AppErr k r m md ds w" using asApp_AppErr by blast
  with Some show ?thesis using that by (simp add: toApp_def KindOf_def)
qed

lemma GRPCCode_not_OK: "GRPCCode k \<noteq> OK"
  by (cases k) (simp_all add: GRPCCode_def kindInfo_def)

lemma StCode_ToStatus: "StCode (ToStatus ms (Some e) d) = GRPCCode (KindOf (Some e))"
  by (rule toApp_cases [of e]) (simp add: ToStatus_def Let_def)

lemma StMessage_ToStatus_redacted:
  "Redacts (KindOf (Some e)) \<Longrightarrow> StMessage (ToStatus ms (Some e) d) = ''internal error''"
  by (rule toApp_cases [of e]) (simp add: ToStatus_def Let_def)

lemma ToError_StatusErr:
  "ToError ms (Some e) d = Some (StatusErr (StCode (ToStatus ms (Some e) d))
     (StMessage (ToStatus ms (Some e) d)) (StDetails (ToStatus ms (Some e) d)))"
  by (simp add: ToError_def Let_def StCode_ToStatus GRPCCode_not_OK)

lemma HTTPStatusFromCode_found:
  assumes "(k, info) \<in> set rows" "Code info = c"
    and "\<forall>(k', i) \<in> set rows. Code i = c \<longrightarrow> HTTP i = h"
  shows "HTTPStatusFromCode rows c = h"
  using assms by (induction rows c rule: HTTPStatusFromCode.induct) (auto split: if_splits)

text \<open>No code maps to two HTTP statuses, and every kind (listed or not) has a row with its code and
  its status.\<close>

lemma kindInfo_consistent:
  "list_all (\<lambda>(k, i). list_all (\<lambda>(k', j). Code j = Code i \<longrightarrow> HTTP j = HTTP i) kindInfo) kindInfo"
  by code_simp

lemma kind_row_listed:
  obtains k' i where "(k', i) \<in> set kindInfo" "Code i = GRPCCode k" "HTTP i = HTTPStatus k"
proof (cases "map_of kindInfo k")
  case None
  have "(KindInternal, \<lparr>Code = Internal, HTTP = 500, Name = ''INTERNAL''\<rparr>) \<in> set kindInfo"
    by (simp add: kindInfo_def)
  with None show ?thesis using that by (fastforce simp: GRPCCode_def HTTPStatus_def)
next
  case (Some i)
  then show ?thesis
    using that [of k i] by (simp add: map_of_SomeD GRPCCode_def HTTPStatus_def)
qed

lemma HTTPStatusFromCode_unlisted:
  "\<forall>(k, i) \<in> set rows. Code i \<noteq> c \<Longrightarrow> HTTPStatusFromCode rows c = HTTPStatusFromCode [] c"
  by (induction rows c rule: HTTPStatusFromCode.induct) auto

section \<open>Properties\<close>

text \<open>
  The REST edge derives its status from the gRPC code with a loop over the same Go map, whose
  iteration order is not determined. For every order of that iteration and every kind (also one
  the table does not list) the HTTP status of the code is the HTTP status of the kind: the two
  surfaces agree.
\<close>

theorem http_status_of_code_agrees:
  assumes "mset rows = mset kindInfo"
  shows "HTTPStatusFromCode rows (GRPCCode k) = HTTPStatus k"
proof -
  have rows: "set rows = set kindInfo" using assms by (metis set_mset_mset)
  obtain k' i where i: "(k', i) \<in> set rows" "Code i = GRPCCode k" "HTTP i = HTTPStatus k"
    unfolding rows by (rule kind_row_listed)
  have "\<forall>(k'', j) \<in> set rows. Code j = GRPCCode k \<longrightarrow> HTTP j = HTTPStatus k"
    using kindInfo_consistent i unfolding rows list_all_iff by fastforce
  with i(1,2) show ?thesis by (rule HTTPStatusFromCode_found)
qed

theorem http_status_of_code_agrees_witness:
  "HTTPStatusFromCode (rev kindInfo) (GRPCCode KindCanceled) = HTTPStatus KindCanceled
     \<and> HTTPStatus KindCanceled = 499"
  using http_status_of_code_agrees [of "rev kindInfo" KindCanceled]
  by (simp add: HTTPStatus_def kindInfo_def)

text \<open>
  An error never leaves \<open>ToStatus\<close> as a success: whatever the error tree holds, the code of
  its status is not OK, so \<open>ToError\<close> of an error is never nil, and the code is the one the
  table gives for \<open>KindOf\<close> of the error.
\<close>

theorem toStatus_never_ok:
  "StCode (ToStatus marshals (Some e) domain) = GRPCCode (KindOf (Some e))
   \<and> StCode (ToStatus marshals (Some e) domain) \<noteq> OK
   \<and> ToError marshals (Some e) domain \<noteq> None"
  by (simp add: StCode_ToStatus GRPCCode_not_OK ToError_StatusErr)

text \<open>
  Nothing about an unclassified failure reaches the client. Any two error trees that hold no
  \<open>*apperr.Error\<close> and no context error (driver text, table names, panic values: whatever they
  say) are mapped to the very same gRPC status: code Internal, message \<open>internal error\<close>, and
  one \<open>ErrorInfo\<close> with no metadata.
\<close>

theorem unclassified_errors_indistinguishable:
  assumes "asApp e1 = None" "\<not> errorsIs e1 ContextCanceled" "\<not> errorsIs e1 ContextDeadlineExceeded"
    and "asApp e2 = None" "\<not> errorsIs e2 ContextCanceled" "\<not> errorsIs e2 ContextDeadlineExceeded"
  shows "ToStatus marshals (Some e1) domain = ToStatus marshals (Some e2) domain
    \<and> StCode (ToStatus marshals (Some e1) domain) = Internal
    \<and> StMessage (ToStatus marshals (Some e1) domain) = ''internal error''
    \<and> set (StDetails (ToStatus marshals (Some e1) domain)) \<subseteq> {ErrorInfo ''INTERNAL'' domain []}"
  using assms
  by (simp add: ToStatus_def toApp_def classify_def appWrap_def Redacts_def GRPCCode_def kindInfo_def
      Let_def)

theorem unclassified_errors_indistinguishable_witness:
  "ToStatus (\<lambda>_. True) (Some (Plain ''pq: duplicate key value users_email_key'')) ''orderd''
   = ToStatus (\<lambda>_. True) (Some (Errorf ''begin: dial tcp'' [Plain ''dial tcp''])) ''orderd''"
  using unclassified_errors_indistinguishable
    [of "Plain ''pq: duplicate key value users_email_key''" "Errorf ''begin: dial tcp'' [Plain ''dial tcp'']"
        "\<lambda>_. True" "''orderd''"]
  by simp

text \<open>
  Redaction covers the metadata as well as the message. For an \<open>*apperr.Error\<close> of a kind
  that redacts, the status does not depend on the operator-facing message, on the metadata or on
  the wrapped cause.
\<close>

theorem redacted_status_ignores_internals:
  assumes "Redacts k"
  shows "ToStatus marshals (Some (AppErr k r m md ds w)) domain
    = ToStatus marshals (Some (AppErr k r m' md' ds w')) domain"
  using assms by (simp add: ToStatus_def toApp_def Let_def)

theorem redacted_status_ignores_internals_witness:
  "Redacts KindInternal \<and>
   ToStatus (\<lambda>_. True) (Some (AppErr KindInternal ''UPSTREAM_FAILED'' ''upstream inventory:9000''
       [(''upstream'', ''inventory:9000'')] [] (Some (Plain ''dial'')))) ''orderd''
   = ToStatus (\<lambda>_. True) (Some (AppErr KindInternal ''UPSTREAM_FAILED'' [] [] [] None)) ''orderd''"
proof -
  have r: "Redacts KindInternal" by (simp add: Redacts_def)
  show ?thesis using r redacted_status_ignores_internals [OF r] by blast
qed

end
