(* ===== verification/Money.thy ===== *)
theory Money
  imports Errors
begin

text \<open>
  Exact money arithmetic (\<open>internal/order/money.go\<close>). \<open>Units\<close> is an \<open>int64\<close> and
  \<open>Nanos\<close> an \<open>int32\<close>; every operation of the source that can wrap is written with its
  wrap. The mathematical amount of a value, in nano-units and without any width, is
  \<open>amount\<close>: the lemmas relate each operation to it.
\<close>

section \<open>The type and its operations\<close>

definition NanosPerUnit :: int where
  "NanosPerUnit = 1000000000"

definition maxUnits :: int where
  "maxUnits = ((2 ^ 63 - 1) - (NanosPerUnit - 1)) div NanosPerUnit"

record money =
  CurrencyCode :: string
  Units :: int
  Nanos :: int

text \<open>\<open>Money{}\<close>, what every operation returns beside an error, is not part of the sum type's
  left injection; it is the value of fields nobody set.\<close>

definition zeroMoney :: money where
  "zeroMoney = \<lparr>CurrencyCode = [], Units = 0, Nanos = 0\<rparr>"

definition Zero :: "string \<Rightarrow> money" where
  "Zero currencyCode = \<lparr>CurrencyCode = toUpper currencyCode, Units = 0, Nanos = 0\<rparr>"

definition validCurrencyCode :: "string \<Rightarrow> bool" where
  "validCurrencyCode s \<longleftrightarrow>
     (if length s \<noteq> 3 then False
      else list_all (\<lambda>r. \<not> (byte r < 65 \<or> byte r > 90)) s)"

definition IsZero :: "money \<Rightarrow> bool" where
  "IsZero m \<longleftrightarrow> Units m = 0 \<and> Nanos m = 0"

definition IsNegative :: "money \<Rightarrow> bool" where
  "IsNegative m \<longleftrightarrow> Units m < 0 \<or> Nanos m < 0"

definition Neg :: "money \<Rightarrow> money" where
  "Neg m = \<lparr>CurrencyCode = CurrencyCode m, Units = wrap64 (- Units m), Nanos = wrap32 (- Nanos m)\<rparr>"

text \<open>\<open>fmt.Sprintf("%09d", n)\<close>: zero-padded to nine columns, the sign included.\<close>

definition pad0 :: "nat \<Rightarrow> string \<Rightarrow> string" where
  "pad0 w s = replicate (w - length s) (CHR ''0'') @ s"

definition sprintf09d :: "int \<Rightarrow> string" where
  "sprintf09d n = (if n < 0 then ''-'' @ pad0 8 (show_nat (nat (- n))) else pad0 9 (show_nat (nat n)))"

definition trimRight0 :: "string \<Rightarrow> string" where
  "trimRight0 s = rev (dropWhile (\<lambda>c. c = CHR ''0'') (rev s))"

definition MoneyString :: "money \<Rightarrow> string" where
  "MoneyString m =
     (let (neg, units, nanos) =
        (if Units m < 0 \<or> Nanos m < 0 then (''-'', wrap64 (- Units m), wrap32 (- Nanos m))
         else ([], Units m, Nanos m));
        frac = trimRight0 (sprintf09d nanos)
      in if frac = [] then neg @ show_int units @ ''.00 '' @ CurrencyCode m
         else (let frac = (if length frac < 2 then frac @ ''0'' else frac)
               in neg @ show_int units @ ''.'' @ frac @ '' '' @ CurrencyCode m))"

definition Validate :: "money \<Rightarrow> goerr option" where
  "Validate m =
     (if \<not> validCurrencyCode (CurrencyCode m) then
        Some (Errorf (sentinel_text ErrInvalidCurrencyCode @ '': '' @ quoted (CurrencyCode m))
               [Sentinel ErrInvalidCurrencyCode])
      else if Nanos m \<le> - NanosPerUnit \<or> Nanos m \<ge> NanosPerUnit then
        Some (Errorf (sentinel_text ErrInvalidMoney @ '': nanos '' @ show_int (Nanos m) @ '' out of range'')
               [Sentinel ErrInvalidMoney])
      else if (Units m > 0 \<and> Nanos m < 0) \<or> (Units m < 0 \<and> Nanos m > 0) then
        Some (Errorf (sentinel_text ErrInvalidMoney @ '': units '' @ show_int (Units m) @ '' and nanos ''
                 @ show_int (Nanos m) @ '' disagree in sign'')
               [Sentinel ErrInvalidMoney])
      else if Units m > maxUnits \<or> Units m < - maxUnits then
        Some (Errorf (sentinel_text ErrMoneyOverflow @ '': units '' @ show_int (Units m))
               [Sentinel ErrMoneyOverflow])
      else None)"

definition normalized :: "money \<Rightarrow> money" where
  "normalized m =
     (let m = m\<lparr>CurrencyCode := toUpper (CurrencyCode m)\<rparr>;
          m = m\<lparr>Units := wrap64 (Units m + Nanos m sdiv NanosPerUnit)\<rparr>;
          m = m\<lparr>Nanos := Nanos m smod NanosPerUnit\<rparr>
      in if Units m > 0 \<and> Nanos m < 0 then
           m\<lparr>Units := wrap64 (Units m - 1), Nanos := wrap32 (Nanos m + NanosPerUnit)\<rparr>
         else if Units m < 0 \<and> Nanos m > 0 then
           m\<lparr>Units := wrap64 (Units m + 1), Nanos := wrap32 (Nanos m - NanosPerUnit)\<rparr>
         else m)"

definition NewMoney :: "string \<Rightarrow> int \<Rightarrow> int \<Rightarrow> money res" where
  "NewMoney currencyCode units nanos =
     (let m = normalized \<lparr>CurrencyCode = currencyCode, Units = units, Nanos = nanos\<rparr>
      in case Validate m of Some err \<Rightarrow> Inl err | None \<Rightarrow> Inr m)"

definition requireSameCurrency :: "money \<Rightarrow> money \<Rightarrow> goerr option" where
  "requireSameCurrency m m' =
     (if CurrencyCode m \<noteq> CurrencyCode m' then
        Some (Errorf (sentinel_text ErrCurrencyMismatch @ '': '' @ quoted (CurrencyCode m) @ '' vs ''
               @ quoted (CurrencyCode m')) [Sentinel ErrCurrencyMismatch])
      else None)"

definition totalNanos :: "money \<Rightarrow> int res" where
  "totalNanos m =
     (if Units m > maxUnits \<or> Units m < - maxUnits then
        Inl (Errorf (sentinel_text ErrMoneyOverflow @ '': units '' @ show_int (Units m))
              [Sentinel ErrMoneyOverflow])
      else Inr (wrap64 (wrap64 (Units m * NanosPerUnit) + Nanos m)))"

definition fromTotalNanos :: "string \<Rightarrow> int \<Rightarrow> money res" where
  "fromTotalNanos currencyCode tot =
     (let m = \<lparr>CurrencyCode = currencyCode, Units = tot sdiv NanosPerUnit,
               Nanos = wrap32 (tot smod NanosPerUnit)\<rparr>
      in if Units m > maxUnits \<or> Units m < - maxUnits then
           Inl (Errorf (sentinel_text ErrMoneyOverflow @ '': result units '' @ show_int (Units m))
                 [Sentinel ErrMoneyOverflow])
         else Inr m)"

definition combine :: "money \<Rightarrow> money \<Rightarrow> bool \<Rightarrow> money res" where
  "combine m m' negate =
     (case requireSameCurrency m m' of Some err \<Rightarrow> Inl err
      | None \<Rightarrow> (case totalNanos m of Inl err \<Rightarrow> Inl err
      | Inr a \<Rightarrow> (case totalNanos m' of Inl err \<Rightarrow> Inl err
      | Inr b \<Rightarrow>
          (let b = (if negate then wrap64 (- b) else b);
               sum = wrap64 (a + b)
           in if (b > 0 \<and> sum < a) \<or> (b < 0 \<and> sum > a) then
                Inl (Errorf (sentinel_text ErrMoneyOverflow @ '': '' @ MoneyString m @ '' + '' @ MoneyString m')
                      [Sentinel ErrMoneyOverflow])
              else fromTotalNanos (CurrencyCode m) sum))))"

definition Add :: "money \<Rightarrow> money \<Rightarrow> money res" where
  "Add m m' = combine m m' False"

definition Sub :: "money \<Rightarrow> money \<Rightarrow> money res" where
  "Sub m m' = combine m m' True"

definition Mul :: "money \<Rightarrow> int \<Rightarrow> money res" where
  "Mul m n =
     (case totalNanos m of Inl err \<Rightarrow> Inl err
      | Inr tot \<Rightarrow>
          (if n \<noteq> 0 then
             (let product = wrap64 (tot * n)
              in if wrap64 (product sdiv n) \<noteq> tot then
                   Inl (Errorf (sentinel_text ErrMoneyOverflow @ '': '' @ MoneyString m @ '' * '' @ show_int n)
                         [Sentinel ErrMoneyOverflow])
                 else fromTotalNanos (CurrencyCode m) product)
           else Inr (Zero (CurrencyCode m))))"

definition Compare :: "money \<Rightarrow> money \<Rightarrow> int res" where
  "Compare m m' =
     (case requireSameCurrency m m' of Some err \<Rightarrow> Inl err
      | None \<Rightarrow> (case totalNanos m of Inl err \<Rightarrow> Inl err
      | Inr a \<Rightarrow> (case totalNanos m' of Inl err \<Rightarrow> Inl err
      | Inr b \<Rightarrow> (if a < b then Inr (- 1) else if a > b then Inr 1 else Inr 0))))"

section \<open>The specification: exact amounts\<close>

definition amount :: "money \<Rightarrow> int" where
  "amount m = Units m * NanosPerUnit + Nanos m"

definition maxAmount :: int where
  "maxAmount = maxUnits * NanosPerUnit + (NanosPerUnit - 1)"

abbreviation valid_money :: "money \<Rightarrow> bool" where
  "valid_money m \<equiv> Validate m = None"

text \<open>The representation relation of a result: the value it must hold, or an overflow error exactly
  when no value can hold it.\<close>

definition exact_result :: "string \<Rightarrow> int \<Rightarrow> money res \<Rightarrow> bool" where
  "exact_result c a r = (case r of
       Inr m \<Rightarrow> valid_money m \<and> CurrencyCode m = c \<and> amount m = a
     | Inl e \<Rightarrow> errorsIs e ErrMoneyOverflow \<and> maxAmount < \<bar>a\<bar>)"

lemma maxUnits_eq: "maxUnits = 9223372035"
  by (simp add: maxUnits_def NanosPerUnit_def)

lemma maxAmount_eq: "maxAmount = 9223372035999999999"
  by (simp add: maxAmount_def maxUnits_eq NanosPerUnit_def)

lemmas money_consts = maxUnits_eq maxAmount_eq NanosPerUnit_def

lemma Validate_None_iff:
  "valid_money m \<longleftrightarrow> validCurrencyCode (CurrencyCode m)
     \<and> - NanosPerUnit < Nanos m \<and> Nanos m < NanosPerUnit
     \<and> (0 < Units m \<longrightarrow> 0 \<le> Nanos m) \<and> (Units m < 0 \<longrightarrow> Nanos m \<le> 0)
     \<and> - maxUnits \<le> Units m \<and> Units m \<le> maxUnits"
  unfolding Validate_def by auto

lemma valid_amount_bound: "valid_money m \<Longrightarrow> \<bar>amount m\<bar> \<le> maxAmount"
  by (auto simp: Validate_None_iff amount_def money_consts)

lemma exact_result_isl: "exact_result c a r \<Longrightarrow> isl r \<longleftrightarrow> maxAmount < \<bar>a\<bar>"
  by (cases r) (auto simp: exact_result_def not_less dest!: valid_amount_bound)

lemma valid_totalNanos: "valid_money m \<Longrightarrow> totalNanos m = Inr (amount m)"
  by (simp add: Validate_None_iff totalNanos_def amount_def money_consts wrap64_id in64_bounds)

text \<open>A valid value is determined by its currency and its amount.\<close>

lemma valid_money_eqI:
  assumes "valid_money a" "valid_money b" "CurrencyCode a = CurrencyCode b" "amount a = amount b"
  shows "a = b"
proof -
  have "\<not> Units a < Units b" "\<not> Units b < Units a"
    using assms unfolding Validate_None_iff amount_def money_consts by linarith+
  then have "Units a = Units b" by simp
  moreover from this assms(4) have "Nanos a = Nanos b" by (simp add: amount_def)
  ultimately show ?thesis using assms(3) by simp
qed

lemma fromTotalNanos_exact:
  assumes "validCurrencyCode c"
  shows "exact_result c t (fromTotalNanos c t)"
proof -
  define u r where "u = t sdiv NanosPerUnit" and "r = t smod NanosPerUnit"
  have n: "0 < NanosPerUnit" by (simp add: NanosPerUnit_def)
  note s = sdiv_smod_split [OF n, of t, folded u_def r_def]
  have r32: "wrap32 r = r"
    using s(4) by (intro wrap32_id) (simp add: in32_bounds NanosPerUnit_def)
  have t: "t = u * NanosPerUnit + r" by (rule s(1))
  have signs: "0 < u \<Longrightarrow> 0 \<le> r" "u < 0 \<Longrightarrow> r \<le> 0"
    using s(2,3) by linarith+
  show ?thesis
  proof (cases "u > maxUnits \<or> u < - maxUnits")
    case True
    have "maxAmount < \<bar>t\<bar>"
      using True signs t by (auto simp: money_consts)
    with True show ?thesis
      by (simp add: fromTotalNanos_def exact_result_def u_def [symmetric])
  next
    case False
    define m where "m = \<lparr>CurrencyCode = c, Units = u, Nanos = r\<rparr>"
    have "fromTotalNanos c t = Inr m"
      using False r32 by (simp add: fromTotalNanos_def m_def flip: u_def r_def)
    moreover have "valid_money m" "amount m = t"
      using False assms s(4) signs t by (auto simp: m_def Validate_None_iff amount_def)
    ultimately show ?thesis by (simp add: exact_result_def m_def)
  qed
qed

lemma valid_currency_toUpper: "validCurrencyCode c \<Longrightarrow> toUpper c = c"
proof -
  assume "validCurrencyCode c"
  then have all: "\<forall>x \<in> set c. 65 \<le> byte x \<and> byte x \<le> 90"
    by (auto simp: validCurrencyCode_def list_all_iff split: if_splits)
  then have "list_all is_ascii c"
    by (auto simp: list_all_iff is_ascii_def)
  moreover have "map upper_byte c = c"
    using all by (intro map_idI) (force simp: upper_byte_def)
  ultimately show ?thesis by (simp add: toUpper_def)
qed

lemma Zero_valid: "validCurrencyCode c \<Longrightarrow> valid_money (Zero c) \<and> amount (Zero c) = 0 \<and> CurrencyCode (Zero c) = c"
  by (simp add: Zero_def Validate_None_iff amount_def money_consts valid_currency_toUpper)

lemma valid_currency: "valid_money m \<Longrightarrow> validCurrencyCode (CurrencyCode m)"
  by (simp add: Validate_None_iff)

section \<open>Each operation against the exact amount\<close>

text \<open>The guard of \<open>Mul\<close>: dividing the wrapped product by the factor gives the other factor back
  exactly when nothing was lost.\<close>

lemma mul_guard:
  assumes t: "\<bar>t\<bar> \<le> maxAmount" and n: "in64 n" "n \<noteq> 0"
  shows "wrap64 (wrap64 (t * n) sdiv n) = t \<longleftrightarrow> in64 (t * n)"
proof
  assume "in64 (t * n)"
  then have "wrap64 (t * n) sdiv n = t"
    using n(2) by (simp add: wrap64_id sdiv_mult_cancel)
  moreover have "in64 t" using t by (auto simp: in64_bounds money_consts)
  ultimately show "wrap64 (wrap64 (t * n) sdiv n) = t" by (simp add: wrap64_id)
next
  define p where "p = wrap64 (t * n)"
  assume eq: "wrap64 (wrap64 (t * n) sdiv n) = t"
  have p: "in64 p" by (simp add: p_def)
  obtain k where k: "p = t * n + k * 18446744073709551616"
    using wrap64_eq [of "t * n"] by (auto simp: p_def)
  define q r where "q = p sdiv n" and "r = p smod n"
  have split: "p = q * n + r"
    unfolding q_def r_def by (simp add: signed_divide_int_def signed_modulo_int_def)
      (metis abs_mult_sgn abs_sgn div_mult_mod_eq mult.assoc mult.commute distrib_left)
  have r: "\<bar>r\<bar> < \<bar>n\<bar>"
    unfolding r_def using n(2)
    by (simp add: signed_modulo_int_def abs_mult abs_sgn_eq)
  have qp: "\<bar>q\<bar> \<le> \<bar>p\<bar>"
    using n(2) zdiv_mono2 [of "\<bar>p\<bar>" 1 "\<bar>n\<bar>"]
    by (simp add: q_def signed_divide_int_def abs_mult abs_sgn_eq pos_imp_zdiv_nonneg_iff)
  have q: "in64 q"
  proof (rule ccontr)
    assume "\<not> in64 q"
    with qp p have "q = 9223372036854775808" by (auto simp: in64_bounds)
    then have "wrap64 q = - 9223372036854775808" by (simp add: wrap64_def)
    with eq t show False by (simp add: p_def [symmetric] q_def [symmetric] money_consts)
  qed
  then have "q = t" using eq by (simp add: p_def [symmetric] q_def [symmetric] wrap64_id)
  with split k have "r = k * 18446744073709551616" by simp
  with r n(1) have "k = 0" by (auto simp: in64_bounds)
  with k p show "in64 (t * n)" by simp
qed

lemma combine_exact:
  assumes a: "valid_money a" and b: "valid_money b" and c: "CurrencyCode a = CurrencyCode b"
  shows "exact_result (CurrencyCode a) (amount a + (if neg then - amount b else amount b)) (combine a b neg)"
proof -
  define x y where "x = amount a" and "y = (if neg then - amount b else amount b)"
  have x: "\<bar>x\<bar> \<le> maxAmount" and y: "\<bar>y\<bar> \<le> maxAmount"
    using valid_amount_bound [OF a] valid_amount_bound [OF b] by (auto simp: x_def y_def)
  have neg: "(if neg then wrap64 (- amount b) else amount b) = y"
    using y by (auto simp: y_def money_consts in64_bounds intro!: wrap64_id)
  have guard: "(y > 0 \<and> wrap64 (x + y) < x) \<or> (y < 0 \<and> wrap64 (x + y) > x) \<longleftrightarrow> \<not> in64 (x + y)"
    using x y by (subst (1 2) wrap64_cases) (auto simp: in64_bounds money_consts)
  have step: "combine a b neg = (if in64 (x + y) then fromTotalNanos (CurrencyCode a) (wrap64 (x + y))
      else Inl (Errorf (sentinel_text ErrMoneyOverflow @ '': '' @ MoneyString a @ '' + '' @ MoneyString b)
             [Sentinel ErrMoneyOverflow]))"
    using guard by (simp add: combine_def requireSameCurrency_def c valid_totalNanos a b neg Let_def
        x_def [symmetric] del: One_nat_def)
  show ?thesis
  proof (cases "in64 (x + y)")
    case True
    then show ?thesis
      using fromTotalNanos_exact [OF valid_currency [OF a]] step by (simp add: wrap64_id x_def y_def)
  next
    case False
    then have "maxAmount < \<bar>x + y\<bar>" by (auto simp: in64_bounds money_consts)
    with False step show ?thesis by (simp add: exact_result_def x_def y_def)
  qed
qed

lemma Mul_exact:
  assumes m: "valid_money m" and n: "in64 n"
  shows "exact_result (CurrencyCode m) (amount m * n) (Mul m n)"
proof (cases "n = 0")
  case True
  then show ?thesis
    using Zero_valid [OF valid_currency [OF m]] by (simp add: Mul_def valid_totalNanos m exact_result_def)
next
  case False
  note g = mul_guard [OF valid_amount_bound [OF m] n False]
  show ?thesis
  proof (cases "in64 (amount m * n)")
    case True
    then show ?thesis
      using g False fromTotalNanos_exact [OF valid_currency [OF m]]
      by (simp add: Mul_def valid_totalNanos m Let_def wrap64_id)
  next
    case ov: False
    then have "maxAmount < \<bar>amount m * n\<bar>" by (auto simp: in64_bounds money_consts)
    then show ?thesis
      using g False ov by (simp add: Mul_def valid_totalNanos m Let_def exact_result_def)
  qed
qed

text \<open>What \<open>normalized\<close> does to a value of the machine types.\<close>

lemma normalized_exact:
  fixes c :: string
  assumes "in64 u" "in32 n"
  defines "m \<equiv> normalized \<lparr>CurrencyCode = c, Units = u, Nanos = n\<rparr>"
    and "t \<equiv> u * NanosPerUnit + n"
  shows "CurrencyCode m = toUpper c \<and> - NanosPerUnit < Nanos m \<and> Nanos m < NanosPerUnit
    \<and> (0 < Units m \<longrightarrow> 0 \<le> Nanos m) \<and> (Units m < 0 \<longrightarrow> Nanos m \<le> 0)
    \<and> (amount m = t \<or> (maxUnits < \<bar>Units m\<bar> \<and> maxAmount < \<bar>t\<bar>))"
proof -
  define q r where "q = n sdiv NanosPerUnit" and "r = n smod NanosPerUnit"
  have pos: "0 < NanosPerUnit" by (simp add: NanosPerUnit_def)
  note s = sdiv_smod_split [OF pos, of n, folded q_def r_def]
  have n: "n = q * 1000000000 + r" "- 1000000000 < r" "r < 1000000000"
    using s(1,4) by (simp_all add: NanosPerUnit_def)
  have q: "- 3 \<le> q \<and> q \<le> 3"
    using n assms(2) unfolding in32_bounds by linarith
  have t: "t = (u + q) * 1000000000 + r" using n by (simp add: t_def NanosPerUnit_def)
  have r32: "wrap32 (r + 1000000000) = r + 1000000000" if "r < 0"
    using that n by (intro wrap32_id) (simp add: in32_bounds)
  have r32': "wrap32 (r - 1000000000) = r - 1000000000" if "0 < r"
    using that n by (intro wrap32_id) (simp add: in32_bounds)
  define v where "v = wrap64 (u + q)"
  have v: "in64 v" by (simp add: v_def)
  have v': "v = u + q \<or> (v < - 9223372036854775800 \<and> 9223372036854775807 < u + q)
      \<or> (9223372036854775800 < v \<and> u + q < - 9223372036854775808)"
    using q assms(1) unfolding v_def by (subst (1 2 3) wrap64_cases) (auto simp: in64_bounds)
  have d: "0 < v \<Longrightarrow> wrap64 (v - 1) = v - 1" "v < 0 \<Longrightarrow> wrap64 (v + 1) = v + 1"
    using v by (simp_all add: wrap64_id in64_bounds)
  have m: "m = (if v > 0 \<and> r < 0 then \<lparr>CurrencyCode = toUpper c, Units = v - 1, Nanos = r + 1000000000\<rparr>
      else if v < 0 \<and> r > 0 then \<lparr>CurrencyCode = toUpper c, Units = v + 1, Nanos = r - 1000000000\<rparr>
      else \<lparr>CurrencyCode = toUpper c, Units = v, Nanos = r\<rparr>)"
    using d r32 r32' by (simp add: m_def normalized_def Let_def v_def q_def r_def NanosPerUnit_def)
  show ?thesis
    using v' n t unfolding m amount_def money_consts by auto
qed

section \<open>Properties\<close>

text \<open>
  \<open>NewMoney\<close> is exact on every pair of machine integers, although its normalisation adds in
  \<open>int64\<close> and can wrap. With a currency code that is valid after upper-casing, the result is a
  valid value with exactly the amount \<open>units * 10^9 + nanos\<close>, and the overflow error appears
  exactly when no valid value has that amount; any other currency code is refused.
\<close>

theorem newMoney_exact:
  assumes "in64 u" "in32 n"
  shows "if validCurrencyCode (toUpper c)
         then exact_result (toUpper c) (u * NanosPerUnit + n) (NewMoney c u n)
         else (\<exists>e. NewMoney c u n = Inl e \<and> errorsIs e ErrInvalidCurrencyCode)"
proof -
  define m where "m = normalized \<lparr>CurrencyCode = c, Units = u, Nanos = n\<rparr>"
  note x = normalized_exact [OF assms, where c = c, folded m_def]
  show ?thesis
  proof (cases "validCurrencyCode (toUpper c)")
    case False
    then have "Validate m = Some (Errorf (sentinel_text ErrInvalidCurrencyCode @ '': '' @ quoted (CurrencyCode m))
        [Sentinel ErrInvalidCurrencyCode])"
      using x by (simp add: Validate_def)
    with False show ?thesis by (simp add: NewMoney_def m_def [symmetric])
  next
    case valid: True
    show ?thesis
    proof (cases "\<bar>Units m\<bar> \<le> maxUnits")
      case True
      then have "valid_money m" using x valid by (auto simp: Validate_None_iff)
      with True x valid show ?thesis
        by (auto simp: NewMoney_def m_def [symmetric] exact_result_def)
    next
      case False
      then have v: "Validate m = Some (Errorf (sentinel_text ErrMoneyOverflow @ '': units '' @ show_int (Units m))
          [Sentinel ErrMoneyOverflow])"
        using x valid by (auto simp: Validate_def)
      have "maxAmount < \<bar>u * NanosPerUnit + n\<bar>"
        using x False by (auto simp: amount_def money_consts)
      with v valid show ?thesis by (simp add: NewMoney_def m_def [symmetric] exact_result_def)
    qed
  qed
qed

theorem newMoney_exact_witness:
  "in64 9223372036854775807 \<and> in32 2000000000 \<and> validCurrencyCode (toUpper ''usd'') \<and>
   exact_result (toUpper ''usd'') (9223372036854775807 * NanosPerUnit + 2000000000)
     (NewMoney ''usd'' 9223372036854775807 2000000000)"
proof -
  have h: "in64 9223372036854775807" "in32 2000000000" by (simp_all add: in64_bounds in32_bounds)
  have v: "validCurrencyCode (toUpper ''usd'')" by code_simp
  from newMoney_exact [OF h, of "''usd''"] v
  have "exact_result (toUpper ''usd'') (9223372036854775807 * NanosPerUnit + 2000000000)
     (NewMoney ''usd'' 9223372036854775807 2000000000)"
    by (simp only: if_True)
  with h v show ?thesis by blast
qed

text \<open>
  Addition and subtraction of valid values in one currency are exact: the result is a valid
  value holding the exact sum or difference, and the overflow error is returned exactly when no
  valid value holds it. No wrapped value escapes, also at the bound where the \<open>int64\<close> sum does
  not wrap but its units pass the maximum.
\<close>

theorem add_sub_exact:
  assumes "valid_money a" "valid_money b" "CurrencyCode a = CurrencyCode b"
  shows "exact_result (CurrencyCode a) (amount a + amount b) (Add a b)
       \<and> exact_result (CurrencyCode a) (amount a - amount b) (Sub a b)"
  using combine_exact [OF assms, of False] combine_exact [OF assms, of True]
  by (simp add: Add_def Sub_def)

theorem add_sub_exact_witness:
  "let a = \<lparr>CurrencyCode = ''USD'', Units = 9223372035, Nanos = 999999999\<rparr>;
       b = \<lparr>CurrencyCode = ''USD'', Units = 0, Nanos = 1\<rparr>
   in exact_result ''USD'' (amount a + amount b) (Add a b) \<and> exact_result ''USD'' (amount a - amount b) (Sub a b)
      \<and> isl (Add a b)"
proof -
  define a where "a = \<lparr>CurrencyCode = ''USD'', Units = 9223372035, Nanos = 999999999\<rparr>"
  define b where "b = \<lparr>CurrencyCode = ''USD'', Units = 0, Nanos = 1\<rparr>"
  have "valid_money a" "valid_money b" unfolding a_def b_def by code_simp+
  moreover have "CurrencyCode a = CurrencyCode b" by (simp add: a_def b_def)
  ultimately have x: "exact_result (CurrencyCode a) (amount a + amount b) (Add a b)
       \<and> exact_result (CurrencyCode a) (amount a - amount b) (Sub a b)"
    by (rule add_sub_exact)
  moreover have "maxAmount < \<bar>amount a + amount b\<bar>"
    by (simp add: a_def b_def amount_def money_consts)
  ultimately show ?thesis using exact_result_isl unfolding a_def b_def Let_def by fastforce
qed

text \<open>
  C30: \<open>Mul\<close> by any \<open>int64\<close> is exact: its check by dividing the wrapped product back detects
  every overflow and rejects nothing that fits.
\<close>

theorem mul_exact:
  assumes "valid_money m" "in64 n"
  shows "exact_result (CurrencyCode m) (amount m * n) (Mul m n)"
  using assms by (rule Mul_exact)

theorem mul_exact_witness:
  "let m = \<lparr>CurrencyCode = ''USD'', Units = 4611686018, Nanos = 427387904\<rparr>
   in exact_result ''USD'' (amount m * 4) (Mul m 4) \<and> isl (Mul m 4)"
proof -
  define m where "m = \<lparr>CurrencyCode = ''USD'', Units = 4611686018, Nanos = 427387904\<rparr>"
  have "valid_money m" unfolding m_def by code_simp
  moreover have "in64 4" by (simp add: in64_bounds)
  ultimately have "exact_result (CurrencyCode m) (amount m * 4) (Mul m 4)" by (rule mul_exact)
  moreover have "maxAmount < \<bar>amount m * 4\<bar>" by (simp add: m_def amount_def money_consts)
  ultimately show ?thesis using exact_result_isl unfolding m_def Let_def by fastforce
qed

text \<open>
  \<open>Compare\<close> of valid values in one currency is the order of the exact amounts, and it answers
  0 only for values that are equal as structs; across currencies it is an error, never an ordering.
\<close>

theorem compare_is_amount_order:
  assumes "valid_money a" "valid_money b"
  shows "Compare a b =
    (if CurrencyCode a \<noteq> CurrencyCode b
     then Inl (Errorf (sentinel_text ErrCurrencyMismatch @ '': '' @ quoted (CurrencyCode a) @ '' vs ''
            @ quoted (CurrencyCode b)) [Sentinel ErrCurrencyMismatch])
     else Inr (sgn (amount a - amount b)))
   \<and> (Compare a b = Inr 0 \<longleftrightarrow> a = b)"
proof -
  have c: "Compare a b =
    (if CurrencyCode a \<noteq> CurrencyCode b
     then Inl (Errorf (sentinel_text ErrCurrencyMismatch @ '': '' @ quoted (CurrencyCode a) @ '' vs ''
            @ quoted (CurrencyCode b)) [Sentinel ErrCurrencyMismatch])
     else Inr (sgn (amount a - amount b)))"
    using assms by (simp add: Compare_def requireSameCurrency_def valid_totalNanos)
  moreover have "CurrencyCode a = CurrencyCode b \<Longrightarrow> amount a = amount b \<Longrightarrow> a = b"
    using valid_money_eqI [OF assms] by simp
  ultimately show ?thesis by (auto simp: sgn_0_0)
qed

theorem compare_is_amount_order_witness:
  "let a = \<lparr>CurrencyCode = ''USD'', Units = 0, Nanos = - 5\<rparr>;
       b = \<lparr>CurrencyCode = ''USD'', Units = 1, Nanos = 0\<rparr>
   in Compare a b = Inr (sgn (amount a - amount b)) \<and> Compare a b = Inr (- 1)"
proof -
  define a where "a = \<lparr>CurrencyCode = ''USD'', Units = 0, Nanos = - 5\<rparr>"
  define b where "b = \<lparr>CurrencyCode = ''USD'', Units = 1, Nanos = 0\<rparr>"
  have "valid_money a" "valid_money b" unfolding a_def b_def by code_simp+
  from compare_is_amount_order [OF this] show ?thesis
    by (simp add: a_def b_def amount_def NanosPerUnit_def)
qed

end
