(* ===== verification/OrderDomain.thy ===== *)
theory OrderDomain
  imports Money
begin

text \<open>
  The order aggregate (\<open>internal/order/order.go\<close>): the status machine, line items, the
  aggregate's validation and its total. An instant (\<open>time.Time\<close>) is the number of
  nanoseconds since the epoch: the sources compare instants and convert them to UTC, which
  changes the presentation and not the instant.
\<close>

section \<open>Status\<close>

text \<open>\<open>Status\<close> is an open \<open>uint8\<close>; \<open>StatusOther n\<close> is a value above the constants.\<close>

datatype Status = StatusUnspecified | StatusPending | StatusConfirmed | StatusShipped
  | StatusCancelled | StatusOther nat

fun statusNum :: "Status \<Rightarrow> nat" where
  "statusNum StatusUnspecified = 0"
| "statusNum StatusPending = 1"
| "statusNum StatusConfirmed = 2"
| "statusNum StatusShipped = 3"
| "statusNum StatusCancelled = 4"
| "statusNum (StatusOther n) = 5 + n"

fun StatusString :: "Status \<Rightarrow> string" where
  "StatusString StatusPending = ''PENDING''"
| "StatusString StatusConfirmed = ''CONFIRMED''"
| "StatusString StatusShipped = ''SHIPPED''"
| "StatusString StatusCancelled = ''CANCELLED''"
| "StatusString _ = ''UNSPECIFIED''"

definition StatusValid :: "Status \<Rightarrow> bool" where
  "StatusValid s \<longleftrightarrow> statusNum s \<ge> statusNum StatusPending \<and> statusNum s \<le> statusNum StatusCancelled"

definition ParseStatus :: "string \<Rightarrow> Status res" where
  "ParseStatus s =
     (if s = ''PENDING'' then Inr StatusPending
      else if s = ''CONFIRMED'' then Inr StatusConfirmed
      else if s = ''SHIPPED'' then Inr StatusShipped
      else if s = ''CANCELLED'' then Inr StatusCancelled
      else if s = ''UNSPECIFIED'' \<or> s = [] then Inr StatusUnspecified
      else Inl (Errorf (''unknown order status '' @ quoted s) []))"

definition AllStatuses :: "Status list" where
  "AllStatuses = [StatusPending, StatusConfirmed, StatusShipped, StatusCancelled]"

text \<open>The map literal; a key it does not hold reads as the nil slice.\<close>

fun allowedTransitions :: "Status \<Rightarrow> Status list" where
  "allowedTransitions StatusPending = [StatusConfirmed, StatusCancelled]"
| "allowedTransitions StatusConfirmed = [StatusShipped, StatusCancelled]"
| "allowedTransitions StatusShipped = []"
| "allowedTransitions StatusCancelled = []"
| "allowedTransitions _ = []"

definition CanTransitionTo :: "Status \<Rightarrow> Status \<Rightarrow> bool" where
  "CanTransitionTo s nxt = list_ex (\<lambda>allowed. allowed = nxt) (allowedTransitions s)"

section \<open>Items and the aggregate\<close>

record Item =
  SKU :: string
  Quantity :: int
  UnitPrice :: money

definition itemValidate :: "Item \<Rightarrow> goerr option" where
  "itemValidate i =
     (if SKU i = [] then
        Some (Errorf (sentinel_text ErrInvalidItem @ '': sku is empty'') [Sentinel ErrInvalidItem])
      else if length (SKU i) > 64 then
        Some (Errorf (sentinel_text ErrInvalidItem @ '': sku exceeds 64 characters'') [Sentinel ErrInvalidItem])
      else if Quantity i \<le> 0 then
        Some (Errorf (sentinel_text ErrInvalidItem @ '': quantity '' @ show_int (Quantity i) @ '' must be positive'')
               [Sentinel ErrInvalidItem])
      else (case Validate (UnitPrice i) of
          Some err \<Rightarrow> Some (Errorf (sentinel_text ErrInvalidItem @ '': unit price: '' @ errorText err)
                             [Sentinel ErrInvalidItem, err])
        | None \<Rightarrow>
            if IsNegative (UnitPrice i) then
              Some (Errorf (sentinel_text ErrInvalidItem @ '': unit price is negative'') [Sentinel ErrInvalidItem])
            else None))"

definition LineTotal :: "Item \<Rightarrow> money res" where
  "LineTotal i = Mul (UnitPrice i) (Quantity i)"

record Order =
  ID :: string
  TenantID :: string
  CustomerID :: string
  Status :: Status
  Items :: "Item list"
  Total :: money
  CreatedAt :: int
  UpdatedAt :: int

text \<open>The \<open>for idx, item := range items\<close> loop of \<open>ComputeTotal\<close>, from index \<open>idx\<close> with the
  running total \<open>acc\<close>.\<close>

fun sumLines :: "nat \<Rightarrow> money \<Rightarrow> Item list \<Rightarrow> money res" where
  "sumLines idx acc [] = Inr acc"
| "sumLines idx acc (item # rest) =
     (case LineTotal item of
        Inl err \<Rightarrow> Inl (Errorf (''item '' @ show_nat idx @ '': '' @ errorText err) [err])
      | Inr line \<Rightarrow> (case Add acc line of
          Inl err \<Rightarrow> Inl (Errorf (''item '' @ show_nat idx @ '': '' @ errorText err) [err])
        | Inr acc' \<Rightarrow> sumLines (Suc idx) acc' rest))"

definition ComputeTotal :: "Item list \<Rightarrow> money res" where
  "ComputeTotal items =
     (case items of
        [] \<Rightarrow> Inl (Sentinel ErrNoItems)
      | first # _ \<Rightarrow> sumLines 0 (Zero (CurrencyCode (UnitPrice first))) items)"

fun validateItems :: "nat \<Rightarrow> Item list \<Rightarrow> goerr option" where
  "validateItems idx [] = None"
| "validateItems idx (item # rest) =
     (case itemValidate item of
        Some err \<Rightarrow> Some (Errorf (''item '' @ show_nat idx @ '': '' @ errorText err) [err])
      | None \<Rightarrow> validateItems (Suc idx) rest)"

definition orderValidate :: "Order \<Rightarrow> goerr option" where
  "orderValidate o' =
     (if TenantID o' = [] then Some (Sentinel ErrMissingTenant)
      else if CustomerID o' = [] then
        Some (Errorf (sentinel_text ErrInvalidItem @ '': customer id is empty'') [Sentinel ErrInvalidItem])
      else if Items o' = [] then Some (Sentinel ErrNoItems)
      else (case validateItems 0 (Items o') of Some err \<Rightarrow> Some err
      | None \<Rightarrow>
        if \<not> StatusValid (Status o') then
          Some (Errorf (sentinel_text ErrInvalidTransition @ '': status '' @ show_nat (statusNum (Status o')))
                 [Sentinel ErrInvalidTransition])
        else (case ComputeTotal (Items o') of Inl err \<Rightarrow> Some err
        | Inr want \<Rightarrow>
          if want \<noteq> Total o' then
            Some (Errorf (''total '' @ MoneyString (Total o') @ '' does not match the sum of items ''
                   @ MoneyString want) [])
          else None)))"

definition orderCancel :: "Order \<Rightarrow> int \<Rightarrow> Order res" where
  "orderCancel o' at =
     (if \<not> CanTransitionTo (Status o') StatusCancelled then
        Inl (Errorf (sentinel_text ErrInvalidTransition @ '': '' @ StatusString (Status o') @ '' -> CANCELLED'')
              [Sentinel ErrInvalidTransition])
      else Inr (o'\<lparr>Status := StatusCancelled, UpdatedAt := at\<rparr>))"

section \<open>The specification\<close>

text \<open>The total an order must have, in nano-units, with no width and no intermediate sum.\<close>

definition exactTotal :: "Item list \<Rightarrow> int" where
  "exactTotal items = (\<Sum>i\<leftarrow>items. amount (UnitPrice i) * Quantity i)"

definition valid_item :: "Item \<Rightarrow> bool" where
  "valid_item i \<longleftrightarrow> itemValidate i = None \<and> in32 (Quantity i)"

definition same_currency :: "Item list \<Rightarrow> bool" where
  "same_currency items = (case items of [] \<Rightarrow> True
     | first # rest \<Rightarrow> list_all (\<lambda>i. CurrencyCode (UnitPrice i) = CurrencyCode (UnitPrice first)) rest)"

lemma itemValidate_None_iff:
  "itemValidate i = None \<longleftrightarrow> SKU i \<noteq> [] \<and> length (SKU i) \<le> 64 \<and> 0 < Quantity i
     \<and> valid_money (UnitPrice i) \<and> \<not> IsNegative (UnitPrice i)"
  unfolding itemValidate_def by (auto split: option.splits)

lemma validateItems_None_iff: "validateItems idx items = None \<longleftrightarrow> list_all (\<lambda>i. itemValidate i = None) items"
  by (induction idx items rule: validateItems.induct) (auto split: option.splits)

lemma nonneg_amount: "\<not> IsNegative m \<Longrightarrow> 0 \<le> amount m"
  by (simp add: IsNegative_def amount_def NanosPerUnit_def)

lemma valid_itemD:
  assumes "valid_item i"
  shows "valid_money (UnitPrice i)" "0 < Quantity i" "in64 (Quantity i)" "0 \<le> amount (UnitPrice i) * Quantity i"
  using assms by (auto simp: valid_item_def itemValidate_None_iff in32_in64 nonneg_amount)

lemma exactTotal_nonneg: "list_all valid_item items \<Longrightarrow> 0 \<le> exactTotal items"
  by (induction items) (auto simp: exactTotal_def dest: valid_itemD(4))

lemma exactTotal_Cons: "exactTotal (i # items) = amount (UnitPrice i) * Quantity i + exactTotal items"
  by (simp add: exactTotal_def)

lemma exact_result_wrap:
  "exact_result c a (Inl e) \<Longrightarrow> a \<le> b \<Longrightarrow> 0 \<le> a \<Longrightarrow> exact_result c b (Inl (Errorf txt [e]))"
  by (simp add: exact_result_def)

lemma exact_result_Inr: "exact_result c a (Inr m) \<longleftrightarrow> valid_money m \<and> CurrencyCode m = c \<and> amount m = a"
  by (simp add: exact_result_def)

text \<open>The loop of \<open>ComputeTotal\<close>, from any running total: because prices are not negative an
  intermediate overflow is an overflow of the whole sum.\<close>

lemma sumLines_exact:
  assumes "list_all valid_item items" "list_all (\<lambda>i. CurrencyCode (UnitPrice i) = c) items"
    and "valid_money acc" "CurrencyCode acc = c" "0 \<le> amount acc"
  shows "exact_result c (amount acc + exactTotal items) (sumLines idx acc items)"
  using assms
proof (induction idx acc items rule: sumLines.induct)
  case (1 idx acc)
  then show ?case by (simp add: exact_result_Inr exactTotal_def)
next
  case (2 idx acc item rest)
  note i = valid_itemD [of item]
  have item: "valid_item item" and c: "CurrencyCode (UnitPrice item) = c" and rest: "0 \<le> exactTotal rest"
    using "2.prems" by (auto intro: exactTotal_nonneg)
  have line: "exact_result c (amount (UnitPrice item) * Quantity item) (LineTotal item)"
    using Mul_exact [OF i(1) [OF item] i(3) [OF item]] c by (simp add: LineTotal_def)
  show ?case
  proof (cases "LineTotal item")
    case (Inl e)
    then show ?thesis
      using line i(4) [OF item] rest "2.prems"(5)
      by (auto simp: exactTotal_Cons intro!: exact_result_wrap)
  next
    case (Inr l)
    then have l: "valid_money l" "CurrencyCode l = c" "amount l = amount (UnitPrice item) * Quantity item"
      using line by (simp_all add: exact_result_Inr)
    have add: "exact_result c (amount acc + amount l) (Add acc l)"
      using combine_exact [of acc l False] "2.prems"(3,4) l by (simp add: Add_def)
    show ?thesis
    proof (cases "Add acc l")
      case (Inl e)
      then show ?thesis
        using add Inr i(4) [OF item] rest "2.prems"(5) l(3)
        by (auto simp: exactTotal_Cons intro!: exact_result_wrap)
    next
      case (Inr acc')
      then have "valid_money acc'" "CurrencyCode acc' = c" "amount acc' = amount acc + amount l"
        using add by (simp_all add: exact_result_Inr)
      moreover from this have "0 \<le> amount acc'" using "2.prems"(5) i(4) [OF item] l(3) by simp
      ultimately have "exact_result c (amount acc' + exactTotal rest) (sumLines (Suc idx) acc' rest)"
        using "2.IH" [OF \<open>LineTotal item = Inr l\<close> Inr] "2.prems" by simp
      then show ?thesis
        using Inr \<open>LineTotal item = Inr l\<close> \<open>amount acc' = _\<close> l(3)
        by (simp add: exactTotal_Cons add.assoc)
    qed
  qed
qed

lemma LineTotal_currency: "LineTotal i = Inr l \<Longrightarrow> valid_item i \<Longrightarrow> valid_money l \<and> CurrencyCode l = CurrencyCode (UnitPrice i)"
  using Mul_exact [OF valid_itemD(1,3), of i i] by (simp add: LineTotal_def exact_result_Inr)

lemma Add_currency: "Add a b = Inr m \<Longrightarrow> valid_money a \<Longrightarrow> valid_money b \<Longrightarrow> CurrencyCode a = CurrencyCode b
    \<and> CurrencyCode m = CurrencyCode a \<and> valid_money m"
  using combine_exact [of a b False]
  by (cases "CurrencyCode a = CurrencyCode b") (auto simp: Add_def exact_result_Inr combine_def requireSameCurrency_def)

lemma sumLines_one_currency:
  assumes "sumLines idx acc items = Inr m" "list_all valid_item items" "valid_money acc"
  shows "list_all (\<lambda>i. CurrencyCode (UnitPrice i) = CurrencyCode acc) items"
  using assms
proof (induction idx acc items rule: sumLines.induct)
  case (2 idx acc item rest)
  obtain l acc' where "LineTotal item = Inr l" "Add acc l = Inr acc'" "sumLines (Suc idx) acc' rest = Inr m"
    using "2.prems"(1) by (auto split: sum.splits)
  moreover from this have "CurrencyCode l = CurrencyCode (UnitPrice item)" "CurrencyCode acc = CurrencyCode l"
    "CurrencyCode acc' = CurrencyCode acc" "valid_money acc'"
    using LineTotal_currency [of item l] Add_currency [of acc l acc'] "2.prems"(2,3) by simp_all
  ultimately show ?case using "2.IH" [of l acc'] "2.prems"(2) by simp
qed simp

lemma Mul_error: "valid_money m \<Longrightarrow> in64 n \<Longrightarrow> Mul m n = Inl e \<Longrightarrow> errorsIs e ErrMoneyOverflow"
  using Mul_exact [of m n] by (simp add: exact_result_def)

lemma Add_error:
  assumes "valid_money a" "valid_money b" "Add a b = Inl e"
  shows "errorsIs e ErrMoneyOverflow \<or> errorsIs e ErrCurrencyMismatch"
  using combine_exact [of a b False] assms
  by (cases "CurrencyCode a = CurrencyCode b") (auto simp: Add_def exact_result_def combine_def requireSameCurrency_def)

lemma sumLines_error:
  assumes "sumLines idx acc items = Inl e" "list_all valid_item items" "valid_money acc"
  shows "errorsIs e ErrMoneyOverflow \<or> errorsIs e ErrCurrencyMismatch"
  using assms
proof (induction idx acc items rule: sumLines.induct)
  case (2 idx acc item rest)
  have item: "valid_item item" and rest: "list_all valid_item rest" using "2.prems"(2) by simp_all
  show ?case
  proof (cases "LineTotal item")
    case (Inl err)
    then have "errorsIs err ErrMoneyOverflow"
      using Mul_error [OF valid_itemD(1) [OF item] valid_itemD(3) [OF item]] by (simp add: LineTotal_def)
    with "2.prems"(1) Inl show ?thesis by auto
  next
    case line: (Inr l)
    then have l: "valid_money l" using LineTotal_currency item by blast
    show ?thesis
    proof (cases "Add acc l")
      case (Inl err)
      with Add_error [OF "2.prems"(3) l] "2.prems"(1) line show ?thesis by auto
    next
      case (Inr acc')
      with Add_currency [OF Inr "2.prems"(3) l] "2.IH" [OF line Inr] "2.prems"(1) line rest show ?thesis by simp
    qed
  qed
qed simp

text \<open>Every amount the arithmetic returns is valid, whatever the quantities, and \<open>NewMoney\<close> leaves a
  valid amount alone.\<close>

lemma fromTotalNanos_valid: "fromTotalNanos c n = Inr m \<Longrightarrow> validCurrencyCode c \<Longrightarrow> valid_money m"
  using fromTotalNanos_exact [of c n] by (simp add: exact_result_Inr)

lemma Mul_valid: "Mul m n = Inr l \<Longrightarrow> valid_money m \<Longrightarrow> valid_money l"
  using fromTotalNanos_valid valid_currency Zero_valid
  by (auto simp: Mul_def Let_def split: sum.splits if_splits)

lemma Add_valid: "Add a b = Inr m \<Longrightarrow> valid_money a \<Longrightarrow> valid_money m"
  using fromTotalNanos_valid valid_currency
  by (auto simp: Add_def combine_def Let_def split: option.splits sum.splits if_splits)

lemma sumLines_valid: "sumLines idx acc items = Inr m \<Longrightarrow> valid_money acc \<Longrightarrow> valid_money m"
  using Add_valid by (induction idx acc items rule: sumLines.induct) (auto split: sum.splits)

lemma ComputeTotal_valid:
  assumes "ComputeTotal items = Inr m" "list_all (\<lambda>i. itemValidate i = None) items"
  shows "valid_money m"
proof -
  obtain i rest where items: "items = i # rest" using assms(1) by (cases items) (auto simp: ComputeTotal_def)
  then have "valid_money (Zero (CurrencyCode (UnitPrice i)))"
    using assms(2) Zero_valid valid_currency by (auto simp: itemValidate_None_iff)
  then show ?thesis using assms(1) sumLines_valid unfolding items ComputeTotal_def list.case by blast
qed

lemma NewMoney_id:
  assumes "valid_money m"
  shows "NewMoney (CurrencyCode m) (Units m) (Nanos m) = Inr m"
proof -
  let ?m = "normalized \<lparr>CurrencyCode = CurrencyCode m, Units = Units m, Nanos = Nanos m\<rparr>"
  have r: "in64 (Units m)" "in32 (Nanos m)"
    using assms by (auto simp: Validate_None_iff money_consts in64_bounds in32_bounds)
  have c: "toUpper (CurrencyCode m) = CurrencyCode m" by (rule valid_currency_toUpper [OF valid_currency [OF assms]])
  note x = normalized_exact [OF r, where c = "CurrencyCode m"]
  have amt: "amount ?m = amount m" using x valid_amount_bound [OF assms] by (auto simp: amount_def)
  have u: "\<bar>Units ?m\<bar> \<le> maxUnits"
    using amt x valid_amount_bound [OF assms] by (auto simp: amount_def money_consts)
  have v: "valid_money ?m" using x c u valid_currency [OF assms] by (auto simp: Validate_None_iff)
  have "?m = m" by (rule valid_money_eqI) (use v assms x c amt in auto)
  with v show ?thesis by (simp add: NewMoney_def Let_def)
qed

section \<open>Properties\<close>

text \<open>
  C31: the total of a non-empty list of valid items is exact whatever the order of the items and
  the widths of the intermediate sums: with one currency it is the mathematical sum of price times
  quantity, and the overflow error appears exactly when that sum fits no value; items in more
  than one currency are never summed.
\<close>

theorem computeTotal_exact:
  assumes "items \<noteq> []" "list_all valid_item items"
  shows "if same_currency items
         then exact_result (CurrencyCode (UnitPrice (hd items))) (exactTotal items) (ComputeTotal items)
         else (\<exists>e. ComputeTotal items = Inl e \<and> (errorsIs e ErrMoneyOverflow \<or> errorsIs e ErrCurrencyMismatch))"
proof -
  obtain i rest where items: "items = i # rest" using assms(1) by (cases items) auto
  define c where "c = CurrencyCode (UnitPrice i)"
  have "valid_item i" using assms(2) items by simp
  then have z: "valid_money (Zero c)" "amount (Zero c) = 0" "CurrencyCode (Zero c) = c"
    using Zero_valid valid_currency valid_itemD(1) unfolding c_def by blast+
  have ct: "ComputeTotal items = sumLines 0 (Zero c) items"
    by (simp add: ComputeTotal_def items c_def)
  have same: "same_currency items \<longleftrightarrow> list_all (\<lambda>i. CurrencyCode (UnitPrice i) = c) items"
    by (simp add: same_currency_def items c_def)
  show ?thesis
  proof (cases "same_currency items")
    case True
    then show ?thesis
      using sumLines_exact [OF assms(2), of c "Zero c" 0] z same ct by (simp add: items c_def)
  next
    case False
    then obtain e where e: "sumLines 0 (Zero c) items = Inl e"
      using sumLines_one_currency [OF _ assms(2) z(1)] z(3) same by (cases "sumLines 0 (Zero c) items") auto
    with sumLines_error [OF e assms(2) z(1)] ct False show ?thesis by simp
  qed
qed

theorem computeTotal_exact_witness:
  "let p = \<lparr>CurrencyCode = ''USD'', Units = 19, Nanos = 990000000\<rparr>;
       q = \<lparr>CurrencyCode = ''EUR'', Units = 1, Nanos = 0\<rparr>;
       xs = [\<lparr>SKU = ''A'', Quantity = 2, UnitPrice = p\<rparr>];
       ys = [\<lparr>SKU = ''A'', Quantity = 2, UnitPrice = p\<rparr>, \<lparr>SKU = ''B'', Quantity = 1, UnitPrice = q\<rparr>]
   in exact_result ''USD'' (exactTotal xs) (ComputeTotal xs)
      \<and> (\<exists>e. ComputeTotal ys = Inl e \<and> (errorsIs e ErrMoneyOverflow \<or> errorsIs e ErrCurrencyMismatch))"
proof -
  define p where "p = \<lparr>CurrencyCode = ''USD'', Units = 19, Nanos = 990000000\<rparr>"
  define q where "q = \<lparr>CurrencyCode = ''EUR'', Units = 1, Nanos = 0\<rparr>"
  define xs where "xs = [\<lparr>SKU = ''A'', Quantity = 2, UnitPrice = p\<rparr>]"
  define ys where "ys = [\<lparr>SKU = ''A'', Quantity = 2, UnitPrice = p\<rparr>, \<lparr>SKU = ''B'', Quantity = 1, UnitPrice = q\<rparr>]"
  have "valid_money p" "valid_money q" unfolding p_def q_def by code_simp+
  then have v: "list_all valid_item xs" "list_all valid_item ys"
    by (simp_all add: xs_def ys_def valid_item_def itemValidate_None_iff in32_bounds IsNegative_def p_def q_def)
  have "xs \<noteq> []" "ys \<noteq> []" by (simp_all add: xs_def ys_def)
  note t = computeTotal_exact [OF \<open>xs \<noteq> []\<close> v(1)] computeTotal_exact [OF \<open>ys \<noteq> []\<close> v(2)]
  have "same_currency xs" "\<not> same_currency ys" "CurrencyCode (UnitPrice (hd xs)) = ''USD''"
    by (simp_all add: xs_def ys_def p_def q_def same_currency_def)
  with t have "exact_result ''USD'' (exactTotal xs) (ComputeTotal xs)"
    "\<exists>e. ComputeTotal ys = Inl e \<and> (errorsIs e ErrMoneyOverflow \<or> errorsIs e ErrCurrencyMismatch)"
    by simp_all
  then show ?thesis by (simp only: Let_def xs_def ys_def p_def q_def simp_thms)
qed

text \<open>
  The order lifecycle moves forward only. Along any number of legal transitions the status
  number grows, every status reached is a real one, and only pending and confirmed orders have a
  successor at all: shipped and cancelled are final, and no status is ever revisited.
\<close>

theorem status_lifecycle:
  "CanTransitionTo\<^sup>+\<^sup>+ s t \<Longrightarrow> statusNum s < statusNum t \<and> StatusValid t \<and> s \<in> {StatusPending, StatusConfirmed}"
proof (induction rule: tranclp.induct)
  case (r_into_trancl a b)
  then show ?case by (cases a) (auto simp: CanTransitionTo_def StatusValid_def)
next
  case (trancl_into_trancl a b c)
  moreover from this(2) have "statusNum b < statusNum c \<and> StatusValid c"
    by (cases b) (auto simp: CanTransitionTo_def StatusValid_def)
  ultimately show ?case by auto
qed

theorem status_lifecycle_witness:
  "CanTransitionTo\<^sup>+\<^sup>+ StatusPending StatusShipped \<and> statusNum StatusPending < statusNum StatusShipped"
proof -
  have "CanTransitionTo StatusPending StatusConfirmed" "CanTransitionTo StatusConfirmed StatusShipped"
    by (simp_all add: CanTransitionTo_def)
  then have r: "CanTransitionTo\<^sup>+\<^sup>+ StatusPending StatusShipped" by (blast intro: tranclp.intros)
  from status_lifecycle [OF this] r show ?thesis by blast
qed

text \<open>
  A status survives being stored by name. Every real status parses back from its name, and a
  name that parses at all is either the empty string or exactly the name of the status returned.
\<close>

theorem status_name_roundtrip:
  "(StatusValid s \<longrightarrow> ParseStatus (StatusString s) = Inr s)
   \<and> (ParseStatus n = Inr t \<longrightarrow> (n = [] \<and> t = StatusUnspecified) \<or> StatusString t = n)"
  by (cases s) (auto simp: ParseStatus_def StatusValid_def)

theorem status_name_roundtrip_witness:
  "ParseStatus (StatusString StatusShipped) = Inr StatusShipped \<and> StatusString StatusCancelled = ''CANCELLED''"
  using status_name_roundtrip [of StatusShipped "''CANCELLED''" StatusCancelled]
  by (simp add: StatusValid_def ParseStatus_def)

lemma orderValidate_None_iff:
  "orderValidate o' = None \<longleftrightarrow> TenantID o' \<noteq> [] \<and> CustomerID o' \<noteq> [] \<and> Items o' \<noteq> []
     \<and> list_all (\<lambda>i. itemValidate i = None) (Items o') \<and> StatusValid (Status o')
     \<and> ComputeTotal (Items o') = Inr (Total o')"
  unfolding orderValidate_def
  by (auto simp: validateItems_None_iff [of 0, symmetric] split: option.splits sum.splits)

text \<open>
  Cancelling keeps the aggregate consistent. From a consistent order it succeeds exactly when
  the order is pending or confirmed; the result is consistent again, differs only in its status and
  its update time, and cannot be cancelled a second time.
\<close>

theorem cancel_preserves_consistency:
  assumes "orderValidate o' = None"
  shows "case orderCancel o' at of
      Inl e \<Rightarrow> errorsIs e ErrInvalidTransition \<and> Status o' \<in> {StatusShipped, StatusCancelled}
    | Inr p \<Rightarrow> orderValidate p = None \<and> Status o' \<in> {StatusPending, StatusConfirmed}
        \<and> p = o'\<lparr>Status := StatusCancelled, UpdatedAt := at\<rparr>
        \<and> (\<forall>at'. \<exists>e. orderCancel p at' = Inl e \<and> errorsIs e ErrInvalidTransition)"
  using assms
  by (cases "Status o'") (auto simp: orderValidate_None_iff orderCancel_def CanTransitionTo_def StatusValid_def)

text \<open>A consistent order, for the witnesses below and in the other theories.\<close>

definition sampleItem :: Item where
  "sampleItem = \<lparr>SKU = ''WIDGET-RED'', Quantity = 2,
     UnitPrice = \<lparr>CurrencyCode = ''USD'', Units = 24, Nanos = 500000000\<rparr>\<rparr>"

definition sampleOrder :: Order where
  "sampleOrder = \<lparr>ID = ''01930000-0000-7000-8000-000000000001'', TenantID = ''acme'', CustomerID = ''bob'', Status = StatusPending,
     Items = [sampleItem], Total = \<lparr>CurrencyCode = ''USD'', Units = 49, Nanos = 0\<rparr>,
     CreatedAt = 1000, UpdatedAt = 1000\<rparr>"

lemma sampleItem_valid: "itemValidate sampleItem = None"
  by code_simp

lemma sampleItem_total: "ComputeTotal [sampleItem] = Inr \<lparr>CurrencyCode = ''USD'', Units = 49, Nanos = 0\<rparr>"
  by code_simp

lemma sampleOrder_valid: "orderValidate sampleOrder = None"
  by (simp add: orderValidate_None_iff sampleOrder_def sampleItem_valid sampleItem_total StatusValid_def)

theorem cancel_preserves_consistency_witness:
  "orderValidate sampleOrder = None \<and> (\<exists>p. orderCancel sampleOrder 5000 = Inr p \<and> orderValidate p = None)"
  using cancel_preserves_consistency [OF sampleOrder_valid, of 5000] sampleOrder_valid
  by (simp add: orderCancel_def CanTransitionTo_def sampleOrder_def)

end
