(* ===== verification/Cursor.thy ===== *)
theory Cursor
  imports OrderDomain "HOL-Library.Word"
begin

text \<open>
  Page tokens (\<open>internal/order/cursor.go\<close>) and the list filter they are issued for
  (\<open>internal/order/store.go\<close>). The unpadded URL-safe base64 encoding and the 32-bit FNV-1a hash
  are written out; the JSON codec of the cursor struct and \<open>uuid.Validate\<close> are the
  parameters of \<open>codec\<close>.
\<close>

unbundle bit_operations_syntax

section \<open>Filter and cursor\<close>

record ListFilter =
  fStatus :: Status
  fCustomerID :: string
  PageSize :: int
  PageToken :: string

record cursor =
  cCreatedAt :: int
  cID :: string
  FilterHash :: "32 word"

text \<open>\<open>json.Marshal\<close> and \<open>json.Unmarshal\<close> at the type \<open>cursor\<close>, and \<open>uuid.Validate\<close>.\<close>

record codec =
  marshal :: "cursor \<Rightarrow> string res"
  unmarshal :: "string \<Rightarrow> cursor res"
  uuidValidate :: "string \<Rightarrow> goerr option"

section \<open>base64.RawURLEncoding\<close>

definition b64alphabet :: string where
  "b64alphabet = ''ABCDEFGHIJKLMNOPQRSTUVWXYZabcdefghijklmnopqrstuvwxyz0123456789-_''"

definition b64char :: "nat \<Rightarrow> char" where
  "b64char n = b64alphabet ! n"

fun index_of :: "char \<Rightarrow> string \<Rightarrow> nat option" where
  "index_of c [] = None"
| "index_of c (x # xs) = (if c = x then Some 0 else map_option Suc (index_of c xs))"

definition b64val :: "char \<Rightarrow> nat option" where
  "b64val c = index_of c b64alphabet"

fun sextets :: "nat list \<Rightarrow> nat list" where
  "sextets [] = []"
| "sextets [a] = [a div 4, (a mod 4) * 16]"
| "sextets [a, b] = [a div 4, (a mod 4) * 16 + b div 16, (b mod 16) * 4]"
| "sextets (a # b # c # r) =
     [a div 4, (a mod 4) * 16 + b div 16, (b mod 16) * 4 + c div 64, c mod 64] @ sextets r"

text \<open>The decoder is not strict: the unused low bits of a final group are dropped.\<close>

fun octets :: "nat list \<Rightarrow> nat list option" where
  "octets [] = Some []"
| "octets [w] = None"
| "octets [w, x] = Some [w * 4 + x div 16]"
| "octets [w, x, y] = Some [w * 4 + x div 16, (x mod 16) * 16 + y div 4]"
| "octets (w # x # y # z # r) =
     map_option (\<lambda>bs. [w * 4 + x div 16, (x mod 16) * 16 + y div 4, (y mod 4) * 64 + z] @ bs) (octets r)"

definition EncodeToString :: "string \<Rightarrow> string" where
  "EncodeToString s = map b64char (sextets (map byte s))"

text \<open>\<open>DecodeString\<close> skips carriage returns and newlines wherever they stand.\<close>

definition DecodeString :: "string \<Rightarrow> string option" where
  "DecodeString s =
     (let vs = map b64val (filter (\<lambda>c. c \<noteq> CHR 0x0A \<and> c \<noteq> CHR 0x0D) s)
      in if list_all (\<lambda>v. v \<noteq> None) vs then map_option (map char_of) (octets (map the vs)) else None)"

section \<open>Tokens\<close>

definition encodeCursor :: "codec \<Rightarrow> cursor \<Rightarrow> string res" where
  "encodeCursor K c =
     (case marshal K c of
        Inl err \<Rightarrow> Inl (Errorf (''encode page token: '' @ errorText err) [err])
      | Inr b \<Rightarrow> Inr (EncodeToString b))"

definition decodeCursor :: "codec \<Rightarrow> string \<Rightarrow> 32 word \<Rightarrow> cursor res" where
  "decodeCursor K token wantHash =
     (case DecodeString token of
        None \<Rightarrow> Inl (Errorf (sentinel_text ErrInvalidPageToken @ '': not valid base64url'') [Sentinel ErrInvalidPageToken])
      | Some raw \<Rightarrow> (case unmarshal K raw of
          Inl _ \<Rightarrow> Inl (Errorf (sentinel_text ErrInvalidPageToken @ '': malformed payload'') [Sentinel ErrInvalidPageToken])
        | Inr c \<Rightarrow>
            if FilterHash c \<noteq> wantHash then
              Inl (Errorf (sentinel_text ErrInvalidPageToken @ '': token was issued for a different filter'')
                    [Sentinel ErrInvalidPageToken])
            else if uuidValidate K (cID c) \<noteq> None then
              Inl (Errorf (sentinel_text ErrInvalidPageToken @ '': token id is not a uuid'') [Sentinel ErrInvalidPageToken])
            else Inr c))"

text \<open>\<open>fnv.New32a\<close>: xor the byte, then multiply, on \<open>uint32\<close>.\<close>

definition fnv32a :: "string \<Rightarrow> 32 word" where
  "fnv32a s = foldl (\<lambda>h c. (h XOR of_nat (byte c)) * 16777619) 2166136261 s"

definition filterHash :: "string \<Rightarrow> ListFilter \<Rightarrow> 32 word" where
  "filterHash tenantID f =
     fnv32a (tenantID @ [CHR 0x00] @ show_nat (statusNum (fStatus f)) @ [CHR 0x00] @ fCustomerID f)"

definition EncodePageToken :: "codec \<Rightarrow> string \<Rightarrow> ListFilter \<Rightarrow> Order \<Rightarrow> string res" where
  "EncodePageToken K tenantID f lst =
     encodeCursor K \<lparr>cCreatedAt = CreatedAt lst, cID = ID lst, FilterHash = filterHash tenantID f\<rparr>"

text \<open>The results \<open>(after, afterID, ok, err)\<close>: \<open>ok = false\<close> without an error is \<^const>\<open>None\<close>.\<close>

definition DecodePageToken :: "codec \<Rightarrow> string \<Rightarrow> ListFilter \<Rightarrow> (int \<times> string) option res" where
  "DecodePageToken K tenantID f =
     (if PageToken f = [] then Inr None
      else (case decodeCursor K (PageToken f) (filterHash tenantID f) of
          Inl err \<Rightarrow> Inl err
        | Inr c \<Rightarrow> Inr (Some (cCreatedAt c, cID c))))"

section \<open>Base64 round trip\<close>

lemma b64_roundtrip_char:
  assumes "n < 64"
  shows "b64val (b64char n) = Some n" "b64char n \<noteq> CHR 0x0A" "b64char n \<noteq> CHR 0x0D"
proof -
  have "list_all (\<lambda>n. b64val (b64char n) = Some n \<and> b64char n \<noteq> CHR 0x0A \<and> b64char n \<noteq> CHR 0x0D) [0..<64]"
    by code_simp
  then have "\<forall>n < 64. b64val (b64char n) = Some n \<and> b64char n \<noteq> CHR 0x0A \<and> b64char n \<noteq> CHR 0x0D"
    by (auto simp: list_all_iff)
  with assms show "b64val (b64char n) = Some n" "b64char n \<noteq> CHR 0x0A" "b64char n \<noteq> CHR 0x0D" by blast+
qed

lemma byte_less: "byte c < 256"
  by (simp add: byte_def of_char_def)

lemma sextets_range: "list_all (\<lambda>a. a < 256) as \<Longrightarrow> list_all (\<lambda>a. a < 64) (sextets as)"
  by (induction as rule: sextets.induct) auto

lemma octets_sextets: "list_all (\<lambda>a. a < 256) as \<Longrightarrow> octets (sextets as) = Some as"
  by (induction as rule: sextets.induct) auto

lemma decode_sextets:
  assumes "list_all (\<lambda>a. a < 64) vs"
  shows "map b64val (filter (\<lambda>c. c \<noteq> CHR 0x0A \<and> c \<noteq> CHR 0x0D) (map b64char vs)) = map Some vs"
  using assms by (induction vs) (auto simp: b64_roundtrip_char)

lemma base64_roundtrip: "DecodeString (EncodeToString s) = Some s"
proof -
  have b: "list_all (\<lambda>a. a < 256) (map byte s)" by (simp add: list_all_iff byte_less)
  note d = decode_sextets [OF sextets_range [OF b]]
  have "map char_of (map byte s) = s" by (simp add: byte_def comp_def)
  then show ?thesis
    using octets_sextets [OF b]
    unfolding DecodeString_def EncodeToString_def d by (simp add: comp_def list_all_iff)
qed

lemma EncodeToString_nonempty: "s \<noteq> [] \<Longrightarrow> EncodeToString s \<noteq> []"
  using base64_roundtrip [of s] by (auto simp: DecodeString_def)

section \<open>Properties\<close>

text \<open>
  What the tokens need of the JSON codec: a cursor whose id is a uuid decodes to itself, and no
  encoding is empty. (Ids are restricted because \<open>json.Marshal\<close> replaces invalid UTF-8.)
\<close>

definition codec_ok :: "codec \<Rightarrow> bool" where
  "codec_ok K \<longleftrightarrow> (\<forall>c b. uuidValidate K (cID c) = None \<longrightarrow> marshal K c = Inr b \<longrightarrow>
     b \<noteq> [] \<and> unmarshal K b = Inr c)"

lemma filterHash_cong:
  "fStatus f = fStatus g \<Longrightarrow> fCustomerID f = fCustomerID g \<Longrightarrow> filterHash t f = filterHash t g"
  by (simp add: filterHash_def)

lemma EncodePageToken_decodes:
  assumes "codec_ok K" "uuidValidate K (ID lst) = None" "EncodePageToken K tenant f lst = Inr tok"
  shows "tok \<noteq> [] \<and> decodeCursor K tok h =
    (if filterHash tenant f \<noteq> h
     then Inl (Errorf (sentinel_text ErrInvalidPageToken @ '': token was issued for a different filter'')
            [Sentinel ErrInvalidPageToken])
     else Inr \<lparr>cCreatedAt = CreatedAt lst, cID = ID lst, FilterHash = filterHash tenant f\<rparr>)"
proof -
  let ?c = "\<lparr>cCreatedAt = CreatedAt lst, cID = ID lst, FilterHash = filterHash tenant f\<rparr>"
  obtain b where b: "marshal K ?c = Inr b" "tok = EncodeToString b"
    using assms(3) by (auto simp: EncodePageToken_def encodeCursor_def split: sum.splits)
  then have "b \<noteq> []" "unmarshal K b = Inr ?c"
    using assms(1,2) unfolding codec_ok_def by (metis cursor.select_convs(2))+
  then show ?thesis
    using assms(2) b(2) by (simp add: decodeCursor_def base64_roundtrip EncodeToString_nonempty)
qed

text \<open>A concrete codec (sign, unary digits and the raw id), for the witnesses.\<close>

definition sampleMarshal :: "cursor \<Rightarrow> string res" where
  "sampleMarshal c = Inr ((if cCreatedAt c < 0 then CHR ''n'' else CHR ''p'')
     # replicate (nat \<bar>cCreatedAt c\<bar>) (CHR ''a'') @ CHR ''b''
     # replicate (unat (FilterHash c)) (CHR ''a'') @ CHR ''b'' # cID c)"

definition sampleUnmarshal :: "string \<Rightarrow> cursor res" where
  "sampleUnmarshal s = (case s of [] \<Rightarrow> Inl (Plain ''unexpected end of JSON input'')
     | c # r \<Rightarrow>
         (let n = length (takeWhile (\<lambda>x. x = CHR ''a'') r);
              r' = drop (Suc n) r;
              m = length (takeWhile (\<lambda>x. x = CHR ''a'') r')
          in Inr \<lparr>cCreatedAt = (if c = CHR ''n'' then - int n else int n), cID = drop (Suc m) r',
                  FilterHash = of_nat m\<rparr>))"

definition sampleCodec :: codec where
  "sampleCodec = \<lparr>marshal = sampleMarshal, unmarshal = sampleUnmarshal,
     uuidValidate = (\<lambda>s. if length s = 36 then None else Some (Plain ''invalid UUID length''))\<rparr>"

lemma takeWhile_run: "takeWhile (\<lambda>x. x = c) (replicate n c @ CHR ''b'' # s) = replicate n c" if "c \<noteq> CHR ''b''"
  using that by (induction n) auto

lemma drop_run: "drop (Suc n) (replicate n c @ x # s) = s"
  by (induction n) auto

lemma sampleCodec_ok: "codec_ok sampleCodec"
  by (auto simp: codec_ok_def sampleCodec_def sampleMarshal_def sampleUnmarshal_def takeWhile_run drop_run Let_def)

text \<open>
  A page token resumes where it was issued. The token of a page's last row decodes, for a
  request with the same status and customer filters and any page size, to exactly that row's sort
  key; a request whose filter hashes differently has the token refused as an invalid page token
  instead of being paged through the wrong rows.
\<close>

theorem page_token_roundtrip:
  assumes "codec_ok K" "uuidValidate K (ID lst) = None"
    and "EncodePageToken K tenant f lst = Inr tok" "PageToken g = tok"
  shows "if filterHash tenant' g = filterHash tenant f
         then DecodePageToken K tenant' g = Inr (Some (CreatedAt lst, ID lst))
         else (\<exists>e. DecodePageToken K tenant' g = Inl e \<and> errorsIs e ErrInvalidPageToken)"
  using EncodePageToken_decodes [OF assms(1-3), of "filterHash tenant' g"] assms(4)
  by (auto simp: DecodePageToken_def)

theorem page_token_roundtrip_witness:
  "\<exists>tok. EncodePageToken sampleCodec ''acme'' \<lparr>fStatus = StatusPending, fCustomerID = [], PageSize = 1, PageToken = []\<rparr>
       sampleOrder = Inr tok
     \<and> DecodePageToken sampleCodec ''acme'' \<lparr>fStatus = StatusPending, fCustomerID = [], PageSize = 7, PageToken = tok\<rparr>
         = Inr (Some (CreatedAt sampleOrder, ID sampleOrder))"
proof -
  let ?f = "\<lparr>fStatus = StatusPending, fCustomerID = [], PageSize = 1, PageToken = []\<rparr>"
  obtain tok where tok: "EncodePageToken sampleCodec ''acme'' ?f sampleOrder = Inr tok"
    by (simp add: EncodePageToken_def encodeCursor_def sampleCodec_def sampleMarshal_def)
  let ?g = "\<lparr>fStatus = StatusPending, fCustomerID = [], PageSize = 7, PageToken = tok\<rparr>"
  have u: "uuidValidate sampleCodec (ID sampleOrder) = None" by (simp add: sampleCodec_def sampleOrder_def)
  have "filterHash ''acme'' ?g = filterHash ''acme'' ?f" by (rule filterHash_cong) simp_all
  with page_token_roundtrip [OF sampleCodec_ok u tok, of ?g "''acme''"] tok show ?thesis by auto
qed

text \<open>
  Whatever string a caller sends as a page token, decoding either refuses it with the invalid
  page token error or yields an id that passed the uuid check: no other error and no unchecked id
  reaches a store. Only the empty token starts at the beginning.
\<close>

theorem page_token_decode_total:
  "case DecodePageToken K tenant f of
     Inl e \<Rightarrow> errorsIs e ErrInvalidPageToken \<and> PageToken f \<noteq> []
   | Inr None \<Rightarrow> PageToken f = []
   | Inr (Some (t, i)) \<Rightarrow> PageToken f \<noteq> [] \<and> uuidValidate K i = None"
  by (auto simp: DecodePageToken_def decodeCursor_def split: sum.splits option.splits if_splits)

end
