(* ===== verification/Store.thy ===== *)
theory Store
  imports Cursor
begin

text \<open>
  The ports of the domain (\<open>internal/order/store.go\<close>): \<open>Store\<close>, \<open>EventPublisher\<close> and
  \<open>Atomic\<close> as records of functions over a state type, and the contract an adapter promises as
  the locale \<open>order_store\<close> (the laws that \<open>ordertest.RunStoreContract\<close> runs against
  every adapter). The lemmas inside the locale hold for every adapter that meets the contract.
\<close>

section \<open>Ports\<close>

record Page =
  Orders :: "Order list"
  NextPageToken :: string

definition DefaultPageSize :: int where
  "DefaultPageSize = 50"

definition MaxPageSize :: int where
  "MaxPageSize = 1000"

definition ClampPageSize :: "int \<Rightarrow> int" where
  "ClampPageSize n = (if n \<le> 0 then DefaultPageSize else if n > MaxPageSize then MaxPageSize else n)"

record Event =
  Type :: string
  AggregateID :: string
  eTenantID :: string
  OccurredAt :: int
  eOrder :: Order

definition EventOrderCreated :: string where
  "EventOrderCreated = ''order.v1.OrderCreated''"

definition EventOrderCancelled :: string where
  "EventOrderCancelled = ''order.v1.OrderCancelled''"

record 's StorePort =
  sCreate :: "Order \<Rightarrow> 's \<Rightarrow> goerr option \<times> 's"
  sGet :: "string \<Rightarrow> string \<Rightarrow> 's \<Rightarrow> Order res"
  sList :: "string \<Rightarrow> ListFilter \<Rightarrow> 's \<Rightarrow> Page res"
  sUpdate :: "Order \<Rightarrow> 's \<Rightarrow> goerr option \<times> 's"

record 's EventPublisher =
  pPublish :: "Event \<Rightarrow> 's \<Rightarrow> goerr option \<times> 's"

text \<open>A transaction body reads and writes the state through the ports it is handed; what the
  closure assigns to its captured variables is the value it returns.\<close>

type_synonym 's txbody = "'s StorePort \<Rightarrow> 's EventPublisher \<Rightarrow> 's \<Rightarrow> Order res \<times> 's"

record 's Atomic =
  aInTx :: "'s txbody \<Rightarrow> 's \<Rightarrow> Order res \<times> 's"

section \<open>What a list request selects\<close>

definition sortKey :: "Order \<Rightarrow> int \<times> string" where
  "sortKey o' = (CreatedAt o', ID o')"

definition matches :: "ListFilter \<Rightarrow> Order \<Rightarrow> bool" where
  "matches f o' \<longleftrightarrow> (fStatus f = StatusUnspecified \<or> Status o' = fStatus f)
     \<and> (fCustomerID f = [] \<or> CustomerID o' = fCustomerID f)"

definition past :: "(int \<times> string) option \<Rightarrow> Order \<Rightarrow> bool" where
  "past cur o' = (case cur of None \<Rightarrow> True | Some c \<Rightarrow> c < sortKey o')"

text \<open>The rows of one tenant that a request selects past a cursor, given the abstract table.\<close>

definition selected ::
  "(string \<times> string \<Rightarrow> Order option) \<Rightarrow> string \<Rightarrow> ListFilter \<Rightarrow> (int \<times> string) option \<Rightarrow> Order set" where
  "selected tab t f cur = {o'. (\<exists>i. tab (t, i) = Some o') \<and> matches f o' \<and> past cur o'}"

text \<open>A correct page of a set of rows: a strictly sorted prefix of them, full when rows remain,
  with the token of its last row exactly then.\<close>

definition page_of :: "codec \<Rightarrow> string \<Rightarrow> ListFilter \<Rightarrow> Order set \<Rightarrow> Page \<Rightarrow> bool" where
  "page_of K t f M p \<longleftrightarrow>
     sorted_wrt (<) (map sortKey (Orders p)) \<and> set (Orders p) \<subseteq> M
     \<and> (\<forall>o' \<in> M - set (Orders p). \<forall>x \<in> set (Orders p). sortKey x < sortKey o')
     \<and> int (length (Orders p)) \<le> ClampPageSize (PageSize f)
     \<and> (if M = set (Orders p) then NextPageToken p = []
        else int (length (Orders p)) = ClampPageSize (PageSize f)
          \<and> EncodePageToken K t f (last (Orders p)) = Inr (NextPageToken p))"

text \<open>A client that follows the tokens: page after page, each read on the state the store has at
  that moment, until a page has no token (\<open>True\<close>) or the states run out (\<open>False\<close>).\<close>

fun walk :: "'s StorePort \<Rightarrow> string \<Rightarrow> ListFilter \<Rightarrow> 's list \<Rightarrow> (Order list \<times> bool) res" where
  "walk S t f [] = Inr ([], False)"
| "walk S t f (s # ss) =
     (case sList S t f s of
        Inl err \<Rightarrow> Inl err
      | Inr p \<Rightarrow>
          if NextPageToken p = [] then Inr (Orders p, True)
          else (case walk S t (f\<lparr>PageToken := NextPageToken p\<rparr>) ss of
              Inl err \<Rightarrow> Inl err
            | Inr (os, fin) \<Rightarrow> Inr (Orders p @ os, fin)))"

section \<open>The contract\<close>

text \<open>
  \<open>tab\<close> and \<open>log\<close> are the abstract table and event log of a state, \<open>inv\<close> its
  representation invariant, \<open>id_ok\<close> the ids the adapter keys correctly, \<open>storable\<close> the
  orders it can read back (every consistent one), \<open>norm\<close>, \<open>enorm\<close> and \<open>cnorm\<close> what its
  columns and queries keep of an order, an event and a cursor (a database rounds times). An event is
  published for an order as it is stored. Operations may fail for reasons of their own (a lost
  connection), and a transaction that reports an error may have committed (a lost reply).
\<close>

locale order_store =
  fixes K :: codec and S :: "'s StorePort" and P :: "'s EventPublisher" and A :: "'s Atomic"
    and tab :: "'s \<Rightarrow> string \<times> string \<Rightarrow> Order option" and log :: "'s \<Rightarrow> Event list"
    and inv :: "'s \<Rightarrow> bool" and id_ok :: "string \<Rightarrow> bool"
    and storable :: "Order \<Rightarrow> bool" and norm :: "Order \<Rightarrow> Order" and enorm :: "Event \<Rightarrow> Event"
    and cnorm :: "int \<times> string \<Rightarrow> int \<times> string"
  assumes tab_wf: "\<lbrakk>inv s; tab s (t, i) = Some o'\<rbrakk> \<Longrightarrow> TenantID o' = t \<and> ID o' = i \<and> t \<noteq> [] \<and> id_ok i
      \<and> storable o' \<and> cnorm (sortKey o') = sortKey o'"
    and create_ok: "\<lbrakk>inv s; id_ok (ID o'); storable o'; sCreate S o' s = (None, s')\<rbrakk> \<Longrightarrow> TenantID o' \<noteq> []
      \<and> tab s (TenantID o', ID o') = None \<and> tab s' = (tab s)((TenantID o', ID o') \<mapsto> norm o') \<and> log s' = log s \<and> inv s'"
    and get_ok: "\<lbrakk>inv s; id_ok i; sGet S t i s = Inr o'\<rbrakk> \<Longrightarrow> tab s (t, i) = Some o'"
    and update_ok: "\<lbrakk>inv s; id_ok (ID o'); storable o'; sUpdate S o' s = (None, s')\<rbrakk> \<Longrightarrow>
      tab s (TenantID o', ID o') \<noteq> None \<and> log s' = log s \<and> inv s'
      \<and> (\<forall>p. tab s (TenantID o', ID o') = Some p \<and> CreatedAt o' = CreatedAt p \<longrightarrow>
           tab s' = (tab s)((TenantID o', ID o') \<mapsto> norm o'))"
    and publish_ok: "\<lbrakk>inv s; tab s (eTenantID ev, AggregateID ev) = Some (norm (eOrder ev)); pPublish P ev s = (None, s')\<rbrakk> \<Longrightarrow>
      tab s' = tab s \<and> log s' = log s @ [enorm ev] \<and> inv s'"
    and intx_commit: "aInTx A fn s = (Inr x, s') \<Longrightarrow> fn S P s = (Inr x, s')"
    and intx_fails: "aInTx A fn s = (Inl e, s') \<Longrightarrow> s' = s \<or> (\<exists>x. fn S P s = (Inr x, s'))"
    and list_page: "\<lbrakk>inv s; sList S t f s = Inr p\<rbrakk> \<Longrightarrow> t \<noteq> [] \<and> (\<exists>cur. DecodePageToken K t f = Inr cur
      \<and> page_of K t f (selected (tab s) t f (map_option cnorm cur)) p)"
    and storable_valid: "orderValidate o' = None \<Longrightarrow> storable o'"
    and storable_cancel: "storable o' \<Longrightarrow> orderCancel o' now = Inr x \<Longrightarrow> storable x"
    and norm_same: "ID (norm o') = ID o' \<and> TenantID (norm o') = TenantID o' \<and> Status (norm o') = Status o'
      \<and> orderValidate (norm o') = orderValidate o'"
    and enorm_same: "Type (enorm ev) = Type ev \<and> AggregateID (enorm ev) = AggregateID ev
      \<and> eTenantID (enorm ev) = eTenantID ev \<and> norm (eOrder (enorm ev)) = norm (eOrder ev)"

text \<open>An adapter that reports every outcome as it is: a refused duplicate and an absent order by
  their sentinels, and an error only of a transaction that left the state alone.\<close>

locale exact_store = order_store +
  assumes create_dup: "\<lbrakk>inv s; tab s (TenantID o', ID o') = Some x\<rbrakk> \<Longrightarrow>
      \<exists>e s'. sCreate S o' s = (Some e, s') \<and> errorsIs e ErrDuplicate"
    and get_absent: "\<lbrakk>inv s; id_ok i; t \<noteq> []; tab s (t, i) = None\<rbrakk> \<Longrightarrow>
      \<exists>e. sGet S t i s = Inl e \<and> errorsIs e ErrNotFound"
    and intx_rollback: "aInTx A fn s = (Inl e, s') \<Longrightarrow> s' = s"

lemma ClampPageSize_range: "1 \<le> ClampPageSize n \<and> ClampPageSize n \<le> MaxPageSize"
  by (simp add: ClampPageSize_def DefaultPageSize_def MaxPageSize_def)

lemma ClampPageSize_idem: "ClampPageSize (ClampPageSize n) = ClampPageSize n"
  by (simp add: ClampPageSize_def DefaultPageSize_def MaxPageSize_def)

text \<open>The two ways a page ends, in the form the walk uses.\<close>

lemma page_of_last:
  assumes "page_of K t f M p" "NextPageToken p = []" "codec_ok K" "\<forall>o' \<in> M. uuidValidate K (ID o') = None"
  shows "set (Orders p) = M"
proof (rule ccontr)
  assume "set (Orders p) \<noteq> M"
  then have len: "int (length (Orders p)) = ClampPageSize (PageSize f)"
    and tok: "EncodePageToken K t f (last (Orders p)) = Inr []"
    using assms(1,2) by (auto simp: page_of_def split: if_splits)
  have "Orders p \<noteq> []" using len ClampPageSize_range [of "PageSize f"] by auto
  then have "last (Orders p) \<in> M" using assms(1) by (auto simp: page_of_def)
  then show False using EncodePageToken_decodes [OF assms(3) _ tok] assms(4) by blast
qed

lemma page_of_more:
  assumes "page_of K t f M p" "NextPageToken p \<noteq> []" "codec_ok K" "\<forall>o' \<in> M. uuidValidate K (ID o') = None"
  shows "Orders p \<noteq> []" "last (Orders p) \<in> M"
    and "DecodePageToken K t (f\<lparr>PageToken := NextPageToken p\<rparr>) = Inr (Some (sortKey (last (Orders p))))"
proof -
  have ne: "M \<noteq> set (Orders p)" using assms(1,2) by (auto simp: page_of_def split: if_splits)
  then have len: "int (length (Orders p)) = ClampPageSize (PageSize f)"
    and tok: "EncodePageToken K t f (last (Orders p)) = Inr (NextPageToken p)"
    using assms(1) by (auto simp: page_of_def split: if_splits)
  show "Orders p \<noteq> []" using len ClampPageSize_range [of "PageSize f"] by auto
  then show M: "last (Orders p) \<in> M" using assms(1) by (auto simp: page_of_def)
  have "filterHash t (f\<lparr>PageToken := NextPageToken p\<rparr>) = filterHash t f" by (rule filterHash_cong) simp_all
  then show "DecodePageToken K t (f\<lparr>PageToken := NextPageToken p\<rparr>) = Inr (Some (sortKey (last (Orders p))))"
    using EncodePageToken_decodes [OF assms(3) _ tok, of "filterHash t f"] M assms(2,4)
    by (simp add: DecodePageToken_def sortKey_def)
qed

lemma sorted_last_greatest:
  fixes f :: "'a \<Rightarrow> 'k::linorder"
  assumes "sorted_wrt (<) (map f xs)" "x \<in> set xs"
  shows "f x \<le> f (last xs)"
  using assms by (induction xs) (auto simp: sorted_wrt_append intro: less_imp_le)

lemma selected_token: "selected tb t (f\<lparr>PageToken := tok\<rparr>) cur = selected tb t f cur"
  by (simp add: selected_def matches_def)

lemma selected_past: "selected tb t f (Some c) = {o' \<in> selected tb t f None. c < sortKey o'}"
  by (auto simp: selected_def past_def)

lemma selected_key_past:
  "k \<in> sortKey ` selected tb t f cur \<Longrightarrow> c < k \<Longrightarrow> k \<in> sortKey ` selected tb t f (Some c)"
  by (auto simp: selected_def past_def)

lemma past_mono: "past cur x \<Longrightarrow> sortKey x < sortKey y \<Longrightarrow> past cur y"
  by (auto simp: past_def split: option.splits dest: less_trans)

text \<open>Cutting strictly sorted rows to the page size is a correct page.\<close>

lemma page_of_take:
  assumes "sorted_wrt (<) (map sortKey xs)" "n = nat (ClampPageSize (PageSize f))"
    and "if n < length xs then Orders p = take n xs \<and> EncodePageToken K t f (take n xs ! (n - 1)) = Inr (NextPageToken p)
      else Orders p = xs \<and> NextPageToken p = []"
  shows "page_of K t f (set xs) p"
proof (cases "n < length xs")
  case True
  have n: "int n = ClampPageSize (PageSize f)" "0 < n" using ClampPageSize_range [of "PageSize f"] assms(2) by auto
  have "last (take n xs) = take n xs ! (n - 1)" using True n(2) by (subst last_conv_nth) (auto simp: min_def)
  then have o: "Orders p = take n xs" and tok: "EncodePageToken K t f (last (take n xs)) = Inr (NextPageToken p)"
    using assms(3) True by simp_all
  have split: "sorted_wrt (<) (map sortKey (take n xs @ drop n xs))" using assms(1) by simp
  then have before: "\<forall>x \<in> set (take n xs). \<forall>y \<in> set (drop n xs). sortKey x < sortKey y"
    by (simp only: map_append sorted_wrt_append) simp
  have "sorted_wrt (<) (map sortKey (take n xs))"
    using split by (simp only: map_append sorted_wrt_append)
  moreover have "set xs = set (take n xs) \<union> set (drop n xs)" by (metis append_take_drop_id set_append)
  moreover from calculation have "set xs \<noteq> set (take n xs)"
    using before True hd_in_set [of "drop n xs"] by (metis UnI2 drop_eq_Nil less_irrefl not_less)
  ultimately show ?thesis
    using before True n o tok split
    by (auto simp: page_of_def sorted_wrt_append intro: in_set_takeD)
next
  case False
  then have "int (length xs) \<le> ClampPageSize (PageSize f)"
    using assms(2) ClampPageSize_range [of "PageSize f"] by auto
  with False assms(1,3) show ?thesis by (simp add: page_of_def)
qed

context order_store
begin

lemma walk_correct:
  assumes "walk S t f ss = Inr (os, fin)" "DecodePageToken K t f = Inr c0" "cur = map_option cnorm c0" "codec_ok K"
    and "\<forall>s \<in> set ss. inv s"
    and "\<forall>s \<in> set ss. \<forall>i o'. tab s (t, i) = Some o' \<longrightarrow> uuidValidate K i = None"
  shows "sorted_wrt (<) (map sortKey os) \<and> (\<forall>o' \<in> set os. past cur o')
    \<and> (fin \<longrightarrow> (\<forall>k. (\<forall>s \<in> set ss. k \<in> sortKey ` selected (tab s) t f cur) \<longrightarrow> k \<in> sortKey ` set os))"
  using assms
proof (induction ss arbitrary: f c0 cur os)
  case Nil
  then show ?case by simp
next
  case (Cons s ss)
  have inv: "inv s" using Cons.prems(5) by simp
  obtain p where p: "sList S t f s = Inr p" using Cons.prems(1) by (auto split: sum.splits)
  define M where "M = selected (tab s) t f cur"
  have page: "page_of K t f M p" using list_page [OF inv p] Cons.prems(2,3) by (auto simp: M_def)
  have uuid: "\<forall>o' \<in> M. uuidValidate K (ID o') = None"
    using Cons.prems(6) tab_wf [OF inv] by (auto simp: M_def selected_def)
  have sorted: "sorted_wrt (<) (map sortKey (Orders p))" and sub: "set (Orders p) \<subseteq> M"
    and rest: "\<And>o' x. o' \<in> M \<Longrightarrow> o' \<notin> set (Orders p) \<Longrightarrow> x \<in> set (Orders p) \<Longrightarrow> sortKey x < sortKey o'"
    using page by (auto simp: page_of_def)
  have pastp: "\<forall>o' \<in> set (Orders p). past cur o'" using sub by (auto simp: M_def selected_def)
  show ?case
  proof (cases "NextPageToken p = []")
    case True
    then show ?thesis
      using Cons.prems(1) p page_of_last [OF page True Cons.prems(4) uuid] sorted pastp
      by (auto simp: M_def)
  next
    case False
    note more = page_of_more [OF page False Cons.prems(4) uuid]
    have cn: "Some (sortKey (last (Orders p))) = map_option cnorm (Some (sortKey (last (Orders p))))"
      using more(2) tab_wf [OF inv] by (auto simp: M_def selected_def)
    let ?l = "last (Orders p)"
    obtain os' where os': "walk S t (f\<lparr>PageToken := NextPageToken p\<rparr>) ss = Inr (os', fin)" "os = Orders p @ os'"
      using Cons.prems(1) p False by (auto split: sum.splits prod.splits)
    have i: "\<forall>s \<in> set ss. inv s"
      and u: "\<forall>s \<in> set ss. \<forall>i o'. tab s (t, i) = Some o' \<longrightarrow> uuidValidate K i = None"
      using Cons.prems(5,6) by simp_all
    have IH: "sorted_wrt (<) (map sortKey os')" "\<forall>o' \<in> set os'. sortKey ?l < sortKey o'"
      "\<And>k. fin \<Longrightarrow> \<forall>s \<in> set ss. k \<in> sortKey ` selected (tab s) t f (Some (sortKey ?l)) \<Longrightarrow> k \<in> sortKey ` set os'"
      using Cons.IH [OF os'(1) more(3) cn Cons.prems(4) i u] by (auto simp: selected_token past_def)
    have cross: "\<forall>x \<in> set (Orders p). \<forall>y \<in> set os'. sortKey x < sortKey y"
      using sorted_last_greatest [OF sorted] IH(2) by (blast intro: le_less_trans)
    have "past cur ?l" using more(2) by (auto simp: M_def selected_def)
    then have "\<forall>o' \<in> set os'. past cur o'" using IH(2) past_mono by blast
    moreover have "k \<in> sortKey ` set os" if "fin" "\<forall>s \<in> set (s # ss). k \<in> sortKey ` selected (tab s) t f cur" for k
    proof (cases "sortKey ?l < k")
      case True
      with that(2) have "\<forall>s \<in> set ss. k \<in> sortKey ` selected (tab s) t f (Some (sortKey ?l))"
        by (meson list.set_intros(2) selected_key_past)
      from IH(3) [OF that(1) this] show ?thesis unfolding os'(2) by (simp add: image_Un)
    next
      case False
      from that(2) obtain o' where "o' \<in> M" "k = sortKey o'" by (auto simp: M_def)
      with rest [of o' ?l] more(1) False have "o' \<in> set (Orders p)" by fastforce
      with \<open>k = _\<close> os'(2) show ?thesis by auto
    qed
    ultimately show ?thesis using os'(2) sorted IH(1) cross pastp by (auto simp: sorted_wrt_append)
  qed
qed

text \<open>Every row of a walk is a row the tenant had, matching the filter, in one of the states read.\<close>

lemma walk_sound:
  assumes "walk S t f ss = Inr (os, fin)" "DecodePageToken K t f = Inr c0" "cur = map_option cnorm c0" "codec_ok K"
    and "\<forall>s \<in> set ss. inv s"
    and "\<forall>s \<in> set ss. \<forall>i o'. tab s (t, i) = Some o' \<longrightarrow> uuidValidate K i = None"
  shows "set os \<subseteq> (\<Union>s \<in> set ss. selected (tab s) t f cur)"
  using assms
proof (induction ss arbitrary: f c0 cur os)
  case Nil
  then show ?case by simp
next
  case (Cons s ss)
  have inv: "inv s" using Cons.prems(5) by simp
  obtain p where p: "sList S t f s = Inr p" using Cons.prems(1) by (auto split: sum.splits)
  define M where "M = selected (tab s) t f cur"
  have page: "page_of K t f M p" using list_page [OF inv p] Cons.prems(2,3) by (auto simp: M_def)
  have uuid: "\<forall>o' \<in> M. uuidValidate K (ID o') = None"
    using Cons.prems(6) tab_wf [OF inv] by (auto simp: M_def selected_def)
  have sub: "set (Orders p) \<subseteq> M" using page by (auto simp: page_of_def)
  show ?case
  proof (cases "NextPageToken p = []")
    case True
    with sub Cons.prems(1) p show ?thesis by (auto simp: M_def)
  next
    case False
    note more = page_of_more [OF page False Cons.prems(4) uuid]
    have cn: "Some (sortKey (last (Orders p))) = map_option cnorm (Some (sortKey (last (Orders p))))"
      using more(2) tab_wf [OF inv] by (auto simp: M_def selected_def)
    obtain os' where os': "walk S t (f\<lparr>PageToken := NextPageToken p\<rparr>) ss = Inr (os', fin)" "os = Orders p @ os'"
      using Cons.prems(1) p False by (auto split: sum.splits prod.splits)
    have "set os' \<subseteq> (\<Union>s \<in> set ss. selected (tab s) t f (Some (sortKey (last (Orders p)))))"
      using Cons.IH [OF os'(1) more(3) cn Cons.prems(4)] Cons.prems(5,6) by (simp add: selected_token)
    moreover have "past cur (last (Orders p))" using more(2) by (simp add: M_def selected_def)
    then have "selected (tab s') t f (Some (sortKey (last (Orders p)))) \<subseteq> selected (tab s') t f cur" for s'
      using past_mono [of cur "last (Orders p)"] by (auto simp: selected_def past_def)
    ultimately have "set os' \<subseteq> (\<Union>s \<in> set ss. selected (tab s) t f cur)"
      by (meson UN_mono order_refl order_trans)
    then show ?thesis using sub os'(2) by (auto simp: M_def)
  qed
qed

text \<open>On a state nobody changes the walk ends: every page but the last moves past at least one
  row.\<close>

lemma walk_ends:
  assumes "walk S t f (replicate n s) = Inr (os, fin)" "DecodePageToken K t f = Inr c0" "cur = map_option cnorm c0" "codec_ok K" "inv s"
    and "\<And>i o'. tab s (t, i) = Some o' \<Longrightarrow> uuidValidate K i = None"
    and "finite (selected (tab s) t f cur)" "card (selected (tab s) t f cur) < n"
  shows "fin"
  using assms
proof (induction n arbitrary: f c0 cur os)
  case 0
  then show ?case by simp
next
  case (Suc n)
  obtain p where p: "sList S t f s = Inr p" using Suc.prems(1) by (auto split: sum.splits)
  define M where "M = selected (tab s) t f cur"
  have page: "page_of K t f M p" using list_page [OF Suc.prems(5) p] Suc.prems(2,3) by (auto simp: M_def)
  have uuid: "\<forall>o' \<in> M. uuidValidate K (ID o') = None"
    using Suc.prems(6) tab_wf [OF Suc.prems(5)] by (auto simp: M_def selected_def)
  show ?case
  proof (cases "NextPageToken p = []")
    case True
    then show ?thesis using Suc.prems(1) p by simp
  next
    case False
    note more = page_of_more [OF page False Suc.prems(4) uuid]
    have cn: "Some (sortKey (last (Orders p))) = map_option cnorm (Some (sortKey (last (Orders p))))"
      using more(2) tab_wf [OF Suc.prems(5)] by (auto simp: M_def selected_def)
    let ?N = "selected (tab s) t f (Some (sortKey (last (Orders p))))"
    obtain os' where os': "walk S t (f\<lparr>PageToken := NextPageToken p\<rparr>) (replicate n s) = Inr (os', fin)"
      using Suc.prems(1) p False by (auto split: sum.splits prod.splits)
    have "past cur (last (Orders p))" using more(2) by (simp add: M_def selected_def)
    then have "?N \<subset> M" using more(2) past_mono [of cur "last (Orders p)"]
      by (fastforce simp: M_def selected_def past_def)
    then have "finite ?N" "card ?N < n"
      using Suc.prems(7,8) psubset_card_mono [of M ?N] finite_subset [of ?N M] by (auto simp: M_def)
    then show ?thesis
      using Suc.IH [OF os' more(3) cn Suc.prems(4,5,6)] by (simp add: selected_token)
  qed
qed

end

end
