(* ===== verification/Service.thy ===== *)
theory Service
  imports Store
begin

text \<open>
  The order service (\<open>internal/order/service.go\<close>, \<open>internal/order/seed.go\<close>): the use cases
  over the ports of \<open>Store\<close>. What \<open>s.newID()\<close> and \<open>s.now()\<close> answer is an argument of
  the operation. The lemmas are proved once, for every adapter that meets the contract
  \<open>order_store\<close>.
\<close>

section \<open>Operations\<close>

record 's Service =
  store :: "'s StorePort"
  atomic :: "'s Atomic"

record CreateCommand =
  cmdTenantID :: string
  cmdCustomerID :: string
  cmdItems :: "Item list"

text \<open>\<open>newUUIDv7\<close>, with what \<open>uuid.NewV7\<close> returned.\<close>

definition newUUIDv7 :: "string res \<Rightarrow> string res" where
  "newUUIDv7 r = (case r of
     Inl err \<Rightarrow> Inl (Errorf (''generate order id: '' @ errorText err) [err])
   | Inr i \<Rightarrow> Inr i)"

definition createBody :: "Order \<Rightarrow> int \<Rightarrow> 's txbody" where
  "createBody o' now st pub s =
     (case sCreate st o' s of
        (Some err, s1) \<Rightarrow> (Inl err, s1)
      | (None, s1) \<Rightarrow>
          (case pPublish pub \<lparr>Type = EventOrderCreated, AggregateID = ID o', eTenantID = TenantID o',
               OccurredAt = now, eOrder = o'\<rparr> s1 of
             (Some err, s2) \<Rightarrow> (Inl err, s2)
           | (None, s2) \<Rightarrow> (Inr o', s2)))"

definition svcCreate :: "'s Service \<Rightarrow> string res \<Rightarrow> int \<Rightarrow> CreateCommand \<Rightarrow> 's \<Rightarrow> Order res \<times> 's" where
  "svcCreate V newID now cmd s =
     (if cmdTenantID cmd = [] then (Inl (Sentinel ErrMissingTenant), s)
      else if cmdItems cmd = [] then (Inl (Sentinel ErrNoItems), s)
      else (case ComputeTotal (cmdItems cmd) of Inl err \<Rightarrow> (Inl err, s)
      | Inr tot \<Rightarrow> (case newID of Inl err \<Rightarrow> (Inl err, s)
      | Inr i \<Rightarrow>
          (let o' = \<lparr>ID = i, TenantID = cmdTenantID cmd, CustomerID = cmdCustomerID cmd,
                     Status = StatusPending, Items = cmdItems cmd, Total = tot,
                     CreatedAt = now, UpdatedAt = now\<rparr>
           in case orderValidate o' of Some err \<Rightarrow> (Inl err, s)
              | None \<Rightarrow> aInTx (atomic V) (createBody o' now) s))))"

definition svcGet :: "'s Service \<Rightarrow> string \<Rightarrow> string \<Rightarrow> 's \<Rightarrow> Order res" where
  "svcGet V tenantID orderID s =
     (if tenantID = [] then Inl (Sentinel ErrMissingTenant) else sGet (store V) tenantID orderID s)"

definition svcList :: "'s Service \<Rightarrow> string \<Rightarrow> ListFilter \<Rightarrow> 's \<Rightarrow> Page res" where
  "svcList V tenantID f s =
     (if tenantID = [] then Inl (Sentinel ErrMissingTenant)
      else sList (store V) tenantID (f\<lparr>PageSize := ClampPageSize (PageSize f)\<rparr>) s)"

definition cancelBody :: "string \<Rightarrow> string \<Rightarrow> int \<Rightarrow> 's txbody" where
  "cancelBody tenantID orderID now st pub s =
     (case sGet st tenantID orderID s of
        Inl err \<Rightarrow> (Inl err, s)
      | Inr o0 \<Rightarrow> (case orderCancel o0 now of
          Inl err \<Rightarrow> (Inl err, s)
        | Inr o' \<Rightarrow> (case sUpdate st o' s of
            (Some err, s1) \<Rightarrow> (Inl err, s1)
          | (None, s1) \<Rightarrow>
              (case pPublish pub \<lparr>Type = EventOrderCancelled, AggregateID = ID o', eTenantID = TenantID o',
                   OccurredAt = now, eOrder = o'\<rparr> s1 of
                 (Some err, s2) \<Rightarrow> (Inl err, s2)
               | (None, s2) \<Rightarrow> (Inr o', s2)))))"

definition svcCancel :: "'s Service \<Rightarrow> int \<Rightarrow> string \<Rightarrow> string \<Rightarrow> 's \<Rightarrow> Order res \<times> 's" where
  "svcCancel V now tenantID orderID s =
     (if tenantID = [] then (Inl (Sentinel ErrMissingTenant), s)
      else aInTx (atomic V) (cancelBody tenantID orderID now) s)"

section \<open>Seed data\<close>

definition SeedTenant :: string where
  "SeedTenant = ''dev-tenant''"

text \<open>\<open>price\<close> panics when the literal is not valid money: \<^const>\<open>None\<close>.\<close>

definition seedPrice :: "int \<Rightarrow> int \<Rightarrow> money option" where
  "seedPrice units nanos = (case NewMoney ''USD'' units nanos of Inr m \<Rightarrow> Some m | Inl _ \<Rightarrow> None)"

definition seedItem :: "string \<Rightarrow> int \<Rightarrow> int \<Rightarrow> int \<Rightarrow> Item option" where
  "seedItem sku q units nanos =
     map_option (\<lambda>p. \<lparr>SKU = sku, Quantity = q, UnitPrice = p\<rparr>) (seedPrice units nanos)"

definition seeds :: "(string \<times> string \<times> Status \<times> Item option list) list" where
  "seeds =
    [(''01930000-0000-7000-8000-000000000001'', ''customer-alice'', StatusPending,
        [seedItem ''WIDGET-BLUE'' 2 19 990000000, seedItem ''GIZMO-SMALL'' 1 4 500000000]),
     (''01930000-0000-7000-8000-000000000002'', ''customer-bob'', StatusConfirmed,
        [seedItem ''WIDGET-RED'' 1 24 0]),
     (''01930000-0000-7000-8000-000000000003'', ''customer-alice'', StatusCancelled,
        [seedItem ''DOODAD'' 10 0 990000000])]"

fun seedLoop :: "'s StorePort \<Rightarrow> int \<Rightarrow> nat \<Rightarrow> (string \<times> string \<times> Status \<times> Item list) list \<Rightarrow> 's
    \<Rightarrow> goerr option \<times> 's" where
  "seedLoop st at i [] s = (None, s)"
| "seedLoop st at i ((sid, customer, status, items) # rest) s =
     (case ComputeTotal items of
        Inl err \<Rightarrow> (Some (Errorf (''seed '' @ sid @ '': '' @ errorText err) [err]), s)
      | Inr tot \<Rightarrow>
          (let createdAt = at + int i * 60000000000;
               o' = \<lparr>ID = sid, TenantID = SeedTenant, CustomerID = customer, Status = status, Items = items,
                     Total = tot, CreatedAt = createdAt, UpdatedAt = createdAt\<rparr>
           in case orderValidate o' of
                Some err \<Rightarrow> (Some (Errorf (''seed '' @ sid @ '' is invalid: '' @ errorText err) [err]), s)
              | None \<Rightarrow> (case sCreate st o' s of
                  (Some err, s1) \<Rightarrow> (Some (Errorf (''seed '' @ sid @ '': '' @ errorText err) [err]), s1)
                | (None, s1) \<Rightarrow> seedLoop st at (Suc i) rest s1)))"

text \<open>The whole function; \<^const>\<open>None\<close> is the panic of \<open>price\<close>, which happens before any
  write because the literal list is built first.\<close>

definition Seed :: "'s StorePort \<Rightarrow> int \<Rightarrow> 's \<Rightarrow> (goerr option \<times> 's) option" where
  "Seed st at s =
     (if list_all (\<lambda>(_, _, _, items). list_all (\<lambda>i. i \<noteq> None) items) seeds
      then Some (seedLoop st at 0 (map (\<lambda>(sid, c, status, items). (sid, c, status, map the items)) seeds) s)
      else None)"

section \<open>Every adapter: what a use case does to the table and the event log\<close>

definition created_event :: "Order \<Rightarrow> int \<Rightarrow> Event" where
  "created_event o' now = \<lparr>Type = EventOrderCreated, AggregateID = ID o', eTenantID = TenantID o',
     OccurredAt = now, eOrder = o'\<rparr>"

definition cancelled_event :: "Order \<Rightarrow> int \<Rightarrow> Event" where
  "cancelled_event o' now = \<lparr>Type = EventOrderCancelled, AggregateID = ID o', eTenantID = TenantID o',
     OccurredAt = now, eOrder = o'\<rparr>"

text \<open>The table a log describes: the last snapshot of every order.\<close>

fun replay :: "Event list \<Rightarrow> string \<times> string \<Rightarrow> Order option" where
  "replay [] = Map.empty"
| "replay (e # es) = (\<lambda>k. case replay es k of
      Some o' \<Rightarrow> Some o'
    | None \<Rightarrow> if k = (eTenantID e, AggregateID e) then Some (eOrder e) else None)"

definition history :: "Event list \<Rightarrow> string \<times> string \<Rightarrow> string list" where
  "history es k = map Type (filter (\<lambda>e. (eTenantID e, AggregateID e) = k) es)"

definition expected_history :: "Order option \<Rightarrow> string list" where
  "expected_history r = (case r of None \<Rightarrow> []
     | Some o' \<Rightarrow> if Status o' = StatusCancelled then [EventOrderCreated, EventOrderCancelled] else [EventOrderCreated])"

text \<open>Table and log agree: replaying the log gives the table, every order's events are one
  creation and, exactly for a cancelled order, one cancellation after it, and every order stored
  is consistent.\<close>

definition journal :: "(string \<times> string \<Rightarrow> Order option) \<Rightarrow> Event list \<Rightarrow> bool" where
  "journal tb es \<longleftrightarrow> replay es = tb \<and> history es = (\<lambda>k. expected_history (tb k))
     \<and> (\<forall>o' \<in> ran tb. orderValidate o' = None)"

text \<open>The same when the table keeps only \<open>n\<close> of an order.\<close>

definition journal_upto :: "(Order \<Rightarrow> Order) \<Rightarrow> (string \<times> string \<Rightarrow> Order option) \<Rightarrow> Event list \<Rightarrow> bool" where
  "journal_upto n tb es \<longleftrightarrow> (\<lambda>k. map_option n (replay es k)) = tb \<and> history es = (\<lambda>k. expected_history (tb k))
     \<and> (\<forall>o' \<in> ran tb. orderValidate o' = None)"

lemma journal_upto_id: "journal_upto (\<lambda>x. x) = journal"
  by (simp add: fun_eq_iff journal_upto_def journal_def option.map_ident)

lemma replay_snoc: "replay (es @ [e]) = (replay es)((eTenantID e, AggregateID e) \<mapsto> eOrder e)"
  by (induction es) (auto simp: fun_eq_iff split: option.splits)

lemma history_snoc:
  "history (es @ [e]) k = history es k @ (if (eTenantID e, AggregateID e) = k then [Type e] else [])"
  by (simp add: history_def)

text \<open>States reached by any sequence of use cases, failures included, whatever ids and times the
  environment supplies (\<open>Get\<close> and \<open>List\<close> change nothing).\<close>

inductive svc_reach :: "'s Service \<Rightarrow> (string \<Rightarrow> bool) \<Rightarrow> 's \<Rightarrow> 's \<Rightarrow> bool" for V ok s0 where
  start: "svc_reach V ok s0 s0"
| create: "svc_reach V ok s0 s \<Longrightarrow> \<forall>i. newID = Inr i \<longrightarrow> ok i \<Longrightarrow> svcCreate V newID now cmd s = (r, s')
    \<Longrightarrow> svc_reach V ok s0 s'"
| cancel: "svc_reach V ok s0 s \<Longrightarrow> ok i \<Longrightarrow> svcCancel V now t i s = (r, s') \<Longrightarrow> svc_reach V ok s0 s'"

lemma journal_step:
  assumes "journal_upto n tb es" "(eTenantID e, AggregateID e) = k" "n (eOrder e) = x"
    "expected_history (Some x) = expected_history (tb k) @ [Type e]" "orderValidate x = None"
  shows "journal_upto n (tb(k \<mapsto> x)) (es @ [e])"
proof -
  have "(\<lambda>k'. map_option n (replay (es @ [e]) k')) = tb(k \<mapsto> x)"
    using assms(1-3) by (auto simp: journal_upto_def replay_snoc fun_eq_iff)
  moreover have "history (es @ [e]) = (\<lambda>k'. expected_history ((tb(k \<mapsto> x)) k'))"
    using assms(1,2,4) by (auto simp: journal_upto_def history_snoc fun_eq_iff)
  moreover have "\<forall>y \<in> ran (tb(k \<mapsto> x)). orderValidate y = None"
    using assms(1,5) by (auto simp: journal_upto_def ran_def)
  ultimately show ?thesis by (simp add: journal_upto_def)
qed

lemma orderCancel_Inr:
  assumes "orderCancel p now = Inr x"
  shows "Status p \<noteq> StatusCancelled" "x = p\<lparr>Status := StatusCancelled, UpdatedAt := now\<rparr>"
  using assms by (auto simp: orderCancel_def CanTransitionTo_def split: if_splits)

lemma orderCancel_valid:
  assumes "orderCancel p now = Inr x" "orderValidate p = None"
  shows "orderValidate x = None"
  using assms(2) orderCancel_Inr(2) [OF assms(1)] by (simp add: orderValidate_None_iff StatusValid_def)

context order_store
begin

lemma journal_create:
  assumes "journal_upto norm tb es" "tb (TenantID x, ID x) = None" "orderValidate x = None" "Status x = StatusPending"
  shows "journal_upto norm (tb((TenantID x, ID x) \<mapsto> norm x)) (es @ [enorm (created_event x now)])"
  using assms norm_same [of x] enorm_same [of "created_event x now"]
  by (intro journal_step) (simp_all add: created_event_def expected_history_def)

lemma journal_cancel:
  assumes "journal_upto norm tb es" "tb (TenantID p, ID p) = Some p" "orderCancel p now = Inr x"
  shows "journal_upto norm (tb((TenantID p, ID p) \<mapsto> norm x)) (es @ [enorm (cancelled_event x now)])"
proof -
  note x = orderCancel_Inr [OF assms(3)]
  have "orderValidate p = None" using assms(1,2) by (auto simp: journal_upto_def intro: ranI)
  with orderCancel_valid [OF assms(3)] assms(1,2) x norm_same [of x] enorm_same [of "cancelled_event x now"] show ?thesis
    by (intro journal_step) (simp_all add: cancelled_event_def expected_history_def)
qed

text \<open>The effect of a use case that commits.\<close>

definition created where
  "created t newID now s s' x \<longleftrightarrow> orderValidate x = None \<and> Status x = StatusPending \<and> TenantID x = t
     \<and> newID = (Inr (ID x) :: string res) \<and> tab s (TenantID x, ID x) = None
     \<and> tab s' = (tab s)((TenantID x, ID x) \<mapsto> norm x) \<and> log s' = log s @ [enorm (created_event x now)] \<and> inv s'"

definition cancelled where
  "cancelled t i now s s' x \<longleftrightarrow> (\<exists>p. tab s (t, i) = Some p \<and> orderCancel p now = Inr x
     \<and> tab s' = (tab s)((t, i) \<mapsto> norm x) \<and> log s' = log s @ [enorm (cancelled_event x now)] \<and> inv s')"

lemma createBody_commits:
  assumes "inv s" "id_ok (ID o')" "orderValidate o' = None" "Status o' = StatusPending" "createBody o' now S P s = (Inr x, s')"
  shows "x = o' \<and> created (TenantID o') (Inr (ID o')) now s s' o'"
proof -
  obtain s1 where c: "sCreate S o' s = (None, s1)"
    and p: "pPublish P (created_event o' now) s1 = (None, s')" and x: "x = o'"
    using assms(5) by (auto simp: createBody_def created_event_def split: prod.splits option.splits)
  note c' = create_ok [OF assms(1,2) storable_valid [OF assms(3)] c]
  then show ?thesis using publish_ok [OF _ _ p] x assms(3,4) by (simp add: created_def created_event_def)
qed

lemma cancelBody_commits:
  assumes "inv s" "id_ok i" "cancelBody t i now S P s = (Inr x, s')"
  shows "cancelled t i now s s' x"
proof -
  obtain p s1 where g: "sGet S t i s = Inr p" and c: "orderCancel p now = Inr x"
    and u: "sUpdate S x s = (None, s1)" and b: "pPublish P (cancelled_event x now) s1 = (None, s')"
    using assms(3)
    by (auto simp: cancelBody_def cancelled_event_def split: prod.splits option.splits sum.splits)
  have p: "tab s (t, i) = Some p" by (rule get_ok [OF assms(1,2) g])
  have v: "storable x" using storable_cancel [OF _ c] tab_wf [OF assms(1) p] by blast
  have x: "TenantID x = t" "ID x = i" "CreatedAt x = CreatedAt p"
    using orderCancel_Inr(2) [OF c] tab_wf [OF assms(1) p] by auto
  have u': "log s1 = log s \<and> inv s1 \<and> tab s1 = (tab s)((t, i) \<mapsto> norm x)"
    using update_ok [OF assms(1) _ v u] p assms(2) unfolding x by blast
  have "tab s1 (eTenantID (cancelled_event x now), AggregateID (cancelled_event x now)) = Some (norm (eOrder (cancelled_event x now)))"
    using u' x by (simp add: cancelled_event_def)
  then show ?thesis using p c u' publish_ok [OF _ _ b] by (simp add: cancelled_def)
qed

text \<open>A use case that succeeds commits its write and its event together; one that fails leaves
  the state as it was, unless only the reply to its commit was lost.\<close>

lemma create_effect:
  assumes "inv s" "\<forall>i. newID = Inr i \<longrightarrow> id_ok i" "svcCreate \<lparr>store = S, atomic = A\<rparr> newID now cmd s = (r, s')"
  shows "case r of Inl _ \<Rightarrow> s' = s \<or> (\<exists>x. created (cmdTenantID cmd) newID now s s' x)
    | Inr x \<Rightarrow> created (cmdTenantID cmd) newID now s s' x"
proof (cases "\<exists>e. r = Inl e \<and> s' = s")
  case False
  then obtain o' where o': "orderValidate o' = None" "Status o' = StatusPending" "TenantID o' = cmdTenantID cmd"
      "newID = Inr (ID o')" "aInTx A (createBody o' now) s = (r, s')"
    using assms(3) by (auto simp: svcCreate_def Let_def split: if_splits sum.splits option.splits)
  then obtain x where x: "createBody o' now S P s = (Inr x, s')" "r = Inr x \<or> (\<exists>e. r = Inl e)"
    using intx_commit intx_fails False by (cases r) blast+
  from createBody_commits [OF assms(1) _ o'(1,2) x(1)] assms(2) o'(3,4) x(2) show ?thesis by auto
qed auto

lemma cancel_effect:
  assumes "inv s" "id_ok i" "svcCancel \<lparr>store = S, atomic = A\<rparr> now t i s = (r, s')"
  shows "case r of Inl _ \<Rightarrow> s' = s \<or> (\<exists>x. cancelled t i now s s' x) | Inr x \<Rightarrow> cancelled t i now s s' x"
proof (cases "\<exists>e. r = Inl e \<and> s' = s")
  case False
  then have "aInTx A (cancelBody t i now) s = (r, s')"
    using assms(3) by (auto simp: svcCancel_def split: if_splits)
  then obtain x where x: "cancelBody t i now S P s = (Inr x, s')" "r = Inr x \<or> (\<exists>e. r = Inl e)"
    using intx_commit intx_fails False by (cases r) blast+
  from cancelBody_commits [OF assms(1,2) x(1)] x(2) show ?thesis by auto
qed auto

lemma created_journal:
  assumes "created t newID now s s' x" "journal_upto norm (tab s) (log s)"
  shows "inv s' \<and> journal_upto norm (tab s') (log s')"
  using assms journal_create [of "tab s" "log s" x now] unfolding created_def by metis

lemma cancelled_journal:
  assumes "cancelled t i now s s' x" "inv s" "journal_upto norm (tab s) (log s)"
  shows "inv s' \<and> journal_upto norm (tab s') (log s')"
proof -
  obtain p where p: "tab s (t, i) = Some p" "orderCancel p now = Inr x"
    and e: "tab s' = (tab s)((t, i) \<mapsto> norm x)" "log s' = log s @ [enorm (cancelled_event x now)]" "inv s'"
    using assms(1) by (auto simp: cancelled_def)
  have k: "TenantID p = t" "ID p = i" using tab_wf [OF assms(2) p(1)] by blast+
  show ?thesis unfolding e(1,2) using journal_cancel [OF assms(3), of p now x] p e(3) unfolding k by blast
qed

text \<open>Table and log stay in agreement, step by step and in every state reached.\<close>

lemma create_keeps:
  assumes "inv s" "journal_upto norm (tab s) (log s)" "\<forall>i. newID = Inr i \<longrightarrow> id_ok i"
    and "svcCreate \<lparr>store = S, atomic = A\<rparr> newID now cmd s = (r, s')"
  shows "inv s' \<and> journal_upto norm (tab s') (log s')"
  using create_effect [OF assms(1,3,4)] assms(1,2) created_journal [OF _ assms(2)] by (cases r) auto

lemma cancel_keeps:
  assumes "inv s" "journal_upto norm (tab s) (log s)" "id_ok i"
    and "svcCancel \<lparr>store = S, atomic = A\<rparr> now t i s = (r, s')"
  shows "inv s' \<and> journal_upto norm (tab s') (log s')"
  using cancel_effect [OF assms(1,3,4)] assms(1,2) cancelled_journal [OF _ assms(1,2)] by (cases r) auto

lemma reach_journal:
  assumes "svc_reach \<lparr>store = S, atomic = A\<rparr> id_ok s0 s" "inv s0" "journal_upto norm (tab s0) (log s0)"
  shows "inv s \<and> journal_upto norm (tab s) (log s)"
  using assms
proof (induction rule: svc_reach.induct)
  case start
  then show ?case by simp
next
  case (create s newID now cmd r s')
  then show ?case using create_keeps [OF _ _ create.hyps(2,3)] by simp
next
  case (cancel s i now t r s')
  then show ?case using cancel_keeps [OF _ _ cancel.hyps(2,3)] by simp
qed

text \<open>An order one tenant stores is not readable by another: it is absent from the other's table.\<close>

lemma get_tenant_isolated:
  assumes "inv s" "id_ok i" "svcGet \<lparr>store = S, atomic = A\<rparr> t i s = Inr x"
  shows "TenantID x = t \<and> ID x = i \<and> tab s (t, i) = Some x"
proof -
  have "tab s (t, i) = Some x"
    using assms(3) get_ok [OF assms(1,2)] by (simp add: svcGet_def split: if_splits)
  with tab_wf [OF assms(1) this] show ?thesis by simp
qed

end

context exact_store
begin

lemma create_fails_alone:
  "svcCreate \<lparr>store = S, atomic = A\<rparr> newID now cmd s = (Inl e, s') \<Longrightarrow> s' = s"
  using intx_rollback by (auto simp: svcCreate_def Let_def split: if_splits sum.splits option.splits)

lemma cancel_fails_alone: "svcCancel \<lparr>store = S, atomic = A\<rparr> now t i s = (Inl e, s') \<Longrightarrow> s' = s"
  using intx_rollback by (auto simp: svcCancel_def split: if_splits)

text \<open>The two use cases, spelled out.\<close>

lemma create_atomic:
  assumes "inv s" "\<forall>i. newID = Inr i \<longrightarrow> id_ok i" "svcCreate \<lparr>store = S, atomic = A\<rparr> newID now cmd s = (r, s')"
  shows "case r of Inl _ \<Rightarrow> s' = s
    | Inr x \<Rightarrow> orderValidate x = None \<and> Status x = StatusPending \<and> TenantID x = cmdTenantID cmd
        \<and> newID = Inr (ID x) \<and> tab s (TenantID x, ID x) = None
        \<and> tab s' = (tab s)((TenantID x, ID x) \<mapsto> norm x) \<and> log s' = log s @ [enorm (created_event x now)] \<and> inv s'"
  using create_effect [OF assms] create_fails_alone assms(3) by (cases r) (auto simp: created_def)

lemma cancel_atomic:
  assumes "inv s" "id_ok i" "svcCancel \<lparr>store = S, atomic = A\<rparr> now t i s = (r, s')"
  shows "case r of Inl _ \<Rightarrow> s' = s
    | Inr x \<Rightarrow> \<exists>p. tab s (t, i) = Some p \<and> orderCancel p now = Inr x \<and> tab s' = (tab s)((t, i) \<mapsto> norm x)
        \<and> log s' = log s @ [enorm (cancelled_event x now)] \<and> inv s'"
  using cancel_effect [OF assms] cancel_fails_alone assms(3) by (cases r) (auto simp: cancelled_def)

end

end
