(* ===== verification/Gormx.thy ===== *)
theory Gormx
  imports Errors
begin

text \<open>
  The tenant guard of the database layer (\<open>internal/platform/gormx/tenant.go\<close>): the callback that
  adds the tenant predicate to a query, update, delete or row statement on a tenant-scoped model, or
  fails the statement. The values GORM is handed are known by their Go types. Conditions are joined the
  way GORM documents: one after the other without parentheses, each with AND or, when it was added by
  \<open>Or\<close>, with OR.
\<close>

section \<open>Types and scoping\<close>

text \<open>A Go type as \<open>reflect\<close> shows it. A named type carries the column its \<open>TenantColumn\<close>
  method returns, if it has one, and whether the method is declared on the pointer.\<close>

datatype gotype = Named "(string \<times> bool) option" | Pointer gotype | Slice gotype | Array gotype

text \<open>The type assertion \<open>c.(TenantScoped)\<close>: a value has the methods declared on values, a
  pointer also those declared on pointers.\<close>

fun assertScoped :: "gotype \<Rightarrow> string option" where
  "assertScoped (Named (Some (col, onPointer))) = (if onPointer then None else Some col)"
| "assertScoped (Pointer (Named (Some (col, _)))) = Some col"
| "assertScoped _ = None"

fun elemOf :: "gotype \<Rightarrow> string option" where
  "elemOf (Pointer t) = elemOf t"
| "elemOf (Slice t) = elemOf t"
| "elemOf (Array t) = elemOf t"
| "elemOf (Named m) = assertScoped (Pointer (Named m))"

fun tenantScopedOf :: "gotype option list \<Rightarrow> string option" where
  "tenantScopedOf [] = None"
| "tenantScopedOf (None # cs) = tenantScopedOf cs"
| "tenantScopedOf (Some c # cs) =
     (case assertScoped c of Some ts \<Rightarrow> Some ts
      | None \<Rightarrow> (case elemOf c of Some ts \<Rightarrow> Some ts | None \<Rightarrow> tenantScopedOf cs))"

section \<open>The guard\<close>

text \<open>The tenant a context carries, \<^const>\<open>None\<close> when it carries none.\<close>

definition TenantFromContext :: "string option \<Rightarrow> string option" where
  "TenantFromContext ctx = (case ctx of None \<Rightarrow> None | Some t \<Rightarrow> if t \<noteq> [] then Some t else None)"

text \<open>A statement before it runs: whether its SQL was written by hand, the model and destination it
  was handed, and its conditions in order, each with whether it is joined to those before it by OR and
  a predicate on a row (a condition written in one piece, or a group in parentheses, is one
  predicate). A row is read by column.\<close>

record 'r statement =
  rawSQL :: bool
  stModel :: "gotype option"
  stDest :: "gotype option"
  stWhere :: "(bool \<times> ('r \<Rightarrow> bool)) list"

definition tenantGuard :: "(string \<Rightarrow> 'r \<Rightarrow> string) \<Rightarrow> string option \<Rightarrow> 'r statement \<Rightarrow> 'r statement res" where
  "tenantGuard column ctx st =
     (if rawSQL st then Inr st
      else (case tenantScopedOf [stModel st, stDest st] of
        None \<Rightarrow> Inr st
      | Some col \<Rightarrow> (case TenantFromContext ctx of
          None \<Rightarrow> Inl (Sentinel ErrNoTenantInContext)
        | Some tenant \<Rightarrow> Inr (st\<lparr>stWhere := stWhere st @ [(False, \<lambda>r. column col r = tenant)]\<rparr>))))"

text \<open>The rows a statement selects. GORM puts the first condition that was not added by \<open>Or\<close> in front
  (it changes places with the one there). AND binds tighter than OR, so the conditions since the last OR
  are one alternative; the first condition is joined to nothing.\<close>

definition andFirst :: "(bool \<times> 'p) list \<Rightarrow> (bool \<times> 'p) list" where
  "andFirst cs = (case (takeWhile fst cs, dropWhile fst cs) of
     (c # ors, a # rest) \<Rightarrow> a # ors @ c # rest
   | _ \<Rightarrow> cs)"

fun whereRest :: "bool \<Rightarrow> (bool \<times> ('r \<Rightarrow> bool)) list \<Rightarrow> 'r \<Rightarrow> bool" where
  "whereRest alt [] r = alt"
| "whereRest alt ((byOr, p) # cs) r = (if byOr then alt \<or> whereRest (p r) cs r else whereRest (alt \<and> p r) cs r)"

fun whereJoined :: "(bool \<times> ('r \<Rightarrow> bool)) list \<Rightarrow> 'r \<Rightarrow> bool" where
  "whereJoined [] r = True"
| "whereJoined ((_, p) # cs) r = whereRest (p r) cs r"

definition whereHolds :: "(bool \<times> ('r \<Rightarrow> bool)) list \<Rightarrow> 'r \<Rightarrow> bool" where
  "whereHolds cs r = whereJoined (andFirst cs) r"

definition selectRows :: "'r statement \<Rightarrow> 'r list \<Rightarrow> 'r list" where
  "selectRows st rows = filter (whereHolds (stWhere st)) rows"

text \<open>The callback is registered for four of GORM's processors; each registration may fail, and then
  the rest is not tried. A statement of another processor runs as it is.\<close>

datatype processor = QueryProc | UpdateProc | DeleteProc | RowProc | CreateProc | RawProc

fun registerGuard :: "(processor \<Rightarrow> goerr option) \<Rightarrow> processor list \<Rightarrow> goerr option \<times> processor list" where
  "registerGuard fails [] = (None, [])"
| "registerGuard fails (pr # prs) = (case fails pr of
     Some err \<Rightarrow> (Some err, [])
   | None \<Rightarrow> map_prod id ((#) pr) (registerGuard fails prs))"

definition RegisterTenantGuard :: "(processor \<Rightarrow> goerr option) \<Rightarrow> goerr option \<times> processor list" where
  "RegisterTenantGuard fails = registerGuard fails [QueryProc, UpdateProc, DeleteProc, RowProc]"

definition beforeStatement :: "processor list \<Rightarrow> (string \<Rightarrow> 'r \<Rightarrow> string) \<Rightarrow> string option \<Rightarrow> processor \<Rightarrow> 'r statement \<Rightarrow> 'r statement res" where
  "beforeStatement registered column ctx pr st = (if pr \<in> set registered then tenantGuard column ctx st else Inr st)"

section \<open>Properties\<close>

fun coreType :: "gotype \<Rightarrow> gotype" where
  "coreType (Pointer t) = coreType t"
| "coreType (Slice t) = coreType t"
| "coreType (Array t) = coreType t"
| "coreType (Named m) = Named m"

lemma elemOf_core: "elemOf t = (case coreType t of Named (Some (col, _)) \<Rightarrow> Some col | _ \<Rightarrow> None)"
proof (induction t)
  case (Named m)
  then show ?case by (cases m) auto
qed auto

lemma assertScoped_elem: "assertScoped t = Some col \<Longrightarrow> elemOf t = Some col"
  by (induction t rule: assertScoped.induct) (auto split: if_splits)

lemma tenantScopedOf_Cons:
  "tenantScopedOf (c # cs) = (case Option.bind c elemOf of Some ts \<Rightarrow> Some ts | None \<Rightarrow> tenantScopedOf cs)"
  using assertScoped_elem by (cases c) (auto split: option.splits)

lemma whereRest_append_and: "\<forall>c \<in> set cs. \<not> fst c \<Longrightarrow> whereRest alt (cs @ [(False, p)]) r \<longleftrightarrow> whereRest alt cs r \<and> p r"
  by (induction cs arbitrary: alt) auto

lemma andFirst_and: "\<forall>c \<in> set cs. \<not> fst c \<Longrightarrow> andFirst cs = cs"
  by (cases cs) (auto simp: andFirst_def)

lemma whereHolds_append_and:
  assumes "\<forall>c \<in> set cs. \<not> fst c"
  shows "whereHolds (cs @ [(False, p)]) r \<longleftrightarrow> whereHolds cs r \<and> p r"
proof -
  have "andFirst (cs @ [(False, p)]) = cs @ [(False, p)]" "andFirst cs = cs" using assms by (auto intro!: andFirst_and)
  then show ?thesis using assms by (cases cs) (auto simp: whereHolds_def whereRest_append_and)
qed

lemma ball_set_map_Pair: "(\<forall>c \<in> set (map (Pair False) ps). \<not> fst c) = True"
  by auto

lemma whereRest_and: "whereRest alt (map (Pair False) ps) r \<longleftrightarrow> alt \<and> list_all (\<lambda>p. p r) ps"
  by (induction ps arbitrary: alt) auto

lemma whereHolds_and: "whereHolds (map (Pair False) ps) r \<longleftrightarrow> list_all (\<lambda>p. p r) ps"
  unfolding whereHolds_def andFirst_and [OF ball_set_map_Pair [THEN eqTrueE]] by (cases ps) (auto simp: whereRest_and)

lemma registerGuard_all: "registerGuard fails prs = (None, done) \<Longrightarrow> done = prs"
  by (induction prs arbitrary: "done") (auto simp: map_prod_def split: option.splits prod.splits)

text \<open>The column of the type at the bottom of pointers, slices and arrays.\<close>

definition declaredColumn :: "gotype option \<Rightarrow> string option" where
  "declaredColumn c = (case map_option coreType c of Some (Named (Some (col, _))) \<Rightarrow> Some col | _ \<Rightarrow> None)"

lemma declaredColumn_elem: "declaredColumn c = Option.bind c elemOf"
  by (cases c) (simp_all add: declaredColumn_def elemOf_core)

text \<open>
  C37: no guarded statement escapes the tenant. Once the guard is registered, take a query, update, delete or
  row statement that is not written by hand, whose model, or whose destination when the model is
  not tenant-scoped, is of a tenant-scoped type under any mixture of pointers, slices and arrays, and
  none of whose conditions was added by \<open>Or\<close>. The guard refuses it when the context carries no tenant
  or an empty one, and otherwise it selects no row of another tenant and every row of the
  tenant that it selected before.
\<close>

theorem guard_scopes_every_statement:
  assumes "RegisterTenantGuard fails = (None, registered)" "pr \<noteq> CreateProc" "pr \<noteq> RawProc" "\<not> rawSQL st"
    and "declaredColumn (stModel st) = Some col \<or> declaredColumn (stModel st) = None \<and> declaredColumn (stDest st) = Some col"
    and "\<forall>c \<in> set (stWhere st). \<not> fst c"
  shows "case beforeStatement registered column ctx pr st of
      Inl e \<Rightarrow> e = Sentinel ErrNoTenantInContext \<and> (ctx = None \<or> ctx = Some [])
    | Inr st' \<Rightarrow> \<exists>t. ctx = Some t \<and> t \<noteq> [] \<and>
        selectRows st' rows = filter (\<lambda>r. column col r = t) (selectRows st rows)"
proof -
  have g: "pr \<in> set registered"
    using registerGuard_all [OF assms(1) [unfolded RegisterTenantGuard_def]] assms(2,3) by (cases pr) simp_all
  have "tenantScopedOf [stModel st, stDest st] = Some col"
    using assms(5) unfolding tenantScopedOf_Cons declaredColumn_elem by auto
  then show ?thesis
    using assms(4) g by (auto simp: beforeStatement_def tenantGuard_def TenantFromContext_def selectRows_def filter_filter
        whereHolds_append_and [OF assms(6)] simp del: tenantScopedOf.simps split: option.splits if_splits intro!: filter_cong)
qed

theorem guard_scopes_every_statement_witness:
  "let st = \<lparr>rawSQL = False, stModel = None, stDest = Some (Pointer (Slice (Named (Some (''tenant_id'', False))))),
     stWhere = [(False, \<lambda>r. snd r < 3)]\<rparr>
   in (case beforeStatement (snd (RegisterTenantGuard (\<lambda>_. None))) (\<lambda>_ r. fst r) (Some ''acme'') QueryProc st of Inl e \<Rightarrow> []
       | Inr st' \<Rightarrow> selectRows st' [(''acme'', 1::int), (''evil'', 2), (''acme'', 3)]) = [(''acme'', 1)]"
proof -
  let ?st = "\<lparr>rawSQL = False, stModel = None, stDest = Some (Pointer (Slice (Named (Some (''tenant_id'', False))))),
    stWhere = [(False, \<lambda>r. snd r < 3)]\<rparr> :: (string \<times> int) statement" and ?rows = "[(''acme'', 1::int), (''evil'', 2), (''acme'', 3)]"
  let ?g = "RegisterTenantGuard (\<lambda>_. None)"
  have base: "selectRows ?st ?rows = [(''acme'', 1), (''evil'', 2)]" by (simp add: selectRows_def whereHolds_def andFirst_def)
  have reg: "?g = (None, snd ?g)" by (simp add: RegisterTenantGuard_def)
  show ?thesis
    using guard_scopes_every_statement [OF reg, where st = ?st and pr = QueryProc and col = "''tenant_id''" and column = "\<lambda>_ r. fst r"
        and ctx = "Some ''acme''" and rows = ?rows]
    unfolding Let_def by (cases "beforeStatement (snd ?g) (\<lambda>_ r. fst r) (Some ''acme'') QueryProc ?st") (simp_all add: base declaredColumn_def)
qed

text \<open>
  An \<open>Or\<close> escapes the guard. A query with a condition added by \<open>Or\<close> becomes \<open>a OR b AND tenant\<close>, and the
  rows of every tenant that satisfy \<open>a\<close> are selected; one with nothing but an \<open>Or\<close> becomes
  \<open>tenant OR b\<close>.
\<close>

theorem or_condition_escapes_guard:
  "\<exists>st'. beforeStatement [QueryProc] column (Some t) QueryProc
       \<lparr>rawSQL = False, stModel = Some (Pointer (Named (Some (col, False)))), stDest = None, stWhere = [(False, a), (True, b)]\<rparr> = Inr st'
     \<and> filter a rows = filter a (selectRows st' rows)"
  "\<exists>st'. beforeStatement [QueryProc] column (Some t) QueryProc
       \<lparr>rawSQL = False, stModel = Some (Pointer (Named (Some (col, False)))), stDest = None, stWhere = [(True, b)]\<rparr> = Inr st'
     \<and> filter b rows = filter b (selectRows st' rows)"
  if "t \<noteq> []"
  using that by (auto simp: beforeStatement_def tenantGuard_def TenantFromContext_def selectRows_def whereHolds_def andFirst_def
      intro!: filter_cong)

end
