(* ===== verification/Outbox.thy ===== *)
theory Outbox
  imports Errors
begin

text \<open>
  The transactional outbox (\<open>internal/platform/outbox\<close>): the relay that drains the table to a
  publisher (\<open>outbox.go\<close>, \<open>relay.go\<close>) and the pruner (\<open>prune.go\<close>). The table is the
  list of its rows. What a statement of the database answers besides rows (errors, and whether an
  errored commit took effect) is an argument of the operation; the statements themselves are
  functions on the table. Rows that other transactions hold locked are an argument of the claim.
\<close>

section \<open>Rows, messages, errors\<close>

record Message =
  mID :: int
  mTenantID :: string
  mAggregateID :: string
  mEventType :: string
  mPayload :: string
  mOccurredAt :: int
  mTraceParent :: string

record outboxRow =
  msg :: Message
  PublishedAt :: "int option"
  FailedAt :: "int option"
  FailureReason :: string

abbreviation rid :: "outboxRow \<Rightarrow> int" where
  "rid r \<equiv> mID (msg r)"

text \<open>\<open>Publisher\<close>, over the state \<open>'b\<close> of a broker.\<close>

type_synonym 'b publisher = "Message \<Rightarrow> 'b \<Rightarrow> goerr option \<times> 'b"

text \<open>\<open>LogPublisher\<close>: the line it logs; whether a payload is valid JSON is a parameter.\<close>

record logline =
  lOutboxID :: int
  lEventType :: string
  lAggregateID :: string
  lTenantID :: string
  lOccurredAt :: int
  lPayloadBytes :: nat

definition LogPublisher :: "(string \<Rightarrow> bool) \<Rightarrow> logline list publisher" where
  "LogPublisher jsonValid m b =
     (let compact = (if jsonValid (mPayload m) then mPayload m else [])
      in (None, b @ [\<lparr>lOutboxID = mID m, lEventType = mEventType m, lAggregateID = mAggregateID m,
                     lTenantID = mTenantID m, lOccurredAt = mOccurredAt m, lPayloadBytes = length compact\<rparr>]))"

section \<open>The statements\<close>

definition claimable :: "outboxRow \<Rightarrow> bool" where
  "claimable r \<longleftrightarrow> PublishedAt r = None \<and> FailedAt r = None"

definition claimSQL :: "nat \<Rightarrow> int set \<Rightarrow> outboxRow list \<Rightarrow> Message list" where
  "claimSQL limit locked t =
     map msg (take limit (sort_key rid (filter (\<lambda>r. claimable r \<and> rid r \<notin> locked) t)))"

definition quarantineSQL :: "int \<Rightarrow> int \<Rightarrow> string \<Rightarrow> outboxRow list \<Rightarrow> outboxRow list \<times> nat" where
  "quarantineSQL now i reason t =
     (map (\<lambda>r. if rid r = i \<and> PublishedAt r = None then r\<lparr>FailedAt := Some now, FailureReason := reason\<rparr> else r) t,
      length (filter (\<lambda>r. rid r = i \<and> PublishedAt r = None) t))"

definition markSQL :: "int \<Rightarrow> int list \<Rightarrow> outboxRow list \<Rightarrow> outboxRow list \<times> nat" where
  "markSQL now ids t =
     (map (\<lambda>r. if rid r \<in> set ids then r\<lparr>PublishedAt := Some now\<rparr> else r) t,
      length (filter (\<lambda>r. rid r \<in> set ids) t))"

section \<open>The relay\<close>

definition NewRelay :: "int option \<Rightarrow> int" where
  "NewRelay withBatchSize = (case withBatchSize of None \<Rightarrow> 100 | Some n \<Rightarrow> if n > 0 then n else 100)"

text \<open>What one drain meets: the errors of its statements, whether \<open>RowsAffected\<close> fails, whether a
  commit or a quarantine that reported an error was applied nevertheless, and the clock of the
  database.\<close>

record drain_env =
  beginErr :: "goerr option"
  claimErr :: "goerr option"
  scanErr :: "goerr option"
  rowsErr :: "goerr option"
  closeErr :: "goerr option"
  markErr :: "goerr option"
  markAffectedFails :: bool
  commitErr :: "goerr option"
  commitApplied :: bool
  quarErr :: "goerr option"
  quarApplied :: bool
  dbNow :: int

definition quarantine :: "drain_env \<Rightarrow> Message \<Rightarrow> goerr \<Rightarrow> outboxRow list \<Rightarrow> goerr option \<times> outboxRow list" where
  "quarantine E m cause t =
     (let t' = fst (quarantineSQL (dbNow E) (mID m) (errorText cause) t)
      in case quarErr E of
           Some err \<Rightarrow> (Some (Errorf (''quarantine outbox row '' @ show_int (mID m) @ '': '' @ errorText err) [err]),
                        if quarApplied E then t' else t)
         | None \<Rightarrow> (None, t'))"

definition markPublished :: "drain_env \<Rightarrow> Message list \<Rightarrow> outboxRow list \<Rightarrow> goerr option \<times> outboxRow list" where
  "markPublished E batch t =
     (let (t', affected) = markSQL (dbNow E) (map mID batch) t
      in case markErr E of
           Some err \<Rightarrow> (Some (Errorf (''mark published: '' @ errorText err) [err]), t)
         | None \<Rightarrow>
             if \<not> markAffectedFails E \<and> affected \<noteq> length batch then
               (Some (Errorf (''marked '' @ show_nat affected @ '' rows published but claimed '' @ show_nat (length batch)
                  @ ''; the relay would republish the difference on every drain'') []), t')
             else (None, t'))"

text \<open>The publishing loop: the first message that failed with its error, and the broker after it.\<close>

fun publishBatch :: "'b publisher \<Rightarrow> Message list \<Rightarrow> 'b \<Rightarrow> (Message \<times> goerr) option \<times> 'b" where
  "publishBatch pub [] b = (None, b)"
| "publishBatch pub (m # ms) b = (case pub m b of
     (None, b') \<Rightarrow> publishBatch pub ms b'
   | (Some err, b') \<Rightarrow> (Some (m, err), b'))"

text \<open>One drain: the count and the error it returns, the committed table, the broker. A
  transaction that is rolled back leaves the table as it was.\<close>

definition DrainOnce :: "'b publisher \<Rightarrow> nat \<Rightarrow> drain_env \<Rightarrow> int set \<Rightarrow> outboxRow list \<times> 'b
    \<Rightarrow> (nat \<times> goerr option) \<times> outboxRow list \<times> 'b" where
  "DrainOnce pub batchSize E locked s =
     (let (t, b) = s; batch = claimSQL batchSize locked t
      in case beginErr E of Some err \<Rightarrow> ((0, Some (Errorf (''begin: '' @ errorText err) [err])), t, b)
       | None \<Rightarrow> (case claimErr E of Some err \<Rightarrow> ((0, Some (Errorf (''claim: '' @ errorText err) [err])), t, b)
       | None \<Rightarrow> (case (if batch = [] then None else scanErr E) of
            Some err \<Rightarrow> ((0, Some (Errorf (''scan: '' @ errorText err) [err])), t, b)
       | None \<Rightarrow> (case rowsErr E of Some err \<Rightarrow> ((0, Some (Errorf (''claim rows: '' @ errorText err) [err])), t, b)
       | None \<Rightarrow> (case closeErr E of Some err \<Rightarrow> ((0, Some (Errorf (''close claim: '' @ errorText err) [err])), t, b)
       | None \<Rightarrow>
           if batch = [] then ((0, commitErr E), t, b)
           else (case publishBatch pub batch b of
               (Some (m, err), b') \<Rightarrow>
                 if \<not> IsPermanent err then
                   ((0, Some (Errorf (''publish outbox row '' @ show_int (mID m) @ '': '' @ errorText err) [err])), t, b')
                 else (case quarantine E m err t of
                     (Some qErr, t') \<Rightarrow>
                       ((0, Some (Errorf (''publish outbox row '' @ show_int (mID m) @ '' failed permanently ('' @ errorText err
                           @ '') and it could not be quarantined: '' @ errorText qErr) [qErr])), t', b')
                   | (None, t') \<Rightarrow>
                       ((0, Some (Errorf (''quarantined outbox row '' @ show_int (mID m) @ '': '' @ errorText err) [err])), t', b'))
             | (None, b') \<Rightarrow> (case markPublished E batch t of
                 (Some err, _) \<Rightarrow> ((0, Some err), t, b')
               | (None, t') \<Rightarrow> (case commitErr E of
                   Some err \<Rightarrow> ((0, Some (Errorf (''commit: '' @ errorText err) [err])), if commitApplied E then t' else t, b')
                 | None \<Rightarrow> ((length batch, None), t', b')))))))))"

text \<open>
  \<open>Run\<close>: each tick says whether the wait ended because the context is done, and what the drain
  meets otherwise. The result is \<^const>\<open>None\<close> while it still runs when the ticks end, else the
  error it returned, with the waits it scheduled.
\<close>

definition runInterval :: "int \<Rightarrow> int" where
  "runInterval interval = (if interval \<le> 0 then 1000000000 else interval)"

fun Run :: "'b publisher \<Rightarrow> nat \<Rightarrow> int \<Rightarrow> (bool \<times> drain_env \<times> int set) list \<Rightarrow> outboxRow list \<times> 'b
    \<Rightarrow> goerr option option \<times> int list \<times> outboxRow list \<times> 'b" where
  "Run pub n interval [] s = (None, [], s)"
| "Run pub n interval ((done', E, locked) # ticks) s =
     (if done' then (Some None, [], s)
      else (let ((published, err), s') = DrainOnce pub n E locked s
            in if (case err of None \<Rightarrow> False | Some e \<Rightarrow> errorsIs e ContextCanceled \<or> errorsIs e ContextDeadlineExceeded)
               then (Some None, [], s')
               else (let wait = (if published = n \<and> err = None then 0 else runInterval interval);
                         (r, waits, s'') = Run pub n interval ticks s'
                     in (r, wait # waits, s''))))"

section \<open>The pruner\<close>

record processedRow =
  pConsumer :: string
  pMessageID :: string
  ProcessedAt :: int

definition NewPruner :: "int \<Rightarrow> int" where
  "NewPruner batchSize = (if batchSize \<le> 0 then 1000 else batchSize)"

text \<open>A bounded \<open>DELETE\<close>: the first \<open>limit\<close> rows that qualify, and their number.\<close>

fun deleteFirst :: "('r \<Rightarrow> bool) \<Rightarrow> nat \<Rightarrow> 'r list \<Rightarrow> 'r list \<times> nat" where
  "deleteFirst q limit [] = ([], 0)"
| "deleteFirst q limit (r # rs) =
     (if limit = 0 then (r # rs, 0)
      else if q r then (let (rs', n) = deleteFirst q (limit - 1) rs in (rs', Suc n))
      else (let (rs', n) = deleteFirst q limit rs in (r # rs', n)))"

definition pruneOutboxSQL :: "int \<Rightarrow> nat \<Rightarrow> outboxRow list \<Rightarrow> outboxRow list \<times> nat" where
  "pruneOutboxSQL cutoff limit =
     deleteFirst (\<lambda>r. case PublishedAt r of None \<Rightarrow> False | Some p \<Rightarrow> p < cutoff) limit"

definition pruneProcessedEventsSQL :: "int \<Rightarrow> nat \<Rightarrow> processedRow list \<Rightarrow> processedRow list \<times> nat" where
  "pruneProcessedEventsSQL cutoff limit = deleteFirst (\<lambda>r. ProcessedAt r < cutoff) limit"

text \<open>The loop; iteration \<open>k\<close> meets the context error, the statement error and the
  \<open>RowsAffected\<close> error that \<open>env k\<close> gives. An errored statement deletes nothing; one whose
  count cannot be read has deleted its batch.\<close>

type_synonym prune_env = "nat \<Rightarrow> goerr option \<times> goerr option \<times> goerr option"

partial_function (option) deleteInBatches ::
  "(nat \<Rightarrow> 'r list \<Rightarrow> 'r list \<times> nat) \<Rightarrow> string \<Rightarrow> nat \<Rightarrow> prune_env \<Rightarrow> nat \<Rightarrow> nat \<Rightarrow> 'r list
    \<Rightarrow> ((nat \<times> goerr option) \<times> 'r list) option" where
  "deleteInBatches query table batchSize env k tot rs =
     (case env k of
        (Some err, _, _) \<Rightarrow> Some ((tot, Some err), rs)
      | (None, Some err, _) \<Rightarrow> Some ((tot, Some (Errorf (''prune '' @ table @ '': '' @ errorText err) [err])), rs)
      | (None, None, aff) \<Rightarrow>
          (let (rs', n) = query batchSize rs
           in case aff of
                Some err \<Rightarrow> Some ((tot, Some (Errorf (''prune '' @ table @ '': rows affected: '' @ errorText err) [err])), rs')
              | None \<Rightarrow>
                  if n < batchSize then Some ((tot + n, None), rs')
                  else deleteInBatches query table batchSize env (Suc k) (tot + n) rs'))"

record PruneResult =
  prOutbox :: nat
  prProcessedEvents :: nat

definition Prune :: "nat \<Rightarrow> prune_env \<Rightarrow> prune_env \<Rightarrow> int \<Rightarrow> int \<Rightarrow> int \<Rightarrow> outboxRow list \<times> processedRow list
    \<Rightarrow> ((PruneResult \<times> goerr option) \<times> outboxRow list \<times> processedRow list) option" where
  "Prune batchSize env1 env2 now outboxAge processedAge s =
     (case deleteInBatches (pruneOutboxSQL (now - outboxAge)) ''outbox'' batchSize env1 0 0 (fst s) of
        None \<Rightarrow> None
      | Some ((deleted, Some err), t) \<Rightarrow> Some ((\<lparr>prOutbox = deleted, prProcessedEvents = 0\<rparr>, Some err), t, snd s)
      | Some ((deleted, None), t) \<Rightarrow>
          (case deleteInBatches (pruneProcessedEventsSQL (now - processedAge)) ''processed_events'' batchSize env2 0 0 (snd s) of
             None \<Rightarrow> None
           | Some ((deleted2, err), p) \<Rightarrow> Some ((\<lparr>prOutbox = deleted, prProcessedEvents = deleted2\<rparr>, err), t, p)))"

text \<open>\<open>Eligible\<close>, when both queries answer.\<close>

definition Eligible :: "int \<Rightarrow> int \<Rightarrow> int \<Rightarrow> outboxRow list \<times> processedRow list \<Rightarrow> PruneResult" where
  "Eligible now outboxAge processedAge s =
     \<lparr>prOutbox = length (filter (\<lambda>r. case PublishedAt r of None \<Rightarrow> False | Some p \<Rightarrow> p < now - outboxAge) (fst s)),
      prProcessedEvents = length (filter (\<lambda>r. ProcessedAt r < now - processedAge) (snd s))\<rparr>"

section \<open>The observer's counts\<close>

text \<open>\<open>Observe\<close>, when the three queries answer: pending rows, quarantined rows, and the age of the
  row the relay claims next.\<close>

definition Observe :: "int \<Rightarrow> outboxRow list \<Rightarrow> nat \<times> nat \<times> int" where
  "Observe now t =
     (length (filter claimable t),
      length (filter (\<lambda>r. FailedAt r \<noteq> None) t),
      (case sort_key rid (filter claimable t) of [] \<Rightarrow> 0 | r # _ \<Rightarrow> now - mOccurredAt (msg r)))"

section \<open>Several relays, writers, a pruner and an operator\<close>

text \<open>
  The interleaving of any number of relays with everything else that touches the table. A relay is
  idle, holds a claimed batch with the part it has yet to publish, or has rolled back and is about to
  quarantine a row. \<open>inserted\<close> records every event ever written. The steps are the statements
  above; the row locks of a claim are the ids of the batch, released at commit or rollback.
\<close>

datatype relaystate = Idle | Sending "Message list" "Message list" | Parked Message goerr

record relays =
  tbl :: "outboxRow list"
  broker :: "Message list"
  relay :: "nat \<Rightarrow> relaystate"
  inserted :: "Message list"

fun heldBy :: "relaystate \<Rightarrow> int set" where
  "heldBy Idle = {}"
| "heldBy (Sending batch rest) = mID ` set batch"
| "heldBy (Parked m e) = {}"

definition locks :: "relays \<Rightarrow> int set" where
  "locks s = (\<Union>i. heldBy (relay s i))"

text \<open>The broker stored the message, or collapsed it with one it had stored.\<close>

definition stored :: "Message \<Rightarrow> Message list \<Rightarrow> Message list \<Rightarrow> bool" where
  "stored m b b' \<longleftrightarrow> b' = b @ [m] \<or> (m \<in> set b \<and> b' = b)"

inductive relayStep :: "relays \<Rightarrow> relays \<Rightarrow> bool" where
  insert: "mID m \<notin> mID ` set (inserted s) \<Longrightarrow>
    relayStep s (s\<lparr>tbl := tbl s @ [\<lparr>msg = m, PublishedAt = None, FailedAt = None, FailureReason = []\<rparr>],
      inserted := inserted s @ [m]\<rparr>)"
| claim: "relay s i = Idle \<Longrightarrow> batch = claimSQL n (locks s) (tbl s) \<Longrightarrow>
    relayStep s (s\<lparr>relay := (relay s)(i := Sending batch batch)\<rparr>)"
| send: "relay s i = Sending batch (m # rest) \<Longrightarrow> stored m (broker s) b' \<Longrightarrow>
    relayStep s (s\<lparr>broker := b', relay := (relay s)(i := Sending batch rest)\<rparr>)"
| unacknowledged: "relay s i = Sending batch (m # rest) \<Longrightarrow> stored m (broker s) b' \<Longrightarrow>
    relayStep s (s\<lparr>broker := b', relay := (relay s)(i := Idle)\<rparr>)"
| rollback: "relay s i = Sending batch rest \<Longrightarrow> relayStep s (s\<lparr>relay := (relay s)(i := Idle)\<rparr>)"
| refused: "relay s i = Sending batch (m # rest) \<Longrightarrow> relayStep s (s\<lparr>relay := (relay s)(i := Parked m err)\<rparr>)"
| refused_stored: "relay s i = Sending batch (m # rest) \<Longrightarrow> stored m (broker s) b' \<Longrightarrow>
    relayStep s (s\<lparr>broker := b', relay := (relay s)(i := Parked m err)\<rparr>)"
| quarantine: "relay s i = Parked m err \<Longrightarrow> mID m \<notin> locks s \<Longrightarrow>
    relayStep s (s\<lparr>tbl := fst (quarantineSQL now (mID m) (errorText err) (tbl s)), relay := (relay s)(i := Idle)\<rparr>)"
| unquarantined: "relay s i = Parked m err \<Longrightarrow> relayStep s (s\<lparr>relay := (relay s)(i := Idle)\<rparr>)"
| commit: "relay s i = Sending batch [] \<Longrightarrow>
    relayStep s (s\<lparr>tbl := fst (markSQL now (map mID batch) (tbl s)), relay := (relay s)(i := Idle)\<rparr>)"
| prune: "relayStep s (s\<lparr>tbl := fst (pruneOutboxSQL cutoff n (tbl s))\<rparr>)"
| replay: "relayStep s (s\<lparr>tbl := map (\<lambda>r. if rid r = j then r\<lparr>FailedAt := None, FailureReason := []\<rparr> else r) (tbl s)\<rparr>)"

definition emptySystem :: relays where
  "emptySystem = \<lparr>tbl = [], broker = [], relay = (\<lambda>_. Idle), inserted = []\<rparr>"

text \<open>A relay that is sending holds distinct rows that are still claimable, and what it has sent is
  in the broker.\<close>

fun sendingOk :: "outboxRow list \<Rightarrow> Message list \<Rightarrow> relaystate \<Rightarrow> bool" where
  "sendingOk t b (Sending batch rest) \<longleftrightarrow> distinct (map mID batch)
     \<and> (\<forall>m \<in> set batch. \<exists>r \<in> set t. msg r = m \<and> claimable r)
     \<and> (\<exists>sent. batch = sent @ rest \<and> set sent \<subseteq> set b)"
| "sendingOk t b _ \<longleftrightarrow> True"

definition tableOk :: "outboxRow list \<Rightarrow> Message list \<Rightarrow> Message list \<Rightarrow> bool" where
  "tableOk t b ins \<longleftrightarrow> distinct (map rid t) \<and> distinct (map mID ins) \<and> msg ` set t \<subseteq> set ins \<and> set b \<subseteq> set ins
     \<and> (\<forall>r \<in> set t. PublishedAt r \<noteq> None \<longrightarrow> msg r \<in> set b \<and> FailedAt r = None)
     \<and> set ins \<subseteq> msg ` set t \<union> set b"

definition disjointLocks :: "(nat \<Rightarrow> relaystate) \<Rightarrow> bool" where
  "disjointLocks rs \<longleftrightarrow> (\<forall>i j. i \<noteq> j \<longrightarrow> heldBy (rs i) \<inter> heldBy (rs j) = {})"

definition relaysOk :: "relays \<Rightarrow> bool" where
  "relaysOk s \<longleftrightarrow> tableOk (tbl s) (broker s) (inserted s) \<and> disjointLocks (relay s)
     \<and> (\<forall>i. sendingOk (tbl s) (broker s) (relay s i))"

section \<open>Lemmas\<close>

lemma claimSQL_sound:
  assumes "m \<in> set (claimSQL n locked t)"
  shows "\<exists>r \<in> set t. msg r = m \<and> claimable r \<and> mID m \<notin> locked"
  using assms by (auto simp: claimSQL_def dest!: in_set_takeD)

lemma claimSQL_distinct:
  assumes "distinct (map rid t)"
  shows "distinct (map mID (claimSQL n locked t))"
proof -
  let ?f = "filter (\<lambda>r. claimable r \<and> rid r \<notin> locked) t"
  have "distinct (map rid ?f)" using assms by (simp add: distinct_map_filter)
  then have "distinct (map rid (sort_key rid ?f))" by (simp add: distinct_map)
  then have "distinct (take n (map rid (sort_key rid ?f)))" by (rule distinct_take)
  then show ?thesis by (simp add: claimSQL_def take_map o_def)
qed

lemma claimSQL_Nil_iff: "claimSQL n locked t = [] \<longleftrightarrow> n = 0 \<or> (\<forall>r \<in> set t. claimable r \<longrightarrow> rid r \<in> locked)"
proof -
  have "sort_key rid xs = [] \<longleftrightarrow> xs = []" for xs :: "outboxRow list" by (metis length_0_conv length_sort)
  then show ?thesis by (auto simp: claimSQL_def filter_empty_conv)
qed

lemma claimSQL_length: "length (claimSQL n locked t) \<le> n"
  by (simp add: claimSQL_def)

lemma deleteFirst_keeps: "filter (\<lambda>r. \<not> q r) (fst (deleteFirst q n rs)) = filter (\<lambda>r. \<not> q r) rs"
  by (induction q n rs rule: deleteFirst.induct) (auto simp: split_beta)

lemma deleteFirst_subset: "set (fst (deleteFirst q n rs)) \<subseteq> set rs"
  by (induction q n rs rule: deleteFirst.induct) (auto simp: split_beta split: if_splits)

lemma deleteFirst_distinct: "distinct (map f rs) \<Longrightarrow> distinct (map f (fst (deleteFirst q n rs)))"
proof (induction rs arbitrary: n)
  case (Cons a rs)
  have "f a \<notin> f ` set (fst (deleteFirst q n rs))" using Cons.prems deleteFirst_subset [of q n rs] by auto
  with Cons show ?case by (simp add: split_beta)
qed simp

lemma deleteFirst_count:
  "length rs = length (fst (deleteFirst q n rs)) + snd (deleteFirst q n rs)"
  "length (filter q rs) = length (filter q (fst (deleteFirst q n rs))) + snd (deleteFirst q n rs)"
  by (induction q n rs rule: deleteFirst.induct) (auto simp: split_beta)

lemma deleteFirst_short: "snd (deleteFirst q n rs) < n \<Longrightarrow> fst (deleteFirst q n rs) = filter (\<lambda>r. \<not> q r) rs"
  by (induction q n rs rule: deleteFirst.induct) (auto simp: split_beta split: if_splits)

lemma deleteFirst_mem:
  assumes "r \<in> set rs" "\<not> q r"
  shows "r \<in> set (fst (deleteFirst q n rs))"
proof -
  have "r \<in> set (filter (\<lambda>r. \<not> q r) (fst (deleteFirst q n rs)))"
    using assms by (simp only: deleteFirst_keeps) simp
  then show ?thesis by simp
qed

text \<open>How the pieces of the invariant survive each kind of change.\<close>

lemma disjointLocks_shrink:
  assumes "disjointLocks rs" "heldBy st \<subseteq> heldBy (rs i)"
  shows "disjointLocks (rs(i := st))"
  using assms unfolding disjointLocks_def by (auto split: if_splits)

lemma disjointLocks_claim:
  assumes "disjointLocks rs" "heldBy st \<inter> (\<Union>j. heldBy (rs j)) = {}"
  shows "disjointLocks (rs(i := st))"
  using assms unfolding disjointLocks_def by (auto split: if_splits) blast+

lemma sendingOk_mono:
  assumes "sendingOk t b st" "set b \<subseteq> set b'"
    and "\<And>r. \<lbrakk>r \<in> set t; claimable r; rid r \<in> heldBy st\<rbrakk> \<Longrightarrow> \<exists>r' \<in> set t'. msg r' = msg r \<and> claimable r'"
  shows "sendingOk t' b' st"
proof (cases st)
  case (Sending batch rest)
  then have "\<exists>r \<in> set t'. msg r = m \<and> claimable r" if "m \<in> set batch" for m
    using assms(1) assms(3) that by (fastforce simp: image_iff)
  then show ?thesis using assms(1,2) Sending by auto
qed simp_all

lemma tableOk_broker:
  assumes "tableOk t b ins" "stored m b b'" "m \<in> set ins"
  shows "tableOk t b' ins"
  using assms by (auto simp: tableOk_def stored_def)

lemma stored_subset: "stored m b b' \<Longrightarrow> set b \<subseteq> set b' \<and> m \<in> set b'"
  by (auto simp: stored_def)

lemma tableOk_map:
  assumes "tableOk t b ins"
    and "\<And>r. msg (f r) = msg r"
    and "\<And>r. \<lbrakk>r \<in> set t; PublishedAt (f r) \<noteq> None\<rbrakk> \<Longrightarrow> msg r \<in> set b \<and> FailedAt (f r) = None"
  shows "tableOk (map f t) b ins"
proof -
  have "msg \<circ> f = msg" "map rid (map f t) = map rid t" using assms(2) by auto
  then show ?thesis using assms(1,3) by (simp add: tableOk_def image_image assms(2) del: map_map)
qed

lemma tableOk_prune:
  assumes "tableOk t b ins"
  shows "tableOk (fst (pruneOutboxSQL cutoff n t)) b ins"
proof -
  let ?q = "\<lambda>r. case PublishedAt r of None \<Rightarrow> False | Some p \<Rightarrow> p < cutoff"
  let ?t = "fst (deleteFirst ?q n t)"
  have sub: "set ?t \<subseteq> set t" by (rule deleteFirst_subset)
  have "msg r \<in> msg ` set ?t \<union> set b" if "r \<in> set t" for r
    using that assms deleteFirst_mem [OF that, of ?q n] by (auto simp: tableOk_def split: option.splits)
  moreover have "set ins \<subseteq> msg ` set t \<union> set b" using assms by (simp add: tableOk_def)
  ultimately have "set ins \<subseteq> msg ` set ?t \<union> set b" by blast
  moreover have "distinct (map rid ?t)" using assms by (intro deleteFirst_distinct) (simp add: tableOk_def)
  ultimately show ?thesis using assms sub by (auto simp: tableOk_def pruneOutboxSQL_def)
qed

lemma sendingOk_prune: "sendingOk t b st \<Longrightarrow> sendingOk (fst (pruneOutboxSQL cutoff n t)) b st"
  by (erule sendingOk_mono) (auto simp: pruneOutboxSQL_def claimable_def intro!: bexI deleteFirst_mem)

lemma sendingOk_map:
  assumes "sendingOk t b st" "\<And>r. msg (f r) = msg r"
    and "\<And>r. \<lbrakk>r \<in> set t; claimable r; rid r \<in> heldBy st\<rbrakk> \<Longrightarrow> claimable (f r)"
  shows "sendingOk (map f t) b st"
  using assms(1) by (rule sendingOk_mono) (use assms in auto)

lemma relaysOk_sending:
  assumes "relaysOk s" "relay s i = Sending batch rest" "m \<in> set batch"
  shows "\<exists>r \<in> set (tbl s). msg r = m \<and> claimable r" "m \<in> set (inserted s)"
proof -
  have "sendingOk (tbl s) (broker s) (relay s i)" using assms(1) by (simp add: relaysOk_def)
  then show r: "\<exists>r \<in> set (tbl s). msg r = m \<and> claimable r" using assms(2,3) by simp
  then show "m \<in> set (inserted s)" using assms(1) by (auto simp: relaysOk_def tableOk_def)
qed

text \<open>A step of one relay that only sends: the broker grows by a stored message.\<close>

lemma relaysOk_send:
  assumes "relaysOk s" "relay s i = Sending batch (m # rest)" "stored m (broker s) b'"
    and "heldBy st \<subseteq> heldBy (relay s i)" "sendingOk (tbl s) b' st"
  shows "relaysOk (s\<lparr>broker := b', relay := (relay s)(i := st)\<rparr>)"
proof -
  have "m \<in> set batch"
    using assms(1,2) by (metis (no_types, lifting) in_set_conv_decomp relaysOk_def sendingOk.simps(1))
  then have "m \<in> set (inserted s)" using relaysOk_sending(2) [OF assms(1,2)] by blast
  then have "tableOk (tbl s) b' (inserted s)" using assms(1,3) tableOk_broker by (auto simp: relaysOk_def)
  moreover have "sendingOk (tbl s) b' (relay s j)" for j
  proof (rule sendingOk_mono)
    show "sendingOk (tbl s) (broker s) (relay s j)" using assms(1) by (simp add: relaysOk_def)
    show "set (broker s) \<subseteq> set b'" using stored_subset [OF assms(3)] by simp
  qed blast
  moreover have "disjointLocks ((relay s)(i := st))"
    using assms(1,4) disjointLocks_shrink by (auto simp: relaysOk_def)
  ultimately show ?thesis using assms(5) by (simp add: relaysOk_def)
qed

lemma relaysOk_release:
  assumes "relaysOk s" "heldBy st = {}" "sendingOk (tbl s) (broker s) st"
  shows "relaysOk (s\<lparr>relay := (relay s)(i := st)\<rparr>)"
  using assms disjointLocks_shrink [of "relay s" st i] by (auto simp: relaysOk_def)

lemma relaysOk_mark:
  assumes "relaysOk s" "relay s i = Sending batch []"
  shows "relaysOk (s\<lparr>tbl := fst (markSQL now (map mID batch) (tbl s)), relay := (relay s)(i := Idle)\<rparr>)"
proof -
  let ?f = "\<lambda>r. if rid r \<in> set (map mID batch) then r\<lparr>PublishedAt := Some now\<rparr> else r"
  have ok: "tableOk (tbl s) (broker s) (inserted s)" "sendingOk (tbl s) (broker s) (relay s i)" "disjointLocks (relay s)"
    using assms(1) by (simp_all add: relaysOk_def)
  have sent: "set batch \<subseteq> set (broker s)" using ok(2) assms(2) by simp
  have inj: "inj_on mID (set (inserted s))" using ok(1) by (simp add: tableOk_def distinct_map)
  have own: "msg r \<in> set batch \<and> claimable r" if mem: "r \<in> set (tbl s)" and held: "rid r \<in> mID ` set batch" for r
  proof -
    obtain m where m: "m \<in> set batch" "rid r = mID m" using held by blast
    have "msg r \<in> set (inserted s)" using ok(1) mem by (auto simp: tableOk_def)
    then have "msg r = m" using inj m relaysOk_sending(2) [OF assms(1,2) m(1)] by (auto dest: inj_onD)
    moreover obtain r' where "r' \<in> set (tbl s)" "msg r' = m" "claimable r'"
      using relaysOk_sending(1) [OF assms(1,2) m(1)] by blast
    moreover have "inj_on rid (set (tbl s))" using ok(1) by (simp add: tableOk_def distinct_map)
    ultimately show ?thesis using m(1) mem by (metis inj_onD)
  qed
  have "tableOk (map ?f (tbl s)) (broker s) (inserted s)"
    using own sent ok(1) by (intro tableOk_map [OF ok(1)]) (auto simp: tableOk_def claimable_def)
  moreover have "sendingOk (map ?f (tbl s)) (broker s) (relay s j)" if "j \<noteq> i" for j
  proof (rule sendingOk_map)
    show "sendingOk (tbl s) (broker s) (relay s j)" using assms(1) by (simp add: relaysOk_def)
    fix r
    assume "rid r \<in> heldBy (relay s j)" "claimable r"
    moreover have "heldBy (relay s j) \<inter> heldBy (relay s i) = {}" using ok(3) that by (simp add: disjointLocks_def)
    ultimately show "claimable (?f r)" using assms(2) by auto
  qed simp
  ultimately show ?thesis
    using disjointLocks_shrink [OF ok(3), of Idle i] by (simp add: relaysOk_def markSQL_def)
qed

lemma relaysOk_quarantine:
  assumes "relaysOk s" "mID m \<notin> locks s"
  shows "relaysOk (s\<lparr>tbl := fst (quarantineSQL now (mID m) reason (tbl s)), relay := (relay s)(i := Idle)\<rparr>)"
proof -
  let ?f = "\<lambda>r. if rid r = mID m \<and> PublishedAt r = None then r\<lparr>FailedAt := Some now, FailureReason := reason\<rparr> else r"
  have ok: "tableOk (tbl s) (broker s) (inserted s)" "disjointLocks (relay s)" using assms(1) by (simp_all add: relaysOk_def)
  have "tableOk (map ?f (tbl s)) (broker s) (inserted s)"
    using ok(1) by (intro tableOk_map [OF ok(1)]) (auto simp: tableOk_def split: if_splits)
  moreover have "sendingOk (map ?f (tbl s)) (broker s) (relay s j)" for j
    using assms by (intro sendingOk_map) (auto simp: relaysOk_def locks_def)
  ultimately show ?thesis
    using disjointLocks_shrink [OF ok(2), of Idle i] by (simp add: relaysOk_def quarantineSQL_def)
qed

lemma relaysOk_insert:
  assumes "relaysOk s" "mID m \<notin> mID ` set (inserted s)"
  shows "relaysOk (s\<lparr>tbl := tbl s @ [\<lparr>msg = m, PublishedAt = None, FailedAt = None, FailureReason = []\<rparr>],
    inserted := inserted s @ [m]\<rparr>)"
proof -
  let ?r = "\<lparr>msg = m, PublishedAt = None, FailedAt = None, FailureReason = []\<rparr>"
  have ok: "tableOk (tbl s) (broker s) (inserted s)" using assms(1) by (simp add: relaysOk_def)
  have "mID m \<notin> rid ` set (tbl s)" using ok assms(2) by (auto simp: tableOk_def image_iff)
  then have "tableOk (tbl s @ [?r]) (broker s) (inserted s @ [m])" using ok assms(2) by (auto simp: tableOk_def)
  moreover have "sendingOk (tbl s @ [?r]) (broker s) (relay s j)" for j
  proof (rule sendingOk_mono)
    show "sendingOk (tbl s) (broker s) (relay s j)" using assms(1) by (simp add: relaysOk_def)
  qed auto
  ultimately show ?thesis using assms(1) by (simp add: relaysOk_def)
qed

lemma relaysOk_claim:
  assumes "relaysOk s" "relay s i = Idle" "batch = claimSQL n (locks s) (tbl s)"
  shows "relaysOk (s\<lparr>relay := (relay s)(i := Sending batch batch)\<rparr>)"
proof -
  have "distinct (map rid (tbl s))" using assms(1) by (simp add: relaysOk_def tableOk_def)
  then have "sendingOk (tbl s) (broker s) (Sending batch batch)"
    using claimSQL_distinct claimSQL_sound assms(3) by fastforce
  moreover have "heldBy (Sending batch batch) \<inter> (\<Union>j. heldBy (relay s j)) = {}"
    using claimSQL_sound [of _ n "locks s" "tbl s"] assms(3) by (fastforce simp: locks_def)
  ultimately show ?thesis using assms(1) disjointLocks_claim by (simp add: relaysOk_def)
qed

lemma relaysOk_prune: "relaysOk s \<Longrightarrow> relaysOk (s\<lparr>tbl := fst (pruneOutboxSQL cutoff n (tbl s))\<rparr>)"
  by (simp add: relaysOk_def tableOk_prune sendingOk_prune)

lemma relaysOk_replay:
  assumes "relaysOk s"
  shows "relaysOk (s\<lparr>tbl := map (\<lambda>r. if rid r = j then r\<lparr>FailedAt := None, FailureReason := []\<rparr> else r) (tbl s)\<rparr>)"
proof -
  let ?f = "\<lambda>r. if rid r = j then r\<lparr>FailedAt := None, FailureReason := []\<rparr> else r"
  have ok: "tableOk (tbl s) (broker s) (inserted s)" using assms by (simp add: relaysOk_def)
  have "tableOk (map ?f (tbl s)) (broker s) (inserted s)"
    using ok by (intro tableOk_map [OF ok]) (auto simp: tableOk_def split: if_splits)
  moreover have "sendingOk (map ?f (tbl s)) (broker s) (relay s k)" for k
    using assms by (intro sendingOk_map) (auto simp: relaysOk_def claimable_def)
  ultimately show ?thesis using assms by (simp add: relaysOk_def)
qed

lemma sendingOk_tail:
  "sendingOk t b (Sending batch (m # rest)) \<Longrightarrow> stored m b b' \<Longrightarrow> sendingOk t b' (Sending batch rest)"
  using stored_subset by (fastforce intro: exI [of _ "sent @ [m]" for sent])

lemma relayStep_ok: "relayStep s s' \<Longrightarrow> relaysOk s \<Longrightarrow> relaysOk s'"
proof (induction rule: relayStep.induct)
  case (send s i batch m rest b')
  have "sendingOk (tbl s) (broker s) (relay s i)" using send.prems by (simp add: relaysOk_def)
  then have "sendingOk (tbl s) (broker s) (Sending batch (m # rest))" by (simp only: send.hyps(1))
  from sendingOk_tail [OF this send.hyps(2)] show ?case
    by (intro relaysOk_send [OF send.prems send.hyps(1,2)]) (simp_all add: send.hyps(1))
next
  case (unacknowledged s i batch m rest b')
  then show ?case using relaysOk_send [OF unacknowledged.prems unacknowledged.hyps] by simp
next
  case (refused_stored s i batch m rest b' err)
  then show ?case using relaysOk_send [OF refused_stored.prems refused_stored.hyps] by simp
next
  case (quarantine s i m err now)
  then show ?case by (intro relaysOk_quarantine) auto
next
  case (commit s i batch now)
  then show ?case by (intro relaysOk_mark) auto
qed (auto intro: relaysOk_insert relaysOk_claim relaysOk_release relaysOk_prune relaysOk_replay)

lemma reach_ok: "relayStep\<^sup>*\<^sup>* emptySystem s \<Longrightarrow> relaysOk s"
proof (induction rule: rtranclp_induct)
  case base
  show ?case by (simp add: relaysOk_def emptySystem_def tableOk_def disjointLocks_def)
qed (rule relayStep_ok)

lemma markSQL_affects_batch:
  assumes "relaysOk s" "relay s i = Sending batch rest"
  shows "snd (markSQL now (map mID batch) (tbl s)) = length batch"
proof -
  have "sendingOk (tbl s) (broker s) (relay s i)" using assms(1) by (simp add: relaysOk_def)
  then have sok: "sendingOk (tbl s) (broker s) (Sending batch rest)" by (simp only: assms(2))
  have d: "distinct (map rid (tbl s))" "distinct (map mID batch)"
    using sok assms(1) by (simp_all add: relaysOk_def tableOk_def)
  let ?F = "filter (\<lambda>r. rid r \<in> mID ` set batch) (tbl s)"
  have "rid ` set ?F = mID ` set batch"
    using relaysOk_sending(1) [OF assms] by (auto simp: image_iff) metis
  then have "set (map rid ?F) = set (map mID batch)" by simp
  moreover have "distinct (map rid ?F)" using d(1) by (simp add: distinct_map_filter)
  ultimately have "length (map rid ?F) = length (map mID batch)" using d(2) by (metis distinct_card)
  then show ?thesis by (simp add: markSQL_def)
qed

text \<open>A publisher over a log of stored messages: success means stored, failure may mean either.\<close>

definition faithfulPublisher :: "Message list publisher \<Rightarrow> bool" where
  "faithfulPublisher pub \<longleftrightarrow> (\<forall>m b. case pub m b of
     (None, b') \<Rightarrow> stored m b b' | (Some _, b') \<Rightarrow> b' = b \<or> stored m b b')"

lemma faithful_None: "faithfulPublisher pub \<Longrightarrow> pub m b = (None, b') \<Longrightarrow> stored m b b'"
  unfolding faithfulPublisher_def by (auto split: prod.splits option.splits)

lemma faithful_Some: "faithfulPublisher pub \<Longrightarrow> pub m b = (Some e, b') \<Longrightarrow> b' = b \<or> stored m b b'"
  unfolding faithfulPublisher_def by (auto split: prod.splits option.splits)

lemma publishBatch_steps:
  assumes "faithfulPublisher pub" "relay s i = Sending batch ms" "publishBatch pub ms (broker s) = (None, b')"
  shows "relayStep\<^sup>*\<^sup>* s (s\<lparr>broker := b', relay := (relay s)(i := Sending batch [])\<rparr>)"
  using assms(2,3)
proof (induction ms arbitrary: s)
  case Nil
  then have "s = s\<lparr>broker := b', relay := (relay s)(i := Sending batch [])\<rparr>" by (simp add: fun_upd_idem)
  then show ?case by (metis rtranclp.rtrancl_refl)
next
  case (Cons m ms)
  then obtain b1 where b1: "pub m (broker s) = (None, b1)" "publishBatch pub ms b1 = (None, b')"
    by (auto split: prod.splits option.splits)
  let ?s = "s\<lparr>broker := b1, relay := (relay s)(i := Sending batch ms)\<rparr>"
  have "relayStep s ?s" using Cons.prems(1) faithful_None [OF assms(1) b1(1)] by (rule relayStep.send)
  moreover have "relayStep\<^sup>*\<^sup>* ?s (?s\<lparr>broker := b', relay := (relay ?s)(i := Sending batch [])\<rparr>)"
    using b1(2) by (intro Cons.IH) simp_all
  ultimately show ?case by (simp add: converse_rtranclp_into_rtranclp del: fun_upd_apply)
qed

lemma publishBatch_fails:
  assumes "faithfulPublisher pub" "relay s i = Sending batch ms" "publishBatch pub ms (broker s) = (Some (m, err), b')"
  shows "\<exists>b1 rest. relayStep\<^sup>*\<^sup>* s (s\<lparr>broker := b1, relay := (relay s)(i := Sending batch (m # rest))\<rparr>)
    \<and> (b' = b1 \<or> stored m b1 b') \<and> m \<in> set ms"
  using assms(2,3)
proof (induction ms arbitrary: s)
  case (Cons x ms)
  show ?case
  proof (cases "pub x (broker s)")
    case (Pair e b1)
    show ?thesis
    proof (cases e)
      case (Some y)
      then have x: "x = m" "y = err" "b1 = b'" using Cons.prems(2) Pair by simp_all
      have "s = s\<lparr>broker := broker s, relay := (relay s)(i := Sending batch (m # ms))\<rparr>"
        using Cons.prems(1) x(1) by (simp add: fun_upd_idem)
      moreover have "b' = broker s \<or> stored m (broker s) b'"
        using faithful_Some [OF assms(1)] Pair Some x by metis
      ultimately show ?thesis using x(1) by (metis list.set_intros(1) rtranclp.rtrancl_refl)
    next
      case None
      let ?s = "s\<lparr>broker := b1, relay := (relay s)(i := Sending batch ms)\<rparr>"
      have "relayStep s ?s" using Cons.prems(1) faithful_None [OF assms(1) Pair [unfolded None]] by (rule relayStep.send)
      moreover have "\<exists>b2 rest. relayStep\<^sup>*\<^sup>* ?s (?s\<lparr>broker := b2, relay := (relay ?s)(i := Sending batch (m # rest))\<rparr>)
          \<and> (b' = b2 \<or> stored m b2 b') \<and> m \<in> set ms"
        using Cons.prems(2) Pair None by (intro Cons.IH) simp_all
      then obtain b2 rest where "relayStep\<^sup>*\<^sup>* ?s (s\<lparr>broker := b2, relay := (relay s)(i := Sending batch (m # rest))\<rparr>)"
          "b' = b2 \<or> stored m b2 b'" "m \<in> set ms"
        by (auto simp del: fun_upd_apply)
      ultimately show ?thesis by (metis converse_rtranclp_into_rtranclp list.set_intros(2))
    qed
  qed
qed simp

text \<open>The end of a drain, from a state in which the relay has claimed and published.\<close>

lemma relays_swap: "s\<lparr>broker := b, tbl := t\<rparr> = s\<lparr>tbl := t, broker := b\<rparr>"
  by simp

lemma parked_steps:
  assumes "relay s i = Sending batch (m # rest)" "b' = broker s \<or> stored m (broker s) b'"
    and "mID m \<notin> locks (s\<lparr>relay := (relay s)(i := Idle)\<rparr>)" "quarantine E m err (tbl s) = (q, t')"
  shows "relayStep\<^sup>*\<^sup>* s (s\<lparr>tbl := t', broker := b', relay := (relay s)(i := Idle)\<rparr>)"
proof -
  let ?p = "s\<lparr>broker := b', relay := (relay s)(i := Parked m err)\<rparr>"
  have "relayStep s ?p"
    using relayStep.refused [OF assms(1), of err] relayStep.refused_stored [OF assms(1), of b' err] assms(2) by auto
  moreover have l: "mID m \<notin> locks ?p" using assms(3) by (auto simp: locks_def split: if_splits)
  have "t' = tbl s \<or> t' = fst (quarantineSQL (dbNow E) (mID m) (errorText err) (tbl s))"
    using assms(4) by (auto simp: quarantine_def Let_def split: option.splits if_splits)
  then have "relayStep ?p (s\<lparr>tbl := t', broker := b', relay := (relay s)(i := Idle)\<rparr>)"
    using relayStep.unquarantined [of ?p i m err] relayStep.quarantine [of ?p i m err "dbNow E"] l by (auto simp: relays_swap)
  ultimately show ?thesis by (meson r_into_rtranclp rtranclp_trans)
qed

lemma drain_refines_steps:
  assumes pub: "faithfulPublisher pub" and idle: "relay s i = Idle"
    and drain: "DrainOnce pub n E (locks s) (tbl s, broker s) = (res, t', b')"
  shows "relayStep\<^sup>*\<^sup>* s (s\<lparr>tbl := t', broker := b'\<rparr>)"
proof (cases "(t', b') = (tbl s, broker s)")
  case True
  then show ?thesis by simp
next
  case False
  let ?batch = "claimSQL n (locks s) (tbl s)"
  let ?c = "s\<lparr>relay := (relay s)(i := Sending ?batch ?batch)\<rparr>"
  have claim: "relayStep\<^sup>*\<^sup>* s ?c" using relayStep.claim [OF idle refl] by blast
  have idle': "(relay s)(i := Idle) = relay s" using idle by (simp add: fun_upd_idem)
  show ?thesis
  proof (cases "publishBatch pub ?batch (broker s)")
    case (Pair f b1)
    show ?thesis
    proof (cases f)
      case None
      let ?d = "s\<lparr>broker := b1, relay := (relay s)(i := Sending ?batch [])\<rparr>"
      have sent: "relayStep\<^sup>*\<^sup>* ?c ?d" using publishBatch_steps [OF pub, of ?c i ?batch ?batch b1] Pair None by simp
      have end': "b' = b1 \<and> (t' = tbl s \<or> t' = fst (markSQL (dbNow E) (map mID ?batch) (tbl s)))"
        using drain False Pair None
        by (auto simp: DrainOnce_def Let_def markPublished_def split_beta split: option.splits if_splits prod.splits)
      have "relayStep ?d (s\<lparr>broker := b1, tbl := t'\<rparr>)"
        using end' relayStep.rollback [of ?d i ?batch "[]"] relayStep.commit [of ?d i ?batch "dbNow E"] by (auto simp: idle')
      moreover have "s\<lparr>broker := b1, tbl := t'\<rparr> = s\<lparr>tbl := t', broker := b'\<rparr>" using end' by simp
      ultimately show ?thesis using claim sent by (metis rtranclp.rtrancl_into_rtrancl rtranclp_trans)
    next
      case (Some x)
      obtain m err where x: "x = (m, err)" by fastforce
      obtain b2 rest where sent: "relayStep\<^sup>*\<^sup>* ?c (s\<lparr>broker := b2, relay := (relay s)(i := Sending ?batch (m # rest))\<rparr>)"
          and b1: "b1 = b2 \<or> stored m b2 b1" and m: "m \<in> set ?batch"
        using publishBatch_fails [OF pub, of ?c i ?batch ?batch m err b1] Pair Some x by auto
      let ?d = "s\<lparr>broker := b2, relay := (relay s)(i := Sending ?batch (m # rest))\<rparr>"
      have unlocked: "mID m \<notin> locks (?d\<lparr>relay := (relay ?d)(i := Idle)\<rparr>)"
        using claimSQL_sound [OF m] by (auto simp: locks_def idle')
      show ?thesis
      proof (cases "IsPermanent err")
        case True
        obtain q tq where q: "quarantine E m err (tbl s) = (q, tq)" by fastforce
        have end': "b' = b1 \<and> t' = tq"
          using drain False Pair Some x True q
          by (auto simp: DrainOnce_def Let_def split: option.splits if_splits prod.splits)
        have "relayStep\<^sup>*\<^sup>* ?d (?d\<lparr>tbl := tq, broker := b1, relay := (relay ?d)(i := Idle)\<rparr>)"
          using b1 q by (intro parked_steps [OF _ _ unlocked, where E = E and err = err and q = q]) auto
        then have "relayStep\<^sup>*\<^sup>* ?d (s\<lparr>tbl := t', broker := b'\<rparr>)" using end' by (simp add: idle' del: fun_upd_apply)
        then show ?thesis using claim sent by (meson rtranclp_trans)
      next
        case False
        with drain \<open>(t', b') \<noteq> (tbl s, broker s)\<close> Pair Some x have end': "b' = b1 \<and> t' = tbl s"
          by (auto simp: DrainOnce_def Let_def split: option.splits if_splits prod.splits)
        have "relayStep ?d (s\<lparr>broker := b1\<rparr>)"
          using b1 relayStep.rollback [of ?d i ?batch "m # rest"] relayStep.unacknowledged [of ?d i ?batch m rest b1] by (auto simp: idle')
        then have "relayStep ?d (s\<lparr>tbl := t', broker := b'\<rparr>)" using end' by simp
        then show ?thesis using claim sent by (meson rtranclp.rtrancl_into_rtrancl rtranclp_trans)
      qed
    qed
  qed
qed

section \<open>The contract of a publisher\<close>

text \<open>What the relay relies on: a publish without error left the message with the broker
  (\<open>holds\<close>), and publishing takes nothing away.\<close>

locale broker_contract =
  fixes pub :: "'b publisher" and holds :: "Message \<Rightarrow> 'b \<Rightarrow> bool"
  assumes publish_holds: "pub m b = (None, b') \<Longrightarrow> holds m b'"
    and publish_mono: "pub m b = (e, b') \<Longrightarrow> holds x b \<Longrightarrow> holds x b'"
begin

lemma publishBatch_mono: "publishBatch pub ms b = (f, b') \<Longrightarrow> holds x b \<Longrightarrow> holds x b'"
  by (induction ms arbitrary: b) (auto split: prod.splits option.splits dest: publish_mono)

lemma publishBatch_holds: "publishBatch pub ms b = (None, b') \<Longrightarrow> m \<in> set ms \<Longrightarrow> holds m b'"
proof (induction ms arbitrary: b)
  case (Cons a ms)
  then obtain b1 where b1: "pub a b = (None, b1)" "publishBatch pub ms b1 = (None, b')"
    by (auto split: prod.splits option.splits)
  then show ?case using Cons publish_holds publishBatch_mono by auto
qed simp

text \<open>A row is marked published only when the broker has its message, whatever fails.\<close>

lemma drain_published_held:
  assumes "\<forall>r \<in> set t. PublishedAt r \<noteq> None \<longrightarrow> holds (msg r) b" "distinct (map rid t)"
    and drain: "DrainOnce pub n E locked (t, b) = (res, t', b')"
  shows "\<forall>r \<in> set t'. PublishedAt r \<noteq> None \<longrightarrow> holds (msg r) b'"
proof -
  let ?batch = "claimSQL n locked t"
  obtain f b1 where pb: "publishBatch pub ?batch b = (f, b1)" by fastforce
  have b': "b' = b \<or> b' = b1" and held: "holds x b'" if "holds x b" for x
    using drain pb that publishBatch_mono [OF pb]
    by (auto simp: DrainOnce_def Let_def split: option.splits prod.splits if_splits)
  have mk: "t' = fst (markSQL (dbNow E) (map mID ?batch) t) \<and> f = None \<and> b' = b1
      \<or> t' = t \<or> (\<exists>i c. t' = fst (quarantineSQL (dbNow E) i c t))"
    using drain pb
    by (auto simp: DrainOnce_def markPublished_def quarantine_def Let_def split_beta
        split: option.splits prod.splits if_splits)
  have own: "msg r \<in> set ?batch" if "r \<in> set t" "rid r \<in> mID ` set ?batch" for r
  proof -
    obtain r' where "r' \<in> set t" "msg r' \<in> set ?batch" "rid r' = rid r"
      using \<open>rid r \<in> mID ` set ?batch\<close> claimSQL_sound [of _ n locked t] by (metis (no_types, lifting) imageE)
    moreover have "inj_on rid (set t)" using assms(2) by (simp add: distinct_map)
    ultimately show ?thesis using \<open>r \<in> set t\<close> by (metis inj_onD)
  qed
  from mk consider (mark) "t' = fst (markSQL (dbNow E) (map mID ?batch) t)" "f = None" "b' = b1" | (same) "t' = t"
    | (quar) i c where "t' = fst (quarantineSQL (dbNow E) i c t)" by blast
  then show ?thesis
  proof cases
    case mark
    then show ?thesis using own publishBatch_holds [of ?batch b b1] pb held assms(1) by (auto simp: markSQL_def)
  qed (use held assms(1) in \<open>auto simp: quarantineSQL_def\<close>)
qed

end

interpretation logpub: broker_contract "LogPublisher jv" "\<lambda>m b. \<exists>l \<in> set b. lOutboxID l = mID m"
  by unfold_locales (auto simp: LogPublisher_def)

section \<open>Progress of one relay\<close>

text \<open>A drain on a database that answers every statement.\<close>

definition healthy :: "drain_env \<Rightarrow> bool" where
  "healthy E \<longleftrightarrow> beginErr E = None \<and> claimErr E = None \<and> scanErr E = None \<and> rowsErr E = None \<and> closeErr E = None
     \<and> markErr E = None \<and> \<not> markAffectedFails E \<and> commitErr E = None \<and> quarErr E = None"

definition decisive :: "'b publisher \<Rightarrow> bool" where
  "decisive pub \<longleftrightarrow> (\<forall>m b e. fst (pub m b) = Some e \<longrightarrow> IsPermanent e)"

definition pending :: "outboxRow list \<Rightarrow> outboxRow list" where
  "pending t = filter claimable t"

fun drains :: "'b publisher \<Rightarrow> nat \<Rightarrow> drain_env list \<Rightarrow> outboxRow list \<times> 'b \<Rightarrow> outboxRow list \<times> 'b" where
  "drains pub n [] s = s"
| "drains pub n (E # Es) s = drains pub n Es (snd (DrainOnce pub n E {} s))"

lemma publishBatch_Some: "publishBatch pub ms b = (Some (m, e), b') \<Longrightarrow> m \<in> set ms \<and> (\<exists>c. pub m c = (Some e, b'))"
  by (induction ms arbitrary: b) (auto split: prod.splits option.splits)

lemma pending_map_less:
  assumes "r \<in> set t" "claimable r" "\<not> claimable (f r)" "\<And>x. x \<in> set t \<Longrightarrow> claimable (f x) \<Longrightarrow> claimable x"
  shows "length (pending (map f t)) < length (pending t)"
  using assms
proof (induction t)
  case (Cons x t)
  have le: "length (filter (claimable \<circ> f) t) \<le> length (filter claimable t)"
    using Cons.prems(4) by (induction t) (auto intro: le_SucI)
  show ?case
  proof (cases "x = r")
    case True
    then show ?thesis using Cons.prems(2,3) le by (simp add: pending_def filter_map)
  next
    case False
    then show ?thesis using Cons by (auto simp: pending_def filter_map)
  qed
qed simp

text \<open>A healthy drain of a non-empty backlog shrinks it, whatever the publisher refuses for good.\<close>

lemma drain_shrinks:
  assumes "healthy E" "decisive pub" "0 < n" "distinct (map rid t)" "pending t \<noteq> []"
  shows "length (pending (fst (snd (DrainOnce pub n E {} (t, b))))) < length (pending t)"
proof -
  let ?batch = "claimSQL n {} t"
  have "\<exists>r \<in> set t. claimable r" using assms(5) by (auto simp: pending_def filter_empty_conv)
  then have ne: "?batch \<noteq> []" using assms(3) by (auto simp: claimSQL_Nil_iff)
  have row: "\<exists>r \<in> set t. msg r = m \<and> claimable r" if "m \<in> set ?batch" for m using claimSQL_sound [OF that] by blast
  obtain f b' where pb: "publishBatch pub ?batch b = (f, b')" by fastforce
  show ?thesis
  proof (cases f)
    case None
    let ?f = "\<lambda>r. if rid r \<in> set (map mID ?batch) then r\<lparr>PublishedAt := Some (dbNow E)\<rparr> else r"
    have count: "length (filter (\<lambda>r. rid r \<in> set (map mID ?batch)) t) = length ?batch"
    proof -
      let ?F = "filter (\<lambda>r. rid r \<in> set (map mID ?batch)) t"
      have "set (map rid ?F) = set (map mID ?batch)" using row by (auto simp: image_iff) metis
      moreover have "distinct (map rid ?F)" "distinct (map mID ?batch)"
        using assms(4) claimSQL_distinct by (auto simp: distinct_map_filter)
      ultimately show ?thesis by (metis distinct_card length_map)
    qed
    then have "fst (snd (DrainOnce pub n E {} (t, b))) = map ?f t"
      using assms(1) ne pb None by (simp add: DrainOnce_def healthy_def markPublished_def markSQL_def Let_def)
    moreover obtain r where r: "r \<in> set t" "claimable r" "rid r \<in> set (map mID ?batch)"
      using row [of "hd ?batch"] ne by (metis hd_in_set image_eqI list.set_map)
    have "length (pending (map ?f t)) < length (pending t)"
    proof (rule pending_map_less [OF r(1,2)])
      show "\<not> claimable (?f r)" using r(3) by (simp add: claimable_def)
      show "claimable x" if "claimable (?f x)" for x using that by (auto simp: claimable_def split: if_splits)
    qed
    ultimately show ?thesis by simp
  next
    case (Some x)
    obtain m e where x: "x = (m, e)" by fastforce
    have m: "m \<in> set ?batch" "IsPermanent e"
      using publishBatch_Some [of pub ?batch b m e b'] pb Some x assms(2) by (auto simp: decisive_def) (metis fst_conv)
    let ?f = "\<lambda>r. if rid r = mID m \<and> PublishedAt r = None
      then r\<lparr>FailedAt := Some (dbNow E), FailureReason := errorText e\<rparr> else r"
    have "fst (snd (DrainOnce pub n E {} (t, b))) = map ?f t"
      using assms(1) ne pb Some x m(2) by (simp add: DrainOnce_def healthy_def quarantine_def quarantineSQL_def Let_def)
    moreover obtain r where r: "r \<in> set t" "msg r = m" "claimable r" using row [OF m(1)] by blast
    have "length (pending (map ?f t)) < length (pending t)"
    proof (rule pending_map_less [OF r(1,3)])
      show "\<not> claimable (?f r)" using r(2,3) by (simp add: claimable_def)
      show "claimable x" if "claimable (?f x)" for x using that by (auto simp: claimable_def split: if_splits)
    qed
    ultimately show ?thesis by simp
  qed
qed

lemma drain_keeps_rows:
  "map msg (fst (snd (DrainOnce pub n E locked (t, b)))) = map msg t"
  by (auto simp: DrainOnce_def quarantine_def quarantineSQL_def markPublished_def markSQL_def Let_def split_beta
      split: option.splits prod.splits if_splits)

lemma drains_clear:
  assumes "list_all healthy Es" "decisive pub" "0 < n" "distinct (map rid t)" "length (pending t) \<le> length Es"
  shows "pending (fst (drains pub n Es (t, b))) = [] \<and> map msg (fst (drains pub n Es (t, b))) = map msg t"
  using assms(1,4,5)
proof (induction Es arbitrary: t b)
  case (Cons E Es)
  obtain t' b' where d: "snd (DrainOnce pub n E {} (t, b)) = (t', b')" by fastforce
  have msgs: "map msg t' = map msg t" using drain_keeps_rows [of pub n E "{}" t b] d by simp
  have "map rid t' = map rid t" using arg_cong [OF msgs, of "map mID"] by (simp add: o_def)
  then have dist: "distinct (map rid t')" using Cons.prems(2) by simp
  have "length (pending t') \<le> length Es"
  proof (cases "pending t = []")
    case True
    then have "claimSQL n {} t = []" by (auto simp: claimSQL_Nil_iff pending_def filter_empty_conv)
    then have "t' = t" using d Cons.prems(1) by (simp add: DrainOnce_def healthy_def)
    then show ?thesis using True by simp
  next
    case False
    then show ?thesis using drain_shrinks [of E pub n t b] Cons.prems assms(2,3) d by simp
  qed
  then show ?case using Cons.IH [of t' b'] Cons.prems(1) dist msgs d by simp
qed (simp add: pending_def)

section \<open>Pruning\<close>

lemma deleteInBatches_ends:
  assumes "0 < n"
  shows "\<exists>k' e rs'. deleteInBatches (deleteFirst q) tab n env k tot rs = Some ((k', e), rs')
    \<and> filter (\<lambda>r. \<not> q r) rs' = filter (\<lambda>r. \<not> q r) rs \<and> set rs' \<subseteq> set rs
    \<and> ((\<forall>i. env i = (None, None, None)) \<longrightarrow>
         e = None \<and> rs' = filter (\<lambda>r. \<not> q r) rs \<and> k' = tot + length (filter q rs))"
proof (induction "length rs" arbitrary: k tot rs rule: less_induct)
  case less
  obtain rs1 d where d: "deleteFirst q n rs = (rs1, d)" by fastforce
  note D = deleteFirst_keeps [of q n rs, unfolded d fst_conv] deleteFirst_count [where rs = rs and q = q and n = n, unfolded d fst_conv snd_conv]
    deleteFirst_short [of q n rs, unfolded d fst_conv snd_conv] deleteFirst_subset [of q n rs, unfolded d fst_conv]
  obtain c x a where e: "env k = (c, x, a)" by (cases "env k") auto
  note step = deleteInBatches.simps [of "deleteFirst q" tab n env k tot rs]
  consider (stop) "c \<noteq> None \<or> x \<noteq> None \<or> a \<noteq> None" | (last) "c = None" "x = None" "a = None" "d < n"
    | (more) "c = None" "x = None" "a = None" "n \<le> d" by fastforce
  then show ?case
  proof cases
    case stop
    then have "env k \<noteq> (None, None, None)" using e by auto
    then have no: "(\<forall>i. env i = (None, None, None)) = False" by blast
    show ?thesis using stop D(1,5) unfolding no by (subst step) (auto simp: e d split: option.split)
  next
    case last
    then have "length (filter q rs1) = 0" using D(4) by (simp add: filter_empty_conv)
    then show ?thesis using last D by (subst step) (simp add: e d)
  next
    case more
    have "length rs1 < length rs" using D(2) more(4) assms by simp
    from less.hyps [OF this, of "Suc k" "tot + d"] show ?thesis
      using more D(1,3,5) by (subst step) (auto simp: e d)
  qed
qed

text \<open>What a run of the pruner leaves in the two tables.\<close>

lemma Prune_run:
  obtains k1 e1 t' k2 e2 p' where
    "Prune (nat (NewPruner bs)) env1 env2 now age1 age2 (t, p) = (case e1 of
       None \<Rightarrow> Some ((\<lparr>prOutbox = k1, prProcessedEvents = k2\<rparr>, e2), t', p')
     | Some err \<Rightarrow> Some ((\<lparr>prOutbox = k1, prProcessedEvents = 0\<rparr>, Some err), t', p))"
    "filter (\<lambda>r. \<not> (case PublishedAt r of None \<Rightarrow> False | Some p \<Rightarrow> p < now - age1)) t'
       = filter (\<lambda>r. \<not> (case PublishedAt r of None \<Rightarrow> False | Some p \<Rightarrow> p < now - age1)) t"
    "(\<forall>i. env1 i = (None, None, None)) \<longrightarrow>
       e1 = None \<and> t' = filter (\<lambda>r. \<not> (case PublishedAt r of None \<Rightarrow> False | Some p \<Rightarrow> p < now - age1)) t
       \<and> k1 = 0 + length (filter (\<lambda>r. case PublishedAt r of None \<Rightarrow> False | Some p \<Rightarrow> p < now - age1) t)"
    "filter (\<lambda>r. \<not> ProcessedAt r < now - age2) p' = filter (\<lambda>r. \<not> ProcessedAt r < now - age2) p" "set p' \<subseteq> set p"
    "(\<forall>i. env2 i = (None, None, None)) \<longrightarrow>
       e2 = None \<and> p' = filter (\<lambda>r. \<not> ProcessedAt r < now - age2) p \<and> k2 = 0 + length (filter (\<lambda>r. ProcessedAt r < now - age2) p)"
proof -
  let ?n = "nat (NewPruner bs)"
  let ?q1 = "\<lambda>r. case PublishedAt r of None \<Rightarrow> False | Some p \<Rightarrow> p < now - age1" and ?q2 = "\<lambda>r. ProcessedAt r < now - age2"
  have n: "0 < ?n" by (simp add: NewPruner_def)
  obtain k1 e1 t' where d1: "deleteInBatches (deleteFirst ?q1) ''outbox'' ?n env1 0 0 t = Some ((k1, e1), t')"
      "filter (\<lambda>r. \<not> ?q1 r) t' = filter (\<lambda>r. \<not> ?q1 r) t"
      "(\<forall>i. env1 i = (None, None, None)) \<longrightarrow> e1 = None \<and> t' = filter (\<lambda>r. \<not> ?q1 r) t \<and> k1 = 0 + length (filter ?q1 t)"
    using deleteInBatches_ends [OF n, of ?q1 "''outbox''" env1 0 0 t] by blast
  obtain k2 e2 p' where d2: "deleteInBatches (deleteFirst ?q2) ''processed_events'' ?n env2 0 0 p = Some ((k2, e2), p')"
      "filter (\<lambda>r. \<not> ?q2 r) p' = filter (\<lambda>r. \<not> ?q2 r) p" "set p' \<subseteq> set p"
      "(\<forall>i. env2 i = (None, None, None)) \<longrightarrow> e2 = None \<and> p' = filter (\<lambda>r. \<not> ?q2 r) p \<and> k2 = 0 + length (filter ?q2 p)"
    using deleteInBatches_ends [OF n, of ?q2 "''processed_events''" env2 0 0 p] by blast
  have sql: "pruneOutboxSQL (now - age1) = deleteFirst ?q1" "pruneProcessedEventsSQL (now - age2) = deleteFirst ?q2"
    by (simp_all add: fun_eq_iff pruneOutboxSQL_def pruneProcessedEventsSQL_def)
  have "Prune ?n env1 env2 now age1 age2 (t, p) = (case e1 of
      None \<Rightarrow> Some ((\<lparr>prOutbox = k1, prProcessedEvents = k2\<rparr>, e2), t', p')
    | Some err \<Rightarrow> Some ((\<lparr>prOutbox = k1, prProcessedEvents = 0\<rparr>, Some err), t', p))"
    unfolding Prune_def sql fst_conv snd_conv d1(1) d2(1) by (simp split: option.split)
  from that [OF this d1(2,3) d2(2,3,4)] show ?thesis .
qed

section \<open>Properties\<close>

text \<open>
  C13: the outbox loses nothing, however many relays run and wherever they crash. In every reachable
  state an event that was written and is not in the broker still has its unpublished row; a row
  marked published was stored by the broker and is not quarantined; the broker holds only events
  that were written; no two relays hold the same row; and the update that marks a batch matches
  exactly the rows claimed, so the guard against republishing the difference never fires.
\<close>

theorem outbox_loses_nothing:
  assumes "relayStep\<^sup>*\<^sup>* emptySystem s"
  shows "(\<forall>m \<in> set (inserted s). m \<notin> set (broker s) \<longrightarrow> (\<exists>r \<in> set (tbl s). msg r = m \<and> PublishedAt r = None))
    \<and> (\<forall>r \<in> set (tbl s). PublishedAt r \<noteq> None \<longrightarrow> msg r \<in> set (broker s) \<and> FailedAt r = None)
    \<and> set (broker s) \<subseteq> set (inserted s)
    \<and> (\<forall>i j. i \<noteq> j \<longrightarrow> heldBy (relay s i) \<inter> heldBy (relay s j) = {})
    \<and> (\<forall>i batch rest now. relay s i = Sending batch rest \<longrightarrow> snd (markSQL now (map mID batch) (tbl s)) = length batch)"
proof -
  have ok: "relaysOk s" by (rule reach_ok [OF assms])
  then have t: "tableOk (tbl s) (broker s) (inserted s)" and d: "disjointLocks (relay s)" by (simp_all add: relaysOk_def)
  have "\<exists>r \<in> set (tbl s). msg r = m \<and> PublishedAt r = None" if "m \<in> set (inserted s)" "m \<notin> set (broker s)" for m
  proof -
    obtain r where r: "r \<in> set (tbl s)" "msg r = m" using t \<open>m \<in> set (inserted s)\<close> \<open>m \<notin> set (broker s)\<close> by (auto simp: tableOk_def)
    then have "PublishedAt r = None" using t \<open>m \<notin> set (broker s)\<close> by (auto simp: tableOk_def)
    with r show ?thesis by blast
  qed
  moreover have "\<forall>r \<in> set (tbl s). PublishedAt r \<noteq> None \<longrightarrow> msg r \<in> set (broker s) \<and> FailedAt r = None"
    "set (broker s) \<subseteq> set (inserted s)" using t by (simp_all add: tableOk_def)
  moreover have "\<forall>i j. i \<noteq> j \<longrightarrow> heldBy (relay s i) \<inter> heldBy (relay s j) = {}" using d by (simp add: disjointLocks_def)
  ultimately show ?thesis using markSQL_affects_batch [OF ok] by blast
qed

definition sampleMsg :: Message where
  "sampleMsg = \<lparr>mID = 1, mTenantID = ''acme'', mAggregateID = ''o1'', mEventType = ''order.v1.OrderCreated'',
     mPayload = ''{}'', mOccurredAt = 0, mTraceParent = []\<rparr>"

definition sampleSystem :: relays where
  "sampleSystem = emptySystem\<lparr>tbl := [\<lparr>msg = sampleMsg, PublishedAt = None, FailedAt = None, FailureReason = []\<rparr>],
     inserted := [sampleMsg]\<rparr>"

lemma sampleSystem_reach: "relayStep\<^sup>*\<^sup>* emptySystem sampleSystem"
  using relayStep.insert [of sampleMsg emptySystem] by (simp add: sampleSystem_def emptySystem_def r_into_rtranclp)

theorem outbox_loses_nothing_witness:
  "\<exists>r \<in> set (tbl sampleSystem). msg r = sampleMsg \<and> PublishedAt r = None"
  using outbox_loses_nothing [OF sampleSystem_reach] by (simp add: sampleSystem_def emptySystem_def)

text \<open>
  C14: the relay's code follows that protocol. Whatever the database and the broker answer, a call of
  \<open>DrainOnce\<close> by an idle relay, over a publisher whose success means stored, takes the table and
  the broker through a sequence of protocol steps, so every state it leaves is a reachable one.
\<close>

theorem drain_refines_protocol:
  assumes "relayStep\<^sup>*\<^sup>* emptySystem s" "faithfulPublisher pub" "relay s i = Idle"
    and "DrainOnce pub n E (locks s) (tbl s, broker s) = (res, t', b')"
  shows "relayStep\<^sup>*\<^sup>* s (s\<lparr>tbl := t', broker := b'\<rparr>) \<and> relayStep\<^sup>*\<^sup>* emptySystem (s\<lparr>tbl := t', broker := b'\<rparr>)"
  using drain_refines_steps [OF assms(2,3,4)] assms(1) by (meson rtranclp_trans)

definition calmEnv :: drain_env where
  "calmEnv = \<lparr>beginErr = None, claimErr = None, scanErr = None, rowsErr = None, closeErr = None, markErr = None,
     markAffectedFails = False, commitErr = None, commitApplied = False, quarErr = None, quarApplied = False, dbNow = 5\<rparr>"

definition storingPublisher :: "Message list publisher" where
  "storingPublisher m b = (None, b @ [m])"

lemma sample_claim: "claimSQL 100 {} (tbl sampleSystem) = [sampleMsg]"
  by (simp add: claimSQL_def sampleSystem_def claimable_def)

lemma sample_drain:
  "DrainOnce storingPublisher 100 calmEnv {} (tbl sampleSystem, broker sampleSystem)
     = ((1, None), [\<lparr>msg = sampleMsg, PublishedAt = Some 5, FailedAt = None, FailureReason = []\<rparr>], [sampleMsg])"
  using sample_claim
  by (simp add: DrainOnce_def markPublished_def markSQL_def storingPublisher_def calmEnv_def Let_def)
    (simp add: sampleSystem_def emptySystem_def)

theorem drain_refines_protocol_witness:
  "relayStep\<^sup>*\<^sup>* emptySystem (sampleSystem\<lparr>tbl := [\<lparr>msg = sampleMsg, PublishedAt = Some 5, FailedAt = None, FailureReason = []\<rparr>],
     broker := [sampleMsg]\<rparr>)"
proof -
  have "faithfulPublisher storingPublisher" by (simp add: faithfulPublisher_def storingPublisher_def stored_def)
  moreover have "relay sampleSystem 0 = Idle" "locks sampleSystem = {}"
    by (simp_all add: sampleSystem_def emptySystem_def locks_def)
  ultimately show ?thesis
    using drain_refines_protocol [OF sampleSystem_reach, of storingPublisher 0 100 calmEnv] sample_drain by simp
qed

text \<open>
  C17: a backlog is worked off and a poison event does not block it. With a database that answers and
  a publisher that fails only permanently, one drain per waiting row leaves no row waiting, whatever
  the publisher refuses, and no row is dropped: each is published or quarantined.
\<close>

theorem backlog_is_cleared:
  assumes "list_all healthy Es" "decisive pub" "0 < n" "distinct (map rid t)" "length (pending t) \<le> length Es"
  shows "(\<forall>r \<in> set (fst (drains pub n Es (t, b))). PublishedAt r \<noteq> None \<or> FailedAt r \<noteq> None)
    \<and> map msg (fst (drains pub n Es (t, b))) = map msg t"
  using drains_clear [OF assms] by (auto simp: pending_def filter_empty_conv claimable_def)

definition poisonPublisher :: "Message list publisher" where
  "poisonPublisher m b = (if mID m = 1 then (Some (PermanentErr (Plain ''too big'')), b) else (None, b @ [m]))"

theorem backlog_is_cleared_witness:
  "let t = map (\<lambda>i. \<lparr>msg = sampleMsg\<lparr>mID := i\<rparr>, PublishedAt = None, FailedAt = None, FailureReason = []\<rparr>) [1, 2, 3]
   in pending (fst (drains poisonPublisher 2 [calmEnv, calmEnv, calmEnv] (t, []))) = []"
proof -
  define t where "t = map (\<lambda>i. \<lparr>msg = sampleMsg\<lparr>mID := i\<rparr>, PublishedAt = None, FailedAt = None, FailureReason = []\<rparr>) [1, 2, 3]"
  have "healthy calmEnv" by (simp add: healthy_def calmEnv_def)
  moreover have "decisive poisonPublisher" by (simp add: decisive_def poisonPublisher_def)
  moreover have "distinct (map rid t)" "length (pending t) \<le> length [calmEnv, calmEnv, calmEnv]"
    by (simp_all add: t_def pending_def)
  ultimately have "\<forall>r \<in> set (fst (drains poisonPublisher 2 [calmEnv, calmEnv, calmEnv] (t, []))). PublishedAt r \<noteq> None \<or> FailedAt r \<noteq> None"
    by (intro backlog_is_cleared [THEN conjunct1]) simp_all
  then show ?thesis unfolding Let_def t_def [symmetric] by (auto simp: pending_def filter_empty_conv claimable_def)
qed

text \<open>
  C36: pruning ends and never removes an undelivered event. For every batch size, configuration and
  pattern of errors and interruptions \<open>Prune\<close> returns; a row that is unpublished (pending or
  quarantined) or was published at or after the cutoff survives; and an undisturbed run removes
  exactly what \<open>Eligible\<close> announced and reports it.
\<close>

theorem prune_ends_and_keeps_undelivered:
  "\<exists>res t' p'. Prune (nat (NewPruner bs)) env1 env2 now age1 age2 (t, p) = Some (res, t', p')
    \<and> filter (\<lambda>r. case PublishedAt r of None \<Rightarrow> True | Some x \<Rightarrow> now - age1 \<le> x) t'
        = filter (\<lambda>r. case PublishedAt r of None \<Rightarrow> True | Some x \<Rightarrow> now - age1 \<le> x) t
    \<and> ((\<forall>i. env1 i = (None, None, None)) \<and> (\<forall>i. env2 i = (None, None, None)) \<longrightarrow>
         res = (Eligible now age1 age2 (t, p), None) \<and> Eligible now age1 age2 (t', p') = \<lparr>prOutbox = 0, prProcessedEvents = 0\<rparr>)"
proof -
  have keep: "(\<lambda>r. case PublishedAt r of None \<Rightarrow> True | Some x \<Rightarrow> now - age1 \<le> x)
      = (\<lambda>r. \<not> (case PublishedAt r of None \<Rightarrow> False | Some p \<Rightarrow> p < now - age1))"
    by (auto simp: fun_eq_iff split: option.splits)
  obtain k1 e1 t' k2 e2 p' where run: "Prune (nat (NewPruner bs)) env1 env2 now age1 age2 (t, p) = (case e1 of
       None \<Rightarrow> Some ((\<lparr>prOutbox = k1, prProcessedEvents = k2\<rparr>, e2), t', p')
     | Some err \<Rightarrow> Some ((\<lparr>prOutbox = k1, prProcessedEvents = 0\<rparr>, Some err), t', p))"
    and d1: "filter (\<lambda>r. \<not> (case PublishedAt r of None \<Rightarrow> False | Some p \<Rightarrow> p < now - age1)) t'
       = filter (\<lambda>r. \<not> (case PublishedAt r of None \<Rightarrow> False | Some p \<Rightarrow> p < now - age1)) t"
      "(\<forall>i. env1 i = (None, None, None)) \<longrightarrow>
       e1 = None \<and> t' = filter (\<lambda>r. \<not> (case PublishedAt r of None \<Rightarrow> False | Some p \<Rightarrow> p < now - age1)) t
       \<and> k1 = 0 + length (filter (\<lambda>r. case PublishedAt r of None \<Rightarrow> False | Some p \<Rightarrow> p < now - age1) t)"
    and d2: "(\<forall>i. env2 i = (None, None, None)) \<longrightarrow>
       e2 = None \<and> p' = filter (\<lambda>r. \<not> ProcessedAt r < now - age2) p \<and> k2 = 0 + length (filter (\<lambda>r. ProcessedAt r < now - age2) p)"
    by (rule Prune_run [of bs env1 env2 now age1 age2 t p])
  show ?thesis
  proof (cases e1)
    case None
    then show ?thesis
      using run d1 d2 unfolding keep
      by (intro exI [of _ "(\<lparr>prOutbox = k1, prProcessedEvents = k2\<rparr>, e2)"] exI [of _ t'] exI [of _ p'] conjI)
        (auto simp: Eligible_def)
  next
    case (Some err)
    then show ?thesis using run d1 unfolding keep by auto
  qed
qed

theorem prune_ends_and_keeps_undelivered_witness:
  "\<exists>t' p'. Prune (nat (NewPruner 1)) (\<lambda>_. (None, None, None)) (\<lambda>_. (None, None, None)) 100 10 10
       ([\<lparr>msg = sampleMsg, PublishedAt = Some 5, FailedAt = None, FailureReason = []\<rparr>,
         \<lparr>msg = sampleMsg, PublishedAt = None, FailedAt = None, FailureReason = []\<rparr>], [])
     = Some ((\<lparr>prOutbox = 1, prProcessedEvents = 0\<rparr>, None), t', p')"
  using prune_ends_and_keeps_undelivered [of 1 "\<lambda>_. (None, None, None)" "\<lambda>_. (None, None, None)" 100 10 10
      "[\<lparr>msg = sampleMsg, PublishedAt = Some 5, FailedAt = None, FailureReason = []\<rparr>,
        \<lparr>msg = sampleMsg, PublishedAt = None, FailedAt = None, FailureReason = []\<rparr>]" "[]"]
  by (auto simp: Eligible_def)

text \<open>
  One slow publish stops the relay for good. When publishing a row fails with an error that wraps
  \<open>context.DeadlineExceeded\<close>, as a publish that times out on its own does, \<open>Run\<close> takes it for a
  shutdown and returns nil, although its context is not done and the row is still waiting.
\<close>

theorem run_stops_on_publish_timeout:
  assumes "healthy E" "claimSQL n locked t = m # ms" "pub m b = (Some err, b')"
    and "errorsIs err ContextDeadlineExceeded" "\<not> IsPermanent err"
  shows "Run pub n interval ((False, E, locked) # ticks) (t, b) = (Some None, [], t, b')"
  using assms by (simp add: DrainOnce_def healthy_def Let_def)

theorem run_stops_on_publish_timeout_witness:
  "Run (\<lambda>m b. (Some (Errorf ''publish: context deadline exceeded'' [Sentinel ContextDeadlineExceeded]), b)) 100 0
     [(False, calmEnv, {}), (False, calmEnv, {})] (tbl sampleSystem, []) = (Some None, [], tbl sampleSystem, [])"
proof (rule run_stops_on_publish_timeout [OF _ sample_claim])
  show "healthy calmEnv" by (simp add: healthy_def calmEnv_def)
qed (rule refl, simp_all)

end
