(* ===== verification/Orderpg.thy ===== *)
theory Orderpg
  imports Service Gormx Outbox
begin

text \<open>
  The Postgres adapter (\<open>internal/order/orderpg\<close>) over the tables of the migrations
  (\<open>internal/platform/migrations\<close>): rows, their mapping to the aggregate, and every operation
  with the statements it runs, each of which may fail. Postgres and the driver are modelled where
  the adapter relies on them: the constraints of the tables, the precision of \<open>timestamptz\<close>, the
  blank padding of \<open>char(3)\<close> and statements through GORM with the tenant guard. The forms of
  \<open>uuid\<close> values, which byte strings are text, and JSON are the parameters of \<open>pglib\<close>.
\<close>

section \<open>Rows\<close>

record orderRow =
  rID :: string
  rTenantID :: string
  rCustomerID :: string
  rStatus :: string
  rCurrencyCode :: string
  rTotalUnits :: int
  rTotalNanos :: int
  rCreatedAt :: int
  rUpdatedAt :: int

record itemRow =
  iOrderID :: string
  iLineNo :: nat
  iSKU :: string
  iQuantity :: int
  iUnitCurrency :: string
  iUnitUnits :: int
  iUnitNanos :: int

text \<open>The model's \<open>TenantColumn\<close> and \<open>TableName\<close>; \<open>itemRow\<close> and the outbox row are not scoped.\<close>

definition orderType :: gotype where
  "orderType = Named (Some (''tenant_id'', False))"

definition orderColumn :: "string \<Rightarrow> orderRow \<Rightarrow> string" where
  "orderColumn col r = (if col = ''tenant_id'' then rTenantID r else [])"

definition itemRowOf :: "string \<Rightarrow> nat \<Rightarrow> Item \<Rightarrow> itemRow" where
  "itemRowOf orderID i item =
     \<lparr>iOrderID = orderID, iLineNo = i, iSKU = SKU item, iQuantity = Quantity item,
      iUnitCurrency = CurrencyCode (UnitPrice item), iUnitUnits = Units (UnitPrice item),
      iUnitNanos = Nanos (UnitPrice item)\<rparr>"

definition toRow :: "Order \<Rightarrow> orderRow \<times> itemRow list" where
  "toRow o' =
     (\<lparr>rID = ID o', rTenantID = TenantID o', rCustomerID = CustomerID o', rStatus = StatusString (Status o'),
       rCurrencyCode = CurrencyCode (Total o'), rTotalUnits = Units (Total o'), rTotalNanos = Nanos (Total o'),
       rCreatedAt = CreatedAt o', rUpdatedAt = UpdatedAt o'\<rparr>,
      map2 (itemRowOf (ID o')) [0..<length (Items o')] (Items o'))"

fun itemsToDomain :: "itemRow list \<Rightarrow> Item list res" where
  "itemsToDomain [] = Inr []"
| "itemsToDomain (it # rest) =
     (case NewMoney (iUnitCurrency it) (iUnitUnits it) (iUnitNanos it) of
        Inl err \<Rightarrow> Inl err
      | Inr price \<Rightarrow> (case itemsToDomain rest of
          Inl err \<Rightarrow> Inl err
        | Inr items \<Rightarrow> Inr (\<lparr>SKU = iSKU it, Quantity = iQuantity it, UnitPrice = price\<rparr> # items)))"

definition toDomain :: "orderRow \<Rightarrow> itemRow list \<Rightarrow> Order res" where
  "toDomain row items =
     (case ParseStatus (rStatus row) of Inl err \<Rightarrow> Inl err
      | Inr status \<Rightarrow> (case NewMoney (rCurrencyCode row) (rTotalUnits row) (rTotalNanos row) of Inl err \<Rightarrow> Inl err
      | Inr tot \<Rightarrow> (case itemsToDomain items of Inl err \<Rightarrow> Inl err
      | Inr its \<Rightarrow> Inr \<lparr>ID = rID row, TenantID = rTenantID row, CustomerID = rCustomerID row, Status = status,
          Items = its, Total = tot, CreatedAt = rCreatedAt row, UpdatedAt = rUpdatedAt row\<rparr>)))"

section \<open>The database\<close>

text \<open>The three tables, and the last value of the sequence behind \<open>outbox.id\<close>.\<close>

record pgdb =
  ordersT :: "orderRow list"
  itemsT :: "itemRow list"
  outboxT :: "outboxRow list"
  outboxSeq :: int

text \<open>\<open>pgUuid\<close> reads a \<open>uuid\<close> and writes it in its canonical form, \<open>pgText\<close> says whether a byte
  string is text in the database's encoding, \<open>jsonOrder\<close> and \<open>unjsonOrder\<close> are
  \<open>json.Marshal\<close> and \<open>json.Unmarshal\<close> at \<open>order.Order\<close>, and \<open>jsonbStore\<close> is what a
  \<open>jsonb\<close> column returns for what it was given.\<close>

record pglib =
  pgUuid :: "string \<Rightarrow> string option"
  pgText :: "string \<Rightarrow> bool"
  jsonOrder :: "Order \<Rightarrow> string res"
  jsonbStore :: "string \<Rightarrow> string res"
  unjsonOrder :: "string \<Rightarrow> Order res"

text \<open>What the database answers beside the constraints: an error per statement, for a commit with
  whether it took effect nevertheless, and how many sequence values others consumed.\<close>

record pgfaults =
  fBegin :: "goerr option"
  fInsertOrder :: "goerr option"
  fInsertItems :: "goerr option"
  fSelect :: "goerr option"
  fSelectItems :: "goerr option"
  fUpdate :: "goerr option"
  fDeleteItems :: "goerr option"
  fInsertEvent :: "goerr option"
  fSelectEvents :: "goerr option"
  fEnd :: "(goerr \<times> bool) option"
  fTxBegin :: "goerr option"
  fTxCommit :: "(goerr \<times> bool) option"
  fSeqGap :: nat

definition pgUniqueViolation :: string where "pgUniqueViolation = ''23505''"
definition pgCheckViolation :: string where "pgCheckViolation = ''23514''"

text \<open>\<open>char(3)\<close>: blank-padded, and too long a value is refused.\<close>

definition char3 :: "string \<Rightarrow> string" where
  "char3 s = s @ replicate (3 - length s) (CHR '' '')"

definition textRow :: "pglib \<Rightarrow> orderRow \<Rightarrow> bool" where
  "textRow L r \<longleftrightarrow> pgText L (rTenantID r) \<and> pgText L (rCustomerID r) \<and> pgText L (rStatus r) \<and> pgText L (rCurrencyCode r)
     \<and> length (rCurrencyCode r) \<le> 3"

definition textItem :: "pglib \<Rightarrow> itemRow \<Rightarrow> bool" where
  "textItem L r \<longleftrightarrow> pgText L (iSKU r) \<and> pgText L (iUnitCurrency r) \<and> length (iUnitCurrency r) \<le> 3"

definition dataError :: goerr where
  "dataError = PgError ''22000'' [] ''invalid value''"

text \<open>\<open>INSERT INTO orders\<close>, with the constraints of the table.\<close>

definition insertOrderSQL :: "pglib \<Rightarrow> pgfaults \<Rightarrow> orderRow \<Rightarrow> pgdb \<Rightarrow> goerr option \<times> pgdb" where
  "insertOrderSQL L F row s = (case fInsertOrder F of
     Some err \<Rightarrow> (Some err, s)
   | None \<Rightarrow> (case pgUuid L (rID row) of
       None \<Rightarrow> (Some dataError, s)
     | Some i \<Rightarrow>
         if \<not> textRow L row then (Some dataError, s)
         else if rTenantID row = [] then (Some (PgError pgCheckViolation ''orders_tenant_not_empty'' []), s)
         else if \<not> (- 1000000000 < rTotalNanos row \<and> rTotalNanos row < 1000000000) then
           (Some (PgError pgCheckViolation ''orders_nanos_range'' []), s)
         else if list_ex (\<lambda>r. rID r = i) (ordersT s) then (Some (PgError pgUniqueViolation ''orders_pkey'' []), s)
         else (None, s\<lparr>ordersT := ordersT s @ [row\<lparr>rID := i, rCurrencyCode := char3 (rCurrencyCode row),
                rCreatedAt := pgTime (rCreatedAt row), rUpdatedAt := pgTime (rUpdatedAt row)\<rparr>]\<rparr>)))"

definition storedItem :: "pglib \<Rightarrow> itemRow \<Rightarrow> itemRow option" where
  "storedItem L it = (case pgUuid L (iOrderID it) of None \<Rightarrow> None
     | Some i \<Rightarrow> if textItem L it then Some (it\<lparr>iOrderID := i, iUnitCurrency := char3 (iUnitCurrency it)\<rparr>) else None)"

text \<open>\<open>INSERT INTO order_items\<close> of all rows at once: all of them or none.\<close>

definition insertItemsSQL :: "pglib \<Rightarrow> pgfaults \<Rightarrow> itemRow list \<Rightarrow> pgdb \<Rightarrow> goerr option \<times> pgdb" where
  "insertItemsSQL L F items s = (case fInsertItems F of
     Some err \<Rightarrow> (Some err, s)
   | None \<Rightarrow>
       let stored = map (storedItem L) items; rows = map the stored
       in if list_ex (\<lambda>r. r = None) stored then (Some dataError, s)
          else if list_ex (\<lambda>it. iQuantity it \<le> 0) rows then (Some (PgError pgCheckViolation ''order_items_quantity_positive'' []), s)
          else if \<not> distinct (map (\<lambda>it. (iOrderID it, iLineNo it)) (itemsT s @ rows)) then
            (Some (PgError pgUniqueViolation ''order_items_pkey'' []), s)
          else if list_ex (\<lambda>it. \<not> list_ex (\<lambda>r. rID r = iOrderID it) (ordersT s)) rows then
            (Some (PgError ''23503'' ''order_items_order_id_fkey'' []), s)
          else (None, s\<lparr>itemsT := itemsT s @ rows\<rparr>))"

section \<open>The adapter\<close>

definition mapWriteError :: "goerr \<Rightarrow> goerr" where
  "mapWriteError err =
     (let fallback = (if errorsIs err GormErrDuplicatedKey then Sentinel ErrDuplicate else err)
      in case asPg err of
           Some (code, constraint) \<Rightarrow>
             if code = pgUniqueViolation then Sentinel ErrDuplicate
             else if code = pgCheckViolation then
               Errorf (sentinel_text ErrInvalidItem @ '': constraint '' @ constraint) [Sentinel ErrInvalidItem]
             else fallback
         | None \<Rightarrow> fallback)"

text \<open>\<open>inTransaction\<close>: a transaction, or a savepoint of the enclosing one.\<close>

definition inTransaction :: "pgfaults \<Rightarrow> (pgdb \<Rightarrow> goerr option \<times> pgdb) \<Rightarrow> pgdb \<Rightarrow> goerr option \<times> pgdb" where
  "inTransaction F fn s = (case fBegin F of
     Some err \<Rightarrow> (Some err, s)
   | None \<Rightarrow> (case fn s of
       (Some err, _) \<Rightarrow> (Some err, s)
     | (None, s') \<Rightarrow> (case fEnd F of
         None \<Rightarrow> (None, s')
       | Some (err, applied) \<Rightarrow> (Some err, if applied then s' else s))))"

definition pgCreate :: "pglib \<Rightarrow> pgfaults \<Rightarrow> Order \<Rightarrow> pgdb \<Rightarrow> goerr option \<times> pgdb" where
  "pgCreate L F o' s =
     (if TenantID o' = [] then (Some (Sentinel ErrMissingTenant), s)
      else (let (row, items) = toRow o'
            in inTransaction F (\<lambda>s. case insertOrderSQL L F row s of
                 (Some err, s1) \<Rightarrow> (Some (mapWriteError err), s1)
               | (None, s1) \<Rightarrow>
                   if items \<noteq> [] then (case insertItemsSQL L F items s1 of
                       (Some err, s2) \<Rightarrow> (Some (mapWriteError err), s2)
                     | (None, s2) \<Rightarrow> (None, s2))
                   else (None, s1)) s))"

text \<open>A query on \<open>orders\<close> in the session of a tenant, through the guard; its conditions.\<close>

definition scopedOrders :: "string \<Rightarrow> (orderRow \<Rightarrow> bool) list \<Rightarrow> pgdb \<Rightarrow> orderRow list res" where
  "scopedOrders tenantID conds s =
     (case tenantGuard orderColumn (Some tenantID)
          \<lparr>rawSQL = False, stModel = Some (Pointer orderType), stDest = None, stWhere = map (Pair False) conds\<rparr> of
        Inl err \<Rightarrow> Inl err
      | Inr st \<Rightarrow> Inr (selectRows st (ordersT s)))"

text \<open>\<open>Preload("Items")\<close>, ordered by line number.\<close>

definition preload :: "pgdb \<Rightarrow> orderRow \<Rightarrow> itemRow list" where
  "preload s row = sort_key iLineNo (filter (\<lambda>it. iOrderID it = rID row) (itemsT s))"

text \<open>The parameters of a query are bound as values of the columns' types: an order id has to be a
  \<open>uuid\<close>, tenant and customer have to be text (the names of the statuses always are).\<close>

definition pgGet :: "pglib \<Rightarrow> pgfaults \<Rightarrow> string \<Rightarrow> string \<Rightarrow> pgdb \<Rightarrow> Order res" where
  "pgGet L F tenantID orderID s =
     (if tenantID = [] then Inl (Sentinel ErrMissingTenant)
      else (let found = (case fSelect F of Some err \<Rightarrow> Inl err
                | None \<Rightarrow> (case (if pgText L tenantID then pgUuid L orderID else None) of None \<Rightarrow> Inl dataError
                | Some i \<Rightarrow> (case scopedOrders tenantID [\<lambda>r. rTenantID r = tenantID \<and> rID r = i] s of
                    Inl err \<Rightarrow> Inl err
                  | Inr rows \<Rightarrow> (case sort_key rID rows of
                      [] \<Rightarrow> Inl (Sentinel GormErrRecordNotFound)
                    | row # _ \<Rightarrow> (case fSelectItems F of Some err \<Rightarrow> Inl err | None \<Rightarrow> Inr (row, preload s row))))))
            in case found of
                 Inl err \<Rightarrow> if errorsIs err GormErrRecordNotFound then Inl (Sentinel ErrNotFound) else Inl err
               | Inr (row, items) \<Rightarrow> toDomain row items))"

text \<open>The loop over the rows of a page.\<close>

fun rowsToDomain :: "(orderRow \<times> itemRow list) list \<Rightarrow> Order list res" where
  "rowsToDomain [] = Inr []"
| "rowsToDomain ((row, items) # rest) = (case toDomain row items of
     Inl err \<Rightarrow> Inl err
   | Inr o' \<Rightarrow> (case rowsToDomain rest of Inl err \<Rightarrow> Inl err | Inr os \<Rightarrow> Inr (o' # os)))"

text \<open>The conditions \<open>List\<close> adds to its query.\<close>

definition listConds :: "string \<Rightarrow> ListFilter \<Rightarrow> (int \<times> string) option \<Rightarrow> (orderRow \<Rightarrow> bool) list" where
  "listConds tenantID f cur =
     [\<lambda>r. rTenantID r = tenantID]
     @ (if fStatus f \<noteq> StatusUnspecified then [\<lambda>r. rStatus r = StatusString (fStatus f)] else [])
     @ (if fCustomerID f \<noteq> [] then [\<lambda>r. rCustomerID r = fCustomerID f] else [])
     @ (case cur of None \<Rightarrow> [] | Some (after, afterID) \<Rightarrow> [\<lambda>r. (after, afterID) < (rCreatedAt r, rID r)])"

definition textFilter :: "pglib \<Rightarrow> string \<Rightarrow> ListFilter \<Rightarrow> bool" where
  "textFilter L tenantID f \<longleftrightarrow> pgText L tenantID \<and> (fCustomerID f = [] \<or> pgText L (fCustomerID f))"

definition pgList :: "pglib \<Rightarrow> pgfaults \<Rightarrow> codec \<Rightarrow> string \<Rightarrow> ListFilter \<Rightarrow> pgdb \<Rightarrow> Page res" where
  "pgList L F K tenantID f s =
     (if tenantID = [] then Inl (Sentinel ErrMissingTenant)
      else (case DecodePageToken K tenantID f of Inl err \<Rightarrow> Inl err
      | Inr cur \<Rightarrow> (case (case cur of None \<Rightarrow> Inr None
             | Some (after, afterID) \<Rightarrow> (case pgUuid L afterID of None \<Rightarrow> Inl dataError | Some i \<Rightarrow> Inr (Some (pgTime after, i)))) of
          Inl err \<Rightarrow> Inl err
      | Inr pcur \<Rightarrow> (let size = nat (ClampPageSize (PageSize f)) in
          (case (case fSelect F of Some err \<Rightarrow> Inl err
              | None \<Rightarrow> if textFilter L tenantID f then scopedOrders tenantID (listConds tenantID f pcur) s else Inl dataError) of
             Inl err \<Rightarrow> Inl err
           | Inr found \<Rightarrow>
               (let rows = take (size + 1) (sort_key (\<lambda>r. (rCreatedAt r, rID r)) found);
                    hasMore = length rows > size;
                    rows = (if hasMore then take size rows else rows)
                in case fSelectItems F of Some err \<Rightarrow> Inl err
                | None \<Rightarrow> (case rowsToDomain (map (\<lambda>r. (r, preload s r)) rows) of Inl err \<Rightarrow> Inl err
                | Inr os \<Rightarrow>
                    if hasMore \<and> os \<noteq> [] then
                      (case EncodePageToken K tenantID f (last os) of
                         Inl err \<Rightarrow> Inl err
                       | Inr token \<Rightarrow> Inr \<lparr>Orders = os, NextPageToken = token\<rparr>)
                    else Inr \<lparr>Orders = os, NextPageToken = []\<rparr>)))))))"

text \<open>\<open>UPDATE orders SET ... WHERE\<close>, guarded like a query; the rows affected and the table.\<close>

definition updateOrderSQL :: "pglib \<Rightarrow> pgfaults \<Rightarrow> string \<Rightarrow> orderRow \<Rightarrow> pgdb \<Rightarrow> (nat res) \<times> pgdb" where
  "updateOrderSQL L F tenantID row s = (case fUpdate F of
     Some err \<Rightarrow> (Inl err, s)
   | None \<Rightarrow> (case pgUuid L (rID row) of
       None \<Rightarrow> (Inl dataError, s)
     | Some i \<Rightarrow>
         if \<not> textRow L row then (Inl dataError, s)
         else (case scopedOrders tenantID [\<lambda>r. rTenantID r = tenantID \<and> rID r = i] s of
             Inl err \<Rightarrow> (Inl err, s)
           | Inr hit \<Rightarrow>
               if hit \<noteq> [] \<and> \<not> (- 1000000000 < rTotalNanos row \<and> rTotalNanos row < 1000000000) then
                 (Inl (PgError pgCheckViolation ''orders_nanos_range'' []), s)
               else (Inr (length hit), s\<lparr>ordersT := map (\<lambda>r. if r \<in> set hit then
                   r\<lparr>rCustomerID := rCustomerID row, rStatus := rStatus row, rCurrencyCode := char3 (rCurrencyCode row),
                     rTotalUnits := rTotalUnits row, rTotalNanos := rTotalNanos row, rUpdatedAt := pgTime (rUpdatedAt row)\<rparr>
                   else r) (ordersT s)\<rparr>))))"

definition deleteItemsSQL :: "pglib \<Rightarrow> pgfaults \<Rightarrow> string \<Rightarrow> pgdb \<Rightarrow> goerr option \<times> pgdb" where
  "deleteItemsSQL L F orderID s = (case fDeleteItems F of
     Some err \<Rightarrow> (Some err, s)
   | None \<Rightarrow> (case pgUuid L orderID of None \<Rightarrow> (Some dataError, s)
     | Some i \<Rightarrow> (None, s\<lparr>itemsT := filter (\<lambda>it. iOrderID it \<noteq> i) (itemsT s)\<rparr>)))"

definition pgUpdate :: "pglib \<Rightarrow> pgfaults \<Rightarrow> Order \<Rightarrow> pgdb \<Rightarrow> goerr option \<times> pgdb" where
  "pgUpdate L F o' s =
     (if TenantID o' = [] then (Some (Sentinel ErrMissingTenant), s)
      else (let (row, items) = toRow o'
            in inTransaction F (\<lambda>s. case updateOrderSQL L F (TenantID o') row s of
                 (Inl err, s1) \<Rightarrow> (Some (mapWriteError err), s1)
               | (Inr affected, s1) \<Rightarrow>
                   if affected = 0 then (Some (Sentinel ErrNotFound), s1)
                   else (case deleteItemsSQL L F (ID o') s1 of
                       (Some err, s2) \<Rightarrow> (Some err, s2)
                     | (None, s2) \<Rightarrow>
                         if items \<noteq> [] then (case insertItemsSQL L F items s2 of
                             (Some err, s3) \<Rightarrow> (Some (mapWriteError err), s3)
                           | (None, s3) \<Rightarrow> (None, s3))
                         else (None, s2))) s))"

text \<open>\<open>Publish\<close>; the trace context of the request is an argument.\<close>

definition pgPublish :: "pglib \<Rightarrow> pgfaults \<Rightarrow> string \<Rightarrow> Event \<Rightarrow> pgdb \<Rightarrow> goerr option \<times> pgdb" where
  "pgPublish L F traceParent e s = (case jsonOrder L (eOrder e) of
     Inl err \<Rightarrow> (Some (Errorf (''encode event payload: '' @ errorText err) [err]), s)
   | Inr payload \<Rightarrow> (case fInsertEvent F of
       Some err \<Rightarrow> (Some err, s)
     | None \<Rightarrow> (case (pgUuid L (AggregateID e), jsonbStore L payload) of
         (Some i, Inr kept) \<Rightarrow>
           if \<not> (pgText L (eTenantID e) \<and> pgText L (Type e) \<and> pgText L traceParent) then (Some dataError, s)
           else (let n = outboxSeq s + 1 + int (fSeqGap F)
                 in (None, s\<lparr>outboxT := outboxT s @ [\<lparr>msg = \<lparr>mID = n, mTenantID = eTenantID e, mAggregateID = i,
                        mEventType = Type e, mPayload = kept, mOccurredAt = pgTime (OccurredAt e), mTraceParent = traceParent\<rparr>,
                        PublishedAt = None, FailedAt = None, FailureReason = []\<rparr>],
                      outboxSeq := n\<rparr>))
       | (None, _) \<Rightarrow> (Some dataError, s)
       | (Some i, Inl err) \<Rightarrow> (Some err, s))))"

fun eventsOf :: "pglib \<Rightarrow> outboxRow list \<Rightarrow> Event list res" where
  "eventsOf L [] = Inr []"
| "eventsOf L (row # rest) = (case unjsonOrder L (mPayload (msg row)) of
     Inl err \<Rightarrow> Inl (Errorf (''decode event payload: '' @ errorText err) [err])
   | Inr o' \<Rightarrow> (case eventsOf L rest of
       Inl err \<Rightarrow> Inl err
     | Inr es \<Rightarrow> Inr (\<lparr>Type = mEventType (msg row), AggregateID = mAggregateID (msg row),
          eTenantID = mTenantID (msg row), OccurredAt = mOccurredAt (msg row), eOrder = o'\<rparr> # es)))"

definition pgEvents :: "pglib \<Rightarrow> pgfaults \<Rightarrow> pgdb \<Rightarrow> Event list res" where
  "pgEvents L F s = (case fSelectEvents F of
     Some err \<Rightarrow> Inl err
   | None \<Rightarrow> eventsOf L (sort_key (\<lambda>r. mID (msg r)) (outboxT s)))"

definition pgStore :: "pglib \<Rightarrow> pgfaults \<Rightarrow> codec \<Rightarrow> pgdb StorePort" where
  "pgStore L F K = \<lparr>sCreate = pgCreate L F, sGet = pgGet L F, sList = pgList L F K, sUpdate = pgUpdate L F\<rparr>"

definition pgPublisher :: "pglib \<Rightarrow> pgfaults \<Rightarrow> string \<Rightarrow> pgdb EventPublisher" where
  "pgPublisher L F tp = \<lparr>pPublish = pgPublish L F tp\<rparr>"

text \<open>\<open>InTx\<close>: the callback gets the same store bound to the transaction, and every error it returns
  rolls back. (A callback that returned nil after a failed statement would find its transaction
  aborted at the commit; the service has none.)\<close>

definition pgInTx :: "pglib \<Rightarrow> pgfaults \<Rightarrow> codec \<Rightarrow> string \<Rightarrow> pgdb txbody \<Rightarrow> pgdb \<Rightarrow> Order res \<times> pgdb" where
  "pgInTx L F K tp fn s = (case fTxBegin F of
     Some err \<Rightarrow> (Inl err, s)
   | None \<Rightarrow> (case fn (pgStore L F K) (pgPublisher L F tp) s of
       (Inl err, _) \<Rightarrow> (Inl err, s)
     | (Inr x, s') \<Rightarrow> (case fTxCommit F of
         None \<Rightarrow> (Inr x, s')
       | Some (err, applied) \<Rightarrow> (Inl err, if applied then s' else s))))"

definition pgAtomic :: "pglib \<Rightarrow> pgfaults \<Rightarrow> codec \<Rightarrow> string \<Rightarrow> pgdb Atomic" where
  "pgAtomic L F K tp = \<lparr>aInTx = pgInTx L F K tp\<rparr>"

abbreviation pgService :: "pglib \<Rightarrow> pgfaults \<Rightarrow> codec \<Rightarrow> string \<Rightarrow> pgdb Service" where
  "pgService L F K tp \<equiv> \<lparr>store = pgStore L F K, atomic = pgAtomic L F K tp\<rparr>"

section \<open>Invariant and abstraction\<close>

definition pg_norm :: "Order \<Rightarrow> Order" where
  "pg_norm o' = o'\<lparr>CreatedAt := pgTime (CreatedAt o'), UpdatedAt := pgTime (UpdatedAt o')\<rparr>"

definition pg_enorm :: "Event \<Rightarrow> Event" where
  "pg_enorm e = e\<lparr>OccurredAt := pgTime (OccurredAt e)\<rparr>"

definition pg_cnorm :: "pglib \<Rightarrow> int \<times> string \<Rightarrow> int \<times> string" where
  "pg_cnorm L c = (pgTime (fst c), case pgUuid L (snd c) of Some i \<Rightarrow> i | None \<Rightarrow> snd c)"

definition uuid_ok :: "pglib \<Rightarrow> string \<Rightarrow> bool" where
  "uuid_ok L i \<longleftrightarrow> pgUuid L i = Some i"

definition pg_storable :: "Order \<Rightarrow> bool" where
  "pg_storable o' \<longleftrightarrow> StatusValid (Status o') \<and> valid_money (Total o') \<and> list_all (\<lambda>i. valid_money (UnitPrice i)) (Items o')"

definition textOrder :: "pglib \<Rightarrow> Order \<Rightarrow> bool" where
  "textOrder L o' \<longleftrightarrow> uuid_ok L (ID o') \<and> textRow L (fst (toRow o')) \<and> list_all (textItem L) (snd (toRow o'))"

text \<open>What the adapter relies on: a canonical \<open>uuid\<close> is read as itself, and an order of text
  survives JSON and the \<open>jsonb\<close> column.\<close>

definition pglib_ok :: "pglib \<Rightarrow> bool" where
  "pglib_ok L \<longleftrightarrow> (\<forall>i j. pgUuid L i = Some j \<longrightarrow> pgUuid L j = Some j)
     \<and> (\<forall>o' p q. textOrder L o' \<and> jsonOrder L o' = Inr p \<and> jsonbStore L p = Inr q \<longrightarrow> unjsonOrder L q = Inr o')"

text \<open>An order the tables can hold as it is.\<close>

definition held :: "pglib \<Rightarrow> Order \<Rightarrow> bool" where
  "held L o' \<longleftrightarrow> pg_storable o' \<and> textOrder L o' \<and> pg_norm o' = o' \<and> TenantID o' \<noteq> []"

text \<open>Every row of \<open>orders\<close> with its items is the image of an order, ids are unique, items have their
  order, and the outbox is in the order of its sequence and decodes.\<close>

definition pg_inv :: "pglib \<Rightarrow> pgdb \<Rightarrow> bool" where
  "pg_inv L s \<longleftrightarrow> distinct (map rID (ordersT s))
     \<and> (\<forall>r \<in> set (ordersT s). \<exists>o'. held L o' \<and> toRow o' = (r, preload s r))
     \<and> (\<forall>it \<in> set (itemsT s). \<exists>r \<in> set (ordersT s). rID r = iOrderID it)
     \<and> sorted_wrt (<) (map (\<lambda>r. mID (msg r)) (outboxT s)) \<and> 0 \<le> outboxSeq s
     \<and> (\<forall>r \<in> set (outboxT s). 0 < mID (msg r) \<and> mID (msg r) \<le> outboxSeq s)
     \<and> (\<forall>r \<in> set (outboxT s). \<exists>o'. unjsonOrder L (mPayload (msg r)) = Inr o')"

definition pg_tab :: "pgdb \<Rightarrow> string \<times> string \<Rightarrow> Order option" where
  "pg_tab s = (\<lambda>(t, i). case find (\<lambda>r. rTenantID r = t \<and> rID r = i) (ordersT s) of
     None \<Rightarrow> None
   | Some r \<Rightarrow> (case toDomain r (preload s r) of Inl _ \<Rightarrow> None | Inr o' \<Rightarrow> Some o'))"

definition pg_log :: "pglib \<Rightarrow> pgdb \<Rightarrow> Event list" where
  "pg_log L s = (case eventsOf L (outboxT s) of Inl _ \<Rightarrow> [] | Inr es \<Rightarrow> es)"

section \<open>Mapping rows\<close>

lemma ParseStatus_String: "StatusValid st \<Longrightarrow> ParseStatus (StatusString st) = Inr st"
  by (cases st) (simp_all add: ParseStatus_def StatusValid_def)

lemma StatusString_inj: "StatusValid st \<Longrightarrow> StatusString st = StatusString u \<longleftrightarrow> st = u"
  by (cases st; cases u) (simp_all add: StatusValid_def)

lemma itemsToDomain_toRow:
  assumes "list_all (\<lambda>i. valid_money (UnitPrice i)) items" "length ns = length items"
  shows "itemsToDomain (map2 (itemRowOf oid) ns items) = Inr items"
  using assms(2,1)
  by (induction ns items rule: list_induct2) (simp_all add: itemRowOf_def NewMoney_id)

text \<open>Rows and aggregate: the mapping back is the inverse.\<close>

lemma toDomain_toRow: "pg_storable o' \<Longrightarrow> toDomain (fst (toRow o')) (snd (toRow o')) = Inr o'"
  by (simp add: toDomain_def toRow_def ParseStatus_String NewMoney_id itemsToDomain_toRow pg_storable_def)

lemma toRow_fields:
  assumes "toRow o' = (r, its)"
  shows "rID r = ID o'" "rTenantID r = TenantID o'" "rCustomerID r = CustomerID o'" "rStatus r = StatusString (Status o')"
    "rCreatedAt r = CreatedAt o'" "rUpdatedAt r = UpdatedAt o'"
  using assms by (auto simp: toRow_def)

lemma toRow_norm:
  "fst (toRow (pg_norm o')) = (fst (toRow o'))\<lparr>rCreatedAt := pgTime (CreatedAt o'), rUpdatedAt := pgTime (UpdatedAt o')\<rparr>"
  "snd (toRow (pg_norm o')) = snd (toRow o')"
  by (simp_all add: toRow_def pg_norm_def)

lemma pg_norm_idem [simp]: "pg_norm (pg_norm o') = pg_norm o'"
  by (simp add: pg_norm_def)

lemma pg_norm_same [simp]:
  "ID (pg_norm o') = ID o'" "TenantID (pg_norm o') = TenantID o'" "Status (pg_norm o') = Status o'"
  "Items (pg_norm o') = Items o'" "Total (pg_norm o') = Total o'" "CustomerID (pg_norm o') = CustomerID o'"
  by (simp_all add: pg_norm_def)

lemma storable_norm [simp]: "pg_storable (pg_norm o') = pg_storable o'"
  by (simp add: pg_storable_def)

lemma textOrder_norm [simp]: "textOrder L (pg_norm o') = textOrder L o'"
  by (simp add: textOrder_def toRow_norm textRow_def)

lemma char3_valid: "valid_money m \<Longrightarrow> char3 (CurrencyCode m) = CurrencyCode m"
  using valid_currency [of m] by (auto simp: char3_def validCurrencyCode_def split: if_splits)

lemma storable_valid: "orderValidate o' = None \<Longrightarrow> pg_storable o'"
  by (auto simp: orderValidate_None_iff pg_storable_def itemValidate_None_iff list_all_iff
      intro!: ComputeTotal_valid [of "Items o'"])

lemma storable_cancel: "pg_storable o' \<Longrightarrow> orderCancel o' now = Inr x \<Longrightarrow> pg_storable x"
  using orderCancel_Inr(2) [of o' now x] by (simp add: pg_storable_def StatusValid_def)

text \<open>Items of a storable order keep their rows, and the line numbers are in order.\<close>

lemma toRow_items:
  assumes "it \<in> set (snd (toRow o'))"
  shows "iOrderID it = ID o'" "pg_storable o' \<Longrightarrow> char3 (iUnitCurrency it) = iUnitCurrency it"
proof -
  obtain k where "k < length (Items o')" "it = itemRowOf (ID o') k (Items o' ! k)"
    using assms by (auto simp: toRow_def set_zip)
  then show "iOrderID it = ID o'" "pg_storable o' \<Longrightarrow> char3 (iUnitCurrency it) = iUnitCurrency it"
    by (auto simp: itemRowOf_def pg_storable_def list_all_length intro!: char3_valid)
qed

lemma toRow_lines: "map iLineNo (snd (toRow o')) = [0..<length (Items o')]"
  by (rule nth_equalityI) (simp_all add: toRow_def itemRowOf_def)

lemma sorted_toRow: "sort_key iLineNo (snd (toRow o')) = snd (toRow o')"
  by (rule sort_key_id_if_sorted) (simp add: toRow_lines)

section \<open>The tables as a map of orders\<close>

lemma toRow_inj: "pg_storable o' \<Longrightarrow> pg_storable u \<Longrightarrow> toRow o' = toRow u \<Longrightarrow> o' = u"
  by (metis toDomain_toRow sum.inject(2))

lemma find_unique:
  assumes "distinct (map rID rs)"
  shows "find (\<lambda>r. rTenantID r = t \<and> rID r = i) rs = Some r \<longleftrightarrow> r \<in> set rs \<and> rTenantID r = t \<and> rID r = i"
  using assms by (induction rs) (auto simp: image_iff)

lemma pg_invD:
  assumes "pg_inv L s" "r \<in> set (ordersT s)"
  obtains o' where "held L o'" "toRow o' = (r, preload s r)" "toDomain r (preload s r) = Inr o'"
proof -
  obtain o' where o': "held L o'" "toRow o' = (r, preload s r)" using assms by (auto simp: pg_inv_def)
  moreover from this have "toDomain r (preload s r) = Inr o'" using toDomain_toRow [of o'] by (simp add: held_def)
  ultimately show ?thesis using that by blast
qed

lemma pg_tab_iff:
  assumes "pg_inv L s"
  shows "pg_tab s (t, i) = Some o' \<longleftrightarrow>
    held L o' \<and> TenantID o' = t \<and> ID o' = i \<and> (\<exists>r \<in> set (ordersT s). toRow o' = (r, preload s r))"
proof -
  have d: "distinct (map rID (ordersT s))" using assms by (simp add: pg_inv_def)
  have "pg_tab s (t, i) = Some o' \<longleftrightarrow> (\<exists>r \<in> set (ordersT s). rTenantID r = t \<and> rID r = i \<and> toDomain r (preload s r) = Inr o')"
  proof (cases "find (\<lambda>r. rTenantID r = t \<and> rID r = i) (ordersT s)")
    case None
    then have "\<not> (\<exists>r \<in> set (ordersT s). rTenantID r = t \<and> rID r = i)" by (auto simp: find_None_iff)
    with None show ?thesis by (auto simp: pg_tab_def)
  next
    case (Some r)
    then have "q \<in> set (ordersT s) \<and> rTenantID q = t \<and> rID q = i \<longleftrightarrow> q = r" for q using find_unique [OF d, of t i q] by auto
    then have "(\<exists>q \<in> set (ordersT s). rTenantID q = t \<and> rID q = i \<and> toDomain q (preload s q) = Inr o')
        \<longleftrightarrow> toDomain r (preload s r) = Inr o'" by metis
    with Some show ?thesis by (auto simp: pg_tab_def split: sum.splits)
  qed
  also have "\<dots> \<longleftrightarrow> held L o' \<and> TenantID o' = t \<and> ID o' = i \<and> (\<exists>r \<in> set (ordersT s). toRow o' = (r, preload s r))"
  proof
    assume "\<exists>r \<in> set (ordersT s). rTenantID r = t \<and> rID r = i \<and> toDomain r (preload s r) = Inr o'"
    then obtain r where r: "r \<in> set (ordersT s)" "rTenantID r = t" "rID r = i" "toDomain r (preload s r) = Inr o'" by blast
    obtain u where u: "held L u" "toRow u = (r, preload s r)" "toDomain r (preload s r) = Inr u"
      using pg_invD [OF assms r(1)] by blast
    then have "u = o'" using r(4) by simp
    with u r show "held L o' \<and> TenantID o' = t \<and> ID o' = i \<and> (\<exists>r \<in> set (ordersT s). toRow o' = (r, preload s r))"
      using toRow_fields [of o' r "preload s r"] by auto
  next
    assume h: "held L o' \<and> TenantID o' = t \<and> ID o' = i \<and> (\<exists>r \<in> set (ordersT s). toRow o' = (r, preload s r))"
    then obtain r where r: "r \<in> set (ordersT s)" "toRow o' = (r, preload s r)" by blast
    moreover have "toDomain r (preload s r) = Inr o'" using h r(2) toDomain_toRow [of o'] by (simp add: held_def)
    ultimately show "\<exists>r \<in> set (ordersT s). rTenantID r = t \<and> rID r = i \<and> toDomain r (preload s r) = Inr o'"
      using h toRow_fields [OF r(2)] by auto
  qed
  finally show ?thesis .
qed

lemma preload_other:
  assumes "itemsT s' = filter (\<lambda>it. iOrderID it \<noteq> i) (itemsT s) @ its" "\<forall>it \<in> set its. iOrderID it = i" "rID r \<noteq> i"
  shows "preload s' r = preload s r"
proof -
  have "filter (\<lambda>it. iOrderID it = rID r) its = []" using assms(2,3) by (simp add: filter_empty_conv)
  moreover have "filter (\<lambda>it. iOrderID it = rID r) (filter (\<lambda>it. iOrderID it \<noteq> i) (itemsT s)) = filter (\<lambda>it. iOrderID it = rID r) (itemsT s)"
    using assms(3) by (auto simp: filter_filter intro: filter_cong)
  ultimately show ?thesis using assms(1) by (simp add: preload_def)
qed

lemma preload_put:
  assumes "itemsT s' = filter (\<lambda>it. iOrderID it \<noteq> ID x) (itemsT s) @ snd (toRow x)" "rID r = ID x"
  shows "preload s' r = snd (toRow x)"
proof -
  have "filter (\<lambda>it. iOrderID it = ID x) (snd (toRow x)) = snd (toRow x)" by (simp add: toRow_items(1))
  moreover have "filter (\<lambda>it. iOrderID it = ID x) (filter (\<lambda>it. iOrderID it \<noteq> ID x) (itemsT s)) = []" by (simp add: filter_empty_conv)
  ultimately show ?thesis using assms by (simp add: preload_def sorted_toRow)
qed

text \<open>Writing one order, by an insert or by an update, changes its entry and no other.\<close>

lemma put_order:
  assumes inv: "pg_inv L s" and x: "held L x"
    and rows: "distinct (map rID (ordersT s'))"
      "set (ordersT s') = insert (fst (toRow x)) {r \<in> set (ordersT s). rID r \<noteq> ID x}"
    and items: "itemsT s' = filter (\<lambda>it. iOrderID it \<noteq> ID x) (itemsT s) @ snd (toRow x)"
    and rest: "outboxT s' = outboxT s" "outboxSeq s' = outboxSeq s"
    and own: "\<forall>r \<in> set (ordersT s). rID r = ID x \<longrightarrow> rTenantID r = TenantID x"
  shows "pg_inv L s' \<and> pg_tab s' = (pg_tab s)((TenantID x, ID x) \<mapsto> x)"
proof -
  let ?r = "fst (toRow x)"
  have r: "rID ?r = ID x" "toRow x = (?r, preload s' ?r)"
    using toRow_fields [of x ?r "snd (toRow x)"] preload_put [OF items] by (auto simp: prod_eq_iff)
  have other: "preload s' q = preload s q" if "rID q \<noteq> ID x" for q
    using preload_other [OF items _ that] toRow_items(1) by blast
  have "\<exists>o'. held L o' \<and> toRow o' = (q, preload s' q)" if "q \<in> set (ordersT s')" for q
  proof (cases "q = ?r")
    case True
    then show ?thesis using x r(2) by metis
  next
    case False
    then have q: "q \<in> set (ordersT s)" "rID q \<noteq> ID x" using that rows(2) by auto
    then show ?thesis using pg_invD [OF inv q(1)] other [OF q(2)] by metis
  qed
  moreover have "\<exists>q \<in> set (ordersT s'). rID q = iOrderID it" if "it \<in> set (itemsT s')" for it
  proof (cases "iOrderID it = ID x")
    case True
    then show ?thesis using r(1) rows(2) by auto
  next
    case False
    then have "it \<in> set (itemsT s)" using that items toRow_items(1) by auto
    then obtain q where "q \<in> set (ordersT s)" "rID q = iOrderID it" using inv by (auto simp: pg_inv_def)
    then show ?thesis using False rows(2) by auto
  qed
  ultimately have inv': "pg_inv L s'" using inv rows(1) rest by (auto simp: pg_inv_def)
  have "pg_tab s' (t, i) = Some o' \<longleftrightarrow> ((pg_tab s)((TenantID x, ID x) \<mapsto> x)) (t, i) = Some o'" for t i o'
  proof (cases "i = ID x")
    case True
    have none: "pg_tab s (t, ID x) = None" if "t \<noteq> TenantID x"
    proof (rule ccontr)
      assume "pg_tab s (t, ID x) \<noteq> None"
      then obtain u q where "ID u = ID x" "TenantID u = t" "q \<in> set (ordersT s)" "toRow u = (q, preload s q)"
        using pg_tab_iff [OF inv] by blast
      then show False using own that toRow_fields [of u q "preload s q"] by auto
    qed
    have "q = ?r" if "q \<in> set (ordersT s')" "rID q = ID x" for q using that rows(2) by auto
    then have "pg_tab s' (t, ID x) = Some o' \<longleftrightarrow> t = TenantID x \<and> o' = x"
      unfolding pg_tab_iff [OF inv'] using x r rows(2) toRow_inj [of o' x]
      by (auto simp: held_def dest: toRow_fields(1))
    then show ?thesis using True none by auto
  next
    case False
    have "pg_tab s' (t, i) = Some o' \<longleftrightarrow> pg_tab s (t, i) = Some o'"
      unfolding pg_tab_iff [OF inv] pg_tab_iff [OF inv'] rows(2) using False r(1) other
      by (auto, (metis toRow_fields(1))+)
    then show ?thesis using False by simp
  qed
  then have "pg_tab s' k = ((pg_tab s)((TenantID x, ID x) \<mapsto> x)) k" for k
    by (cases k) (metis option.exhaust)
  with inv' show ?thesis by blast
qed

section \<open>The operations\<close>

lemma scopedOrders_eq:
  "t \<noteq> [] \<Longrightarrow> scopedOrders t conds s = Inr (filter (\<lambda>r. list_all (\<lambda>p. p r) conds \<and> rTenantID r = t) (ordersT s))"
  using whereHolds_append_and [of "map (Pair False) conds" "\<lambda>r. rTenantID r = t"]
  by (simp add: scopedOrders_def tenantGuard_def TenantFromContext_def orderType_def selectRows_def orderColumn_def whereHolds_and
      ball_set_map_Pair cong: filter_cong)

lemma inTransaction_ok: "inTransaction F fn s = (None, s') \<Longrightarrow> fn s = (None, s')"
  by (auto simp: inTransaction_def split: option.splits prod.splits)

lemma insertOrder_ok:
  assumes "insertOrderSQL L F (fst (toRow o')) s = (None, s1)" "uuid_ok L (ID o')" "pg_storable o'"
  shows "textRow L (fst (toRow o'))" "TenantID o' \<noteq> []" "\<forall>r \<in> set (ordersT s). rID r \<noteq> ID o'"
    "s1 = s\<lparr>ordersT := ordersT s @ [fst (toRow (pg_norm o'))]\<rparr>"
proof -
  have r: "rID (fst (toRow o')) = ID o'" "rTenantID (fst (toRow o')) = TenantID o'"
    "char3 (rCurrencyCode (fst (toRow o'))) = rCurrencyCode (fst (toRow o'))"
    using assms(3) by (simp_all add: toRow_def pg_storable_def char3_valid)
  have eq: "(fst (toRow o'))\<lparr>rID := ID o', rCurrencyCode := char3 (rCurrencyCode (fst (toRow o'))),
      rCreatedAt := pgTime (rCreatedAt (fst (toRow o'))), rUpdatedAt := pgTime (rUpdatedAt (fst (toRow o')))\<rparr> = fst (toRow (pg_norm o'))"
    using r(3) by (simp add: toRow_def pg_norm_def)
  note c = assms(1) [unfolded insertOrderSQL_def r(1) assms(2) [unfolded uuid_ok_def] option.case eq]
  show "textRow L (fst (toRow o'))" "TenantID o' \<noteq> []" "\<forall>r \<in> set (ordersT s). rID r \<noteq> ID o'"
    "s1 = s\<lparr>ordersT := ordersT s @ [fst (toRow (pg_norm o'))]\<rparr>"
    using c r(2) by (auto simp: list_ex_iff split: option.splits if_splits)
qed

lemma stored_items:
  assumes "uuid_ok L (ID o')" "pg_storable o'" "it \<in> set (snd (toRow o'))"
  shows "storedItem L it = (if textItem L it then Some it else None)"
  using toRow_items [OF assms(3)] assms(1,2) by (simp add: storedItem_def uuid_ok_def)

lemma insertItems_ok:
  assumes "insertItemsSQL L F (snd (toRow o')) s = (None, s1)" "uuid_ok L (ID o')" "pg_storable o'"
  shows "list_all (textItem L) (snd (toRow o'))" "s1 = s\<lparr>itemsT := itemsT s @ snd (toRow o')\<rparr>"
proof -
  have all: "\<not> list_ex (\<lambda>r. r = None) (map (storedItem L) (snd (toRow o')))"
    using assms(1) by (auto simp: insertItemsSQL_def Let_def split: option.splits if_splits)
  then show t: "list_all (textItem L) (snd (toRow o'))"
    using stored_items [OF assms(2,3)] by (auto simp: list_ex_iff list_all_iff split: if_splits)
  have "map the (map (storedItem L) (snd (toRow o'))) = snd (toRow o')"
    using stored_items [OF assms(2,3)] t by (auto simp: list_all_iff intro!: map_idI)
  with assms(1) show "s1 = s\<lparr>itemsT := itemsT s @ snd (toRow o')\<rparr>"
    by (auto simp: insertItemsSQL_def Let_def simp del: map_map split: option.splits if_splits)
qed

text \<open>What a successful insert and a successful update leave in the tables.\<close>

lemma pgCreate_ok:
  assumes "pgCreate L F o' s = (None, s')" "uuid_ok L (ID o')" "pg_storable o'"
  shows "held L (pg_norm o')" "\<forall>r \<in> set (ordersT s). rID r \<noteq> ID o'"
    "s' = s\<lparr>ordersT := ordersT s @ [fst (toRow (pg_norm o'))], itemsT := itemsT s @ snd (toRow o')\<rparr>"
proof -
  have *: "TenantID o' \<noteq> []" "inTransaction F (\<lambda>s. case insertOrderSQL L F (fst (toRow o')) s of
                 (Some err, s1) \<Rightarrow> (Some (mapWriteError err), s1)
               | (None, s1) \<Rightarrow>
                   if snd (toRow o') \<noteq> [] then (case insertItemsSQL L F (snd (toRow o')) s1 of
                       (Some err, s2) \<Rightarrow> (Some (mapWriteError err), s2)
                     | (None, s2) \<Rightarrow> (None, s2))
                   else (None, s1)) s = (None, s')"
    using assms(1) by (auto simp: pgCreate_def Let_def case_prod_beta split: if_splits)
  from inTransaction_ok [OF *(2)] obtain s1 where i: "insertOrderSQL L F (fst (toRow o')) s = (None, s1)"
      and r: "if snd (toRow o') \<noteq> [] then insertItemsSQL L F (snd (toRow o')) s1 = (None, s') else s' = s1"
    by (auto split: prod.splits option.splits if_splits)
  note o = insertOrder_ok [OF i assms(2,3)]
  have it: "list_all (textItem L) (snd (toRow o')) \<and> s' = s1\<lparr>itemsT := itemsT s1 @ snd (toRow o')\<rparr>"
    using r insertItems_ok [OF _ assms(2,3)] by (cases "snd (toRow o') = []") auto
  show "held L (pg_norm o')" using o(1,2) it assms(2,3) by (simp add: held_def textOrder_def toRow_norm textRow_def)
  show "\<forall>r \<in> set (ordersT s). rID r \<noteq> ID o'" by (rule o(3))
  show "s' = s\<lparr>ordersT := ordersT s @ [fst (toRow (pg_norm o'))], itemsT := itemsT s @ snd (toRow o')\<rparr>" using it o(4) by simp
qed

lemma pgCreate_law:
  assumes "pg_inv L s" "uuid_ok L (ID o')" "pg_storable o'" "pgCreate L F o' s = (None, s')"
  shows "TenantID o' \<noteq> [] \<and> pg_tab s (TenantID o', ID o') = None
    \<and> pg_tab s' = (pg_tab s)((TenantID o', ID o') \<mapsto> pg_norm o') \<and> pg_log L s' = pg_log L s \<and> pg_inv L s'"
proof -
  note c = pgCreate_ok [OF assms(4,2,3)]
  have fresh: "\<forall>it \<in> set (itemsT s). iOrderID it \<noteq> ID o'" using assms(1) c(2) by (fastforce simp: pg_inv_def)
  then have keep: "filter (\<lambda>it. iOrderID it \<noteq> ID o') (itemsT s) = itemsT s" by simp
  have rows: "{r \<in> set (ordersT s). rID r \<noteq> ID o'} = set (ordersT s)" using c(2) by blast
  have rid: "rID (fst (toRow (pg_norm o'))) = ID o'" by (simp add: toRow_def)
  have "pg_inv L s' \<and> pg_tab s' = (pg_tab s)((TenantID (pg_norm o'), ID (pg_norm o')) \<mapsto> pg_norm o')"
    using assms(1) c keep rows rid by (intro put_order [OF assms(1) c(1)]) (auto simp: pg_inv_def toRow_norm)
  moreover have "find (\<lambda>r. rTenantID r = TenantID o' \<and> rID r = ID o') (ordersT s) = None"
    using c(2) by (auto simp: find_None_iff)
  then have "pg_tab s (TenantID o', ID o') = None" by (simp add: pg_tab_def)
  moreover have "pg_log L s' = pg_log L s" using c(3) by (simp add: pg_log_def)
  moreover have "TenantID o' \<noteq> []" using c(1) by (simp add: held_def)
  ultimately show ?thesis by simp
qed

lemma pgGet_law:
  assumes "pg_inv L s" "uuid_ok L i" "pgGet L F t i s = Inr o'"
  shows "pg_tab s (t, i) = Some o'"
proof -
  have d: "distinct (map rID (ordersT s))" using assms(1) by (simp add: pg_inv_def)
  have t: "t \<noteq> []" using assms(3) by (auto simp: pgGet_def)
  have tx: "pgText L t" using assms(3) by (rule contrapos_pp) (simp add: pgGet_def dataError_def split: option.splits)
  let ?rows = "filter (\<lambda>r. list_all (\<lambda>p. p r) [\<lambda>r. rTenantID r = t \<and> rID r = i] \<and> rTenantID r = t) (ordersT s)"
  note g = assms(3) [unfolded pgGet_def Let_def assms(2) [unfolded uuid_ok_def] if_P [OF tx] option.case scopedOrders_eq [OF t] sum.case]
  have f: "fSelect F = None" using g t by (cases "fSelect F") (simp_all split: if_splits)
  obtain row rest where r: "sort_key rID ?rows = row # rest"
    using g t unfolding f option.case by (cases "sort_key rID ?rows") (simp_all split: if_splits)
  have r': "toDomain row (preload s row) = Inr o'"
    using g t unfolding f option.case r list.case by (cases "fSelectItems F") (simp_all split: if_splits)
  have "row \<in> set (sort_key rID ?rows)" unfolding r by simp
  then have "row \<in> set ?rows" by (simp only: set_sort)
  then have "find (\<lambda>r. rTenantID r = t \<and> rID r = i) (ordersT s) = Some row" by (simp add: find_unique [OF d])
  with r' show ?thesis by (simp add: pg_tab_def)
qed

lemma updateOrder_ok:
  assumes "updateOrderSQL L F (TenantID o') (fst (toRow o')) s = (Inr n, s1)" "n \<noteq> 0" "uuid_ok L (ID o')"
    and "pg_storable o'" "TenantID o' \<noteq> []" "distinct (map rID (ordersT s))"
  obtains r0 where "r0 \<in> set (ordersT s)" "rTenantID r0 = TenantID o'" "rID r0 = ID o'" "textRow L (fst (toRow o'))"
    "s1 = s\<lparr>ordersT := map (\<lambda>r. if r = r0 then
       (fst (toRow (pg_norm o')))\<lparr>rCreatedAt := rCreatedAt r0\<rparr> else r) (ordersT s)\<rparr>"
proof -
  let ?hit = "filter (\<lambda>r. list_all (\<lambda>p. p r) [\<lambda>r. rTenantID r = TenantID o' \<and> rID r = ID o'] \<and> rTenantID r = TenantID o') (ordersT s)"
  have f: "rID (fst (toRow o')) = ID o'" by (simp add: toRow_def)
  note c = assms(1) [unfolded updateOrderSQL_def f assms(3) [unfolded uuid_ok_def] option.case scopedOrders_eq [OF assms(5)] sum.case]
  have n: "n = length ?hit" "textRow L (fst (toRow o'))"
    and s1: "s1 = s\<lparr>ordersT := map (\<lambda>r. if r \<in> set ?hit then
        r\<lparr>rCustomerID := rCustomerID (fst (toRow o')), rStatus := rStatus (fst (toRow o')),
          rCurrencyCode := char3 (rCurrencyCode (fst (toRow o'))), rTotalUnits := rTotalUnits (fst (toRow o')),
          rTotalNanos := rTotalNanos (fst (toRow o')), rUpdatedAt := pgTime (rUpdatedAt (fst (toRow o')))\<rparr> else r) (ordersT s)\<rparr>"
    using c by (auto simp del: list.pred_inject split: option.splits if_splits)
  then have "?hit \<noteq> []" using assms(2) by (metis list.size(3))
  then obtain r0 where "r0 \<in> set ?hit" by (meson hd_in_set)
  then have r0: "r0 \<in> set (ordersT s)" "rTenantID r0 = TenantID o'" "rID r0 = ID o'" by auto
  have uniq: "r \<in> set ?hit \<longleftrightarrow> r = r0" if "r \<in> set (ordersT s)" for r
    using that r0 assms(6) by (auto simp: distinct_map inj_on_def)
  have "(if r \<in> set ?hit then
        r\<lparr>rCustomerID := rCustomerID (fst (toRow o')), rStatus := rStatus (fst (toRow o')),
          rCurrencyCode := char3 (rCurrencyCode (fst (toRow o'))), rTotalUnits := rTotalUnits (fst (toRow o')),
          rTotalNanos := rTotalNanos (fst (toRow o')), rUpdatedAt := pgTime (rUpdatedAt (fst (toRow o')))\<rparr> else r)
      = (if r = r0 then (fst (toRow (pg_norm o')))\<lparr>rCreatedAt := rCreatedAt r0\<rparr> else r)" if "r \<in> set (ordersT s)" for r
    using uniq [OF that] r0(2,3) assms(4) by (simp add: toRow_def pg_norm_def pg_storable_def char3_valid)
  then have "s1 = s\<lparr>ordersT := map (\<lambda>r. if r = r0 then (fst (toRow (pg_norm o')))\<lparr>rCreatedAt := rCreatedAt r0\<rparr> else r) (ordersT s)\<rparr>"
    unfolding s1 by (intro arg_cong [where f = "\<lambda>x. s\<lparr>ordersT := x\<rparr>"] map_cong [OF refl])
  with that r0 n(2) show ?thesis by blast
qed

lemma pgUpdate_ok:
  assumes "pgUpdate L F o' s = (None, s')" "uuid_ok L (ID o')" "pg_storable o'" "pg_inv L s"
  obtains r0 where "r0 \<in> set (ordersT s)" "rTenantID r0 = TenantID o'" "rID r0 = ID o'" "held L (pg_norm o')"
    "s' = s\<lparr>ordersT := map (\<lambda>r. if r = r0 then (fst (toRow (pg_norm o')))\<lparr>rCreatedAt := rCreatedAt r0\<rparr> else r) (ordersT s),
        itemsT := filter (\<lambda>it. iOrderID it \<noteq> ID o') (itemsT s) @ snd (toRow o')\<rparr>"
proof -
  have t: "TenantID o' \<noteq> []" and d: "distinct (map rID (ordersT s))"
    using assms(1,4) by (auto simp: pgUpdate_def pg_inv_def)
  have "inTransaction F (\<lambda>s. case updateOrderSQL L F (TenantID o') (fst (toRow o')) s of
                 (Inl err, s1) \<Rightarrow> (Some (mapWriteError err), s1)
               | (Inr affected, s1) \<Rightarrow>
                   if affected = 0 then (Some (Sentinel ErrNotFound), s1)
                   else (case deleteItemsSQL L F (ID o') s1 of
                       (Some err, s2) \<Rightarrow> (Some err, s2)
                     | (None, s2) \<Rightarrow>
                         if snd (toRow o') \<noteq> [] then (case insertItemsSQL L F (snd (toRow o')) s2 of
                             (Some err, s3) \<Rightarrow> (Some (mapWriteError err), s3)
                           | (None, s3) \<Rightarrow> (None, s3))
                         else (None, s2))) s = (None, s')"
    using assms(1) t by (simp add: pgUpdate_def Let_def case_prod_beta)
  from inTransaction_ok [OF this] obtain n s1 s2 where u: "updateOrderSQL L F (TenantID o') (fst (toRow o')) s = (Inr n, s1)" "n \<noteq> 0"
      and del: "deleteItemsSQL L F (ID o') s1 = (None, s2)"
      and ins: "if snd (toRow o') \<noteq> [] then insertItemsSQL L F (snd (toRow o')) s2 = (None, s') else s' = s2"
    by (auto split: prod.splits sum.splits option.splits if_splits)
  obtain r0 where r0: "r0 \<in> set (ordersT s)" "rTenantID r0 = TenantID o'" "rID r0 = ID o'" "textRow L (fst (toRow o'))"
    and s1: "s1 = s\<lparr>ordersT := map (\<lambda>r. if r = r0 then (fst (toRow (pg_norm o')))\<lparr>rCreatedAt := rCreatedAt r0\<rparr> else r) (ordersT s)\<rparr>"
    using updateOrder_ok [OF u assms(2,3) t d] by blast
  have s2: "s2 = s1\<lparr>itemsT := filter (\<lambda>it. iOrderID it \<noteq> ID o') (itemsT s1)\<rparr>"
    using del assms(2) by (auto simp: deleteItemsSQL_def uuid_ok_def split: option.splits)
  have it: "list_all (textItem L) (snd (toRow o')) \<and> s' = s2\<lparr>itemsT := itemsT s2 @ snd (toRow o')\<rparr>"
    using ins insertItems_ok [OF _ assms(2,3)] by (cases "snd (toRow o') = []") auto
  have "held L (pg_norm o')" using r0(4) t it assms(2,3) by (simp add: held_def textOrder_def toRow_norm textRow_def)
  with that r0 it s1 s2 show ?thesis by simp
qed

lemma pgUpdate_law:
  assumes "pg_inv L s" "uuid_ok L (ID o')" "pg_storable o'" "pgUpdate L F o' s = (None, s')"
  shows "pg_tab s (TenantID o', ID o') \<noteq> None \<and> pg_log L s' = pg_log L s \<and> pg_inv L s'
    \<and> (\<forall>p. pg_tab s (TenantID o', ID o') = Some p \<and> CreatedAt o' = CreatedAt p \<longrightarrow>
         pg_tab s' = (pg_tab s)((TenantID o', ID o') \<mapsto> pg_norm o'))"
proof -
  obtain r0 where r0: "r0 \<in> set (ordersT s)" "rTenantID r0 = TenantID o'" "rID r0 = ID o'" and h: "held L (pg_norm o')"
    and s': "s' = s\<lparr>ordersT := map (\<lambda>r. if r = r0 then (fst (toRow (pg_norm o')))\<lparr>rCreatedAt := rCreatedAt r0\<rparr> else r) (ordersT s),
        itemsT := filter (\<lambda>it. iOrderID it \<noteq> ID o') (itemsT s) @ snd (toRow o')\<rparr>"
    using pgUpdate_ok [OF assms(4,2,3,1)] by blast
  have d: "distinct (map rID (ordersT s))" using assms(1) by (simp add: pg_inv_def)
  obtain p where p: "held L p" "toRow p = (r0, preload s r0)" by (rule pg_invD [OF assms(1) r0(1)])
  have tab: "pg_tab s (TenantID o', ID o') = Some p"
    unfolding pg_tab_iff [OF assms(1)] using p(1) r0(2,3) toRow_fields(1,2) [OF p(2)]
    by (intro conjI bexI [of _ r0]) (simp_all add: p(2) r0(1))
  define x where "x = pg_norm (o'\<lparr>CreatedAt := CreatedAt p\<rparr>)"
  have pc: "rCreatedAt r0 = CreatedAt p" "pgTime (CreatedAt p) = CreatedAt p"
  proof -
    show "rCreatedAt r0 = CreatedAt p" by (rule toRow_fields(5) [OF p(2)])
    have "CreatedAt (pg_norm p) = CreatedAt p" using p(1) by (simp only: held_def)
    then show "pgTime (CreatedAt p) = CreatedAt p" by (simp add: pg_norm_def)
  qed
  have x: "fst (toRow x) = (fst (toRow (pg_norm o')))\<lparr>rCreatedAt := rCreatedAt r0\<rparr>" "snd (toRow x) = snd (toRow o')"
    "ID x = ID o'" "TenantID x = TenantID o'" "held L x"
    using h pc by (simp_all add: x_def toRow_def pg_norm_def held_def pg_storable_def textOrder_def textRow_def)
  have only: "r = r0" if "r \<in> set (ordersT s)" "rID r = ID o'" for r
    using that r0(1,3) d by (auto simp: distinct_map inj_on_def)
  have rid: "rID (fst (toRow x)) = ID o'" using toRow_fields(1) [of x "fst (toRow x)" "snd (toRow x)"] x(3) by simp
  have ord: "ordersT s' = map (\<lambda>r. if r = r0 then fst (toRow x) else r) (ordersT s)" unfolding s' x(1) by simp
  have ids: "map rID (ordersT s') = map rID (ordersT s)" unfolding ord using r0(3) rid by auto
  have rows: "set (ordersT s') = insert (fst (toRow x)) {r \<in> set (ordersT s). rID r \<noteq> ID x}"
  proof -
    have "{r \<in> set (ordersT s). rID r \<noteq> ID o'} = set (ordersT s) - {r0}" using only r0(3) by blast
    then show ?thesis unfolding ord x(3) set_map using r0(1) by auto
  qed
  have "pg_inv L s' \<and> pg_tab s' = (pg_tab s)((TenantID x, ID x) \<mapsto> x)"
  proof (rule put_order [OF assms(1) x(5) _ rows])
    show "distinct (map rID (ordersT s'))" using ids d by simp
    show "itemsT s' = filter (\<lambda>it. iOrderID it \<noteq> ID x) (itemsT s) @ snd (toRow x)" unfolding s' x(2,3) by simp
    show "\<forall>r \<in> set (ordersT s). rID r = ID x \<longrightarrow> rTenantID r = TenantID x" using only r0(2) unfolding x(3,4) by blast
  qed (simp_all add: s')
  moreover have "x = pg_norm o'" if "CreatedAt o' = CreatedAt p" using that by (simp add: x_def pg_norm_def)
  ultimately show ?thesis using tab x(3,4) s' by (auto simp: pg_log_def)
qed

lemma eventsOf_append:
  "eventsOf L (xs @ ys) = (case eventsOf L xs of Inl e \<Rightarrow> Inl e | Inr es \<Rightarrow>
     (case eventsOf L ys of Inl e \<Rightarrow> Inl e | Inr fs \<Rightarrow> Inr (es @ fs)))"
  by (induction xs) (auto split: sum.splits)

lemma eventsOf_decodes:
  "\<forall>r \<in> set rs. \<exists>o'. unjsonOrder L (mPayload (msg r)) = Inr o' \<Longrightarrow> \<exists>es. eventsOf L rs = Inr es"
  by (induction rs) (auto split: sum.splits)

lemma pgPublish_ok:
  assumes "pgPublish L F tp ev s = (None, s')" "uuid_ok L (AggregateID ev)"
  obtains p q n where "jsonOrder L (eOrder ev) = Inr p" "jsonbStore L p = Inr q" "outboxSeq s < n"
    "s' = s\<lparr>outboxT := outboxT s @ [\<lparr>msg = \<lparr>mID = n, mTenantID = eTenantID ev, mAggregateID = AggregateID ev,
        mEventType = Type ev, mPayload = q, mOccurredAt = pgTime (OccurredAt ev), mTraceParent = tp\<rparr>,
        PublishedAt = None, FailedAt = None, FailureReason = []\<rparr>], outboxSeq := n\<rparr>"
proof -
  obtain p where p: "jsonOrder L (eOrder ev) = Inr p" using assms(1) by (auto simp: pgPublish_def split: sum.splits)
  have f: "fInsertEvent F = None" using assms(1) p by (auto simp: pgPublish_def split: option.splits)
  obtain q where q: "jsonbStore L p = Inr q"
    using assms p f by (auto simp: pgPublish_def uuid_ok_def split: sum.splits)
  show ?thesis
    using assms p f q by (intro that [of p q "outboxSeq s + 1 + int (fSeqGap F)"])
      (auto simp: pgPublish_def uuid_ok_def Let_def split: if_splits)
qed

lemma pgPublish_law:
  assumes "pg_inv L s" "pglib_ok L" "pg_tab s (eTenantID ev, AggregateID ev) = Some (pg_norm (eOrder ev))"
    and "pgPublish L F tp ev s = (None, s')"
  shows "pg_tab s' = pg_tab s \<and> pg_log L s' = pg_log L s @ [pg_enorm ev] \<and> pg_inv L s'"
proof -
  have h: "held L (pg_norm (eOrder ev))" "ID (eOrder ev) = AggregateID ev" using assms(3) pg_tab_iff [OF assms(1)] by auto
  have tx1: "textOrder L (eOrder ev)" using h(1) textOrder_norm [of L "eOrder ev"] by (simp only: held_def)
  then have tx2: "uuid_ok L (AggregateID ev)" using h(2) by (simp add: textOrder_def)
  obtain p q n where pq: "jsonOrder L (eOrder ev) = Inr p" "jsonbStore L p = Inr q" and n: "outboxSeq s < n"
    and s': "s' = s\<lparr>outboxT := outboxT s @ [\<lparr>msg = \<lparr>mID = n, mTenantID = eTenantID ev, mAggregateID = AggregateID ev,
        mEventType = Type ev, mPayload = q, mOccurredAt = pgTime (OccurredAt ev), mTraceParent = tp\<rparr>,
        PublishedAt = None, FailedAt = None, FailureReason = []\<rparr>], outboxSeq := n\<rparr>"
    using pgPublish_ok [OF assms(4) tx2] by blast
  have un: "unjsonOrder L q = Inr (eOrder ev)" using assms(2) tx1 pq unfolding pglib_ok_def by blast
  have pre: "preload s' = preload s" by (rule ext) (simp add: preload_def s')
  have dec: "\<forall>r \<in> set (outboxT s). \<exists>o'. unjsonOrder L (mPayload (msg r)) = Inr o'" using assms(1) by (simp add: pg_inv_def)
  have "pg_inv L s'"
    using assms(1) n un unfolding pg_inv_def pre by (auto simp: s' sorted_wrt_append)
  moreover have "pg_tab s' = pg_tab s" unfolding pg_tab_def pre by (simp add: s')
  moreover have "pg_log L s' = pg_log L s @ [pg_enorm ev]"
    using eventsOf_decodes [OF dec] un by (auto simp: pg_log_def s' eventsOf_append pg_enorm_def)
  ultimately show ?thesis by blast
qed

section \<open>Listing\<close>

lemma rowsToDomain_Inr:
  assumes "\<forall>r \<in> set rs. toDomain r (preload s r) = Inr (g r)"
  shows "rowsToDomain (map (\<lambda>r. (r, preload s r)) rs) = Inr (map g rs)"
  using assms by (induction rs) auto

definition orderAt :: "pgdb \<Rightarrow> orderRow \<Rightarrow> Order" where
  "orderAt s r = (case toDomain r (preload s r) of Inr o' \<Rightarrow> o' | Inl _ \<Rightarrow> undefined)"

lemma orderAt:
  assumes "pg_inv L s" "r \<in> set (ordersT s)"
  shows "held L (orderAt s r)" "toRow (orderAt s r) = (r, preload s r)" "toDomain r (preload s r) = Inr (orderAt s r)"
    "sortKey (orderAt s r) = (rCreatedAt r, rID r)" "TenantID (orderAt s r) = rTenantID r"
    "pg_tab s (rTenantID r, rID r) = Some (orderAt s r)"
proof -
  obtain o' where o': "held L o'" "toRow o' = (r, preload s r)" "toDomain r (preload s r) = Inr o'"
    by (rule pg_invD [OF assms])
  then have eq: "orderAt s r = o'" by (simp add: orderAt_def)
  note f = toRow_fields [OF o'(2)]
  show "held L (orderAt s r)" "toRow (orderAt s r) = (r, preload s r)" "toDomain r (preload s r) = Inr (orderAt s r)"
    using o' eq by simp_all
  show "sortKey (orderAt s r) = (rCreatedAt r, rID r)" "TenantID (orderAt s r) = rTenantID r"
    using f eq by (simp_all add: sortKey_def)
  show "pg_tab s (rTenantID r, rID r) = Some (orderAt s r)"
    unfolding pg_tab_iff [OF assms(1)] eq using o'(1,2) f(1,2) assms(2)
    by (intro conjI bexI [of _ r]) simp_all
qed

text \<open>The conditions of the query select the rows of the requested orders.\<close>

lemma listConds_iff:
  assumes "pg_inv L s" "r \<in> set (ordersT s)"
  shows "list_all (\<lambda>p. p r) (listConds t f cur) \<longleftrightarrow>
    rTenantID r = t \<and> matches f (orderAt s r) \<and> past cur (orderAt s r)"
proof -
  note o = orderAt [OF assms] and f = toRow_fields [OF orderAt(2) [OF assms]]
  have v: "StatusValid (Status (orderAt s r))" using o(1) by (simp add: held_def pg_storable_def)
  show ?thesis
    using f(3,4) StatusString_inj [OF v, of "fStatus f"] o(4)
    by (auto simp: listConds_def matches_def past_def split: option.splits)
qed

definition pg_rows :: "string \<Rightarrow> ListFilter \<Rightarrow> (int \<times> string) option \<Rightarrow> pgdb \<Rightarrow> orderRow list" where
  "pg_rows t f cur s = sort_key (\<lambda>r. (rCreatedAt r, rID r))
     (filter (\<lambda>r. list_all (\<lambda>p. p r) (listConds t f cur) \<and> rTenantID r = t) (ordersT s))"

lemma pg_rows_mem: "r \<in> set (pg_rows t f cur s) \<Longrightarrow> r \<in> set (ordersT s)"
  by (simp add: pg_rows_def)

lemma pg_rows_set:
  assumes "pg_inv L s"
  shows "set (map (orderAt s) (pg_rows t f cur s)) = selected (pg_tab s) t f cur"
proof -
  have "o' \<in> orderAt s ` set (pg_rows t f cur s) \<longleftrightarrow> o' \<in> selected (pg_tab s) t f cur" for o'
  proof
    assume "o' \<in> orderAt s ` set (pg_rows t f cur s)"
    then obtain r where r: "r \<in> set (ordersT s)" "list_all (\<lambda>p. p r) (listConds t f cur)" "o' = orderAt s r"
      by (auto simp: pg_rows_def)
    then show "o' \<in> selected (pg_tab s) t f cur"
      using listConds_iff [OF assms r(1)] orderAt(6) [OF assms r(1)] by (auto simp: selected_def)
  next
    assume "o' \<in> selected (pg_tab s) t f cur"
    then obtain i where i: "pg_tab s (t, i) = Some o'" "matches f o'" "past cur o'" by (auto simp: selected_def)
    then obtain r where r: "r \<in> set (ordersT s)" "toRow o' = (r, preload s r)" "TenantID o' = t" "held L o'"
      using pg_tab_iff [OF assms] by blast
    have eq: "orderAt s r = o'" using orderAt(1,2) [OF assms r(1)] r(2,4) toRow_inj by (auto simp: held_def)
    then have "list_all (\<lambda>p. p r) (listConds t f cur) \<and> rTenantID r = t"
      using listConds_iff [OF assms r(1)] i toRow_fields(2) [OF r(2)] r(3) by auto
    then show "o' \<in> orderAt s ` set (pg_rows t f cur s)" using r(1) eq by (auto simp: pg_rows_def)
  qed
  then show ?thesis by auto
qed

lemma pg_rows_sorted:
  assumes "pg_inv L s"
  shows "sorted_wrt (<) (map sortKey (map (orderAt s) (pg_rows t f cur s)))"
proof -
  let ?k = "\<lambda>r. (rCreatedAt r, rID r)"
  have k: "map sortKey (map (orderAt s) (pg_rows t f cur s)) = map ?k (pg_rows t f cur s)"
    using orderAt(4) [OF assms pg_rows_mem] by simp
  have "distinct (map rID (ordersT s))" using assms by (simp add: pg_inv_def)
  then have "distinct (ordersT s)" "inj_on rID (set (ordersT s))" by (auto simp: distinct_map)
  then have "distinct (map ?k (pg_rows t f cur s))"
    by (auto simp: distinct_map pg_rows_def inj_on_def)
  moreover have "sorted (map ?k (pg_rows t f cur s))" by (simp add: pg_rows_def)
  ultimately show ?thesis unfolding k by (simp only: strict_sorted_iff)
qed

text \<open>The page \<open>List\<close> answers with when no statement fails, in terms of the rows.\<close>

definition pagedRows :: "codec \<Rightarrow> string \<Rightarrow> ListFilter \<Rightarrow> Order list \<Rightarrow> Page res" where
  "pagedRows K t f xs = (let n = nat (ClampPageSize (PageSize f)) in
     if n < length xs then
       (case EncodePageToken K t f (take n xs ! (n - 1)) of
          Inl err \<Rightarrow> Inl err
        | Inr token \<Rightarrow> Inr \<lparr>Orders = take n xs, NextPageToken = token\<rparr>)
     else Inr \<lparr>Orders = xs, NextPageToken = []\<rparr>)"

lemma pgList_eq:
  assumes "pg_inv L s" "t \<noteq> []" "fSelect F = None" "fSelectItems F = None" "DecodePageToken K t f = Inr cur"
    and "\<forall>a i. cur = Some (a, i) \<longrightarrow> pgUuid L i \<noteq> None" "textFilter L t f"
  shows "pgList L F K t f s = pagedRows K t f (map (orderAt s) (pg_rows t f (map_option (pg_cnorm L) cur) s))"
proof -
  define n where "n = nat (ClampPageSize (PageSize f))"
  define X where "X = pg_rows t f (map_option (pg_cnorm L) cur) s"
  have n: "0 < n" using ClampPageSize_range [of "PageSize f"] by (simp add: n_def)
  have pcur: "(case cur of None \<Rightarrow> Inr None
      | Some (after, afterID) \<Rightarrow> (case pgUuid L afterID of None \<Rightarrow> Inl dataError | Some i \<Rightarrow> Inr (Some (pgTime after, i))))
      = Inr (map_option (pg_cnorm L) cur)"
    using assms(6) by (auto simp: pg_cnorm_def split: option.splits)
  have dom: "rowsToDomain (map (\<lambda>r. (r, preload s r)) rs) = Inr (map (orderAt s) rs)" if "set rs \<subseteq> set X" for rs
    using that orderAt(3) [OF assms(1)] pg_rows_mem unfolding X_def by (intro rowsToDomain_Inr) blast
  have sub: "set (take k X) \<subseteq> set X" for k by (rule set_take_subset)
  have start: "pgList L F K t f s = (let rows = take (n + 1) X; hasMore = length rows > n; rows = (if hasMore then take n rows else rows)
      in case rowsToDomain (map (\<lambda>r. (r, preload s r)) rows) of Inl err \<Rightarrow> Inl err
         | Inr os \<Rightarrow> if hasMore \<and> os \<noteq> [] then
              (case EncodePageToken K t f (last os) of Inl err \<Rightarrow> Inl err
               | Inr token \<Rightarrow> Inr \<lparr>Orders = os, NextPageToken = token\<rparr>)
            else Inr \<lparr>Orders = os, NextPageToken = []\<rparr>)"
    using assms(2-5) by (simp only: pgList_def if_P [OF assms(7)] if_False sum.case option.case pcur Let_def scopedOrders_eq [OF assms(2)]
        pg_rows_def [symmetric] X_def [symmetric] n_def [symmetric])
  show ?thesis
  proof (cases "n < length X")
    case True
    have rows: "take n (take (n + 1) X) = take n X" by (simp add: min_def)
    have os1: "map (orderAt s) (take n X) \<noteq> []" using True n by auto
    have os2: "last (map (orderAt s) (take n X)) = take n (map (orderAt s) X) ! (n - 1)"
      unfolding take_map using True by (subst last_conv_nth [OF os1]) (simp add: min_def)
    have "length (take (n + 1) X) > n" using True by simp
    then show ?thesis
      unfolding start Let_def rows X_def [symmetric] pagedRows_def n_def [symmetric] using True os1 os2 dom [OF sub]
      by (simp add: take_map split: sum.split)
  next
    case False
    then have "take (n + 1) X = X" "\<not> length X > n" by simp_all
    then show ?thesis
      unfolding start Let_def X_def [symmetric] pagedRows_def n_def [symmetric] using dom [of X] by simp
  qed
qed

lemma pgList_law:
  assumes "pg_inv L s" "pgList L F K t f s = Inr p"
  shows "t \<noteq> [] \<and> (\<exists>cur. DecodePageToken K t f = Inr cur
    \<and> page_of K t f (selected (pg_tab s) t f (map_option (pg_cnorm L) cur)) p)"
proof -
  have t: "t \<noteq> []" using assms(2) by (auto simp: pgList_def)
  obtain cur where cur: "DecodePageToken K t f = Inr cur" using assms(2) t by (auto simp: pgList_def split: sum.splits)
  have u: "\<forall>a i. cur = Some (a, i) \<longrightarrow> pgUuid L i \<noteq> None" 
  proof (intro allI impI notI)
    fix a i
    assume "cur = Some (a, i)" "pgUuid L i = None"
    then show False using assms(2) t cur by (simp add: pgList_def)
  qed
  have f: "fSelect F = None" using assms(2) t cur by (cases "fSelect F") (auto simp: pgList_def Let_def split: sum.splits)
  have f': "fSelectItems F = None"
    using assms(2) t cur by (cases "fSelectItems F") (auto simp: pgList_def Let_def split: sum.splits)
  have tx: "textFilter L t f"
  proof (rule ccontr)
    assume "\<not> textFilter L t f"
    then have "\<exists>e. pgList L F K t f s = Inl e" using t cur u f by (cases cur) (auto simp: pgList_def Let_def split: option.split)
    with assms(2) show False by simp
  qed
  let ?xs = "map (orderAt s) (pg_rows t f (map_option (pg_cnorm L) cur) s)"
  have "pagedRows K t f ?xs = Inr p" using assms(2) pgList_eq [OF assms(1) t f f' cur u tx] by simp
  then have "page_of K t f (set ?xs) p"
    by (intro page_of_take [OF pg_rows_sorted [OF assms(1)] refl])
      (auto simp: pagedRows_def Let_def split: if_splits sum.splits)
  then show ?thesis using t cur unfolding pg_rows_set [OF assms(1)] by blast
qed

section \<open>The contract holds\<close>

text \<open>Whatever fails in the database, the adapter meets the contract of the store.\<close>

lemma pg_order_store:
  assumes "pglib_ok L"
  shows "order_store K (pgStore L F K) (pgPublisher L F tp) (pgAtomic L F K tp) pg_tab (pg_log L) (pg_inv L) (uuid_ok L)
    pg_storable pg_norm pg_enorm (pg_cnorm L)"
proof (unfold_locales, goal_cases)
  case (1 s t i o')
  have h: "held L o'" "TenantID o' = t" "ID o' = i" using pg_tab_iff [OF 1(1), of t i o'] 1(2) by simp_all
  have "pgTime (CreatedAt o') = CreatedAt o'"
  proof -
    have "CreatedAt (pg_norm o') = CreatedAt o'" using h(1) by (simp only: held_def)
    then show ?thesis by (simp add: pg_norm_def)
  qed
  with h show ?case by (auto simp: held_def textOrder_def uuid_ok_def sortKey_def pg_cnorm_def)
next
  case (2 s o' s')
  from 2(4) have "pgCreate L F o' s = (None, s')" by (simp add: pgStore_def)
  with 2(1-3) show ?case by (rule pgCreate_law)
next
  case (3 s i t o')
  then show ?case using pgGet_law by (simp add: pgStore_def)
next
  case (4 s o' s')
  from 4(4) have "pgUpdate L F o' s = (None, s')" by (simp add: pgStore_def)
  with 4(1-3) show ?case by (rule pgUpdate_law)
next
  case (5 s ev s')
  from 5(3) have "pgPublish L F tp ev s = (None, s')" by (simp add: pgPublisher_def)
  with 5(1,2) assms show ?case using pgPublish_law by blast
next
  case (6 fn s x s')
  then show ?case by (auto simp: pgAtomic_def pgInTx_def split: option.splits prod.splits sum.splits)
next
  case (7 fn s e s')
  then show ?case by (auto simp: pgAtomic_def pgInTx_def split: option.splits prod.splits sum.splits if_splits)
next
  case (8 s t f p)
  then show ?case using pgList_law by (simp add: pgStore_def)
next
  case (9 o')
  then show ?case by (rule storable_valid)
next
  case (10 o' now x)
  then show ?case by (rule storable_cancel)
next
  case (11 o')
  have "orderValidate (pg_norm o') = orderValidate o'" by (simp only: orderValidate_def pg_norm_same)
  then show ?case by simp
next
  case (12 ev)
  then show ?case by (simp add: pg_enorm_def)
qed

section \<open>Properties\<close>

definition emptyPg :: pgdb where
  "emptyPg = \<lparr>ordersT = [], itemsT = [], outboxT = [], outboxSeq = 0\<rparr>"

text \<open>States reached by use cases one after the other, each meeting its own failures, with the relay
  marking rows of the outbox in between.\<close>

inductive pg_reach :: "pglib \<Rightarrow> codec \<Rightarrow> pgdb \<Rightarrow> bool" for L K where
  start: "pg_reach L K emptyPg"
| create: "pg_reach L K s \<Longrightarrow> \<forall>i. newID = Inr i \<longrightarrow> uuid_ok L i
    \<Longrightarrow> svcCreate (pgService L F K tp) newID now cmd s = (r, s') \<Longrightarrow> pg_reach L K s'"
| cancel: "pg_reach L K s \<Longrightarrow> uuid_ok L i \<Longrightarrow> svcCancel (pgService L F K tp) now t i s = (r, s') \<Longrightarrow> pg_reach L K s'"
| relay: "pg_reach L K s \<Longrightarrow> map msg rows = map msg (outboxT s) \<Longrightarrow> pg_reach L K (s\<lparr>outboxT := rows\<rparr>)"

lemma eventsOf_msgs: "map msg rs = map msg qs \<Longrightarrow> eventsOf L rs = eventsOf L qs"
proof (induction rs arbitrary: qs)
  case (Cons r rs)
  then obtain q qs' where "qs = q # qs'" "msg r = msg q" "map msg rs = map msg qs'" by (cases qs) auto
  with Cons.IH show ?case by (simp split: sum.split)
qed simp

lemma relay_keeps:
  assumes "pg_inv L s" "map msg rows = map msg (outboxT s)"
  shows "pg_inv L (s\<lparr>outboxT := rows\<rparr>) \<and> pg_tab (s\<lparr>outboxT := rows\<rparr>) = pg_tab s \<and> pg_log L (s\<lparr>outboxT := rows\<rparr>) = pg_log L s"
proof -
  have pre: "preload (s\<lparr>outboxT := rows\<rparr>) = preload s" by (rule ext) (simp add: preload_def)
  have ids: "map (\<lambda>r. mID (msg r)) rows = map (\<lambda>r. mID (msg r)) (outboxT s)"
    using arg_cong [OF assms(2), of "map mID"] by (simp add: comp_def)
  have all: "(\<forall>r \<in> set rows. P (msg r)) \<longleftrightarrow> (\<forall>r \<in> set (outboxT s). P (msg r))" for P
    using arg_cong [OF assms(2), of set] by (auto simp: image_iff set_eq_iff) metis+
  show ?thesis
    using assms(1) all [of "\<lambda>m. 0 < mID m \<and> mID m \<le> outboxSeq s"] all [of "\<lambda>m. \<exists>o'. unjsonOrder L (mPayload m) = Inr o'"]
    unfolding pg_inv_def pg_tab_def pg_log_def pre using eventsOf_msgs [OF assms(2), of L] ids by simp
qed

lemma empty_journal: "pg_inv L emptyPg" "journal_upto pg_norm (pg_tab emptyPg) (pg_log L emptyPg)"
proof -
  show "pg_inv L emptyPg" by (simp add: pg_inv_def emptyPg_def)
  have e: "pg_tab emptyPg = Map.empty" by (auto simp: pg_tab_def emptyPg_def)
  show "journal_upto pg_norm (pg_tab emptyPg) (pg_log L emptyPg)"
    unfolding journal_upto_def e by (simp add: pg_log_def emptyPg_def history_def [abs_def] expected_history_def)
qed

lemma pg_reach_journal:
  assumes "pg_reach L K s" "pglib_ok L"
  shows "pg_inv L s \<and> journal_upto pg_norm (pg_tab s) (pg_log L s)"
  using assms(1)
proof induction
  case start
  then show ?case using empty_journal by blast
next
  case (create s newID F tp now cmd r s')
  then show ?case using order_store.create_keeps [OF pg_order_store [OF assms(2)] _ _ create.hyps(2,3)] by simp
next
  case (cancel s i F tp now t r s')
  then show ?case using order_store.cancel_keeps [OF pg_order_store [OF assms(2)] _ _ cancel.hyps(2,3)] by simp
next
  case (relay s rows)
  then show ?case using relay_keeps [of L s rows] by simp
qed

end
