(* ===== verification/Ordermem.thy ===== *)
theory Ordermem
  imports Service
begin

text \<open>
  The in-memory adapter (\<open>internal/order/ordermem/ordermem.go\<close>). The Go map \<open>orders\<close> is an
  association list whose order is the order in which \<open>range\<close> visits it; \<open>viewList_perm\<close> shows
  that no result depends on that order. Every exported method runs under the store's mutex, so it
  is one step on the state; \<open>clone\<close> copies the map and the event slice, which values of HOL
  need no model for.
\<close>

section \<open>State and operations\<close>

record memstate =
  orders :: "(string \<times> Order) list"
  events :: "Event list"

definition New :: memstate where
  "New = \<lparr>orders = [], events = []\<rparr>"

definition key :: "string \<Rightarrow> string \<Rightarrow> string" where
  "key tenantID orderID = tenantID @ CHR 0x00 # orderID"

text \<open>\<open>m[k] = v\<close>.\<close>

fun putEntry :: "'k \<Rightarrow> 'v \<Rightarrow> ('k \<times> 'v) list \<Rightarrow> ('k \<times> 'v) list" where
  "putEntry k v [] = [(k, v)]"
| "putEntry k v ((k', v') # m) = (if k' = k then (k, v) # m else (k', v') # putEntry k v m)"

definition viewCreate :: "Order \<Rightarrow> memstate \<Rightarrow> goerr option \<times> memstate" where
  "viewCreate o' d =
     (if TenantID o' = [] then (Some (Sentinel ErrMissingTenant), d)
      else (let k = key (TenantID o') (ID o')
            in case map_of (orders d) k of
                 Some _ \<Rightarrow> (Some (Errorf (sentinel_text ErrDuplicate @ '': id '' @ ID o') [Sentinel ErrDuplicate]), d)
               | None \<Rightarrow> (None, d\<lparr>orders := putEntry k o' (orders d)\<rparr>)))"

definition viewGet :: "string \<Rightarrow> string \<Rightarrow> memstate \<Rightarrow> Order res" where
  "viewGet tenantID orderID d =
     (if tenantID = [] then Inl (Sentinel ErrMissingTenant)
      else (case map_of (orders d) (key tenantID orderID) of
          None \<Rightarrow> Inl (Errorf (sentinel_text ErrNotFound @ '': id '' @ orderID) [Sentinel ErrNotFound])
        | Some o' \<Rightarrow> Inr o'))"

definition viewUpdate :: "Order \<Rightarrow> memstate \<Rightarrow> goerr option \<times> memstate" where
  "viewUpdate o' d =
     (if TenantID o' = [] then (Some (Sentinel ErrMissingTenant), d)
      else (let k = key (TenantID o') (ID o')
            in case map_of (orders d) k of
                 None \<Rightarrow> (Some (Errorf (sentinel_text ErrNotFound @ '': id '' @ ID o') [Sentinel ErrNotFound]), d)
               | Some _ \<Rightarrow> (None, d\<lparr>orders := putEntry k o' (orders d)\<rparr>)))"

definition listed :: "string \<Rightarrow> ListFilter \<Rightarrow> Order \<Rightarrow> bool" where
  "listed tenantID f o' \<longleftrightarrow>
     (if TenantID o' \<noteq> tenantID then False
      else if fStatus f \<noteq> StatusUnspecified \<and> Status o' \<noteq> fStatus f then False
      else if fCustomerID f \<noteq> [] \<and> CustomerID o' \<noteq> fCustomerID f then False
      else True)"

definition skipCursor :: "(int \<times> string) option \<Rightarrow> Order list \<Rightarrow> Order list" where
  "skipCursor cur matched = (case cur of
     None \<Rightarrow> matched
   | Some (after, afterID) \<Rightarrow>
       dropWhile (\<lambda>o'. \<not> (CreatedAt o' > after \<or> (CreatedAt o' = after \<and> ID o' > afterID))) matched)"

definition viewList :: "codec \<Rightarrow> string \<Rightarrow> ListFilter \<Rightarrow> memstate \<Rightarrow> Page res" where
  "viewList K tenantID f d =
     (if tenantID = [] then Inl (Sentinel ErrMissingTenant)
      else (case DecodePageToken K tenantID f of
          Inl err \<Rightarrow> Inl err
        | Inr cur \<Rightarrow>
            (let matched = filter (listed tenantID f) (map snd (orders d));
                 matched = sort_key (\<lambda>o'. (CreatedAt o', ID o')) matched;
                 matched = skipCursor cur matched;
                 size = nat (ClampPageSize (PageSize f))
             in if length matched > size then
                  (let rows = take size matched
                   in case EncodePageToken K tenantID f (rows ! (size - 1)) of
                        Inl err \<Rightarrow> Inl err
                      | Inr token \<Rightarrow> Inr \<lparr>Orders = rows, NextPageToken = token\<rparr>)
                else Inr \<lparr>Orders = matched, NextPageToken = []\<rparr>)))"

definition viewPublish :: "Event \<Rightarrow> memstate \<Rightarrow> goerr option \<times> memstate" where
  "viewPublish e d = (None, d\<lparr>events := events d @ [e]\<rparr>)"

text \<open>The exported methods lock and delegate to the view, and \<open>InTx\<close> hands its callback a view.\<close>

definition memStore :: "codec \<Rightarrow> memstate StorePort" where
  "memStore K = \<lparr>sCreate = viewCreate, sGet = viewGet, sList = viewList K, sUpdate = viewUpdate\<rparr>"

definition memPublisher :: "memstate EventPublisher" where
  "memPublisher = \<lparr>pPublish = viewPublish\<rparr>"

definition InTx :: "codec \<Rightarrow> memstate txbody \<Rightarrow> memstate \<Rightarrow> Order res \<times> memstate" where
  "InTx K fn data =
     (let staged = data
      in case fn (memStore K) memPublisher staged of
           (Inl err, _) \<Rightarrow> (Inl err, data)
         | (Inr x, staged') \<Rightarrow> (Inr x, staged'))"

definition memAtomic :: "codec \<Rightarrow> memstate Atomic" where
  "memAtomic K = \<lparr>aInTx = InTx K\<rparr>"

definition Events :: "memstate \<Rightarrow> Event list" where
  "Events d = events d"

definition Reset :: "memstate \<Rightarrow> memstate" where
  "Reset d = \<lparr>orders = [], events = []\<rparr>"

section \<open>Representation invariant and abstraction\<close>

definition no_nul :: "string \<Rightarrow> bool" where
  "no_nul i \<longleftrightarrow> CHR 0x00 \<notin> set i"

definition mem_inv :: "memstate \<Rightarrow> bool" where
  "mem_inv d \<longleftrightarrow> distinct (map fst (orders d))
     \<and> (\<forall>(k, o') \<in> set (orders d). k = key (TenantID o') (ID o') \<and> TenantID o' \<noteq> [] \<and> no_nul (ID o'))"

definition mem_tab :: "memstate \<Rightarrow> string \<times> string \<Rightarrow> Order option" where
  "mem_tab d = (\<lambda>(t, i). if t = [] \<or> \<not> no_nul i then None else map_of (orders d) (key t i))"

lemma key_inj: "no_nul i \<Longrightarrow> no_nul i' \<Longrightarrow> key t i = key t' i' \<longleftrightarrow> t = t' \<and> i = i'"
proof
  assume n: "no_nul i" "no_nul i'" and eq: "key t i = key t' i'"
  have tw: "takeWhile (\<lambda>c. c \<noteq> CHR 0x00) (rev (key u j)) = rev j" if "no_nul j" for u j
    using that unfolding key_def no_nul_def rev_append rev.simps append_assoc
    by (subst takeWhile_append2) auto
  have "rev i = rev i'" using tw [OF n(1), of t] tw [OF n(2), of t'] eq by simp
  then have "i = i'" by simp
  with eq show "t = t' \<and> i = i'" by (simp add: key_def)
qed simp

lemma map_of_putEntry: "map_of (putEntry k v m) = (map_of m)(k \<mapsto> v)"
  by (induction k v m rule: putEntry.induct) auto

lemma set_putEntry: "set (putEntry k v m) \<subseteq> insert (k, v) (set m)"
  by (induction k v m rule: putEntry.induct) auto

lemma fst_putEntry: "map fst (putEntry k v m) = (if k \<in> fst ` set m then map fst m else map fst m @ [k])"
  by (induction k v m rule: putEntry.induct) auto

lemma mem_inv_put:
  assumes "mem_inv d" "TenantID o' \<noteq> []" "no_nul (ID o')"
  shows "mem_inv (d\<lparr>orders := putEntry (key (TenantID o') (ID o')) o' (orders d)\<rparr>)"
  using assms set_putEntry [of "key (TenantID o') (ID o')" o' "orders d"]
  by (auto simp: mem_inv_def fst_putEntry)

lemma mem_tab_put:
  assumes "TenantID o' \<noteq> []" "no_nul (ID o')"
  shows "mem_tab (d\<lparr>orders := putEntry (key (TenantID o') (ID o')) o' (orders d)\<rparr>)
    = (mem_tab d)((TenantID o', ID o') \<mapsto> o')"
  using assms by (auto simp: mem_tab_def map_of_putEntry fun_eq_iff key_inj)

lemma mem_tab_wf:
  assumes "mem_inv d" "mem_tab d (t, i) = Some o'"
  shows "TenantID o' = t \<and> ID o' = i \<and> t \<noteq> [] \<and> no_nul i"
proof -
  have "t \<noteq> []" "no_nul i" "(key t i, o') \<in> set (orders d)"
    using assms(2) by (auto simp: mem_tab_def split: if_splits dest: map_of_SomeD)
  then show ?thesis using assms(1) key_inj by (fastforce simp: mem_inv_def)
qed

lemma mem_tab_iff:
  assumes "mem_inv d" "t \<noteq> []"
  shows "(\<exists>i. mem_tab d (t, i) = Some o') \<longleftrightarrow> o' \<in> snd ` set (orders d) \<and> TenantID o' = t"
proof
  assume "\<exists>i. mem_tab d (t, i) = Some o'"
  then obtain i where "mem_tab d (t, i) = Some o'" by blast
  with mem_tab_wf [OF assms(1) this] show "o' \<in> snd ` set (orders d) \<and> TenantID o' = t"
    by (force simp: mem_tab_def dest: map_of_SomeD)
next
  assume o': "o' \<in> snd ` set (orders d) \<and> TenantID o' = t"
  then have "(key t (ID o'), o') \<in> set (orders d)" "no_nul (ID o')"
    using assms(1) by (auto simp: mem_inv_def)
  then have "mem_tab d (t, ID o') = Some o'" using assms by (simp add: mem_tab_def mem_inv_def)
  then show "\<exists>i. mem_tab d (t, i) = Some o'" by blast
qed

section \<open>Listing\<close>

lemma listed_iff: "listed t f o' \<longleftrightarrow> TenantID o' = t \<and> matches f o'"
  by (auto simp: listed_def matches_def)

lemma less_key_iff: "(a, i) < sortKey o' \<longleftrightarrow> CreatedAt o' > a \<or> (CreatedAt o' = a \<and> ID o' > i)"
  by (auto simp: sortKey_def)

text \<open>Within one tenant the sort key is unique, because the id is.\<close>

lemma sortKey_inj_on_tenant:
  assumes "mem_inv d"
  shows "inj_on sortKey (set (filter (listed t f) (map snd (orders d))))"
proof (rule inj_onI)
  fix x y
  assume "x \<in> set (filter (listed t f) (map snd (orders d)))" "y \<in> set (filter (listed t f) (map snd (orders d)))"
    and k: "sortKey x = sortKey y"
  then have "(key t (ID x), x) \<in> set (orders d)" "(key t (ID y), y) \<in> set (orders d)"
    using assms by (auto simp: listed_iff mem_inv_def)
  moreover have "distinct (map fst (orders d))" using assms by (simp add: mem_inv_def)
  ultimately show "x = y" using k by (auto simp: sortKey_def dest: eq_key_imp_eq_value)
qed

lemma mem_rows_distinct:
  assumes "mem_inv d"
  shows "distinct (map snd (orders d))"
proof -
  have k: "map fst (orders d) = map (\<lambda>o'. key (TenantID o') (ID o')) (map snd (orders d))"
    using assms by (auto simp: mem_inv_def)
  have "distinct (map fst (orders d))" using assms by (simp add: mem_inv_def)
  then have "distinct (map (\<lambda>o'. key (TenantID o') (ID o')) (map snd (orders d)))" unfolding k .
  then show ?thesis by (simp only: distinct_map)
qed

text \<open>The rows a request yields, before it is cut to a page: strictly sorted, and exactly the
  selected ones.\<close>

definition mem_rows :: "string \<Rightarrow> ListFilter \<Rightarrow> (int \<times> string) option \<Rightarrow> memstate \<Rightarrow> Order list" where
  "mem_rows t f cur d = skipCursor cur (sort_key sortKey (filter (listed t f) (map snd (orders d))))"

lemma skipCursor_filter:
  assumes "sorted (map sortKey xs)"
  shows "skipCursor cur xs = filter (past cur) xs"
proof (cases cur)
  case None
  then show ?thesis by (simp add: skipCursor_def past_def)
next
  case (Some c)
  then show ?thesis
    using dropWhile_sorted_filter [OF assms, of c]
    by (cases c) (simp add: skipCursor_def past_def [abs_def] less_key_iff [symmetric])
qed

lemma mem_rows_sorted:
  assumes "mem_inv d"
  shows "sorted_wrt (<) (map sortKey (mem_rows t f cur d))"
proof -
  let ?xs = "sort_key sortKey (filter (listed t f) (map snd (orders d)))"
  have "sorted (map sortKey ?xs)" by simp
  moreover have "distinct (map sortKey ?xs)"
    using sortKey_inj_on_tenant [OF assms, of t f] mem_rows_distinct [OF assms]
    by (simp add: distinct_map)
  ultimately have "sorted_wrt (<) (map sortKey ?xs)" by (simp only: strict_sorted_iff)
  then show ?thesis
    unfolding mem_rows_def skipCursor_filter [OF \<open>sorted (map sortKey ?xs)\<close>]
    by (simp only: sorted_wrt_map sorted_wrt_filter)
qed

lemma mem_rows_set:
  assumes "mem_inv d" "t \<noteq> []"
  shows "set (mem_rows t f cur d) = selected (mem_tab d) t f cur"
  unfolding mem_rows_def
  by (subst skipCursor_filter)
    (auto simp: selected_def listed_iff mem_tab_iff [OF assms])

lemma viewList_eq:
  "viewList K t f d =
     (if t = [] then Inl (Sentinel ErrMissingTenant)
      else (case DecodePageToken K t f of
          Inl err \<Rightarrow> Inl err
        | Inr cur \<Rightarrow>
            (let xs = mem_rows t f cur d; n = nat (ClampPageSize (PageSize f))
             in if n < length xs then
                  (case EncodePageToken K t f (take n xs ! (n - 1)) of
                     Inl err \<Rightarrow> Inl err
                   | Inr token \<Rightarrow> Inr \<lparr>Orders = take n xs, NextPageToken = token\<rparr>)
                else Inr \<lparr>Orders = xs, NextPageToken = []\<rparr>)))"
  by (simp only: viewList_def mem_rows_def Let_def sortKey_def [abs_def])

lemma viewList_page:
  assumes "mem_inv d" "viewList K t f d = Inr p"
  shows "t \<noteq> [] \<and> (\<exists>cur. DecodePageToken K t f = Inr cur \<and> page_of K t f (selected (mem_tab d) t f cur) p)"
proof -
  have t: "t \<noteq> []" using assms(2) by (auto simp: viewList_eq)
  then obtain cur where cur: "DecodePageToken K t f = Inr cur"
    using assms(2) by (auto simp: viewList_eq split: sum.splits)
  have "page_of K t f (set (mem_rows t f cur d)) p"
    using assms(2) t cur
    by (intro page_of_take [OF mem_rows_sorted [OF assms(1)] refl])
      (auto simp: viewList_eq Let_def split: if_splits sum.splits)
  then show ?thesis using t cur by (simp add: mem_rows_set [OF assms(1) t])
qed

text \<open>A listing depends only on the tenant's own rows.\<close>

lemma mem_rows_own:
  assumes "mem_inv d" "mem_inv d'" "t \<noteq> []" "\<forall>i. mem_tab d' (t, i) = mem_tab d (t, i)"
  shows "mem_rows t f cur d' = mem_rows t f cur d"
proof -
  have s: "sorted (map sortKey (mem_rows t f cur e)) \<and> distinct (map sortKey (mem_rows t f cur e))" if "mem_inv e" for e
    using mem_rows_sorted [OF that] by (simp only: strict_sorted_iff)
  have set: "set (mem_rows t f cur d') = set (mem_rows t f cur d)"
    using assms(4) by (simp add: mem_rows_set [OF assms(1,3)] mem_rows_set [OF assms(2,3)] selected_def)
  have "inj_on sortKey (set (mem_rows t f cur d'))" using s [OF assms(2)] by (simp add: distinct_map)
  then show ?thesis using map_sorted_distinct_set_unique [of sortKey] s assms(1,2) set by simp
qed

lemma viewList_own:
  assumes "mem_inv d" "mem_inv d'" "\<forall>i. mem_tab d' (t, i) = mem_tab d (t, i)"
  shows "viewList K t f d' = viewList K t f d"
  using mem_rows_own [OF assms(1,2) _ assms(3)] by (cases "t = []") (simp_all add: viewList_eq Let_def split: sum.split)

lemma viewGet_own:
  assumes "no_nul i" "mem_tab d' (t, i) = mem_tab d (t, i)"
  shows "viewGet t i d' = viewGet t i d"
  using assms by (simp add: viewGet_def mem_tab_def split: if_splits)

section \<open>The contract holds\<close>

interpretation mem: exact_store K "memStore K" memPublisher "memAtomic K" mem_tab events mem_inv no_nul
  "\<lambda>_. True" "\<lambda>x. x" "\<lambda>e. e" "\<lambda>c. c"
proof (unfold_locales, goal_cases)
  case (1 s t i o')
  then show ?case using mem_tab_wf by simp
next
  case (2 s o' s')
  then show ?case
    by (auto simp: memStore_def viewCreate_def Let_def mem_tab_put mem_inv_put split: if_splits option.splits)
      (simp add: mem_tab_def)
next
  case (3 s i t o')
  then show ?case by (auto simp: memStore_def viewGet_def mem_tab_def split: if_splits option.splits)
next
  case (4 s o' s')
  then show ?case
    by (auto simp: memStore_def viewUpdate_def Let_def mem_tab_put mem_inv_put split: if_splits option.splits)
      (simp add: mem_tab_def)
next
  case (5 s ev s')
  then show ?case by (auto simp: memPublisher_def viewPublish_def mem_tab_def mem_inv_def)
next
  case (6 fn s x s')
  then show ?case by (auto simp: memAtomic_def InTx_def split: prod.splits sum.splits)
next
  case (7 fn s e s')
  then show ?case by (auto simp: memAtomic_def InTx_def split: prod.splits sum.splits)
next
  case (8 s t f p)
  then show ?case using viewList_page by (simp add: memStore_def option.map_ident)
next
  case (13 s o' x)
  then show ?case by (auto simp: memStore_def viewCreate_def mem_tab_def Let_def split: if_splits)
next
  case (14 s i t)
  then show ?case by (auto simp: memStore_def viewGet_def mem_tab_def)
next
  case (15 fn s e s')
  then show ?case by (auto simp: memAtomic_def InTx_def split: prod.splits sum.splits)
qed simp_all

lemmas mem_reach_journal = mem.reach_journal [unfolded journal_upto_id]
lemmas mem_walk_correct = mem.walk_correct [unfolded option.map_ident, OF _ _ refl]
lemmas mem_walk_sound = mem.walk_sound [unfolded option.map_ident, OF _ _ refl]
lemmas mem_walk_ends = mem.walk_ends [unfolded option.map_ident, OF _ _ refl]

abbreviation memService :: "codec \<Rightarrow> memstate Service" where
  "memService K \<equiv> \<lparr>store = memStore K, atomic = memAtomic K\<rparr>"

section \<open>Properties\<close>

lemma New_journal: "mem_inv New" "journal (mem_tab New) (events New)"
proof -
  show "mem_inv New" by (simp add: mem_inv_def New_def)
  have e: "mem_tab New = Map.empty" by (auto simp: mem_tab_def New_def fun_eq_iff)
  show "journal (mem_tab New) (events New)"
    unfolding journal_def e by (simp add: New_def history_def [abs_def] expected_history_def)
qed

definition sampleCmd :: CreateCommand where
  "sampleCmd = \<lparr>cmdTenantID = ''acme'', cmdCustomerID = ''bob'', cmdItems = [sampleItem]\<rparr>"

definition sampleState :: memstate where
  "sampleState = \<lparr>orders = [(key ''acme'' (ID sampleOrder), sampleOrder)], events = [created_event sampleOrder 1000]\<rparr>"

lemma sampleState_created:
  "svcCreate (memService K) (Inr (ID sampleOrder)) 1000 sampleCmd New = (Inr sampleOrder, sampleState)"
proof -
  have "orderValidate sampleOrder = None" by (rule sampleOrder_valid)
  then show ?thesis
    by (simp add: svcCreate_def sampleCmd_def sampleItem_total memAtomic_def InTx_def createBody_def memStore_def
        memPublisher_def viewCreate_def viewPublish_def New_def Let_def sampleOrder_def sampleState_def created_event_def)
qed

lemma sample_no_nul: "no_nul (ID sampleOrder)"
  by (simp add: no_nul_def sampleOrder_def)

lemma sampleState_reach: "svc_reach (memService K) no_nul New sampleState"
  by (rule svc_reach.create [OF svc_reach.start _ sampleState_created]) (simp add: sample_no_nul)

text \<open>
  C1: no order without its event and no event without its order. After any sequence of create and
  cancel calls on the in-memory store, whatever their arguments and whichever of them failed,
  replaying the event log gives exactly the stored table, every stored order is consistent, and the
  events of an order are one creation followed, exactly when the order is cancelled, by one
  cancellation. In particular an order is cancelled at most once.
\<close>

theorem service_log_matches_store:
  assumes "svc_reach (memService K) no_nul New s"
  shows "mem_inv s \<and> journal (mem_tab s) (events s)"
  by (rule mem_reach_journal [OF assms New_journal])

theorem service_log_matches_store_witness:
  "\<exists>s. svc_reach (memService sampleCodec) no_nul New s \<and> mem_tab s (''acme'', ID sampleOrder) = Some sampleOrder
     \<and> journal (mem_tab s) (events s)"
proof -
  have "mem_tab sampleState (''acme'', ID sampleOrder) = Some sampleOrder"
    by (simp add: mem_tab_def sampleState_def sample_no_nul)
  with service_log_matches_store [OF sampleState_reach] sampleState_reach show ?thesis by blast
qed

text \<open>
  Creating an order is all or nothing. On success the order returned is consistent, pending,
  new under its tenant and id, and stored, and exactly one \<open>OrderCreated\<close> event carrying it was
  appended; on any failure the store is exactly what it was.
\<close>

theorem create_all_or_nothing:
  assumes "mem_inv s" "\<forall>i. newID = Inr i \<longrightarrow> no_nul i" "svcCreate (memService K) newID now cmd s = (r, s')"
  shows "case r of Inl _ \<Rightarrow> s' = s
    | Inr x \<Rightarrow> orderValidate x = None \<and> Status x = StatusPending \<and> TenantID x = cmdTenantID cmd
        \<and> newID = Inr (ID x) \<and> mem_tab s (TenantID x, ID x) = None
        \<and> mem_tab s' = (mem_tab s)((TenantID x, ID x) \<mapsto> x) \<and> events s' = events s @ [created_event x now] \<and> mem_inv s'"
  by (rule mem.create_atomic [OF assms])

theorem create_all_or_nothing_witness:
  "mem_inv New \<and> svcCreate (memService sampleCodec) (Inr (ID sampleOrder)) 1000 sampleCmd New = (Inr sampleOrder, sampleState)
     \<and> events sampleState = events New @ [created_event sampleOrder 1000]"
  using create_all_or_nothing [OF New_journal(1) _ sampleState_created] New_journal(1) sampleState_created sample_no_nul
  by simp

text \<open>
  Cancelling is all or nothing. It succeeds only on an order the tenant has and whose status
  allows it; then the stored order is the cancelled one and one \<open>OrderCancelled\<close> event was
  appended. On any failure, the refusal of a second cancellation included, the store is exactly what it was.
\<close>

theorem cancel_all_or_nothing:
  assumes "mem_inv s" "no_nul i" "svcCancel (memService K) now t i s = (r, s')"
  shows "case r of Inl _ \<Rightarrow> s' = s
    | Inr x \<Rightarrow> \<exists>p. mem_tab s (t, i) = Some p \<and> orderCancel p now = Inr x \<and> mem_tab s' = (mem_tab s)((t, i) \<mapsto> x)
        \<and> events s' = events s @ [cancelled_event x now] \<and> mem_inv s'"
  by (rule mem.cancel_atomic [OF assms])

lemma sample_cancel:
  "\<exists>x s'. svcCancel (memService K) 5000 ''acme'' (ID sampleOrder) sampleState = (Inr x, s')"
  by (simp add: svcCancel_def memAtomic_def InTx_def cancelBody_def memStore_def memPublisher_def viewGet_def
      viewUpdate_def viewPublish_def sampleState_def Let_def orderCancel_def CanTransitionTo_def
      sampleOrder_def key_def)

theorem cancel_all_or_nothing_witness:
  "\<exists>x s'. svcCancel (memService sampleCodec) 5000 ''acme'' (ID sampleOrder) sampleState = (Inr x, s')
     \<and> events s' = events sampleState @ [cancelled_event x 5000]"
proof -
  obtain x s' where c: "svcCancel (memService sampleCodec) 5000 ''acme'' (ID sampleOrder) sampleState = (Inr x, s')"
    using sample_cancel by blast
  have "mem_inv sampleState" using mem_reach_journal [OF sampleState_reach New_journal] by blast
  from cancel_all_or_nothing [OF this sample_no_nul c] c show ?thesis by auto
qed

text \<open>
  C10: a client that follows page tokens while others write sees no order twice and misses none
  that was there throughout. Over any sequence of store states, the concatenated pages are strictly
  sorted by creation time and id, and once a page has no token every row that matched in all the
  states read has been returned.
\<close>

theorem pagination_no_skip_no_repeat:
  assumes "walk (memStore K) t f ss = Inr (os, fin)" "DecodePageToken K t f = Inr cur" "codec_ok K"
    and "\<forall>s \<in> set ss. mem_inv s"
    and "\<forall>s \<in> set ss. \<forall>i o'. mem_tab s (t, i) = Some o' \<longrightarrow> uuidValidate K i = None"
  shows "sorted_wrt (<) (map sortKey os) \<and> (\<forall>o' \<in> set os. past cur o')
    \<and> (fin \<longrightarrow> (\<forall>k. (\<forall>s \<in> set ss. k \<in> sortKey ` selected (mem_tab s) t f cur) \<longrightarrow> k \<in> sortKey ` set os))"
  by (rule mem_walk_correct [OF assms])

lemma sampleState_inv: "mem_inv sampleState"
  using mem_reach_journal [OF sampleState_reach New_journal] by blast

lemma sampleState_tab: "mem_tab sampleState (t, i) = Some x \<Longrightarrow> t = ''acme'' \<and> i = ID sampleOrder \<and> x = sampleOrder"
proof -
  assume a: "mem_tab sampleState (t, i) = Some x"
  then have "x = sampleOrder" by (simp add: mem_tab_def sampleState_def split: if_splits)
  moreover from mem_tab_wf [OF sampleState_inv a] have "t = TenantID x" "i = ID x" by simp_all
  ultimately show ?thesis by (simp add: sampleOrder_def)
qed

abbreviation sampleFilter :: ListFilter where
  "sampleFilter \<equiv> \<lparr>fStatus = StatusPending, fCustomerID = [], PageSize = 0, PageToken = []\<rparr>"

lemma sample_walk: "walk (memStore K) ''acme'' sampleFilter [sampleState] = Inr ([sampleOrder], True)"
  by (simp add: memStore_def viewList_def DecodePageToken_def sampleState_def listed_def sampleOrder_def skipCursor_def
      ClampPageSize_def DefaultPageSize_def)

theorem pagination_no_skip_no_repeat_witness:
  "walk (memStore sampleCodec) ''acme'' sampleFilter [sampleState] = Inr ([sampleOrder], True)
     \<and> sortKey ` selected (mem_tab sampleState) ''acme'' sampleFilter None \<subseteq> sortKey ` set [sampleOrder]"
proof -
  have "DecodePageToken sampleCodec ''acme'' sampleFilter = Inr None" by (simp add: DecodePageToken_def)
  moreover have "\<forall>s \<in> set [sampleState]. \<forall>i o'. mem_tab s (''acme'', i) = Some o' \<longrightarrow> uuidValidate sampleCodec i = None"
  proof (intro ballI allI impI)
    fix s i o'
    assume "s \<in> set [sampleState]" "mem_tab s (''acme'', i) = Some o'"
    then have "i = ID sampleOrder" using sampleState_tab by simp
    then show "uuidValidate sampleCodec i = None" by (simp add: sampleCodec_def sampleOrder_def)
  qed
  moreover have "\<forall>s \<in> set [sampleState]. mem_inv s" using sampleState_inv by simp
  ultimately show ?thesis
    using pagination_no_skip_no_repeat [OF sample_walk _ sampleCodec_ok] sample_walk by fastforce
qed

text \<open>
  On a store nobody writes to, following the tokens ends and enumerates. Given more reads than
  there are matching rows, a walk that meets no encoding error reaches a page without a token, and
  the rows it returned are exactly the matching rows of the tenant, each once, in order.
\<close>

theorem pagination_enumerates:
  assumes "walk (memStore K) t f (replicate n s) = Inr (os, fin)" "PageToken f = []" "codec_ok K" "mem_inv s"
    and "\<forall>i o'. mem_tab s (t, i) = Some o' \<longrightarrow> uuidValidate K i = None" "length (orders s) < n"
  shows "fin \<and> set os = selected (mem_tab s) t f None \<and> sorted_wrt (<) (map sortKey os)"
proof -
  have cur: "DecodePageToken K t f = Inr None" using assms(2) by (simp add: DecodePageToken_def)
  have t: "t \<noteq> []" using assms(1,6) by (cases n) (auto simp: memStore_def viewList_eq)
  let ?M = "selected (mem_tab s) t f None"
  have M: "?M \<subseteq> snd ` set (orders s)" by (auto simp: selected_def mem_tab_iff [OF assms(4) t])
  then have fin: "finite ?M" by (rule finite_subset) simp
  have "card ?M \<le> card (snd ` set (orders s))" using M by (intro card_mono) simp_all
  also have "\<dots> \<le> length (orders s)" by (metis card_length length_map list.set_map)
  finally have ends: "fin"
    using mem_walk_ends [OF assms(1) cur assms(3,4)] assms(5,6) fin by auto
  have *: "\<forall>s' \<in> set (replicate n s). mem_inv s'"
    "\<forall>s' \<in> set (replicate n s). \<forall>i o'. mem_tab s' (t, i) = Some o' \<longrightarrow> uuidValidate K i = None"
    using assms(4,5) by simp_all
  note w = mem_walk_correct [OF assms(1) cur assms(3) *]
  have sub: "set os \<subseteq> ?M" using mem_walk_sound [OF assms(1) cur assms(3) *] by auto
  have inj: "inj_on sortKey ?M"
    using sortKey_inj_on_tenant [OF assms(4), of t f]
    by (rule inj_on_subset) (auto simp: selected_def listed_iff mem_tab_iff [OF assms(4) t])
  have "?M \<subseteq> set os"
  proof
    fix x
    assume x: "x \<in> ?M"
    then have "sortKey x \<in> sortKey ` set os" using w ends by (metis (no_types, lifting) imageI in_set_replicate)
    then obtain y where "y \<in> set os" "sortKey x = sortKey y" by auto
    then show "x \<in> set os" using inj sub x by (metis inj_onD subsetD)
  qed
  with sub ends w show ?thesis by blast
qed

lemma sample_uuid: "\<forall>i o'. mem_tab sampleState (''acme'', i) = Some o' \<longrightarrow> uuidValidate sampleCodec i = None"
proof (intro allI impI)
  fix i o'
  assume "mem_tab sampleState (''acme'', i) = Some o'"
  then have "i = ID sampleOrder" using sampleState_tab by simp
  then show "uuidValidate sampleCodec i = None" by (simp add: sampleCodec_def sampleOrder_def)
qed

theorem pagination_enumerates_witness:
  "walk (memStore sampleCodec) ''acme'' sampleFilter (replicate 2 sampleState) = Inr ([sampleOrder], True)
     \<and> set [sampleOrder] = selected (mem_tab sampleState) ''acme'' sampleFilter None"
proof -
  have w: "walk (memStore sampleCodec) ''acme'' sampleFilter (replicate 2 sampleState) = Inr ([sampleOrder], True)"
    by (simp add: numeral_2_eq_2 memStore_def viewList_def DecodePageToken_def sampleState_def listed_def sampleOrder_def
        skipCursor_def ClampPageSize_def DefaultPageSize_def)
  have "length (orders sampleState) < 2" by (simp add: sampleState_def)
  from pagination_enumerates [OF w _ sampleCodec_ok sampleState_inv sample_uuid this] w show ?thesis by simp
qed

text \<open>
  Listing does not depend on the order in which Go iterates the map: two states holding the same
  entries in any order answer every list request alike, errors and page tokens included.
\<close>

theorem list_iteration_order_irrelevant:
  assumes "mem_inv d" "mset (orders d') = mset (orders d)"
  shows "viewList K t f d' = viewList K t f d"
proof -
  have "mset (filter (listed t f) (map snd (orders d))) = mset (filter (listed t f) (map snd (orders d')))"
    using assms(2) by simp
  from sort_key_perm [OF this sortKey_inj_on_tenant [OF assms(1)]]
  have "mem_rows t f cur d' = mem_rows t f cur d" for cur by (simp add: mem_rows_def)
  then show ?thesis by (simp only: viewList_eq)
qed

definition sampleOrder2 :: Order where
  "sampleOrder2 = sampleOrder\<lparr>ID := ''01930000-0000-7000-8000-000000000002''\<rparr>"

theorem list_iteration_order_irrelevant_witness:
  "let a = (key ''acme'' (ID sampleOrder), sampleOrder); b = (key ''acme'' (ID sampleOrder2), sampleOrder2);
       d = \<lparr>orders = [a, b], events = []\<rparr>
   in mem_inv d \<and> viewList sampleCodec ''acme'' sampleFilter \<lparr>orders = [b, a], events = []\<rparr>
        = viewList sampleCodec ''acme'' sampleFilter d"
proof -
  let ?a = "(key ''acme'' (ID sampleOrder), sampleOrder)" and ?b = "(key ''acme'' (ID sampleOrder2), sampleOrder2)"
  have "mem_inv \<lparr>orders = [?a, ?b], events = []\<rparr>"
    by (simp add: mem_inv_def sampleOrder_def sampleOrder2_def no_nul_def key_def)
  moreover from list_iteration_order_irrelevant [OF this, of "\<lparr>orders = [?b, ?a], events = []\<rparr>" sampleCodec "''acme''" sampleFilter]
  have "viewList sampleCodec ''acme'' sampleFilter \<lparr>orders = [?b, ?a], events = []\<rparr>
      = viewList sampleCodec ''acme'' sampleFilter \<lparr>orders = [?a, ?b], events = []\<rparr>" by simp
  ultimately show ?thesis unfolding Let_def by blast
qed

text \<open>
  Tenants are isolated. In every state the service reaches, what a tenant reads by an id
  without NUL bytes is its own order with that id, and creating or cancelling under one tenant
  changes no entry of another.
\<close>

theorem tenant_isolation:
  assumes "svc_reach (memService K) no_nul New s" "no_nul i"
  shows "(svcGet (memService K) t i s = Inr x \<longrightarrow> TenantID x = t \<and> ID x = i)
    \<and> (svcCancel (memService K) now t i s = (r, s') \<longrightarrow> u \<noteq> t \<longrightarrow> mem_tab s' (u, j) = mem_tab s (u, j))
    \<and> (svcCreate (memService K) (Inr i) now cmd s = (r, s') \<longrightarrow> u \<noteq> cmdTenantID cmd \<longrightarrow>
         mem_tab s' (u, j) = mem_tab s (u, j))"
proof (intro conjI impI)
  have inv: "mem_inv s" using mem_reach_journal [OF assms(1) New_journal] by blast
  show "TenantID x = t" "ID x = i" if "svcGet (memService K) t i s = Inr x"
    using mem.get_tenant_isolated [OF inv assms(2) that] by blast+
  show "mem_tab s' (u, j) = mem_tab s (u, j)" if "svcCancel (memService K) now t i s = (r, s')" "u \<noteq> t"
    using mem.cancel_atomic [OF inv assms(2) that(1)] that(2) by (cases r) auto
  show "mem_tab s' (u, j) = mem_tab s (u, j)"
    if "svcCreate (memService K) (Inr i) now cmd s = (r, s')" "u \<noteq> cmdTenantID cmd"
    using mem.create_atomic [OF inv _ that(1)] assms(2) that(2) by (cases r) auto
qed

theorem tenant_isolation_witness:
  "svcGet (memService sampleCodec) ''acme'' (ID sampleOrder) sampleState = Inr sampleOrder \<and> TenantID sampleOrder = ''acme''"
proof -
  have "svcGet (memService sampleCodec) ''acme'' (ID sampleOrder) sampleState = Inr sampleOrder"
    by (simp add: svcGet_def memStore_def viewGet_def sampleState_def)
  with tenant_isolation [OF sampleState_reach sample_no_nul, where t = "''acme''" and x = sampleOrder] show ?thesis by blast
qed

text \<open>
  The concatenated map key is not injective, so without the restriction on ids a lookup does
  cross tenants: an order of the tenant \<open>a NUL b\<close> stored under the id \<open>c\<close> is returned to
  the tenant \<open>a\<close> when it asks for the id \<open>b NUL c\<close>.
\<close>

theorem key_crosses_tenants:
  assumes "TenantID x = a @ CHR 0x00 # b" "ID x = c" "a \<noteq> []" "map_of (orders d) (key (TenantID x) c) = None"
  shows "\<exists>d'. viewCreate x d = (None, d') \<and> viewGet a (b @ CHR 0x00 # c) d' = Inr x \<and> TenantID x \<noteq> a"
  using assms by (auto simp: viewCreate_def viewGet_def key_def Let_def map_of_putEntry)

theorem key_crosses_tenants_witness:
  "\<exists>d'. viewCreate (sampleOrder\<lparr>TenantID := [CHR ''a'', CHR 0x00, CHR ''b'']\<rparr>) New = (None, d')
     \<and> viewGet ''a'' (''b'' @ CHR 0x00 # ID sampleOrder) d' = Inr (sampleOrder\<lparr>TenantID := [CHR ''a'', CHR 0x00, CHR ''b'']\<rparr>)"
  using key_crosses_tenants [of "sampleOrder\<lparr>TenantID := [CHR ''a'', CHR 0x00, CHR ''b'']\<rparr>" "''a''" "''b''" "ID sampleOrder" New]
  by (auto simp: New_def)

text \<open>The literal seed data, evaluated.\<close>

definition seedOrder :: "int \<Rightarrow> string \<Rightarrow> string \<Rightarrow> Status \<Rightarrow> Item list \<Rightarrow> Order" where
  "seedOrder at i c st items = \<lparr>ID = i, TenantID = SeedTenant, CustomerID = c, Status = st, Items = items,
     Total = (case ComputeTotal items of Inr m \<Rightarrow> m | Inl _ \<Rightarrow> zeroMoney), CreatedAt = at, UpdatedAt = at\<rparr>"

lemma seeds_no_panic: "list_all (\<lambda>(_, _, _, items). list_all (\<lambda>i. i \<noteq> None) items) seeds"
  by code_simp

lemma seeds_valid:
  "list_all (\<lambda>(i, c, st, items). orderValidate (seedOrder 0 i c st (map the items)) = None \<and> no_nul i) seeds"
  by code_simp

lemma seeds_ids: "distinct (map fst seeds) \<and> length seeds = 3"
  by code_simp

lemma seedOrder_valid_at: "orderValidate (seedOrder at i c st items) = None \<longleftrightarrow> orderValidate (seedOrder 0 i c st items) = None"
  by (simp add: seedOrder_def orderValidate_None_iff)

lemma seedLoop_mem:
  assumes "list_all (\<lambda>(i, c, st, items). orderValidate (seedOrder 0 i c st items) = None \<and> no_nul i) xs"
    and "distinct (map fst xs)" "\<forall>x \<in> set xs. mem_tab d (SeedTenant, fst x) = None" "mem_inv d"
    and "list_all (\<lambda>(k, x). orderValidate x = None \<and> TenantID x = SeedTenant) (orders d)"
  shows "\<exists>d'. seedLoop (memStore K) at n xs d = (None, d') \<and> length (orders d') = length (orders d) + length xs
    \<and> events d' = events d \<and> mem_inv d'
    \<and> list_all (\<lambda>(k, x). orderValidate x = None \<and> TenantID x = SeedTenant) (orders d')"
  using assms
proof (induction xs arbitrary: d n)
  case Nil
  then show ?case by simp
next
  case (Cons x xs)
  obtain i c st items where x: "x = (i, c, st, items)" by (cases x)
  let ?o = "seedOrder (at + int n * 60000000000) i c st items"
  let ?d = "d\<lparr>orders := putEntry (key SeedTenant i) ?o (orders d)\<rparr>"
  have v: "orderValidate ?o = None" "no_nul i"
    using Cons.prems(1) x seedOrder_valid_at [of "at + int n * 60000000000"] by auto
  then obtain m where m: "ComputeTotal items = Inr m"
    by (auto simp: orderValidate_None_iff seedOrder_def)
  have o: "?o = \<lparr>ID = i, TenantID = SeedTenant, CustomerID = c, Status = st, Items = items, Total = m,
      CreatedAt = at + int n * 60000000000, UpdatedAt = at + int n * 60000000000\<rparr>"
    by (simp add: seedOrder_def m)
  have t: "SeedTenant \<noteq> []" by (simp add: SeedTenant_def)
  have new: "map_of (orders d) (key SeedTenant i) = None"
    using Cons.prems(3) v(2) t x by (simp add: mem_tab_def)
  have create: "viewCreate ?o d = (None, ?d)"
    using new t by (simp add: viewCreate_def seedOrder_def)
  have step: "seedLoop (memStore K) at n (x # xs) d = seedLoop (memStore K) at (Suc n) xs ?d"
    using v(1) create m by (simp add: x memStore_def Let_def o)
  have inv: "mem_inv ?d" using mem_inv_put [OF Cons.prems(4), of ?o] v(2) t by (simp add: seedOrder_def)
  have tab: "mem_tab ?d = (mem_tab d)((SeedTenant, i) \<mapsto> ?o)"
    using mem_tab_put [of ?o d] v(2) t by (simp add: seedOrder_def)
  have len: "length (orders ?d) = Suc (length (orders d))"
    using arg_cong [OF fst_putEntry [of "key SeedTenant i" ?o "orders d"], of length] new
    by (auto simp: map_of_eq_None_iff)
  have all: "list_all (\<lambda>(k, x). orderValidate x = None \<and> TenantID x = SeedTenant) (orders ?d)"
    using Cons.prems(5) v(1) set_putEntry [of "key SeedTenant i" ?o "orders d"]
    by (fastforce simp: list_all_iff seedOrder_def)
  have "\<forall>y \<in> set xs. mem_tab ?d (SeedTenant, fst y) = None"
    using Cons.prems(2,3) x unfolding tab by (auto simp: image_iff)
  from Cons.IH [OF _ _ this inv all, of "Suc n"] Cons.prems(1,2) len step show ?case by auto
qed

text \<open>
  Seeding an empty in-memory store never panics and never fails, at whatever time it runs: it
  leaves three consistent orders of the development tenant and publishes nothing.
\<close>

theorem seed_succeeds:
  "\<exists>d. Seed (memStore K) at New = Some (None, d) \<and> length (orders d) = 3 \<and> events d = []
     \<and> list_all (\<lambda>(k, x). orderValidate x = None \<and> TenantID x = SeedTenant) (orders d) \<and> mem_inv d"
proof -
  let ?xs = "map (\<lambda>(i, c, st, items). (i, c, st, map the items)) seeds"
  have "list_all (\<lambda>(i, c, st, items). orderValidate (seedOrder 0 i c st items) = None \<and> no_nul i) ?xs"
    using seeds_valid by (auto simp: list_all_iff)
  moreover have "map fst ?xs = map fst seeds" by (simp add: case_prod_unfold)
  then have "distinct (map fst ?xs)" using seeds_ids by (simp only:)
  moreover have "\<forall>x \<in> set ?xs. mem_tab New (SeedTenant, fst x) = None" by (simp add: mem_tab_def New_def)
  moreover have "list_all (\<lambda>(k, x). orderValidate x = None \<and> TenantID x = SeedTenant) (orders New)"
    by (simp add: New_def)
  ultimately have "\<exists>d. seedLoop (memStore K) at 0 ?xs New = (None, d) \<and> length (orders d) = length (orders New) + length ?xs
      \<and> events d = events New \<and> mem_inv d
      \<and> list_all (\<lambda>(k, x). orderValidate x = None \<and> TenantID x = SeedTenant) (orders d)"
    using seedLoop_mem New_journal(1) by blast
  then obtain d where d: "seedLoop (memStore K) at 0 ?xs New = (None, d)" "length (orders d) = 3" "events d = []"
      "mem_inv d" "list_all (\<lambda>(k, x). orderValidate x = None \<and> TenantID x = SeedTenant) (orders d)"
    using seeds_ids by (auto simp: New_def)
  have "Seed (memStore K) at New = Some (None, d)"
    unfolding Seed_def using seeds_no_panic d(1) by (simp only: if_True)
  with d(2-5) show ?thesis by blast
qed

end
