(* ===== verification/Orderpgtx.thy ===== *)
theory Orderpgtx
  imports Orderpg Ordermem
begin

text \<open>
  The Postgres adapter under the service: what every sequence of calls leaves in the tables, that the
  adapter answers like the in-memory one, and what concurrent transactions do. \<open>InTx\<close> opens its
  transaction with the database's default isolation, READ COMMITTED: a read sees the rows committed at
  that moment, and an update waits for the row's lock and then applies to the row as it is committed
  by then.
\<close>

section \<open>Concurrent cancellations\<close>

text \<open>A call of \<open>Cancel\<close> on its way through its transaction: before the read, after the read and the
  transition check, after the update with the row locked, and done. What a transaction writes is
  visible to others from its commit; until then the lock keeps other writers of the row out.\<close>

datatype cancelCall = Requested string string | HasRead Order int | Locked Order int | Finished "Order res"

record cancels =
  committed :: pgdb
  calls :: "nat \<Rightarrow> cancelCall"

inductive cancelStep :: "pglib \<Rightarrow> pgfaults \<Rightarrow> string \<Rightarrow> cancels \<Rightarrow> cancels \<Rightarrow> bool" for L F tp where
  read: "calls w c = Requested t i \<Longrightarrow> pgGet L F t i (committed w) = Inr p \<Longrightarrow> orderCancel p now = Inr x
    \<Longrightarrow> cancelStep L F tp w (w\<lparr>calls := (calls w)(c := HasRead x now)\<rparr>)"
| refuse: "calls w c = Requested t i \<Longrightarrow> pgGet L F t i (committed w) = Inr p \<Longrightarrow> orderCancel p now = Inl e
    \<Longrightarrow> cancelStep L F tp w (w\<lparr>calls := (calls w)(c := Finished (Inl e))\<rparr>)"
| update: "calls w c = HasRead x now \<Longrightarrow> \<forall>c' y n. calls w c' = Locked y n \<longrightarrow> ID y \<noteq> ID x
    \<Longrightarrow> pgUpdate L F x (committed w) = (None, s1)
    \<Longrightarrow> cancelStep L F tp w (w\<lparr>calls := (calls w)(c := Locked x now)\<rparr>)"
| commit: "calls w c = Locked x now \<Longrightarrow> pgUpdate L F x (committed w) = (None, s1)
    \<Longrightarrow> pgPublish L F tp (cancelled_event x now) s1 = (None, s2)
    \<Longrightarrow> cancelStep L F tp w (w\<lparr>committed := s2, calls := (calls w)(c := Finished (Inr x))\<rparr>)"
| fail: "calls w c = q \<Longrightarrow> (\<forall>r. q \<noteq> Finished r) \<Longrightarrow> cancelStep L F tp w (w\<lparr>calls := (calls w)(c := Finished (Inl e))\<rparr>)"

lemma history_append: "history (es @ fs) k = history es k @ history fs k"
  by (simp add: history_def)

lemma cancelled_row:
  assumes "pglib_ok L" "pg_inv L s" "pg_tab s (t, i) = Some p" "TenantID x = t" "ID x = i" "CreatedAt x = CreatedAt p"
    and "pg_storable x" "pgUpdate L F x s = (None, s1)" "pgPublish L F tp (cancelled_event x now) s1 = (None, s2)"
  shows "pg_inv L s2 \<and> pg_tab s2 (t, i) = Some (pg_norm x) \<and> pg_log L s2 = pg_log L s @ [pg_enorm (cancelled_event x now)]"
proof -
  have u: "uuid_ok L (ID x)" using assms(3,5) pg_tab_iff [OF assms(2), of t i p] by (auto simp: held_def textOrder_def)
  have s1: "pg_log L s1 = pg_log L s" "pg_inv L s1" "pg_tab s1 = (pg_tab s)((t, i) \<mapsto> pg_norm x)"
    using pgUpdate_law [OF assms(2) u assms(7,8)] assms(3,6) unfolding assms(4,5) by blast+
  then have "pg_tab s1 (eTenantID (cancelled_event x now), AggregateID (cancelled_event x now))
      = Some (pg_norm (eOrder (cancelled_event x now)))"
    using assms(4,5) by (simp add: cancelled_event_def)
  from pgPublish_law [OF s1(2) assms(1) this assms(9)] s1 show ?thesis by simp
qed

section \<open>A sample database\<close>

text \<open>A database whose every byte string is text and a \<open>uuid\<close>, and a codec for the orders the
  witnesses write.\<close>

definition cancelled1 :: Order where
  "cancelled1 = sampleOrder\<lparr>Status := StatusCancelled, UpdatedAt := 5000\<rparr>"

definition cancelled2 :: Order where
  "cancelled2 = sampleOrder\<lparr>Status := StatusCancelled, UpdatedAt := 7000\<rparr>"

definition oddOrder :: Order where
  "oddOrder = sampleOrder\<lparr>CreatedAt := 1234, UpdatedAt := 1234\<rparr>"

definition samplePglib :: pglib where
  "samplePglib = \<lparr>pgUuid = Some, pgText = (\<lambda>_. True),
     jsonOrder = (\<lambda>o'. if o' = sampleOrder then Inr ''0'' else if o' = cancelled1 then Inr ''1''
       else if o' = cancelled2 then Inr ''2'' else if o' = oddOrder then Inr ''3'' else Inl (Plain ''json'')),
     jsonbStore = Inr,
     unjsonOrder = (\<lambda>q. if q = ''0'' then Inr sampleOrder else if q = ''1'' then Inr cancelled1
       else if q = ''2'' then Inr cancelled2 else Inr oddOrder)\<rparr>"

definition calmPg :: pgfaults where
  "calmPg = \<lparr>fBegin = None, fInsertOrder = None, fInsertItems = None, fSelect = None, fSelectItems = None, fUpdate = None,
     fDeleteItems = None, fInsertEvent = None, fSelectEvents = None, fEnd = None, fTxBegin = None, fTxCommit = None, fSeqGap = 0\<rparr>"

lemma samplePglib_ok: "pglib_ok samplePglib"
  by (auto simp: pglib_ok_def samplePglib_def split: if_splits)

definition pg1 :: pgdb where "pg1 = snd (pgCreate samplePglib calmPg sampleOrder emptyPg)"
definition pg2 :: pgdb where "pg2 = snd (pgUpdate samplePglib calmPg cancelled1 pg1)"
definition pg3 :: pgdb where "pg3 = snd (pgPublish samplePglib calmPg [] (cancelled_event cancelled1 5000) pg2)"
definition pg4 :: pgdb where "pg4 = snd (pgUpdate samplePglib calmPg cancelled2 pg3)"
definition pg5 :: pgdb where "pg5 = snd (pgPublish samplePglib calmPg [] (cancelled_event cancelled2 7000) pg4)"

lemma pg_steps:
  "pgCreate samplePglib calmPg sampleOrder emptyPg = (None, pg1)"
  "pgUpdate samplePglib calmPg cancelled1 pg1 = (None, pg2)"
  "pgPublish samplePglib calmPg [] (cancelled_event cancelled1 5000) pg2 = (None, pg3)"
  "pgUpdate samplePglib calmPg cancelled2 pg3 = (None, pg4)"
  "pgPublish samplePglib calmPg [] (cancelled_event cancelled2 7000) pg4 = (None, pg5)"
proof -
  have "fst (pgCreate samplePglib calmPg sampleOrder emptyPg) = None" by code_simp
  then show "pgCreate samplePglib calmPg sampleOrder emptyPg = (None, pg1)" by (simp add: pg1_def prod_eq_iff)
  have "fst (pgUpdate samplePglib calmPg cancelled1 pg1) = None" by code_simp
  then show "pgUpdate samplePglib calmPg cancelled1 pg1 = (None, pg2)" by (simp add: pg2_def prod_eq_iff)
  have "fst (pgPublish samplePglib calmPg [] (cancelled_event cancelled1 5000) pg2) = None" by code_simp
  then show "pgPublish samplePglib calmPg [] (cancelled_event cancelled1 5000) pg2 = (None, pg3)" by (simp add: pg3_def prod_eq_iff)
  have "fst (pgUpdate samplePglib calmPg cancelled2 pg3) = None" by code_simp
  then show "pgUpdate samplePglib calmPg cancelled2 pg3 = (None, pg4)" by (simp add: pg4_def prod_eq_iff)
  have "fst (pgPublish samplePglib calmPg [] (cancelled_event cancelled2 7000) pg4) = None" by code_simp
  then show "pgPublish samplePglib calmPg [] (cancelled_event cancelled2 7000) pg4 = (None, pg5)" by (simp add: pg5_def prod_eq_iff)
qed

lemma samplePglib_uuid [simp]: "uuid_ok samplePglib i"
  by (simp add: uuid_ok_def samplePglib_def)

lemma pg1_facts: "pg_inv samplePglib pg1" "pg_tab pg1 (''acme'', ID sampleOrder) = Some sampleOrder" "pg_log samplePglib pg1 = []"
proof -
  have v: "pg_storable sampleOrder" by (rule storable_valid [OF sampleOrder_valid])
  have n: "pg_norm sampleOrder = sampleOrder" "TenantID sampleOrder = ''acme''"
    by (simp_all add: pg_norm_def sampleOrder_def pgTime_def)
  note c = pgCreate_law [OF empty_journal(1) samplePglib_uuid v pg_steps(1), unfolded n]
  show "pg_inv samplePglib pg1" "pg_tab pg1 (''acme'', ID sampleOrder) = Some sampleOrder" using c by simp_all
  show "pg_log samplePglib pg1 = []" using c by (simp add: pg_log_def emptyPg_def)
qed

text \<open>
  C38: two cancellations of one order can both succeed. Both read the order before either updates it; the
  second waits for the first's lock, then updates the row again without looking at its status. Both
  callers get the cancelled order, and the outbox holds two \<open>OrderCancelled\<close> events.
\<close>

theorem concurrent_cancels_both_succeed:
  assumes "pglib_ok L" "pg_inv L s" "pg_tab s (t, i) = Some p" "orderCancel p n1 = Inr x" "orderCancel p n2 = Inr y"
    and "pgGet L F t i s = Inr p"
    and "pgUpdate L F x s = (None, s1)" "pgPublish L F tp (cancelled_event x n1) s1 = (None, s2)"
    and "pgUpdate L F y s2 = (None, s3)" "pgPublish L F tp (cancelled_event y n2) s3 = (None, s4)"
  shows "(cancelStep L F tp)\<^sup>*\<^sup>* \<lparr>committed = s, calls = (\<lambda>_. Requested t i)\<rparr>
      \<lparr>committed = s4, calls = (\<lambda>_. Requested t i)(0 := Finished (Inr x), 1 := Finished (Inr y))\<rparr>
    \<and> history (pg_log L s4) (t, i) = history (pg_log L s) (t, i) @ [EventOrderCancelled, EventOrderCancelled]"
proof -
  let ?c = "\<lambda>_ :: nat. Requested t i"
  have p: "TenantID p = t" "ID p = i" "pg_storable p" "pgTime (CreatedAt p) = CreatedAt p"
  proof -
    have h: "held L p" "TenantID p = t" "ID p = i" using assms(3) pg_tab_iff [OF assms(2), of t i p] by simp_all
    then show "TenantID p = t" "ID p = i" "pg_storable p" by (simp_all add: held_def)
    have "CreatedAt (pg_norm p) = CreatedAt p" using h(1) by (simp only: held_def)
    then show "pgTime (CreatedAt p) = CreatedAt p" by (simp add: pg_norm_def)
  qed
  note x = orderCancel_Inr(2) [OF assms(4)] and y = orderCancel_Inr(2) [OF assms(5)]
  have 1: "pg_inv L s2" "pg_tab s2 (t, i) = Some (pg_norm x)" "pg_log L s2 = pg_log L s @ [pg_enorm (cancelled_event x n1)]"
    using cancelled_row [OF assms(1-3) _ _ _ storable_cancel [OF p(3) assms(4)] assms(7,8)] p x by simp_all
  have "CreatedAt y = CreatedAt (pg_norm x)" using p x y by (simp add: pg_norm_def)
  then have 2: "pg_log L s4 = pg_log L s2 @ [pg_enorm (cancelled_event y n2)]"
    using cancelled_row [OF assms(1) 1(1,2) _ _ _ storable_cancel [OF p(3) assms(5)] assms(9,10)] p y by simp
  have "(cancelStep L F tp)\<^sup>*\<^sup>* \<lparr>committed = s, calls = ?c\<rparr> \<lparr>committed = s, calls = ?c(0 := HasRead x n1)\<rparr>"
    using cancelStep.read [of "\<lparr>committed = s, calls = ?c\<rparr>" 0 t i L F p n1 x tp] assms(4,6) by auto
  also have "(cancelStep L F tp)\<^sup>*\<^sup>* \<lparr>committed = s, calls = ?c(0 := HasRead x n1)\<rparr>
      \<lparr>committed = s, calls = ?c(0 := HasRead x n1, 1 := HasRead y n2)\<rparr>"
    using cancelStep.read [of "\<lparr>committed = s, calls = ?c(0 := HasRead x n1)\<rparr>" 1 t i L F p n2 y tp] assms(5,6) by auto
  also have "(cancelStep L F tp)\<^sup>*\<^sup>* \<lparr>committed = s, calls = ?c(0 := HasRead x n1, 1 := HasRead y n2)\<rparr>
      \<lparr>committed = s, calls = ?c(0 := Locked x n1, 1 := HasRead y n2)\<rparr>"
    using cancelStep.update [of "\<lparr>committed = s, calls = ?c(0 := HasRead x n1, 1 := HasRead y n2)\<rparr>" 0 x n1 L F s1 tp] assms(7)
    by (auto simp: fun_upd_twist)
  also have "(cancelStep L F tp)\<^sup>*\<^sup>* \<lparr>committed = s, calls = ?c(0 := Locked x n1, 1 := HasRead y n2)\<rparr>
      \<lparr>committed = s2, calls = ?c(0 := Finished (Inr x), 1 := HasRead y n2)\<rparr>"
    using cancelStep.commit [of "\<lparr>committed = s, calls = ?c(0 := Locked x n1, 1 := HasRead y n2)\<rparr>" 0 x n1 L F s1 tp s2] assms(7,8)
    by (auto simp: fun_upd_twist)
  also have "(cancelStep L F tp)\<^sup>*\<^sup>* \<lparr>committed = s2, calls = ?c(0 := Finished (Inr x), 1 := HasRead y n2)\<rparr>
      \<lparr>committed = s2, calls = ?c(0 := Finished (Inr x), 1 := Locked y n2)\<rparr>"
    using cancelStep.update [of "\<lparr>committed = s2, calls = ?c(0 := Finished (Inr x), 1 := HasRead y n2)\<rparr>" 1 y n2 L F s3 tp] assms(9)
    by auto
  also have "(cancelStep L F tp)\<^sup>*\<^sup>* \<lparr>committed = s2, calls = ?c(0 := Finished (Inr x), 1 := Locked y n2)\<rparr>
      \<lparr>committed = s4, calls = ?c(0 := Finished (Inr x), 1 := Finished (Inr y))\<rparr>"
    using cancelStep.commit [of "\<lparr>committed = s2, calls = ?c(0 := Finished (Inr x), 1 := Locked y n2)\<rparr>" 1 y n2 L F s3 tp s4] assms(9,10)
    by auto
  finally have run: "(cancelStep L F tp)\<^sup>*\<^sup>* \<lparr>committed = s, calls = ?c\<rparr>
      \<lparr>committed = s4, calls = ?c(0 := Finished (Inr x), 1 := Finished (Inr y))\<rparr>" .
  have "history (pg_log L s4) (t, i) = history (pg_log L s) (t, i) @ [EventOrderCancelled, EventOrderCancelled]"
    unfolding 2 1(3) history_append using p x y by (simp add: history_def pg_enorm_def cancelled_event_def)
  with run show ?thesis by blast
qed

theorem concurrent_cancels_both_succeed_witness:
  "\<exists>s4. (cancelStep samplePglib calmPg [])\<^sup>*\<^sup>* \<lparr>committed = pg1, calls = (\<lambda>_. Requested ''acme'' (ID sampleOrder))\<rparr>
      \<lparr>committed = s4, calls = (\<lambda>_. Requested ''acme'' (ID sampleOrder))(0 := Finished (Inr cancelled1), 1 := Finished (Inr cancelled2))\<rparr>
    \<and> history (pg_log samplePglib s4) (''acme'', ID sampleOrder) = [EventOrderCancelled, EventOrderCancelled]"
proof -
  have c: "orderCancel sampleOrder 5000 = Inr cancelled1" "orderCancel sampleOrder 7000 = Inr cancelled2"
    by (simp_all add: orderCancel_def CanTransitionTo_def cancelled1_def cancelled2_def sampleOrder_def)
  have g: "pgGet samplePglib calmPg ''acme'' (ID sampleOrder) pg1 = Inr sampleOrder" by code_simp
  show ?thesis
    using concurrent_cancels_both_succeed [OF samplePglib_ok pg1_facts(1,2) c g pg_steps(2-5)] pg1_facts(3)
    by (auto simp: history_def)
qed

section \<open>The adapter under the service\<close>

text \<open>
  C3: over Postgres, too, there is no order without its event and no event without its order, as long as
  transactions do not overlap. Let creations and cancellations (with order ids in the canonical form of a
  \<open>uuid\<close>) run one after the other, any statement of any of them failing, replies to commits lost, and
  the relay marking rows in between: reading the outbox back gives a log that replays to the table
  up to the microseconds the columns keep, in which every order has one creation and, exactly when it is
  cancelled, one cancellation. For overlapping cancellations of one order the last part is false
  (\<open>concurrent_cancels_both_succeed\<close>).
\<close>

theorem postgres_log_matches_table:
  assumes "pg_reach L K s" "pglib_ok L" "fSelectEvents F = None"
  shows "\<exists>es. pgEvents L F s = Inr es \<and> journal_upto pg_norm (pg_tab s) es"
proof -
  have s: "pg_inv L s" "journal_upto pg_norm (pg_tab s) (pg_log L s)" using pg_reach_journal [OF assms(1,2)] by blast+
  have "sorted (map (\<lambda>r. mID (msg r)) (outboxT s))"
    using s(1) strict_sorted_imp_sorted by (auto simp: pg_inv_def)
  then have "sort_key (\<lambda>r. mID (msg r)) (outboxT s) = outboxT s" by (rule sort_key_id_if_sorted)
  moreover obtain es where "eventsOf L (outboxT s) = Inr es"
    using eventsOf_decodes [of "outboxT s" L] s(1) by (auto simp: pg_inv_def)
  ultimately show ?thesis using s(2) assms(3) by (simp add: pgEvents_def pg_log_def)
qed

definition oddCmd :: CreateCommand where
  "oddCmd = \<lparr>cmdTenantID = ''acme'', cmdCustomerID = ''bob'', cmdItems = [sampleItem]\<rparr>"

definition pgOdd :: pgdb where
  "pgOdd = snd (svcCreate (pgService samplePglib calmPg sampleCodec []) (Inr (ID sampleOrder)) 1234 oddCmd emptyPg)"

lemma odd_created:
  "svcCreate (pgService samplePglib calmPg sampleCodec []) (Inr (ID sampleOrder)) 1234 oddCmd emptyPg = (Inr oddOrder, pgOdd)"
proof -
  have "fst (svcCreate (pgService samplePglib calmPg sampleCodec []) (Inr (ID sampleOrder)) 1234 oddCmd emptyPg) = Inr oddOrder"
    by code_simp
  then show ?thesis by (simp add: pgOdd_def prod_eq_iff)
qed

lemma odd_reach: "pg_reach samplePglib sampleCodec pgOdd"
  by (rule pg_reach.create [OF pg_reach.start _ odd_created]) simp

theorem postgres_log_matches_table_witness:
  "\<exists>es. pgEvents samplePglib calmPg pgOdd = Inr es \<and> journal_upto pg_norm (pg_tab pgOdd) es"
  using postgres_log_matches_table [OF odd_reach samplePglib_ok, of calmPg] by (simp add: calmPg_def)

text \<open>Reading one order, when no statement fails.\<close>

lemma pg_tab_text: "pg_inv L s \<Longrightarrow> pg_tab s (t, i) = Some x \<Longrightarrow> pgText L t"
  using pg_tab_iff [of L s t i x] by (auto simp: held_def textOrder_def textRow_def toRow_def)

lemma pgGet_eq:
  assumes "pg_inv L s" "uuid_ok L i" "t \<noteq> []" "fSelect F = None" "fSelectItems F = None" "pgText L t"
  shows "pgGet L F t i s = (case pg_tab s (t, i) of Some o' \<Rightarrow> Inr o' | None \<Rightarrow> Inl (Sentinel ErrNotFound))"
proof -
  let ?rows = "filter (\<lambda>r. list_all (\<lambda>p. p r) [\<lambda>r. rTenantID r = t \<and> rID r = i] \<and> rTenantID r = t) (ordersT s)"
  note g = pgGet_def [of L F t i s, unfolded Let_def assms(2) [unfolded uuid_ok_def] if_P [OF assms(6)] option.case scopedOrders_eq [OF assms(3)]
      sum.case assms(4,5)]
  show ?thesis
  proof (cases "sort_key rID ?rows")
    case Nil
    have "set ?rows = set (sort_key rID ?rows)" by (simp only: set_sort)
    then have "?rows = []" unfolding Nil by (simp only: list.set set_empty)
    then have "find (\<lambda>r. rTenantID r = t \<and> rID r = i) (ordersT s) = None" by (auto simp: find_None_iff filter_empty_conv)
    then show ?thesis unfolding g Nil using assms(3) by (simp add: pg_tab_def)
  next
    case (Cons row rest)
    then have "row \<in> set (sort_key rID ?rows)" by simp
    then have r: "row \<in> set (ordersT s)" "rTenantID row = t" "rID row = i" unfolding set_sort by auto
    then show ?thesis unfolding g Cons using assms(3) orderAt(3,6) [OF assms(1) r(1)] by simp
  qed
qed

text \<open>
  An order is read back as it was created, to the microsecond. After a successful create over
  Postgres, whatever others failed before, reading the id under the tenant returns the order with its
  times cut to microseconds; a clock that is finer than that makes the reply of \<open>Create\<close> differ from
  every later read.
\<close>

theorem created_order_reads_back:
  assumes "pg_reach L K s" "pglib_ok L" "uuid_ok L i" "svcCreate (pgService L F K tp) (Inr i) now cmd s = (Inr x, s')"
    and "fSelect F' = None" "fSelectItems F' = None"
  shows "svcGet (pgService L F' K tp') (cmdTenantID cmd) i s' = Inr (pg_norm x) \<and> (pgTime now \<noteq> now \<longleftrightarrow> pg_norm x \<noteq> x)"
proof -
  have inv: "pg_inv L s" using pg_reach_journal [OF assms(1,2)] by blast
  note st = pg_order_store [OF assms(2), of K F tp]
  have c: "TenantID x = cmdTenantID cmd" "ID x = i" "orderValidate x = None"
      "pg_tab s' = (pg_tab s)((TenantID x, ID x) \<mapsto> pg_norm x)" "pg_inv L s'"
    using order_store.create_effect [OF st inv _ assms(4)] assms(3) by (auto simp: order_store.created_def [OF st])
  have t: "cmdTenantID cmd \<noteq> []" using c(1,3) by (auto simp: orderValidate_None_iff)
  have now: "CreatedAt x = now" "UpdatedAt x = now"
    using assms(4) by (auto simp: svcCreate_def Let_def pgAtomic_def pgInTx_def createBody_def
        split: if_splits sum.splits option.splits prod.splits)
  have tx: "pgText L (cmdTenantID cmd)"
    using pg_tab_text [OF c(5), of "cmdTenantID cmd" i "pg_norm x"] c(1,2,4) by simp
  have "svcGet (pgService L F' K tp') (cmdTenantID cmd) i s' = Inr (pg_norm x)"
    using pgGet_eq [OF c(5) assms(3) t assms(5,6)] tx c(1,2,4) t by (simp add: svcGet_def pgStore_def)
  moreover have "pg_norm x = x \<longleftrightarrow> pgTime now = now"
  proof
    assume "pg_norm x = x"
    from arg_cong [OF this, of CreatedAt] show "pgTime now = now" by (simp add: pg_norm_def now)
  next
    assume "pgTime now = now"
    then show "pg_norm x = x" using now by (cases x) (simp add: pg_norm_def)
  qed
  ultimately show ?thesis by blast
qed

theorem created_order_reads_back_witness:
  "svcGet (pgService samplePglib calmPg sampleCodec []) ''acme'' (ID sampleOrder) pgOdd = Inr (pg_norm oddOrder)
     \<and> pg_norm oddOrder \<noteq> oddOrder"
proof -
  have "pgTime 1234 \<noteq> 1234" by (simp add: pgTime_def)
  then show ?thesis
    using created_order_reads_back [OF pg_reach.start samplePglib_ok _ odd_created, where F' = calmPg and tp' = "[]"]
    by (simp add: calmPg_def oddCmd_def)
qed

text \<open>
  C11: the two adapters answer alike where both can answer. When the Postgres tables and the in-memory
  map hold the same orders, no statement fails, tenant and customer filter are text for the
  database, a page token, if there is one, carries a canonical \<open>uuid\<close> and a time in whole microseconds (as
  the tokens of stored orders do), and the id read is a canonical \<open>uuid\<close> without a NUL byte, then a list
  request gets the same answer from both (the same rows in the same order, the same page token, the same
  error), and reading one order gives the same order or errors that no \<open>errors.Is\<close> tells apart.
\<close>

theorem adapters_agree:
  assumes "mem_inv d" "pg_inv L s" "mem_tab d = pg_tab s" "fSelect F = None" "fSelectItems F = None" "uuid_ok L i" "no_nul i"
    and "\<forall>a j. DecodePageToken K t f = Inr (Some (a, j)) \<longrightarrow> pgTime a = a \<and> uuid_ok L j" "textFilter L t f"
  shows "pgList L F K t f s = viewList K t f d
    \<and> (case viewGet t i d of Inr x \<Rightarrow> pgGet L F t i s = Inr x
       | Inl e \<Rightarrow> \<exists>e'. pgGet L F t i s = Inl e' \<and> errorsIs e' = errorsIs e)"
proof (cases "t = []")
  case True
  then show ?thesis by (simp add: pgList_def viewList_def pgGet_def viewGet_def)
next
  case t: False
  have rows: "mem_rows t f cur d = map (orderAt s) (pg_rows t f cur s)" for cur
  proof -
    have m: "sorted (map sortKey (mem_rows t f cur d)) \<and> distinct (map sortKey (mem_rows t f cur d))"
      using mem_rows_sorted [OF assms(1)] by (simp only: strict_sorted_iff)
    have p: "sorted (map sortKey (map (orderAt s) (pg_rows t f cur s))) \<and> distinct (map sortKey (map (orderAt s) (pg_rows t f cur s)))"
      using pg_rows_sorted [OF assms(2)] by (simp only: strict_sorted_iff)
    have "set (mem_rows t f cur d) = set (map (orderAt s) (pg_rows t f cur s))"
      unfolding mem_rows_set [OF assms(1) t] pg_rows_set [OF assms(2)] assms(3) ..
    moreover have "inj_on sortKey (set (mem_rows t f cur d))" using m by (simp only: distinct_map)
    ultimately show ?thesis
      by (intro map_sorted_distinct_set_unique [of sortKey] m [THEN conjunct1] m [THEN conjunct2] p [THEN conjunct1] p [THEN conjunct2])
        (simp_all only: Un_absorb)
  qed
  have "pgList L F K t f s = viewList K t f d"
  proof (cases "DecodePageToken K t f")
    case (Inl e)
    then show ?thesis using t by (simp add: pgList_def viewList_eq)
  next
    case (Inr cur)
    then have c: "map_option (pg_cnorm L) cur = cur" "\<forall>a j. cur = Some (a, j) \<longrightarrow> pgUuid L j \<noteq> None"
      using assms(8) by (auto simp: pg_cnorm_def uuid_ok_def split: option.splits) (cases cur; force simp: pg_cnorm_def uuid_ok_def)
    show ?thesis
      using t Inr by (simp add: pgList_eq [OF assms(2) t assms(4,5) Inr c(2) assms(9)] c(1) pagedRows_def viewList_eq rows Let_def)
  qed
  moreover have "pg_tab s (t, i) = map_of (orders d) (key t i)" using t assms(7) unfolding assms(3) [symmetric] by (simp add: mem_tab_def)
  then have "case viewGet t i d of Inr x \<Rightarrow> pgGet L F t i s = Inr x
       | Inl e \<Rightarrow> \<exists>e'. pgGet L F t i s = Inl e' \<and> errorsIs e' = errorsIs e"
    using t assms(9) by (auto simp: pgGet_eq [OF assms(2,6) t assms(4,5)] textFilter_def viewGet_def fun_eq_iff split: option.split)
  ultimately show ?thesis by blast
qed

theorem adapters_agree_witness:
  "pgList samplePglib calmPg sampleCodec ''acme'' sampleFilter pg1 = viewList sampleCodec ''acme'' sampleFilter sampleState
     \<and> pgGet samplePglib calmPg ''acme'' (ID sampleOrder) pg1 = Inr sampleOrder"
proof -
  have "pg_tab pg1 = (pg_tab emptyPg)((''acme'', ID sampleOrder) \<mapsto> sampleOrder)"
  proof -
    have n: "pg_norm sampleOrder = sampleOrder" "TenantID sampleOrder = ''acme''"
      by (simp_all add: pg_norm_def sampleOrder_def pgTime_def)
    show ?thesis
      using pgCreate_law [OF empty_journal(1) samplePglib_uuid storable_valid [OF sampleOrder_valid] pg_steps(1)] by (simp add: n)
  qed
  then have tab: "mem_tab sampleState = pg_tab pg1"
  proof -
    have "mem_tab sampleState (''acme'', ID sampleOrder) = Some sampleOrder"
      using sample_no_nul by (simp add: mem_tab_def sampleState_def)
    moreover have "mem_tab sampleState k = None" if "k \<noteq> (''acme'', ID sampleOrder)" for k
      using that sampleState_tab [of "fst k" "snd k"] by (cases "mem_tab sampleState k") auto
    ultimately have "mem_tab sampleState = Map.empty((''acme'', ID sampleOrder) \<mapsto> sampleOrder)" by (auto simp: fun_eq_iff)
    moreover have "pg_tab emptyPg = Map.empty" by (auto simp: pg_tab_def emptyPg_def)
    ultimately show ?thesis using \<open>pg_tab pg1 = _\<close> by simp
  qed
  have "DecodePageToken sampleCodec ''acme'' sampleFilter = Inr None" by (simp add: DecodePageToken_def)
  moreover have "viewGet ''acme'' (ID sampleOrder) sampleState = Inr sampleOrder"
    by (simp add: viewGet_def sampleState_def)
  ultimately show ?thesis
    using adapters_agree [OF sampleState_inv pg1_facts(1) tab _ _ samplePglib_uuid sample_no_nul,
        where F = calmPg and K = sampleCodec and t = "''acme''" and f = sampleFilter] by (simp add: calmPg_def textFilter_def samplePglib_def)
qed

text \<open>A filter that is not text tells the adapters apart: in memory it selects nothing, and Postgres
  refuses the parameter.\<close>

theorem text_filter_divides_adapters:
  assumes "t \<noteq> []" "PageToken f = []" "fSelect F = None" "fCustomerID f \<noteq> []" "\<not> pgText L (fCustomerID f)"
    and "\<forall>(k, o') \<in> set (orders d). CustomerID o' \<noteq> fCustomerID f"
  shows "pgList L F K t f s = Inl dataError \<and> viewList K t f d = Inr \<lparr>Orders = [], NextPageToken = []\<rparr>"
proof
  have cur: "DecodePageToken K t f = Inr None" using assms(2) by (simp add: DecodePageToken_def)
  show "pgList L F K t f s = Inl dataError" using assms(1,3-5) by (simp add: pgList_def cur textFilter_def Let_def)
  have "filter (listed t f) (map snd (orders d)) = []" using assms(4,6) by (auto simp: filter_empty_conv listed_iff matches_def)
  then have "mem_rows t f None d = []" by (simp only: mem_rows_def) (simp add: skipCursor_filter)
  then show "viewList K t f d = Inr \<lparr>Orders = [], NextPageToken = []\<rparr>" using assms(1) by (simp add: viewList_eq cur Let_def)
qed

end
