(* ===== verification/Eventbus.thy ===== *)
theory Eventbus
  imports Outbox
begin

text \<open>
  The event bus (\<open>internal/platform/events\<close>): subjects and headers (\<open>events.go\<close>), the
  publisher over JetStream (\<open>publisher.go\<close>) and the fate of a delivered message
  (\<open>consumer.go\<close>). JetStream is a parameter: what it answers to a publish, an acknowledgement or
  a termination. A message's headers are an association list from names to values, as
  \<open>nats.Header\<close> keeps them; between publisher and broker, and between broker and consumer, they are
  the lines that Go's \<open>http.Header.Write\<close> writes, which does not keep every value as it is
  (\<open>onWire\<close>).
\<close>

section \<open>Subjects\<close>

definition HeaderTenantID :: string where "HeaderTenantID = ''X-Tenant-Id''"
definition HeaderEventType :: string where "HeaderEventType = ''X-Event-Type''"
definition HeaderAggregateID :: string where "HeaderAggregateID = ''X-Aggregate-Id''"
definition HeaderOccurredAt :: string where "HeaderOccurredAt = ''X-Occurred-At''"
definition HeaderTraceParent :: string where "HeaderTraceParent = ''traceparent''"
definition HeaderDLQReason :: string where "HeaderDLQReason = ''X-Dlq-Reason''"
definition HeaderDLQDeliveries :: string where "HeaderDLQDeliveries = ''X-Dlq-Deliveries''"
definition MsgIDHeader :: string where "MsgIDHeader = ''Nats-Msg-Id''"

lemmas header_names = HeaderTenantID_def HeaderEventType_def HeaderAggregateID_def HeaderOccurredAt_def
  HeaderTraceParent_def HeaderDLQReason_def HeaderDLQDeliveries_def MsgIDHeader_def

definition tokenChar :: "char \<Rightarrow> bool" where
  "tokenChar r \<longleftrightarrow> (CHR ''a'' \<le> r \<and> r \<le> CHR ''z'') \<or> (CHR ''A'' \<le> r \<and> r \<le> CHR ''Z'')
     \<or> (CHR ''0'' \<le> r \<and> r \<le> CHR ''9'') \<or> r = CHR ''_'' \<or> r = CHR ''-''"

fun badToken :: "string \<Rightarrow> string \<Rightarrow> string list \<Rightarrow> goerr option" where
  "badToken what s [] = None"
| "badToken what s (token # rest) =
     (if token = [] then Some (Errorf (what @ '' '' @ quoted s @ '' has an empty token'') [])
      else (case filter (\<lambda>r. \<not> tokenChar r) token of
          r # _ \<Rightarrow> Some (Errorf (what @ '' '' @ quoted s @ '' contains '' @ [CHR 0x27, r, CHR 0x27]
            @ '', which is not allowed in a subject token (letters, digits, underscore and hyphen only)'') [])
        | [] \<Rightarrow> badToken what s rest))"

definition validTokens :: "string \<Rightarrow> string \<Rightarrow> goerr option" where
  "validTokens what s =
     (if s = [] then Some (Errorf (what @ '' is empty'') [])
      else badToken what s (split_on (CHR ''.'') s))"

definition Subject :: "string \<Rightarrow> string \<Rightarrow> string res" where
  "Subject prefix eventType = (case validTokens ''subject prefix'' prefix of
     Some err \<Rightarrow> Inl (PermanentErr err)
   | None \<Rightarrow> (case validTokens ''event type'' eventType of
       Some err \<Rightarrow> Inl (PermanentErr err)
     | None \<Rightarrow> Inr (prefix @ ''.'' @ eventType)))"

section \<open>Publishing\<close>

type_synonym nheader = "(string \<times> string list) list"

record natsmsg =
  nSubject :: string
  nHeader :: nheader
  nData :: string

text \<open>\<open>nats.Header\<close>: \<open>Set\<close> replaces, \<open>Add\<close> appends, \<open>Get\<close> reads the first value.\<close>

definition hSet :: "string \<Rightarrow> string \<Rightarrow> nheader \<Rightarrow> nheader" where
  "hSet k v h = (k, [v]) # filter (\<lambda>(k', _). k' \<noteq> k) h"

definition hAdd :: "string \<Rightarrow> string \<Rightarrow> nheader \<Rightarrow> nheader" where
  "hAdd k v h = (case map_of h k of None \<Rightarrow> (k, [v]) # h
     | Some vs \<Rightarrow> (k, vs @ [v]) # filter (\<lambda>(k', _). k' \<noteq> k) h)"

definition hGet :: "string \<Rightarrow> nheader \<Rightarrow> string" where
  "hGet k h = (case map_of h k of Some (v # _) \<Rightarrow> v | _ \<Rightarrow> [])"

text \<open>
  What is left of a message on the wire. The client writes headers with \<open>http.Header.Write\<close>: in a
  value every line feed and carriage return becomes a space, and then \<open>textproto.TrimString\<close> cuts
  white space at both ends. Reading the lines back gives what was written; subject and payload are
  framed by their lengths and unchanged.
\<close>

definition isASCIISpace :: "char \<Rightarrow> bool" where
  "isASCIISpace b \<longleftrightarrow> b = CHR '' '' \<or> b = CHR 0x09 \<or> b = CHR 0x0A \<or> b = CHR 0x0D"

definition TrimString :: "string \<Rightarrow> string" where
  "TrimString s = rev (dropWhile isASCIISpace (rev (dropWhile isASCIISpace s)))"

definition headerNewlineToSpace :: "string \<Rightarrow> string" where
  "headerNewlineToSpace = map (\<lambda>c. if c = CHR 0x0A \<or> c = CHR 0x0D then CHR '' '' else c)"

definition wireValue :: "string \<Rightarrow> string" where
  "wireValue v = TrimString (headerNewlineToSpace v)"

definition onWire :: "natsmsg \<Rightarrow> natsmsg" where
  "onWire nm = nm\<lparr>nHeader := map (\<lambda>(k, vs). (k, map wireValue vs)) (nHeader nm)\<rparr>"

text \<open>The values that the wire keeps: no line breaks, and no white space at either end.\<close>

definition wireSafe :: "string \<Rightarrow> bool" where
  "wireSafe v \<longleftrightarrow> CHR 0x0A \<notin> set v \<and> CHR 0x0D \<notin> set v
     \<and> (v = [] \<or> \<not> isASCIISpace (hd v) \<and> \<not> isASCIISpace (last v))"

text \<open>\<open>time.RFC3339Nano\<close> as a parameter: how it prints and reads an instant. The layout has four digits
  for the year and no white space, so it reads back what it printed from the beginning of year 0 to
  the end of year 9999 (UTC, in nanoseconds since 1970).\<close>

record timefmt =
  fmtTime :: "int \<Rightarrow> string"
  readTime :: "string \<Rightarrow> int option"

definition timeInRange :: "int \<Rightarrow> bool" where
  "timeInRange t \<longleftrightarrow> - 62167219200 * 10 ^ 9 \<le> t \<and> t < 253402300800 * 10 ^ 9"

definition timefmt_ok :: "timefmt \<Rightarrow> bool" where
  "timefmt_ok T \<longleftrightarrow> (\<forall>t. timeInRange t \<longrightarrow> readTime T (fmtTime T t) = Some t \<and> wireSafe (fmtTime T t))"

record Publisher =
  pubPrefix :: string
  pubService :: string

definition msgID :: "Publisher \<Rightarrow> int \<Rightarrow> string" where
  "msgID p i = pubService p @ ''-'' @ show_int i"

text \<open>The message \<open>Publish\<close> hands to JetStream.\<close>

definition natsMessage :: "timefmt \<Rightarrow> Publisher \<Rightarrow> string \<Rightarrow> Message \<Rightarrow> natsmsg" where
  "natsMessage T p subject m =
     (let h = hSet MsgIDHeader (msgID p (mID m)) [];
          h = hSet HeaderTenantID (mTenantID m) h;
          h = hSet HeaderEventType (mEventType m) h;
          h = hSet HeaderAggregateID (mAggregateID m) h;
          h = hSet HeaderOccurredAt (fmtTime T (mOccurredAt m)) h;
          h = (if mTraceParent m \<noteq> [] then hSet HeaderTraceParent (mTraceParent m) h else h)
      in \<lparr>nSubject = subject, nHeader = h, nData = mPayload m\<rparr>)"

text \<open>\<open>classify\<close> of \<open>publisher.go\<close>.\<close>

definition classifyPublish :: "goerr \<Rightarrow> goerr" where
  "classifyPublish err =
     (if errorsIs err NatsErrMaxPayload then
        PermanentErr (Errorf (''payload exceeds the server's max_payload: '' @ errorText err) [err])
      else if errorsIs err NatsErrBadSubject then PermanentErr err
      else err)"

text \<open>JetStream's answer to a publish: an error, or an acknowledgement that says whether the message
  was a duplicate of a stored one.\<close>

type_synonym 'j jetstream = "natsmsg \<Rightarrow> 'j \<Rightarrow> bool res \<times> 'j"

definition Publish :: "timefmt \<Rightarrow> 'j jetstream \<Rightarrow> Publisher \<Rightarrow> 'j publisher" where
  "Publish T js p m j = (case Subject (pubPrefix p) (mEventType m) of
     Inl err \<Rightarrow> (Some err, j)
   | Inr subject \<Rightarrow> (case js (natsMessage T p subject m) j of
       (Inl err, j') \<Rightarrow> (Some (classifyPublish err), j')
     | (Inr duplicate, j') \<Rightarrow> (None, j')))"

section \<open>Consuming\<close>

record BusEvent =
  evID :: string
  evTenantID :: string
  evType :: string
  evAggregateID :: string
  evPayload :: string
  evOccurredAt :: int
  Deliveries :: nat
  evTraceParent :: string

record msgMetadata =
  NumDelivered :: nat
  mdTimestamp :: int
  mdStream :: string
  mdSequence :: nat

definition eventFrom :: "timefmt \<Rightarrow> natsmsg \<Rightarrow> msgMetadata \<Rightarrow> BusEvent" where
  "eventFrom T msg' md =
     (let h = nHeader msg';
          i = hGet MsgIDHeader h
      in \<lparr>evID = (if i = [] then mdStream md @ ''-seq-'' @ show_nat (mdSequence md) else i),
          evTenantID = hGet HeaderTenantID h, evType = hGet HeaderEventType h,
          evAggregateID = hGet HeaderAggregateID h, evPayload = nData msg',
          evOccurredAt = (case readTime T (hGet HeaderOccurredAt h) of Some t \<Rightarrow> t | None \<Rightarrow> mdTimestamp md),
          Deliveries = NumDelivered md, evTraceParent = hGet HeaderTraceParent h\<rparr>)"

definition truncateText :: "string \<Rightarrow> nat \<Rightarrow> string" where
  "truncateText s n = (if length s \<le> n then s else take n s)"

record natsConfig =
  DLQSubjectPrefix :: string
  MaxDeliver :: int

text \<open>What the consumer tells JetStream about a message.\<close>

datatype action = Ack | Nak | PublishCopy natsmsg | TermWithReason string

definition dlqMessage :: "natsConfig \<Rightarrow> natsmsg \<Rightarrow> BusEvent \<Rightarrow> goerr \<Rightarrow> natsmsg" where
  "dlqMessage cfg msg' e cause =
     (let h = foldl (\<lambda>h (k, vs). foldl (\<lambda>h v. hAdd k v h) h vs) [] (nHeader msg');
          h = hSet MsgIDHeader (''dlq-'' @ evID e) h;
          h = hSet HeaderDLQReason (errorText cause) h;
          h = hSet HeaderDLQDeliveries (show_nat (Deliveries e)) h
      in \<lparr>nSubject = DLQSubjectPrefix cfg @ ''.'' @ nSubject msg', nHeader = h, nData = nData msg'\<rparr>)"

text \<open>The argument says whether JetStream accepts the copy.\<close>

definition deadLetter :: "natsConfig \<Rightarrow> bool \<Rightarrow> natsmsg \<Rightarrow> BusEvent \<Rightarrow> goerr \<Rightarrow> action list" where
  "deadLetter cfg copied msg' e cause =
     (if \<not> copied then [PublishCopy (dlqMessage cfg msg' e cause), Nak]
      else [PublishCopy (dlqMessage cfg msg' e cause), TermWithReason (truncateText (errorText cause) 256)])"

text \<open>\<open>dispatch\<close> (the conversion of \<open>MaxDeliver\<close> to \<open>uint64\<close> wraps): the metadata (\<^const>\<open>None\<close> when the message carries none), the handler, and whether
  a copy for the dead-letter subject would be accepted.\<close>

definition dispatch :: "timefmt \<Rightarrow> natsConfig \<Rightarrow> (BusEvent \<Rightarrow> 's \<Rightarrow> goerr option \<times> 's) \<Rightarrow> bool \<Rightarrow> natsmsg
    \<Rightarrow> msgMetadata option \<Rightarrow> 's \<Rightarrow> action list \<times> 's" where
  "dispatch T cfg handler copied msg' mdo s = (case mdo of
     None \<Rightarrow> ([], s)
   | Some md \<Rightarrow>
       (let e = eventFrom T msg' md; (err, s') = handler e s
        in case err of
             None \<Rightarrow> ([Ack], s')
           | Some cause \<Rightarrow>
               if IsPermanent cause then (deadLetter cfg copied msg' e cause, s')
               else if int (Deliveries e) \<ge> MaxDeliver cfg mod 2 ^ 64 then (deadLetter cfg copied msg' e cause, s')
               else ([Nak], s')))"

text \<open>
  The deliveries of one message, from the \<open>k\<close>-th on: for each whether a dead-letter copy would be
  accepted, whether the acknowledgement or termination reaches the server, and what others did to
  the handler's state before. JetStream redelivers until it has received an acknowledgement or a
  termination or has delivered the message \<open>MaxDeliver\<close> times, after which it stops without a trace
  (unless \<open>MaxDeliver\<close> is not positive). A message whose acknowledgement was lost is delivered again
  while the limit allows it.
\<close>

datatype fate = Handled nat | DeadLettered nat | Dropped nat | InFlight

fun deliver :: "timefmt \<Rightarrow> natsConfig \<Rightarrow> (BusEvent \<Rightarrow> 's \<Rightarrow> goerr option \<times> 's) \<Rightarrow> natsmsg \<Rightarrow> msgMetadata \<Rightarrow> nat
    \<Rightarrow> (bool \<times> bool \<times> ('s \<Rightarrow> 's)) list \<Rightarrow> 's \<Rightarrow> fate \<times> 's" where
  "deliver T cfg handler msg' md k [] s = (InFlight, s)"
| "deliver T cfg handler msg' md k ((copied, settled, others) # ds) s =
     (let (acts, s') = dispatch T cfg handler copied msg' (Some (md\<lparr>NumDelivered := k\<rparr>)) (others s);
          last' = (0 < MaxDeliver cfg \<and> MaxDeliver cfg \<le> int k)
      in if Ack \<in> set acts \<and> (settled \<or> last') then (Handled k, s')
         else if list_ex (\<lambda>a. case a of TermWithReason _ \<Rightarrow> True | _ \<Rightarrow> False) acts \<and> (settled \<or> last') then (DeadLettered k, s')
         else if last' then (Dropped k, s')
         else deliver T cfg handler msg' md (Suc k) ds s')"

section \<open>Lemmas\<close>

lemma hGet_hSet: "hGet k (hSet k' v h) = (if k = k' then v else hGet k h)"
  by (simp add: hGet_def hSet_def map_of_filter_other)

lemma split_on_append: "split_on d (s @ d # t) = split_on d s @ split_on d t"
  by (induction s) (auto split: list.splits dest: split_on_nonempty [THEN notE])

lemma badToken_None: "badToken what s ts = None \<longleftrightarrow> list_all (\<lambda>t. t \<noteq> [] \<and> list_all tokenChar t) ts"
proof (induction ts)
  case (Cons t ts)
  show ?case
  proof (cases "filter (\<lambda>r. \<not> tokenChar r) t")
    case Nil
    then show ?thesis using Cons by (auto simp: filter_empty_conv list_all_iff)
  next
    case (Cons r rs)
    then have "\<exists>r \<in> set t. \<not> tokenChar r" by (metis filter_empty_conv list.distinct(1))
    with Cons show ?thesis by (auto simp: list_all_iff)
  qed
qed simp

lemma validTokens_None: "validTokens what s = None \<Longrightarrow> list_all (\<lambda>t. t \<noteq> [] \<and> list_all tokenChar t) (split_on (CHR ''.'') s)"
  by (simp add: validTokens_def badToken_None split: if_splits)

text \<open>Copying headers value by value keeps what \<open>Get\<close> reads.\<close>

lemma map_of_hAdd: "map_of (hAdd k v h) = (map_of h)(k \<mapsto> (case map_of h k of None \<Rightarrow> [] | Some vs \<Rightarrow> vs) @ [v])"
  by (rule ext) (simp add: hAdd_def map_of_filter_other split: option.splits)

lemma map_of_addAll: "map_of (foldl (\<lambda>h v. hAdd k v h) h vs) =
    (if vs = [] then map_of h else (map_of h)(k \<mapsto> (case map_of h k of None \<Rightarrow> [] | Some us \<Rightarrow> us) @ vs))"
  by (induction vs arbitrary: h) (auto simp: map_of_hAdd)

lemma map_of_copy:
  assumes "distinct (map fst h)" "fst ` set h \<inter> dom (map_of acc) = {}"
  shows "map_of (foldl (\<lambda>h (k, vs). foldl (\<lambda>h v. hAdd k v h) h vs) acc h) k =
    (case map_of h k of Some (v # vs) \<Rightarrow> Some (v # vs) | _ \<Rightarrow> map_of acc k)"
  using assms
proof (induction h arbitrary: acc)
  case (Cons x h)
  obtain k0 vs0 where x: "x = (k0, vs0)" by fastforce
  let ?acc = "foldl (\<lambda>h v. hAdd k0 v h) acc vs0"
  have none: "map_of acc k0 = None" using Cons.prems(2) x by auto
  then have acc: "map_of ?acc = (if vs0 = [] then map_of acc else (map_of acc)(k0 \<mapsto> vs0))" by (simp add: map_of_addAll)
  have "fst ` set h \<inter> dom (map_of ?acc) = {}" using Cons.prems x acc by auto
  then have IH: "map_of (foldl (\<lambda>h (k, vs). foldl (\<lambda>h v. hAdd k v h) h vs) ?acc h) k =
      (case map_of h k of Some (v # vs) \<Rightarrow> Some (v # vs) | _ \<Rightarrow> map_of ?acc k)"
    using Cons.IH Cons.prems(1) by simp
  have "map_of h k0 = None" using Cons.prems(1) x by (simp add: map_of_eq_None_iff)
  then show ?case using IH acc none x by (cases vs0) (simp_all split: option.split list.split)
qed (simp split: option.splits)

lemma hGet_copy:
  assumes "distinct (map fst h)"
  shows "hGet k (foldl (\<lambda>h (k, vs). foldl (\<lambda>h v. hAdd k v h) h vs) [] h) = hGet k h"
  using map_of_copy [OF assms, of "[]" k] by (simp add: hGet_def split: option.splits list.splits)

text \<open>The wire keeps the names and is idempotent on the values.\<close>

lemma wireValue_Nil [simp]: "wireValue [] = []"
  by (simp add: wireValue_def TrimString_def headerNewlineToSpace_def)

lemma hGet_onWire [simp]: "hGet k (nHeader (onWire nm)) = wireValue (hGet k (nHeader nm))"
proof -
  have "map_of (nHeader (onWire nm)) k = map_option (map wireValue) (map_of (nHeader nm) k)"
    by (simp add: onWire_def map_of_map)
  then show ?thesis by (simp add: hGet_def split: option.split list.split)
qed

lemma onWire_sel [simp]: "nData (onWire nm) = nData nm" "nSubject (onWire nm) = nSubject nm"
  "map fst (nHeader (onWire nm)) = map fst (nHeader nm)"
  by (simp_all add: onWire_def case_prod_beta comp_def)

lemma TrimString_ends: "TrimString s = [] \<or> \<not> isASCIISpace (hd (TrimString s)) \<and> \<not> isASCIISpace (last (TrimString s))"
proof (cases "TrimString s = []")
  case False
  let ?d = "dropWhile isASCIISpace s"
  have rev: "rev (TrimString s) = dropWhile isASCIISpace (rev ?d)" by (simp add: TrimString_def)
  then have "\<not> isASCIISpace (last (TrimString s))"
    using False hd_dropWhile [of isASCIISpace "rev ?d"] by (metis hd_rev rev_is_Nil_conv)
  moreover have "\<exists>u. ?d = TrimString s @ u"
    by (metis TrimString_def rev_append rev_rev_ident takeWhile_dropWhile_id)
  then obtain u where u: "?d = TrimString s @ u" by blast
  then have "hd (TrimString s) = hd ?d" "?d \<noteq> []" using False by (simp, metis append_is_Nil_conv)
  then have "\<not> isASCIISpace (hd (TrimString s))" using hd_dropWhile [of isASCIISpace s] by simp
  ultimately show ?thesis by simp
qed simp

lemma TrimString_set: "set (TrimString s) \<subseteq> set s"
  by (auto simp: TrimString_def dest!: set_dropWhileD)

lemma wireSafe_wireValue: "wireSafe (wireValue v)"
  using TrimString_ends TrimString_set [of "headerNewlineToSpace v"]
  by (auto simp: wireSafe_def wireValue_def headerNewlineToSpace_def split: if_splits)

lemma TrimString_id: "v = [] \<or> \<not> isASCIISpace (hd v) \<and> \<not> isASCIISpace (last v) \<Longrightarrow> TrimString v = v"
proof (cases "v = []")
  case False
  moreover assume "v = [] \<or> \<not> isASCIISpace (hd v) \<and> \<not> isASCIISpace (last v)"
  ultimately have "dropWhile isASCIISpace v = v" "dropWhile isASCIISpace (rev v) = rev v"
    by (simp_all add: dropWhile_eq_self_iff hd_rev)
  then show ?thesis by (simp add: TrimString_def)
qed (simp add: TrimString_def)

lemma wireValue_id: "wireSafe v \<Longrightarrow> wireValue v = v"
proof -
  assume safe: "wireSafe v"
  then have "headerNewlineToSpace v = v" unfolding headerNewlineToSpace_def by (intro map_idI) (auto simp: wireSafe_def)
  then show ?thesis using safe by (simp add: wireValue_def TrimString_id wireSafe_def)
qed

lemma wireSafe_iff: "wireSafe v \<longleftrightarrow> wireValue v = v"
  using wireSafe_wireValue [of v] wireValue_id by metis

lemma wireValue_idem [simp]: "wireValue (wireValue v) = wireValue v"
  by (rule wireValue_id [OF wireSafe_wireValue])

lemma natsMessage_keys: "distinct (map fst (nHeader (natsMessage T p subj m)))"
  by (simp add: natsMessage_def hSet_def Let_def header_names)

lemma header_neq:
  "HeaderTenantID \<noteq> HeaderDLQDeliveries" "HeaderTenantID \<noteq> HeaderDLQReason" "HeaderTenantID \<noteq> MsgIDHeader"
  "HeaderEventType \<noteq> HeaderDLQDeliveries" "HeaderEventType \<noteq> HeaderDLQReason" "HeaderEventType \<noteq> MsgIDHeader"
  "HeaderAggregateID \<noteq> HeaderDLQDeliveries" "HeaderAggregateID \<noteq> HeaderDLQReason" "HeaderAggregateID \<noteq> MsgIDHeader"
  "HeaderOccurredAt \<noteq> HeaderDLQDeliveries" "HeaderOccurredAt \<noteq> HeaderDLQReason" "HeaderOccurredAt \<noteq> MsgIDHeader"
  "HeaderTraceParent \<noteq> HeaderDLQDeliveries" "HeaderTraceParent \<noteq> HeaderDLQReason" "HeaderTraceParent \<noteq> MsgIDHeader"
  "MsgIDHeader \<noteq> HeaderDLQDeliveries" "MsgIDHeader \<noteq> HeaderDLQReason"
  by (simp_all add: header_names)

lemma natsMessage_get:
  "hGet MsgIDHeader (nHeader (natsMessage T p subj m)) = msgID p (mID m)"
  "hGet HeaderTenantID (nHeader (natsMessage T p subj m)) = mTenantID m"
  "hGet HeaderEventType (nHeader (natsMessage T p subj m)) = mEventType m"
  "hGet HeaderAggregateID (nHeader (natsMessage T p subj m)) = mAggregateID m"
  "hGet HeaderOccurredAt (nHeader (natsMessage T p subj m)) = fmtTime T (mOccurredAt m)"
  "hGet HeaderTraceParent (nHeader (natsMessage T p subj m)) = mTraceParent m"
  "nData (natsMessage T p subj m) = mPayload m"
  by (simp_all add: natsMessage_def Let_def hGet_hSet header_names) (simp add: hGet_def)

text \<open>Decimal numbers can be read back, so they are distinct, and hold no hyphen.\<close>

lemma show_nat_value: "foldl (\<lambda>a c. a * 10 + (of_char c - 48)) 0 (show_nat n) = (n::nat)"
proof (induction n rule: show_nat.induct)
  case (1 n)
  then show ?case by (subst show_nat.simps) auto
qed

lemma show_nat_inj: "show_nat m = show_nat n \<longleftrightarrow> m = n"
  by (metis show_nat_value)

lemma digit_not_dash: "n < 10 \<Longrightarrow> char_of (48 + n :: nat) \<noteq> CHR ''-''"
proof
  assume "n < 10" "char_of (48 + n) = CHR ''-''"
  then have "of_char (char_of (48 + n)) = (of_char (CHR ''-'') :: nat)" by simp
  with \<open>n < 10\<close> show False by simp
qed

lemma show_nat_no_dash: "CHR ''-'' \<notin> set (show_nat n)"
proof (induction n rule: show_nat.induct)
  case (1 n)
  then show ?case using digit_not_dash [of n] digit_not_dash [of "n mod 10"] by (subst show_nat.simps) auto
qed

lemma show_nat_above: "c \<in> set (show_nat n) \<Longrightarrow> 48 \<le> (of_char c :: nat)"
proof (induction n rule: show_nat.induct)
  case (1 n)
  have digit: "c \<in> {char_of (48 + k)} \<Longrightarrow> k < 10 \<Longrightarrow> 48 \<le> (of_char c :: nat)" for k :: nat by simp
  show ?case
  proof (cases "n < 10")
    case True
    with "1.prems" show ?thesis by (intro digit [of n]) (simp_all add: show_nat.simps [of n])
  next
    case False
    then have "c \<in> set (show_nat (n div 10)) \<or> c \<in> {char_of (48 + n mod 10)}" using "1.prems" by (auto simp: show_nat.simps [of n])
    with "1.IH" [OF False] digit [of "n mod 10"] show ?thesis by auto
  qed
qed

text \<open>What the wire makes of a deduplication id: only its service name can change.\<close>

lemma printable_wireSafe:
  assumes "\<forall>c \<in> set v. 33 \<le> (of_char c :: nat)"
  shows "wireSafe v"
proof -
  have "CHR 0x0A \<notin> set v" "CHR 0x0D \<notin> set v" using assms by auto
  moreover have "\<not> isASCIISpace c" if "c \<in> set v" for c using assms that by (auto simp: isASCIISpace_def)
  ultimately show ?thesis unfolding wireSafe_def by (cases "v = []") simp_all
qed

lemma show_int_wireSafe: "wireSafe (show_int i)" "wireSafe (CHR ''-'' # show_int i)"
  by (rule printable_wireSafe; auto simp: show_int_def dest: show_nat_above split: if_splits)+

lemma wireValue_suffix:
  assumes "wireSafe (c # w)"
  shows "wireValue (u @ c # w) = dropWhile isASCIISpace (headerNewlineToSpace u) @ c # w"
proof -
  have hn: "headerNewlineToSpace (u @ c # w) = headerNewlineToSpace u @ c # w"
    using assms unfolding headerNewlineToSpace_def map_append append_same_eq same_append_eq
    by (intro map_idI) (auto simp: wireSafe_def)
  let ?u = "dropWhile isASCIISpace (headerNewlineToSpace u)"
  have "\<not> isASCIISpace c" "\<not> isASCIISpace (last (c # w))" using assms by (auto simp: wireSafe_def)
  then have "dropWhile isASCIISpace (headerNewlineToSpace u @ c # w) = ?u @ c # w"
      "dropWhile isASCIISpace (rev (?u @ c # w)) = rev (?u @ c # w)"
    by (simp_all add: dropWhile_append dropWhile_eq_self_iff hd_rev hd_append) (auto split: if_splits)
  then show ?thesis unfolding wireValue_def TrimString_def hn by simp
qed

definition wiredPublisher :: "Publisher \<Rightarrow> Publisher" where
  "wiredPublisher p = p\<lparr>pubService := dropWhile isASCIISpace (headerNewlineToSpace (pubService p))\<rparr>"

lemma wireValue_msgID: "wireValue (msgID p i) = msgID (wiredPublisher p) i"
  using wireValue_suffix [OF show_int_wireSafe(2), of "pubService p" i] by (simp add: msgID_def wiredPublisher_def)

text \<open>The event of a row, with what becomes of its header values.\<close>

definition rowEvent :: "(string \<Rightarrow> string) \<Rightarrow> Publisher \<Rightarrow> Message \<Rightarrow> nat \<Rightarrow> BusEvent" where
  "rowEvent f p m n = \<lparr>evID = f (msgID p (mID m)), evTenantID = f (mTenantID m), evType = f (mEventType m),
     evAggregateID = f (mAggregateID m), evPayload = mPayload m, evOccurredAt = mOccurredAt m, Deliveries = n,
     evTraceParent = f (mTraceParent m)\<rparr>"

lemma timefmt_read: "timefmt_ok T \<Longrightarrow> timeInRange t \<Longrightarrow> readTime T (wireValue (fmtTime T t)) = Some t"
  by (simp add: timefmt_ok_def wireValue_id)

lemma event_of_published:
  assumes "timefmt_ok T" "timeInRange (mOccurredAt m)"
  shows "eventFrom T (onWire (natsMessage T p subj m)) md = rowEvent wireValue p m (NumDelivered md)"
  using timefmt_read [OF assms]
  by (simp add: eventFrom_def Let_def natsMessage_get rowEvent_def wireValue_msgID) (simp add: msgID_def)

text \<open>JetStream over the list of stored messages, as it documents itself: an acknowledged message is
  stored as the wire brought it, one acknowledged as a duplicate has the deduplication id of a stored one, and after an
  error the message may or may not be stored.\<close>

definition jetstream_ok :: "natsmsg list jetstream \<Rightarrow> bool" where
  "jetstream_ok js \<longleftrightarrow> (\<forall>nm j. case js nm j of
     (Inr False, j') \<Rightarrow> j' = j @ [onWire nm]
   | (Inr True, j') \<Rightarrow> j' = j \<and> (\<exists>x \<in> set j. hGet MsgIDHeader (nHeader x) = hGet MsgIDHeader (nHeader (onWire nm)))
   | (Inl _, j') \<Rightarrow> j' = j \<or> j' = j @ [onWire nm])"

definition inStream :: "Publisher \<Rightarrow> Message \<Rightarrow> natsmsg list \<Rightarrow> bool" where
  "inStream p m j \<longleftrightarrow> (\<exists>x \<in> set j. hGet MsgIDHeader (nHeader x) = wireValue (msgID p (mID m)))"

lemma jetstream_answer:
  assumes "jetstream_ok js" "js nm j = (r, j')"
  shows "set j \<subseteq> set j'" "r = Inr dup \<Longrightarrow> \<exists>x \<in> set j'. hGet MsgIDHeader (nHeader x) = hGet MsgIDHeader (nHeader (onWire nm))"
proof -
  note c = assms(1) [unfolded jetstream_ok_def, THEN spec [of _ nm], THEN spec [of _ j], unfolded assms(2)]
  show "set j \<subseteq> set j'" using c by (auto split: sum.splits bool.splits)
  show "\<exists>x \<in> set j'. hGet MsgIDHeader (nHeader x) = hGet MsgIDHeader (nHeader (onWire nm))" if "r = Inr dup"
    using c that by (cases dup) auto
qed

lemma nats_broker_contract:
  assumes "jetstream_ok js"
  shows "broker_contract (Publish T js p) (inStream p)"
proof
  fix m j j'
  assume "Publish T js p m j = (None, j')"
  then obtain subj dup where "js (natsMessage T p subj m) j = (Inr dup, j')"
    by (auto simp: Publish_def split: sum.splits prod.splits)
  from jetstream_answer(2) [OF assms this refl] show "inStream p m j'" by (simp add: inStream_def natsMessage_get)
next
  fix m j e j' x
  assume "Publish T js p m j = (e, j')" "inStream p x j"
  then show "inStream p x j'"
    using jetstream_answer(1) [OF assms]
    by (auto simp: Publish_def inStream_def split: sum.splits prod.splits) blast+
qed

lemma wireSafe_msgID: "wireSafe (pubService p) \<Longrightarrow> wireSafe (msgID p i)"
proof -
  assume safe: "wireSafe (pubService p)"
  have "hd (pubService p @ ''-'' @ show_int i) = (if pubService p = [] then CHR ''-'' else hd (pubService p))"
    by (cases "pubService p") simp_all
  then show ?thesis
    using safe show_int_wireSafe(2) [of i] unfolding msgID_def by (auto simp: wireSafe_def isASCIISpace_def)
qed

lemma wireValue_dlq: "wireValue (''dlq-'' @ wireValue (msgID p i)) = ''dlq-'' @ wireValue (msgID p i)"
proof (rule wireValue_id)
  have "wireSafe (msgID (wiredPublisher p) i)" using wireSafe_wireValue [of "msgID p i"] by (simp add: wireValue_msgID)
  then show "wireSafe (''dlq-'' @ wireValue (msgID p i))"
    by (auto simp: wireValue_msgID wireSafe_def isASCIISpace_def)
qed

text \<open>Row ids of services give distinct deduplication ids.\<close>

lemma msgID_inj:
  assumes "0 \<le> i" "0 \<le> i'"
  shows "msgID p i = msgID p' i' \<longleftrightarrow> pubService p = pubService p' \<and> i = i'"
proof
  assume eq: "msgID p i = msgID p' i'"
  have tw: "takeWhile (\<lambda>c. c \<noteq> CHR ''-'') (rev (u @ ''-'' @ show_nat n)) = rev (show_nat n)" for u n
    using show_nat_no_dash [of n] unfolding rev_append append_assoc by (subst takeWhile_append2) auto
  have s: "pubService p @ ''-'' @ show_nat (nat i) = pubService p' @ ''-'' @ show_nat (nat i')"
    using eq assms by (simp add: msgID_def show_int_def)
  have "rev (show_nat (nat i)) = rev (show_nat (nat i'))"
    using tw [of "pubService p" "nat i"] tw [of "pubService p'" "nat i'"] unfolding s by (rule trans [OF sym])
  then have "i = i'" using assms by (simp add: show_nat_inj)
  with eq show "pubService p = pubService p' \<and> i = i'" by (simp add: msgID_def)
qed (simp add: msgID_def)

section \<open>Properties\<close>

text \<open>
  C35: an event arrives as the wire carries it. What the consumer rebuilds from a published message is the
  outbox row: payload and time (years 0 to 9999) exactly, and the namespaced row id, tenant, type,
  aggregate id and trace parent as HTTP header values are written, that is with line breaks
  replaced by spaces and white space cut at both ends. When those five values have none of these, the
  event is the row field by field. And a dead-letter copy, sent over the same wire, still rebuilds to
  the same event under an identity of its own, so the broker cannot collapse it with the original.
\<close>

theorem event_survives_the_wire:
  assumes "timefmt_ok T" "timeInRange (mOccurredAt m)"
  shows "eventFrom T (onWire (natsMessage T p subj m)) md = rowEvent wireValue p m (NumDelivered md)
    \<and> (wireSafe (pubService p) \<and> wireSafe (mTenantID m) \<and> wireSafe (mEventType m) \<and> wireSafe (mAggregateID m)
         \<and> wireSafe (mTraceParent m) \<longrightarrow> eventFrom T (onWire (natsMessage T p subj m)) md = rowEvent id p m (NumDelivered md))
    \<and> (\<forall>e. e = eventFrom T (onWire (natsMessage T p subj m)) md \<longrightarrow>
        eventFrom T (onWire (dlqMessage cfg (onWire (natsMessage T p subj m)) e cause)) md'
          = e\<lparr>evID := ''dlq-'' @ evID e, Deliveries := NumDelivered md'\<rparr>)"
proof (intro conjI allI impI)
  let ?n = "onWire (natsMessage T p subj m)"
  show ev: "eventFrom T ?n md = rowEvent wireValue p m (NumDelivered md)"
    by (rule event_of_published [OF assms])
  show "eventFrom T ?n md = rowEvent id p m (NumDelivered md)"
    if "wireSafe (pubService p) \<and> wireSafe (mTenantID m) \<and> wireSafe (mEventType m) \<and> wireSafe (mAggregateID m) \<and> wireSafe (mTraceParent m)"
    using that ev wireSafe_msgID [of p "mID m"] by (simp add: rowEvent_def wireValue_id)
  fix e
  assume e: "e = eventFrom T ?n md"
  have get: "hGet k (nHeader (dlqMessage cfg ?n e cause)) =
      (if k = HeaderDLQDeliveries then show_nat (Deliveries e) else if k = HeaderDLQReason then errorText cause
       else if k = MsgIDHeader then ''dlq-'' @ evID e else hGet k (nHeader ?n))" for k
    using hGet_copy [of "nHeader ?n" k] natsMessage_keys [of T p subj m]
    by (simp add: dlqMessage_def Let_def hGet_hSet)
  have i: "wireValue (''dlq-'' @ evID e) = ''dlq-'' @ evID e"
    unfolding e ev rowEvent_def BusEvent.select_convs by (rule wireValue_dlq)
  have "nData (dlqMessage cfg ?n e cause) = nData ?n" by (simp add: dlqMessage_def Let_def)
  then have "eventFrom T (onWire (dlqMessage cfg ?n e cause)) md' = (rowEvent wireValue p m (NumDelivered md'))\<lparr>evID := ''dlq-'' @ evID e\<rparr>"
    using i timefmt_read [OF assms] by (simp add: eventFrom_def Let_def get header_neq natsMessage_get rowEvent_def)
  then show "eventFrom T (onWire (dlqMessage cfg ?n e cause)) md' = e\<lparr>evID := ''dlq-'' @ evID e, Deliveries := NumDelivered md'\<rparr>"
    unfolding e ev by (simp add: rowEvent_def)
qed

text \<open>
  The wire can rename a tenant. An event of the tenant \<open>acme\<close> followed by a space, which every
  earlier step keeps apart from \<open>acme\<close>, arrives as an event of \<open>acme\<close>.
\<close>

theorem wire_renames_tenant:
  "evTenantID (eventFrom T (onWire (natsMessage T p subj (m\<lparr>mTenantID := ''acme ''\<rparr>))) md) = ''acme''"
proof -
  have "wireValue ''acme '' = ''acme''" by code_simp
  then show ?thesis by (simp add: eventFrom_def Let_def natsMessage_get)
qed

text \<open>
  A row is marked published only when the stream holds its event. Whatever the database, the
  network and JetStream answer, a drain over the NATS publisher keeps it true that every row marked
  published has a stored message with its deduplication id.
\<close>

theorem published_rows_are_in_the_stream:
  assumes "jetstream_ok js" "\<forall>r \<in> set t. PublishedAt r \<noteq> None \<longrightarrow> inStream p (msg r) j" "distinct (map rid t)"
    and "DrainOnce (Publish T js p) n E locked (t, j) = (res, t', j')"
  shows "\<forall>r \<in> set t'. PublishedAt r \<noteq> None \<longrightarrow> inStream p (msg r) j'"
  using broker_contract.drain_published_held [OF nats_broker_contract [OF assms(1)] assms(2-4)] .


text \<open>
  A dead letter that cannot be copied on the last delivery is lost. When the handler still fails
  on the last allowed delivery and the broker refuses the copy, the consumer negatively acknowledges
  for a redelivery that cannot happen any more, and no copy exists.
\<close>

theorem refused_dead_letter_is_dropped:
  assumes "MaxDeliver cfg = int k" "0 < k" "int k < 2 ^ 63"
    and "handler (eventFrom T nm (md\<lparr>NumDelivered := k\<rparr>)) (others s) = (Some cause, s')"
  shows "deliver T cfg handler nm md k ((False, settled, others) # ds) s = (Dropped k, s')"
proof -
  have "MaxDeliver cfg mod 2 ^ 64 = int k" using assms(1,3) by (simp add: mod_pos_pos_trivial)
  moreover have "Deliveries (eventFrom T nm (md\<lparr>NumDelivered := k\<rparr>)) = k" by (simp add: eventFrom_def Let_def)
  ultimately show ?thesis using assms by (simp add: dispatch_def deadLetter_def Let_def)
qed

text \<open>
  Subjects are literal and tenant-free. An event is published only under a subject made of the
  tokens of the prefix and of the event type, none empty and none with a wildcard or any other
  special character; anything else is refused for good, so the row is quarantined, not retried.
\<close>

theorem subject_is_literal:
  "case Subject prefix ty of
     Inr s \<Rightarrow> split_on (CHR ''.'') s = split_on (CHR ''.'') prefix @ split_on (CHR ''.'') ty
       \<and> list_all (\<lambda>t. t \<noteq> [] \<and> list_all tokenChar t) (split_on (CHR ''.'') s)
   | Inl e \<Rightarrow> IsPermanent e"
  using validTokens_None [of "''subject prefix''" prefix] validTokens_None [of "''event type''" ty]
  by (auto simp: Subject_def split_on_append split: option.splits)

text \<open>
  Deduplication never confuses two events. Row ids of different services, or different
  (non-negative) row ids of one service, never give the same deduplication id, whatever hyphens and
  digits the service names hold.
\<close>

theorem msgID_injective:
  assumes "0 \<le> i" "0 \<le> i'"
  shows "msgID p i = msgID p' i' \<longleftrightarrow> pubService p = pubService p' \<and> i = i'"
  by (rule msgID_inj [OF assms])

section \<open>Witnesses\<close>

definition sampleTime :: timefmt where
  "sampleTime = \<lparr>fmtTime = show_int, readTime = (\<lambda>s. if hd s = CHR ''-'' then Some (- int (foldl (\<lambda>a c. a * 10 + (of_char c - 48)) 0 (tl s)))
     else Some (int (foldl (\<lambda>a c. a * 10 + (of_char c - 48)) 0 s)))\<rparr>"

lemma sampleTime_ok: "timefmt_ok sampleTime"
proof -
  have "hd (show_nat n) \<noteq> CHR ''-''" for n using show_nat_no_dash [of n] show_nat_nonempty [of n] by (metis hd_in_set)
  then have "readTime sampleTime (fmtTime sampleTime t) = Some t" for t by (simp add: sampleTime_def show_int_def show_nat_value)
  then show ?thesis by (simp add: timefmt_ok_def) (simp add: sampleTime_def show_int_wireSafe)
qed

theorem event_survives_the_wire_witness:
  "eventFrom sampleTime (onWire (natsMessage sampleTime \<lparr>pubPrefix = ''events'', pubService = ''orderd''\<rparr> ''events.x'' sampleMsg))
     \<lparr>NumDelivered = 1, mdTimestamp = 0, mdStream = ''S'', mdSequence = 1\<rparr>
     = rowEvent id \<lparr>pubPrefix = ''events'', pubService = ''orderd''\<rparr> sampleMsg 1"
proof -
  let ?p = "\<lparr>pubPrefix = ''events'', pubService = ''orderd''\<rparr>" and ?md = "\<lparr>NumDelivered = 1, mdTimestamp = 0, mdStream = ''S'', mdSequence = 1\<rparr>"
  have r: "timeInRange (mOccurredAt sampleMsg)" by (simp add: sampleMsg_def timeInRange_def)
  have "wireSafe ''orderd''" "wireSafe (mTenantID sampleMsg)" "wireSafe (mEventType sampleMsg)" "wireSafe (mAggregateID sampleMsg)"
      "wireSafe (mTraceParent sampleMsg)"
    by code_simp+
  then show ?thesis
    using event_survives_the_wire [OF sampleTime_ok r, of ?p "''events.x''" ?md, THEN conjunct2, THEN conjunct1]
    unfolding Publisher.simps msgMetadata.simps by blast
qed

definition appendStream :: "natsmsg list jetstream" where
  "appendStream nm j = (Inr False, j @ [onWire nm])"

theorem published_rows_are_in_the_stream_witness:
  "\<exists>res t' j'. DrainOnce (Publish sampleTime appendStream \<lparr>pubPrefix = ''events'', pubService = ''orderd''\<rparr>) 100 calmEnv {} (tbl sampleSystem, [])
      = (res, t', j') \<and> inStream \<lparr>pubPrefix = ''events'', pubService = ''orderd''\<rparr> sampleMsg j'"
proof -
  let ?p = "\<lparr>pubPrefix = ''events'', pubService = ''orderd''\<rparr>"
  have ok: "jetstream_ok appendStream" by (simp add: jetstream_ok_def appendStream_def)
  have subj: "Subject ''events'' (mEventType sampleMsg) = Inr ''events.order.v1.OrderCreated''" by code_simp
  obtain t' j' where d: "DrainOnce (Publish sampleTime appendStream ?p) 100 calmEnv {} (tbl sampleSystem, []) = ((1, None), t', j')"
      and t': "t' = [\<lparr>msg = sampleMsg, PublishedAt = Some 5, FailedAt = None, FailureReason = []\<rparr>]"
    using sample_claim
    by (simp add: DrainOnce_def markPublished_def markSQL_def Publish_def subj appendStream_def calmEnv_def Let_def)
      (simp add: sampleSystem_def emptySystem_def)
  have "distinct (map rid (tbl sampleSystem))" "\<forall>r \<in> set (tbl sampleSystem). PublishedAt r \<noteq> None \<longrightarrow> inStream ?p (msg r) []"
    by (simp_all add: sampleSystem_def)
  from published_rows_are_in_the_stream [OF ok this(2,1) d] t' d show ?thesis by auto
qed


theorem refused_dead_letter_is_dropped_witness:
  "deliver sampleTime \<lparr>DLQSubjectPrefix = ''dlq'', MaxDeliver = int 5\<rparr> (\<lambda>e s. (Some (Plain ''db down''), s))
      \<lparr>nSubject = ''events.x'', nHeader = [], nData = []\<rparr> \<lparr>NumDelivered = 1, mdTimestamp = 0, mdStream = ''S'', mdSequence = 1\<rparr>
      5 [(False, True, id)] () = (Dropped 5, ())"
  by (rule refused_dead_letter_is_dropped) simp_all

theorem msgID_injective_witness:
  "msgID \<lparr>pubPrefix = [], pubService = ''a-1''\<rparr> 2 \<noteq> msgID \<lparr>pubPrefix = [], pubService = ''a''\<rparr> 12"
  using msgID_injective [of 2 12 "\<lparr>pubPrefix = [], pubService = ''a-1''\<rparr>" "\<lparr>pubPrefix = [], pubService = ''a''\<rparr>"] by simp

end
