(* ===== verification/Orderproj.thy ===== *)
theory Orderproj
  imports Eventbus Service
begin

text \<open>
  The order projection (\<open>internal/order/orderproj/orderproj.go\<close>): a read model that counts the
  orders of every tenant from the events on the broker. The state is the two tables the projection
  writes; decoding a payload is a parameter (\<open>encoding/json\<close>), and what the database answers to
  each statement is an argument of the step. The insert of the deduplication row blocks a
  concurrent handler of the same message until the transaction ends, so a transaction is one step.
\<close>

section \<open>State and operations\<close>

record countRow =
  cOrders :: int
  cLastOrderAt :: int

record projDB =
  processedEvents :: "processedRow list"
  orderCounts :: "(string \<times> countRow) list"

text \<open>What the database answers to one call of \<open>Handle\<close>: an error of each statement, and for
  the commit an error together with whether the transaction took effect nevertheless (the reply can
  be lost). \<open>pjNow\<close> is the database's \<open>now()\<close>.\<close>

record projEnv =
  pjBegin :: "goerr option"
  pjClaim :: "goerr option"
  pjAffected :: "goerr option"
  pjProject :: "goerr option"
  pjCommit :: "(goerr \<times> bool) option"
  pjNow :: int

text \<open>\<open>INSERT INTO processed_events ... ON CONFLICT DO NOTHING\<close>: the rows affected and the table.\<close>

definition claimEventSQL :: "string \<Rightarrow> string \<Rightarrow> int \<Rightarrow> processedRow list \<Rightarrow> nat \<times> processedRow list" where
  "claimEventSQL consumer i now t =
     (if list_ex (\<lambda>r. pConsumer r = consumer \<and> pMessageID r = i) t then (0, t)
      else (1, t @ [\<lparr>pConsumer = consumer, pMessageID = i, ProcessedAt = now\<rparr>]))"

text \<open>\<open>INSERT INTO order_counts ... ON CONFLICT DO UPDATE\<close>; \<open>orders\<close> is a \<open>bigint\<close>, whose
  overflow is an error of the statement, and \<open>last_order_at\<close> a \<open>timestamptz\<close>.\<close>

definition projectSQL :: "string \<Rightarrow> int \<Rightarrow> (string \<times> countRow) list \<Rightarrow> ((string \<times> countRow) list) res" where
  "projectSQL tenant at t = (case map_of t tenant of
     None \<Rightarrow> Inr ((tenant, \<lparr>cOrders = 1, cLastOrderAt = pgTime at\<rparr>) # t)
   | Some r \<Rightarrow>
       if \<not> in64 (cOrders r + 1) then Inl (Errorf ''bigint out of range'' [])
       else Inr ((tenant, \<lparr>cOrders = cOrders r + 1, cLastOrderAt = max (cLastOrderAt r) (pgTime at)\<rparr>)
              # filter (\<lambda>(k, _). k \<noteq> tenant) t))"

definition eventTenant :: "BusEvent \<Rightarrow> Order \<Rightarrow> string" where
  "eventTenant e snapshot = (if evTenantID e = [] then TenantID snapshot else evTenantID e)"

definition Handle :: "(string \<Rightarrow> Order res) \<Rightarrow> string \<Rightarrow> projEnv \<Rightarrow> BusEvent \<Rightarrow> projDB \<Rightarrow> goerr option \<times> projDB" where
  "Handle decode consumer env e db =
     (if evType e \<noteq> EventOrderCreated then (None, db)
      else (case decode (evPayload e) of
        Inl err \<Rightarrow> (Some (PermanentErr (Errorf (''decode '' @ evType e @ '' payload: '' @ errorText err) [err])), db)
      | Inr snapshot \<Rightarrow>
      (let tenant = eventTenant e snapshot
       in if tenant = [] then (Some (PermanentErr (Errorf ''event carries no tenant, so it cannot be projected'' [])), db)
      else (case pjBegin env of
        Some err \<Rightarrow> (Some (Errorf (''begin: '' @ errorText err) [err]), db)
      | None \<Rightarrow> (case pjClaim env of
        Some err \<Rightarrow> (Some (Errorf (''claim event '' @ evID e @ '': '' @ errorText err) [err]), db)
      | None \<Rightarrow>
      (let (affected, claimed) = claimEventSQL consumer (evID e) (pjNow env) (processedEvents db)
       in case pjAffected env of
        Some err \<Rightarrow> (Some (Errorf (''claim event '' @ evID e @ '': '' @ errorText err) [err]), db)
      | None \<Rightarrow>
      if affected = 0 then (None, db)
      else (case (case pjProject env of Some err \<Rightarrow> Inl err
                  | None \<Rightarrow> projectSQL tenant (evOccurredAt e) (orderCounts db)) of
        Inl err \<Rightarrow> (Some (Errorf (''project '' @ evID e @ '': '' @ errorText err) [err]), db)
      | Inr counts \<Rightarrow>
      (let db' = \<lparr>processedEvents = claimed, orderCounts = counts\<rparr>
       in case pjCommit env of
        Some (err, applied) \<Rightarrow>
          (Some (Errorf (''commit projection of '' @ evID e @ '': '' @ errorText err) [err]), if applied then db' else db)
      | None \<Rightarrow> (None, db')))))))))"

text \<open>\<open>Count\<close>, with the error the query may end in.\<close>

definition Count :: "goerr option \<Rightarrow> string \<Rightarrow> projDB \<Rightarrow> int res" where
  "Count fault tenantID db = (case fault of
     Some err \<Rightarrow> Inl (Errorf (''read order count for '' @ quoted tenantID @ '': '' @ errorText err) [err])
   | None \<Rightarrow> (case map_of (orderCounts db) tenantID of None \<Rightarrow> Inr 0 | Some r \<Rightarrow> Inr (cOrders r)))"

text \<open>Deliveries one after the other, whatever each ends in: the outcomes and the final tables.\<close>

fun handleAll :: "(string \<Rightarrow> Order res) \<Rightarrow> string \<Rightarrow> (projEnv \<times> BusEvent) list \<Rightarrow> projDB
    \<Rightarrow> goerr option list \<times> projDB" where
  "handleAll decode consumer [] db = ([], db)"
| "handleAll decode consumer ((env, e) # ds) db =
     (let (err, db1) = Handle decode consumer env e db; (errs, db2) = handleAll decode consumer ds db1
      in (err # errs, db2))"

section \<open>Lemmas\<close>

text \<open>The event counts for the tenant.\<close>

definition projects :: "(string \<Rightarrow> Order res) \<Rightarrow> string \<Rightarrow> BusEvent \<Rightarrow> bool" where
  "projects decode t e \<longleftrightarrow> evType e = EventOrderCreated \<and> t \<noteq> []
     \<and> (case decode (evPayload e) of Inl _ \<Rightarrow> False | Inr snapshot \<Rightarrow> eventTenant e snapshot = t)"

definition countOf :: "string \<Rightarrow> projDB \<Rightarrow> int" where
  "countOf t db = (case map_of (orderCounts db) t of None \<Rightarrow> 0 | Some r \<Rightarrow> cOrders r)"

text \<open>The counts are those of the given events; and the tables hold exactly the effect of these
  events, each applied once.\<close>

definition counts_ok :: "(string \<Rightarrow> Order res) \<Rightarrow> BusEvent list \<Rightarrow> (string \<times> countRow) list \<Rightarrow> bool" where
  "counts_ok decode es m \<longleftrightarrow> (\<forall>t. case map_of m t of
          None \<Rightarrow> filter (projects decode t) es = []
        | Some r \<Rightarrow> cOrders r = int (length (filter (projects decode t) es)) \<and> filter (projects decode t) es \<noteq> []
            \<and> cLastOrderAt r = Max ((\<lambda>e. pgTime (evOccurredAt e)) ` set (filter (projects decode t) es)))"

definition proj_inv :: "(string \<Rightarrow> Order res) \<Rightarrow> string \<Rightarrow> BusEvent list \<Rightarrow> projDB \<Rightarrow> bool" where
  "proj_inv decode c es db \<longleftrightarrow> distinct (map evID es) \<and> (\<forall>e \<in> set es. \<exists>t. projects decode t e)
     \<and> set (map pMessageID (filter (\<lambda>r. pConsumer r = c) (processedEvents db))) = evID ` set es
     \<and> counts_ok decode es (orderCounts db)"

lemma projects_unique: "projects decode t e \<Longrightarrow> projects decode u e \<longleftrightarrow> u = t"
  by (auto simp: projects_def split: sum.splits)

lemma claimed_iff:
  "list_ex (\<lambda>r. pConsumer r = c \<and> pMessageID r = i) t \<longleftrightarrow> i \<in> set (map pMessageID (filter (\<lambda>r. pConsumer r = c) t))"
  by (auto simp: list_ex_iff)

text \<open>One delivery: nothing changes, and success then means there was nothing to do, or the event is
  applied.\<close>

lemma Handle_cases:
  assumes "Handle decode c env e db = (err, db')"
  obtains (same) "db' = db" "err = None \<Longrightarrow> (\<exists>t. projects decode t e) \<Longrightarrow>
      list_ex (\<lambda>r. pConsumer r = c \<and> pMessageID r = evID e) (processedEvents db)"
  | (applied) t counts where "projects decode t e" "\<not> list_ex (\<lambda>r. pConsumer r = c \<and> pMessageID r = evID e) (processedEvents db)"
      "projectSQL t (evOccurredAt e) (orderCounts db) = Inr counts"
      "db' = \<lparr>processedEvents = processedEvents db @ [\<lparr>pConsumer = c, pMessageID = evID e, ProcessedAt = pjNow env\<rparr>],
              orderCounts = counts\<rparr>"
proof (cases "db' = db \<and> (err = None \<longrightarrow> (\<exists>t. projects decode t e) \<longrightarrow>
      list_ex (\<lambda>r. pConsumer r = c \<and> pMessageID r = evID e) (processedEvents db))")
  case True
  then show ?thesis using same by blast
next
  case False
  note H = assms [unfolded Handle_def Let_def]
  have ty: "evType e = EventOrderCreated" using H False by (cases "evType e = EventOrderCreated") (auto simp: projects_def)
  obtain snap where d: "decode (evPayload e) = Inr snap" using H False ty by (auto simp: projects_def split: sum.splits)
  have t: "eventTenant e snap \<noteq> []" using H False ty d by (auto simp: projects_def)
  have env: "pjBegin env = None" "pjClaim env = None" "pjAffected env = None" "pjProject env = None"
    using H False ty d t by (auto simp: claimEventSQL_def split: option.splits if_splits)
  have new: "\<not> list_ex (\<lambda>r. pConsumer r = c \<and> pMessageID r = evID e) (processedEvents db)"
    using H False ty d t env by (auto simp: claimEventSQL_def)
  obtain counts where p: "projectSQL (eventTenant e snap) (evOccurredAt e) (orderCounts db) = Inr counts"
    using H False ty d t env new by (auto simp: claimEventSQL_def split: sum.splits)
  have "projects decode (eventTenant e snap) e" using ty d t by (simp add: projects_def)
  moreover have "db' = \<lparr>processedEvents = processedEvents db @ [\<lparr>pConsumer = c, pMessageID = evID e, ProcessedAt = pjNow env\<rparr>],
      orderCounts = counts\<rparr>"
    using H False ty d t env new p by (auto simp: claimEventSQL_def split: option.splits if_splits)
  ultimately show ?thesis using applied new p by blast
qed

lemma projectSQL_at:
  assumes "projectSQL t at m = Inr m'"
  shows "map_of m' = (map_of m)(t \<mapsto> (case map_of m t of None \<Rightarrow> \<lparr>cOrders = 1, cLastOrderAt = pgTime at\<rparr>
    | Some r \<Rightarrow> \<lparr>cOrders = cOrders r + 1, cLastOrderAt = max (cLastOrderAt r) (pgTime at)\<rparr>))"
  using assms by (auto simp: projectSQL_def map_of_filter_other fun_eq_iff split: option.splits if_splits)

lemma counts_ok_apply:
  assumes "counts_ok decode es m" "projects decode t e" "projectSQL t (evOccurredAt e) m = Inr counts"
  shows "counts_ok decode (e # es) counts"
proof -
  have u: "projects decode u e \<longleftrightarrow> u = t" for u using projects_unique [OF assms(2)] by blast
  have old: "case map_of m u of
          None \<Rightarrow> filter (projects decode u) es = []
        | Some r \<Rightarrow> cOrders r = int (length (filter (projects decode u) es)) \<and> filter (projects decode u) es \<noteq> []
            \<and> cLastOrderAt r = Max ((\<lambda>e. pgTime (evOccurredAt e)) ` set (filter (projects decode u) es))" for u
    using assms(1) unfolding counts_ok_def by blast
  have "case map_of counts u of
          None \<Rightarrow> filter (projects decode u) (e # es) = []
        | Some r \<Rightarrow> cOrders r = int (length (filter (projects decode u) (e # es))) \<and> filter (projects decode u) (e # es) \<noteq> []
            \<and> cLastOrderAt r = Max ((\<lambda>e. pgTime (evOccurredAt e)) ` set (filter (projects decode u) (e # es)))" for u
  proof (cases "u = t")
    case True
    let ?xs = "filter (projects decode t) es"
    show ?thesis
    proof (cases "map_of m t")
      case None
      then show ?thesis using old [of t] True u by (simp add: projectSQL_at [OF assms(3)])
    next
      case (Some r)
      then have r: "cOrders r = int (length ?xs)" "?xs \<noteq> []" "cLastOrderAt r = Max ((\<lambda>e. pgTime (evOccurredAt e)) ` set ?xs)"
        using old [of t] by simp_all
      have "Max ((\<lambda>e. pgTime (evOccurredAt e)) ` set (e # ?xs)) = max (pgTime (evOccurredAt e)) (Max ((\<lambda>e. pgTime (evOccurredAt e)) ` set ?xs))"
        using r(2) unfolding list.simps image_insert
        by (intro Max_insert) (simp_all only: finite_imageI finite_set image_is_empty set_empty not_False_eq_True)
      then show ?thesis using Some True u r(1,3) by (simp add: projectSQL_at [OF assms(3)] max.commute)
    qed
  next
    case False
    then show ?thesis using old [of u] u [of u] by (simp add: projectSQL_at [OF assms(3)] split: option.splits)
  qed
  then show ?thesis unfolding counts_ok_def by blast
qed

lemma proj_inv_apply:
  assumes "proj_inv decode c es db" "projects decode t e" "evID e \<notin> evID ` set es"
    and "projectSQL t (evOccurredAt e) (orderCounts db) = Inr counts"
  shows "proj_inv decode c (e # es)
    \<lparr>processedEvents = processedEvents db @ [\<lparr>pConsumer = c, pMessageID = evID e, ProcessedAt = now\<rparr>], orderCounts = counts\<rparr>"
  using assms(1-3) counts_ok_apply [OF _ assms(2,4)] by (auto simp: proj_inv_def image_iff)

text \<open>All deliveries: the tables reflect a set of delivered events, each once, that includes every
  event whose delivery succeeded.\<close>

lemma handleAll_inv:
  assumes "handleAll decode c ds db = (outs, db')" "proj_inv decode c es db"
  shows "\<exists>es'. proj_inv decode c (es' @ es) db' \<and> set es' \<subseteq> snd ` set ds
    \<and> (\<forall>k < length ds. outs ! k = None \<longrightarrow> (\<exists>t. projects decode t (snd (ds ! k))) \<longrightarrow> evID (snd (ds ! k)) \<in> evID ` set (es' @ es))
    \<and> length outs = length ds"
  using assms
proof (induction ds arbitrary: db es outs)
  case Nil
  then show ?case by (intro exI [of _ "[]"]) simp
next
  case (Cons d ds)
  obtain env e where d: "d = (env, e)" by fastforce
  obtain err db1 outs1 where h: "Handle decode c env e db = (err, db1)" and r: "handleAll decode c ds db1 = (outs1, db')"
      and outs: "outs = err # outs1"
    using Cons.prems(1) d by (auto split: prod.splits)
  have ids: "set (map pMessageID (filter (\<lambda>r. pConsumer r = c) (processedEvents db))) = evID ` set es"
    using Cons.prems(2) by (simp add: proj_inv_def)
  have "\<exists>new. proj_inv decode c (new @ es) db1 \<and> set new \<subseteq> {e}
      \<and> (err = None \<longrightarrow> (\<exists>t. projects decode t e) \<longrightarrow> evID e \<in> evID ` set (new @ es))"
    using h
  proof (cases rule: Handle_cases)
    case same
    then show ?thesis using Cons.prems(2) unfolding claimed_iff ids by (intro exI [of _ "[]"]) auto
  next
    case (applied t counts)
    have "evID e \<notin> evID ` set es" using applied(2) unfolding claimed_iff ids .
    from proj_inv_apply [OF Cons.prems(2) applied(1) this applied(3)] applied(4)
    show ?thesis by (intro exI [of _ "[e]"]) simp
  qed
  then obtain new where new: "proj_inv decode c (new @ es) db1" "set new \<subseteq> {e}"
      "err = None \<longrightarrow> (\<exists>t. projects decode t e) \<longrightarrow> evID e \<in> evID ` set (new @ es)" by blast
  from Cons.IH [OF r new(1)] obtain es' where es': "proj_inv decode c (es' @ new @ es) db'" "set es' \<subseteq> snd ` set ds"
      "\<forall>k < length ds. outs1 ! k = None \<longrightarrow> (\<exists>t. projects decode t (snd (ds ! k))) \<longrightarrow> evID (snd (ds ! k)) \<in> evID ` set (es' @ new @ es)"
      "length outs1 = length ds" by blast
  have "evID (snd ((d # ds) ! k)) \<in> evID ` set ((es' @ new) @ es)"
    if "k < length (d # ds)" "outs ! k = None" "\<exists>t. projects decode t (snd ((d # ds) ! k))" for k
    using that new(3) es'(3) unfolding outs d by (cases k) auto
  then show ?case using es' new(2) outs d by (intro exI [of _ "es' @ new"]) auto
qed

section \<open>Properties\<close>

definition emptyProjection :: projDB where
  "emptyProjection = \<lparr>processedEvents = [], orderCounts = []\<rparr>"

text \<open>Deliveries with the same identity carry the same event, as \<open>Eventbus.msgID_injective\<close> and
  \<open>Eventbus.event_survives_the_wire\<close> give for messages of the relay.\<close>

definition consistentIDs :: "BusEvent set \<Rightarrow> bool" where
  "consistentIDs E \<longleftrightarrow> (\<forall>e \<in> E. \<forall>e' \<in> E. evID e = evID e' \<longrightarrow>
     evType e = evType e' \<and> evTenantID e = evTenantID e' \<and> evPayload e = evPayload e' \<and> evOccurredAt e = evOccurredAt e')"

lemma consistent_same:
  assumes "consistentIDs E" "e \<in> E" "e' \<in> E" "evID e = evID e'"
  shows "projects decode t e = projects decode t e'" "evOccurredAt e = evOccurredAt e'"
proof -
  have eq: "evType e = evType e'" "evTenantID e = evTenantID e'" "evPayload e = evPayload e'" "evOccurredAt e = evOccurredAt e'"
    using assms unfolding consistentIDs_def by blast+
  show "projects decode t e = projects decode t e'" using eq(1-3) by (simp add: projects_def eventTenant_def split: sum.split)
  show "evOccurredAt e = evOccurredAt e'" by (rule eq(4))
qed

lemma counted:
  assumes "counts_ok decode es (orderCounts db)" "distinct (map evID es)"
  shows "countOf t db = int (card (evID ` {e \<in> set es. projects decode t e}))"
proof -
  have "case map_of (orderCounts db) t of None \<Rightarrow> filter (projects decode t) es = []
      | Some r \<Rightarrow> cOrders r = int (length (filter (projects decode t) es))"
    using assms(1) unfolding counts_ok_def by (auto dest!: spec [of _ t] split: option.splits)
  then have c: "countOf t db = int (length (filter (projects decode t) es))"
    by (auto simp: countOf_def split: option.splits)
  have "distinct (map evID (filter (projects decode t) es))" using assms(2) by (rule distinct_map_filter)
  then have "length (filter (projects decode t) es) = card (set (map evID (filter (projects decode t) es)))"
    by (metis distinct_card length_map)
  then show ?thesis unfolding c by simp
qed

lemma applied_count:
  assumes "proj_inv decode c es db"
  shows "countOf t db = int (card (evID ` {e \<in> set es. projects decode t e}))"
  using assms by (intro counted) (simp_all add: proj_inv_def)

text \<open>The whole run, as the property states it.\<close>

lemma handleAll_count:
  assumes "handleAll decode c ds emptyProjection = (outs, db)" "consistentIDs (snd ` set ds)"
  shows "\<exists>n. Count None t db = Inr n \<and> n \<le> int (card (evID ` {e \<in> snd ` set ds. projects decode t e}))
    \<and> ((\<forall>e \<in> snd ` set ds. projects decode t e \<longrightarrow> (\<exists>k < length ds. evID (snd (ds ! k)) = evID e \<and> outs ! k = None)) \<longrightarrow>
        n = int (card (evID ` {e \<in> snd ` set ds. projects decode t e}))
        \<and> (\<forall>r. map_of (orderCounts db) t = Some r \<longrightarrow>
             cLastOrderAt r = Max ((\<lambda>e. pgTime (evOccurredAt e)) ` {e \<in> snd ` set ds. projects decode t e})))"
proof -
  let ?E = "snd ` set ds"
  have "proj_inv decode c [] emptyProjection" by (simp add: proj_inv_def counts_ok_def emptyProjection_def)
  from handleAll_inv [OF assms(1) this] obtain es where es: "proj_inv decode c es db" "set es \<subseteq> ?E"
      "\<And>k. k < length ds \<Longrightarrow> outs ! k = None \<Longrightarrow> \<exists>t. projects decode t (snd (ds ! k)) \<Longrightarrow> evID (snd (ds ! k)) \<in> evID ` set es"
    by auto
  let ?A = "{e \<in> set es. projects decode t e}" and ?D = "{e \<in> ?E. projects decode t e}"
  have cnt: "countOf t db = int (card (evID ` ?A))" by (rule applied_count [OF es(1)])
  have sub: "evID ` ?A \<subseteq> evID ` ?D" using es(2) by blast
  have le: "card (evID ` ?A) \<le> card (evID ` ?D)" using sub by (intro card_mono) simp_all
  have all: "evID ` ?A = evID ` ?D \<and> pgTime ` evOccurredAt ` ?A = pgTime ` evOccurredAt ` ?D"
    if ok: "\<forall>e \<in> ?E. projects decode t e \<longrightarrow> (\<exists>k < length ds. evID (snd (ds ! k)) = evID e \<and> outs ! k = None)"
  proof -
    have "\<exists>a \<in> ?A. evID a = evID e \<and> evOccurredAt a = evOccurredAt e" if e: "e \<in> ?E" "projects decode t e" for e
    proof -
      obtain k where k: "k < length ds" "evID (snd (ds ! k)) = evID e" "outs ! k = None" using ok e by blast
      have kE: "snd (ds ! k) \<in> ?E" using k(1) by simp
      have "projects decode t (snd (ds ! k))" using consistent_same(1) [OF assms(2) kE e(1) k(2)] e(2) by blast
      then obtain a where a: "a \<in> set es" "evID a = evID e" using es(3) [OF k(1,3)] k(2) by (metis imageE)
      have aE: "a \<in> ?E" using a(1) es(2) by blast
      show ?thesis using consistent_same [OF assms(2) aE e(1) a(2)] e(2) a by blast
    qed
    then show ?thesis using es(2) by (fastforce simp: image_iff)
  qed
  have last: "cLastOrderAt r = Max (pgTime ` evOccurredAt ` ?A)" if "map_of (orderCounts db) t = Some r" for r
    using es(1) that unfolding proj_inv_def counts_ok_def by (auto simp: image_image dest!: spec [of _ t])
  show ?thesis
    using cnt le all last by (intro exI [of _ "countOf t db"]) (auto simp: Count_def countOf_def image_image split: option.splits)
qed

lemma projection_counts:
  assumes "handleAll decode c ds emptyProjection = (outs, db)" "consistentIDs (snd ` set ds)"
    and "\<forall>e \<in> snd ` set ds. projects decode t e \<longrightarrow> (\<exists>k < length ds. evID (snd (ds ! k)) = evID e \<and> outs ! k = None)"
  shows "Count None t db = Inr (int (card (evID ` {e \<in> snd ` set ds. projects decode t e})))"
  using handleAll_count [OF assms(1,2), of t] assms(3) by blast

text \<open>
  C15: the projection counts every order exactly once. Start from empty tables and let events be
  delivered any number of times, in any order, with any of them failing at any statement (a commit
  whose reply is lost included): the count of a tenant never exceeds the number of distinct creation
  events delivered for it; and once every such event has had one successful delivery, the count is
  that number and the last order time the latest of them.
\<close>

theorem projection_counts_each_order_once:
  assumes "handleAll decode c ds emptyProjection = (outs, db)" "consistentIDs (snd ` set ds)"
  shows "\<exists>n. Count None t db = Inr n \<and> n \<le> int (card (evID ` {e \<in> snd ` set ds. projects decode t e}))
    \<and> ((\<forall>e \<in> snd ` set ds. projects decode t e \<longrightarrow> (\<exists>k < length ds. evID (snd (ds ! k)) = evID e \<and> outs ! k = None)) \<longrightarrow>
        n = int (card (evID ` {e \<in> snd ` set ds. projects decode t e}))
        \<and> (\<forall>r. map_of (orderCounts db) t = Some r \<longrightarrow>
             cLastOrderAt r = Max ((\<lambda>e. pgTime (evOccurredAt e)) ` {e \<in> snd ` set ds. projects decode t e})))"
  by (rule handleAll_count [OF assms])

definition sampleEvent :: BusEvent where
  "sampleEvent = \<lparr>evID = ''orderd-1'', evTenantID = ''acme'', evType = ''order.v1.OrderCreated'', evAggregateID = ''o1'',
     evPayload = ''{}'', evOccurredAt = 5999, Deliveries = 1, evTraceParent = []\<rparr>"

definition calmProj :: projEnv where
  "calmProj = \<lparr>pjBegin = None, pjClaim = None, pjAffected = None, pjProject = None, pjCommit = None, pjNow = 7000\<rparr>"

definition lostReply :: projEnv where
  "lostReply = calmProj\<lparr>pjCommit := Some (Errorf ''connection reset'' [], True)\<rparr>"

text \<open>The first delivery commits but its reply is lost; the redelivery finds it applied.\<close>

theorem projection_counts_each_order_once_witness:
  "Count None ''acme'' (snd (handleAll (\<lambda>_. Inr sampleOrder) ''proj'' [(lostReply, sampleEvent), (calmProj, sampleEvent\<lparr>Deliveries := 2\<rparr>)]
     emptyProjection)) = Inr 1"
proof -
  let ?dec = "\<lambda>_. Inr sampleOrder" and ?ds = "[(lostReply, sampleEvent), (calmProj, sampleEvent\<lparr>Deliveries := 2\<rparr>)]"
  obtain outs db where h: "handleAll ?dec ''proj'' ?ds emptyProjection = (outs, db)" by fastforce
  have o: "outs ! 1 = None" using h
    by (auto simp: Handle_def Let_def sampleEvent_def calmProj_def lostReply_def emptyProjection_def claimEventSQL_def
        projectSQL_def eventTenant_def EventOrderCreated_def split: if_splits)
  have p: "projects ?dec ''acme'' e" if "e \<in> snd ` set ?ds" for e
    using that by (auto simp: projects_def sampleEvent_def eventTenant_def EventOrderCreated_def)
  have c: "consistentIDs (snd ` set ?ds)" by (simp add: consistentIDs_def sampleEvent_def)
  have ids: "evID ` {e \<in> snd ` set ?ds. projects ?dec ''acme'' e} = {''orderd-1''}"
  proof -
    have "{e \<in> snd ` set ?ds. projects ?dec ''acme'' e} = snd ` set ?ds" using p by blast
    then show ?thesis by (simp only:) (simp add: sampleEvent_def)
  qed
  have "\<forall>e \<in> snd ` set ?ds. projects ?dec ''acme'' e \<longrightarrow> (\<exists>k < length ?ds. evID (snd (?ds ! k)) = evID e \<and> outs ! k = None)"
    using o by (auto simp: sampleEvent_def intro!: exI [of _ 1])
  with projection_counts_each_order_once [OF h c, of "''acme''"] h show ?thesis unfolding ids by auto
qed

end
