(* ===== verification/Readmodel.thy ===== *)
theory Readmodel
  imports Orderpgtx Orderproj
begin

text \<open>
  The components together: orders written through the service over Postgres, their events published
  by the relay over the wire to the stream, delivered to the projection, and counted there.
\<close>

section \<open>Counting events\<close>

lemma distinct_map_if_unique: "\<forall>y. length (filter (\<lambda>x. f x = y) xs) \<le> 1 \<Longrightarrow> distinct (map f xs)"
proof (induction xs)
  case (Cons x xs)
  have "filter (\<lambda>z. f z = f x) xs = []" using Cons.prems [THEN spec, of "f x"] by simp
  then have "f x \<notin> f ` set xs" by (auto simp: filter_empty_conv)
  moreover have "\<forall>y. length (filter (\<lambda>x. f x = y) xs) \<le> 1"
    using Cons.prems by (metis (no_types, lifting) filter.simps(2) impossible_Cons le_trans nat_le_linear)
  ultimately show ?case using Cons.IH by simp
qed simp

text \<open>The orders of a tenant are its creation events.\<close>

lemma created_events_count:
  assumes "journal_upto n tb es"
  shows "length (filter (\<lambda>e. Type e = EventOrderCreated \<and> eTenantID e = t) es) = card {i. tb (t, i) \<noteq> None}"
proof -
  let ?C = "filter (\<lambda>e. Type e = EventOrderCreated \<and> eTenantID e = t) es"
  have h: "history es (t, i) = expected_history (tb (t, i))" for i using assms by (simp add: journal_upto_def)
  have same: "length (filter (\<lambda>e. AggregateID e = i) ?C) = length (filter (\<lambda>ty. ty = EventOrderCreated) (history es (t, i)))" for i
    by (simp add: history_def filter_map comp_def conj_ac)
  have ne: "EventOrderCancelled \<noteq> EventOrderCreated" by (simp add: EventOrderCancelled_def EventOrderCreated_def)
  have one: "length (filter (\<lambda>e. AggregateID e = i) ?C) = (if tb (t, i) = None then 0 else 1)" for i
    unfolding same h using ne by (auto simp: expected_history_def split: option.split)
  then have d: "distinct (map AggregateID ?C)" by (intro distinct_map_if_unique) simp
  have "i \<in> set (map AggregateID ?C) \<longleftrightarrow> tb (t, i) \<noteq> None" for i
  proof -
    have "i \<in> set (map AggregateID ?C) \<longleftrightarrow> filter (\<lambda>e. AggregateID e = i) ?C \<noteq> []" by (auto simp: filter_empty_conv)
    then show ?thesis unfolding length_0_conv [symmetric] one by simp
  qed
  then have "set (map AggregateID ?C) = {i. tb (t, i) \<noteq> None}" by blast
  then show ?thesis using distinct_card [OF d] by simp
qed

lemma eventsOf_fields:
  "eventsOf L rs = Inr es \<Longrightarrow>
    map (\<lambda>e. (Type e, eTenantID e, AggregateID e)) es = map (\<lambda>r. (mEventType (msg r), mTenantID (msg r), mAggregateID (msg r))) rs"
  by (induction rs arbitrary: es) (auto split: sum.splits)

lemma length_filter_cong: "map f xs = map g ys \<Longrightarrow> length (filter (\<lambda>x. P (f x)) xs) = length (filter (\<lambda>y. P (g y)) ys)"
proof (induction xs arbitrary: ys)
  case (Cons x xs)
  then obtain y ys' where "ys = y # ys'" "f x = g y" "map f xs = map g ys'" by (cases ys) auto
  with Cons.IH show ?case by simp
qed simp

lemma outbox_rows:
  assumes "pg_inv L s" "journal_upto pg_norm (pg_tab s) (pg_log L s)" "r \<in> set (outboxT s)"
  shows "mTenantID (msg r) \<noteq> []" "mEventType (msg r) \<in> {EventOrderCreated, EventOrderCancelled}"
proof -
  obtain es where es: "eventsOf L (outboxT s) = Inr es"
    using eventsOf_decodes [of "outboxT s" L] assms(1) by (auto simp: pg_inv_def)
  have "(mEventType (msg r), mTenantID (msg r), mAggregateID (msg r)) \<in> set (map (\<lambda>e. (Type e, eTenantID e, AggregateID e)) es)"
    using assms(3) unfolding eventsOf_fields [OF es] by auto
  then obtain e where e: "e \<in> set es" "eTenantID e = mTenantID (msg r)" "AggregateID e = mAggregateID (msg r)" "Type e = mEventType (msg r)"
    by auto
  have log: "pg_log L s = es" using es by (simp add: pg_log_def)
  have "Type e \<in> set (history es (eTenantID e, AggregateID e))" using e(1) by (auto simp: history_def)
  then have h: "Type e \<in> set (expected_history (pg_tab s (eTenantID e, AggregateID e)))"
    using assms(2) unfolding log by (simp add: journal_upto_def)
  then show "mEventType (msg r) \<in> {EventOrderCreated, EventOrderCancelled}"
    using e(4) by (auto simp: expected_history_def split: option.splits if_splits)
  from h obtain o' where "pg_tab s (eTenantID e, AggregateID e) = Some o'" 
    by (cases "pg_tab s (eTenantID e, AggregateID e)") (auto simp: expected_history_def)
  then show "mTenantID (msg r) \<noteq> []" using pg_tab_iff [OF assms(1)] e(2) by (auto simp: held_def)
qed

lemma event_types_wireSafe: "wireSafe EventOrderCreated" "wireSafe EventOrderCancelled"
  by code_simp+

section \<open>Deliveries and rows\<close>

text \<open>The delivered event is the one the row holds, under the deduplication id that the wire carries.\<close>

abbreviation wireID :: "Publisher \<Rightarrow> outboxRow \<Rightarrow> string" where
  "wireID p r \<equiv> msgID (wiredPublisher p) (mID (msg r))"

definition carries :: "Publisher \<Rightarrow> outboxRow \<Rightarrow> BusEvent \<Rightarrow> bool" where
  "carries p r e \<longleftrightarrow> evID e = wireID p r \<and> evType e = mEventType (msg r) \<and> evTenantID e = mTenantID (msg r)
     \<and> evPayload e = mPayload (msg r) \<and> evOccurredAt e = mOccurredAt (msg r)"

definition rows_ok :: "outboxRow list \<Rightarrow> bool" where
  "rows_ok rs \<longleftrightarrow> distinct (map (\<lambda>r. mID (msg r)) rs) \<and> (\<forall>r \<in> set rs. 0 \<le> mID (msg r))"

lemma pg_rows_ok: "pg_inv L s \<Longrightarrow> rows_ok (outboxT s)"
  by (force simp: pg_inv_def rows_ok_def strict_sorted_iff)

text \<open>The rows whose tenants the wire keeps apart and whose times it can print.\<close>

definition wireRow :: "outboxRow \<Rightarrow> bool" where
  "wireRow r \<longleftrightarrow> wireSafe (mTenantID (msg r)) \<and> timeInRange (mOccurredAt (msg r))"

lemma carries_published:
  assumes "timefmt_ok T" "wireRow r" "wireSafe (mEventType (msg r))"
  shows "carries p r (eventFrom T (onWire (natsMessage T p subj (msg r))) md)"
proof -
  have "timeInRange (mOccurredAt (msg r))" using assms(2) by (simp add: wireRow_def)
  then show ?thesis
    using assms(2,3) by (simp add: carries_def event_of_published [OF assms(1)] rowEvent_def wireValue_msgID wireValue_id wireRow_def)
qed

lemma rows_ok_id:
  assumes "rows_ok rs" "r \<in> set rs" "q \<in> set rs" "wireID p r = wireID p q"
  shows "r = q"
proof -
  have "mID (msg r) = mID (msg q)" using assms msgID_inj [of "mID (msg r)" "mID (msg q)" "wiredPublisher p" "wiredPublisher p"] by (simp add: rows_ok_def)
  moreover have "inj_on (\<lambda>r. mID (msg r)) (set rs)" using assms(1) by (simp add: rows_ok_def distinct_map)
  ultimately show ?thesis using assms(2,3) by (auto dest: inj_onD)
qed

lemma carried_consistent:
  assumes "rows_ok rs" "\<forall>e \<in> E. \<exists>r \<in> set rs. carries p r e"
  shows "consistentIDs E"
  unfolding consistentIDs_def
proof (intro ballI impI)
  fix e e'
  assume e: "e \<in> E" "e' \<in> E" "evID e = evID e'"
  then obtain r q where r: "r \<in> set rs" "carries p r e" "q \<in> set rs" "carries p q e'" using assms(2) by blast
  then have "r = q" using e(3) by (intro rows_ok_id [OF assms(1) r(1,3), of p]) (simp add: carries_def)
  with r(2,4) show "evType e = evType e' \<and> evTenantID e = evTenantID e' \<and> evPayload e = evPayload e' \<and> evOccurredAt e = evOccurredAt e'"
    by (simp add: carries_def)
qed

lemma carried_projects:
  assumes "carries p r e" "unjsonOrder L (mPayload (msg r)) = Inr o'" "mTenantID (msg r) \<noteq> []" "t \<noteq> []"
  shows "projects (unjsonOrder L) t e \<longleftrightarrow> mEventType (msg r) = EventOrderCreated \<and> mTenantID (msg r) = t"
  using assms by (auto simp: carries_def projects_def eventTenant_def)

text \<open>The ids of the events that count are the ids of the rows that count.\<close>

lemma carried_ids:
  assumes "rows_ok rs" "\<forall>e \<in> E. \<exists>r \<in> set rs. carries p r e" "\<forall>r \<in> set rs. \<exists>e \<in> E. carries p r e"
    and "\<And>r e. r \<in> set rs \<Longrightarrow> carries p r e \<Longrightarrow> P e \<longleftrightarrow> Q r"
  shows "card (evID ` {e \<in> E. P e}) = length (filter Q rs)"
proof -
  have "evID ` {e \<in> E. P e} = (\<lambda>r. wireID p r) ` set (filter Q rs)"
  proof (intro equalityI subsetI)
    fix i
    assume "i \<in> evID ` {e \<in> E. P e}"
    then obtain e r where e: "P e" "i = evID e" "r \<in> set rs" "carries p r e" using assms(2) by blast
    then have "Q r" "i = wireID p r" using assms(4) [OF e(3,4)] by (simp_all add: carries_def)
    with e(3) show "i \<in> (\<lambda>r. wireID p r) ` set (filter Q rs)" by simp
  next
    fix i
    assume "i \<in> (\<lambda>r. wireID p r) ` set (filter Q rs)"
    then obtain r where r: "r \<in> set rs" "Q r" "i = wireID p r" by auto
    then obtain e where e: "e \<in> E" "carries p r e" using assms(3) by blast
    then have "P e" "i = evID e" using assms(4) [OF r(1) e(2)] r by (simp_all add: carries_def)
    with e(1) show "i \<in> evID ` {e \<in> E. P e}" by blast
  qed
  moreover have "inj_on (\<lambda>r. wireID p r) (set (filter Q rs))"
    using rows_ok_id [OF assms(1)] by (intro inj_onI) simp
  moreover have "distinct (filter Q rs)" using assms(1) by (simp add: rows_ok_def distinct_map)
  ultimately show ?thesis by (simp only: card_image distinct_card)
qed

text \<open>The rows that count are the orders of the tenant.\<close>

lemma created_rows_count:
  assumes "pg_inv L s" "journal_upto pg_norm (pg_tab s) (pg_log L s)"
  shows "length (filter (\<lambda>r. mEventType (msg r) = EventOrderCreated \<and> mTenantID (msg r) = t) (outboxT s)) = card {i. pg_tab s (t, i) \<noteq> None}"
proof -
  obtain es where es: "eventsOf L (outboxT s) = Inr es" using eventsOf_decodes [of "outboxT s" L] assms(1) by (auto simp: pg_inv_def)
  then have "journal_upto pg_norm (pg_tab s) es" using assms(2) by (simp add: pg_log_def)
  from created_events_count [OF this, of t]
  show ?thesis
    using length_filter_cong [OF eventsOf_fields [OF es], of "\<lambda>(ty, tn, _). ty = EventOrderCreated \<and> tn = t"] by simp
qed

section \<open>Properties\<close>

text \<open>
  C2: the read model agrees with the orders. Orders are created and cancelled through the service over
  Postgres, one transaction after the other, with any failures, and nothing is pruned. The wire
  keeps the tenants of the outbox rows as they are (no line breaks, no white space at the ends) and
  the times lie in the years 0 to 9999. Every row of the outbox is in the stream, the stream holds
  messages of the relay only, and every stored message has been delivered successfully at least once,
  and any of them any number of times more, failing or not, in any order. Then for every tenant the
  projection reports exactly the number of its orders in the table.
\<close>

theorem projection_agrees_with_orders:
  assumes "pg_reach L K s" "pglib_ok L" "timefmt_ok T"
    and "\<forall>r \<in> set (outboxT s). wireSafe (mTenantID (msg r)) \<and> timeInRange (mOccurredAt (msg r))"
    and "\<forall>r \<in> set (outboxT s). inStream p (msg r) j"
    and "\<forall>x \<in> set j. \<exists>r \<in> set (outboxT s). \<exists>subj. x = onWire (natsMessage T p subj (msg r))"
    and "handleAll (unjsonOrder L) c ds emptyProjection = (outs, db)"
    and "\<forall>d \<in> set ds. \<exists>x \<in> set j. \<exists>md. snd d = eventFrom T x md"
    and "\<forall>x \<in> set j. \<exists>k < length ds. \<exists>md. snd (ds ! k) = eventFrom T x md \<and> outs ! k = None"
    and "t \<noteq> []"
  shows "Count None t db = Inr (int (card {i. pg_tab s (t, i) \<noteq> None}))"
proof -
  let ?E = "snd ` set ds" and ?Q = "\<lambda>r. mEventType (msg r) = EventOrderCreated \<and> mTenantID (msg r) = t"
  have inv: "pg_inv L s" and jr: "journal_upto pg_norm (pg_tab s) (pg_log L s)" using pg_reach_journal [OF assms(1,2)] by blast+
  note ok = pg_rows_ok [OF inv]
  have pub: "carries p r (eventFrom T (onWire (natsMessage T p subj (msg r))) md)" if "r \<in> set (outboxT s)" for r subj md
    using assms(4) that outbox_rows(2) [OF inv jr that] event_types_wireSafe
    by (intro carries_published [OF assms(3)]) (auto simp: wireRow_def)
  have E: "\<forall>e \<in> ?E. \<exists>r \<in> set (outboxT s). carries p r e"
  proof
    fix e
    assume "e \<in> ?E"
    then obtain x md where "x \<in> set j" "e = eventFrom T x md" using assms(8) by auto
    moreover from this obtain r subj where "r \<in> set (outboxT s)" "x = onWire (natsMessage T p subj (msg r))" using assms(6) by blast
    ultimately show "\<exists>r \<in> set (outboxT s). carries p r e" using pub by blast
  qed
  have deliv: "\<exists>k < length ds. carries p r (snd (ds ! k)) \<and> outs ! k = None" if r: "r \<in> set (outboxT s)" for r
  proof -
    obtain x where x: "x \<in> set j" "hGet MsgIDHeader (nHeader x) = wireID p r"
      using assms(5) r by (auto simp: inStream_def wireValue_msgID)
    obtain q subj where q: "q \<in> set (outboxT s)" "x = onWire (natsMessage T p subj (msg q))" using assms(6) x(1) by blast
    then have "q = r" using x(2) by (intro rows_ok_id [OF ok q(1) r, of p]) (simp add: natsMessage_get wireValue_msgID)
    then show ?thesis using assms(9) x(1) q(2) pub [OF r] by metis
  qed
  have pr: "projects (unjsonOrder L) t e \<longleftrightarrow> ?Q r" if r: "r \<in> set (outboxT s)" and e: "carries p r e" for r e
  proof -
    obtain o' where "unjsonOrder L (mPayload (msg r)) = Inr o'" using inv r by (auto simp: pg_inv_def)
    from carried_projects [OF e this outbox_rows(1) [OF inv jr r] assms(10)] show ?thesis .
  qed
  have all: "\<forall>e \<in> ?E. projects (unjsonOrder L) t e \<longrightarrow> (\<exists>k < length ds. evID (snd (ds ! k)) = evID e \<and> outs ! k = None)"
    using E deliv unfolding carries_def by metis
  have covered: "\<forall>r \<in> set (outboxT s). \<exists>e \<in> ?E. carries p r e" using deliv by (metis imageI nth_mem)
  have "card (evID ` {e \<in> ?E. projects (unjsonOrder L) t e}) = card {i. pg_tab s (t, i) \<noteq> None}"
    using carried_ids [OF ok E covered pr] created_rows_count [OF inv jr, of t] by simp
  then show ?thesis using projection_counts [OF assms(7) carried_consistent [OF ok E] all] by simp
qed

text \<open>The sample order, created over Postgres, published, and delivered twice: once with the reply to its
  commit lost, then again.\<close>

definition oddMsg :: Message where
  "oddMsg = \<lparr>mID = 1, mTenantID = ''acme'', mAggregateID = ID sampleOrder, mEventType = EventOrderCreated, mPayload = ''3'',
     mOccurredAt = 1000, mTraceParent = []\<rparr>"

lemma odd_outbox: "map msg (outboxT pgOdd) = [oddMsg]"
  by code_simp

definition oddPublisher :: Publisher where
  "oddPublisher = \<lparr>pubPrefix = ''events'', pubService = ''orderd''\<rparr>"

definition oddNats :: natsmsg where
  "oddNats = onWire (natsMessage sampleTime oddPublisher ''events.order.v1.OrderCreated'' oddMsg)"

definition oddMeta :: "nat \<Rightarrow> msgMetadata" where
  "oddMeta n = \<lparr>NumDelivered = n, mdTimestamp = 0, mdStream = ''S'', mdSequence = 1\<rparr>"

definition oddEvent :: "nat \<Rightarrow> BusEvent" where
  "oddEvent n = eventFrom sampleTime oddNats (oddMeta n)"

lemma odd_row: "wireSafe (mTenantID oddMsg)" "wireSafe (mEventType oddMsg)" "timeInRange (mOccurredAt oddMsg)"
    "wireValue (msgID oddPublisher 1) = msgID oddPublisher 1"
  by code_simp+

lemma odd_event:
  "evID (oddEvent n) = msgID oddPublisher 1" "evTenantID (oddEvent n) = ''acme''" "evType (oddEvent n) = EventOrderCreated"
  "evPayload (oddEvent n) = ''3''" "evOccurredAt (oddEvent n) = 1000"
  using odd_row(1,2) [THEN wireValue_id] odd_row(4)
  by (simp_all add: oddEvent_def oddNats_def event_of_published [OF sampleTime_ok odd_row(3)] rowEvent_def) (simp_all add: oddMsg_def)

definition oddCounts :: projDB where
  "oddCounts = \<lparr>processedEvents = [\<lparr>pConsumer = ''proj'', pMessageID = msgID oddPublisher 1, ProcessedAt = 7000\<rparr>],
      orderCounts = [(''acme'', \<lparr>cOrders = 1, cLastOrderAt = 1000\<rparr>)]\<rparr>"

lemma odd_handled:
  "\<exists>err. handleAll (unjsonOrder samplePglib) ''proj'' [(lostReply, oddEvent 1), (calmProj, oddEvent 2)] emptyProjection
     = ([Some err, None], oddCounts)"
proof -
  have dec: "unjsonOrder samplePglib ''3'' = Inr oddOrder" by (simp add: samplePglib_def)
  obtain err where 1: "Handle (unjsonOrder samplePglib) ''proj'' lostReply (oddEvent 1) emptyProjection = (Some err, oddCounts)"
    by (simp add: Handle_def odd_event dec eventTenant_def Let_def calmProj_def lostReply_def emptyProjection_def
        claimEventSQL_def projectSQL_def pgTime_def oddCounts_def)
  have 2: "Handle (unjsonOrder samplePglib) ''proj'' calmProj (oddEvent 2) oddCounts = (None, oddCounts)"
    by (simp add: Handle_def odd_event dec eventTenant_def Let_def calmProj_def claimEventSQL_def oddCounts_def)
  show ?thesis using 1 2 by simp
qed

theorem projection_agrees_with_orders_witness:
  "Count None ''acme'' oddCounts = Inr (int (card {i. pg_tab pgOdd (''acme'', i) \<noteq> None})) \<and> Count None ''acme'' oddCounts = Inr 1"
proof -
  obtain r where r: "outboxT pgOdd = [r]" "msg r = oddMsg" using odd_outbox by auto
  obtain err where h: "handleAll (unjsonOrder samplePglib) ''proj'' [(lostReply, oddEvent 1), (calmProj, oddEvent 2)] emptyProjection
     = ([Some err, None], oddCounts)" using odd_handled by blast
  have "Count None ''acme'' oddCounts = Inr (int (card {i. pg_tab pgOdd (''acme'', i) \<noteq> None}))"
  proof (rule projection_agrees_with_orders [OF odd_reach samplePglib_ok sampleTime_ok _ _ _ h, where p = oddPublisher and j = "[oddNats]"])
    show "\<forall>r \<in> set (outboxT pgOdd). wireSafe (mTenantID (msg r)) \<and> timeInRange (mOccurredAt (msg r))"
      using odd_row(1,3) by (simp add: r)
    show "\<forall>r \<in> set (outboxT pgOdd). inStream oddPublisher (msg r) [oddNats]"
      by (simp add: r inStream_def oddNats_def natsMessage_get)
    show "\<forall>x \<in> set [oddNats]. \<exists>r \<in> set (outboxT pgOdd). \<exists>subj. x = onWire (natsMessage sampleTime oddPublisher subj (msg r))"
      using r by (auto simp: oddNats_def)
    show "\<forall>d \<in> set [(lostReply, oddEvent 1), (calmProj, oddEvent 2)]. \<exists>x \<in> set [oddNats]. \<exists>md. snd d = eventFrom sampleTime x md"
      by (auto simp: oddEvent_def)
    have "snd ([(lostReply, oddEvent 1), (calmProj, oddEvent 2)] ! 1) = eventFrom sampleTime oddNats (oddMeta 2)
        \<and> [Some err, None] ! 1 = None" by (simp add: oddEvent_def)
    then show "\<forall>x \<in> set [oddNats]. \<exists>k < length [(lostReply, oddEvent 1), (calmProj, oddEvent 2)].
        \<exists>md. snd ([(lostReply, oddEvent 1), (calmProj, oddEvent 2)] ! k) = eventFrom sampleTime x md \<and> [Some err, None] ! k = None"
      by (metis One_nat_def empty_iff empty_set insert_iff length_Cons lessI list.simps(15) list.size(3))
  qed simp
  moreover have "Count None ''acme'' oddCounts = Inr 1" by (simp add: Count_def oddCounts_def)
  ultimately show ?thesis by blast
qed

end
