(* ===== verification/Operations.thy ===== *)
theory Operations
  imports Appconfig Readmodel
begin

text \<open>
  The background processes under their configuration: the stream, publisher and consumer the worker
  builds (\<open>events.Connect\<close>, \<open>events.EnsureStream\<close>, \<open>Consumer.Run\<close>), the job \<open>cmd/prune\<close>, and
  what the retention settings and the subject prefixes guarantee for the projection.
\<close>

section \<open>Stream and consumer\<close>

record streamConfig =
  sName :: string
  sSubjects :: "string list"
  sDuplicates :: int
  sMaxAge :: int

text \<open>\<open>EnsureStream\<close>, with JetStream's answer: the settings it asks for and the error it returns.\<close>

definition EnsureStream :: "goerr option \<Rightarrow> NATSConfig \<Rightarrow> streamConfig \<times> goerr option" where
  "EnsureStream fault n = (\<lparr>sName = natsStream n, sSubjects = [natsSubjectPrefix n @ ''.>'', natsDLQSubjectPrefix n @ ''.>''],
       sDuplicates = DuplicateWindow n, sMaxAge = StreamMaxAge n\<rparr>,
     map_option (\<lambda>err. Errorf (''create or update stream '' @ quoted (natsStream n) @ '' (an existing stream with ''
       @ ''incompatible settings must be migrated or deleted deliberately): '' @ errorText err) [err]) fault)"

text \<open>The answers of NATS while a worker connects; \<open>Connect\<close> also says whether a connection is
  left open.\<close>

record natsEnv =
  neConnect :: "goerr option"
  neJetStream :: "goerr option"
  neStream :: "goerr option"

definition Connect :: "natsEnv \<Rightarrow> AppConfig \<Rightarrow> Publisher res \<times> bool" where
  "Connect ne c = (case neConnect ne of
     Some err \<Rightarrow> (Inl (Errorf (''connect to nats at '' @ natsURL (NATS c) @ '': '' @ errorText err) [err]), False)
   | None \<Rightarrow> (case neJetStream ne of
     Some err \<Rightarrow> (Inl (Errorf (''jetstream: '' @ errorText err) [err]), False)
   | None \<Rightarrow> (case snd (EnsureStream (neStream ne) (NATS c)) of
     Some err \<Rightarrow> (Inl err, False)
   | None \<Rightarrow> (Inr \<lparr>pubPrefix = natsSubjectPrefix (NATS c), pubService = ServiceName c\<rparr>, True))))"

record consumerConfig =
  kDurable :: string
  kFilterSubject :: string
  kMaxDeliver :: int
  kAckWait :: int
  kBackOff :: "int list"

definition consumerConfigOf :: "NATSConfig \<Rightarrow> consumerConfig" where
  "consumerConfigOf n = \<lparr>kDurable = natsConsumer n, kFilterSubject = natsSubjectPrefix n @ ''.>'', kMaxDeliver = natsMaxDeliver n,
     kAckWait = AckWait n, kBackOff = [seconds, 5 * seconds, 30 * seconds]\<rparr>"

text \<open>\<open>Consumer.Run\<close>: \<^const>\<open>None\<close> while it consumes, else what it returned.\<close>

record consumerEnv =
  ceStream :: "goerr option"
  ceCreate :: "goerr option"
  ceConsume :: "goerr option"
  ceDone :: bool

definition ConsumerRun :: "consumerEnv \<Rightarrow> NATSConfig \<Rightarrow> goerr option option" where
  "ConsumerRun ce n = (case ceStream ce of
     Some err \<Rightarrow> Some (Some (Errorf (''open stream '' @ quoted (natsStream n) @ '': '' @ errorText err) [err]))
   | None \<Rightarrow> (case ceCreate ce of
     Some err \<Rightarrow> Some (Some (Errorf (''create consumer '' @ quoted (kDurable (consumerConfigOf n)) @ '': '' @ errorText err) [err]))
   | None \<Rightarrow> (case ceConsume ce of
     Some err \<Rightarrow> Some (Some (Errorf (''consume: '' @ errorText err) [err]))
   | None \<Rightarrow> if ceDone ce then Some None else None)))"

text \<open>\<open>NewConsumer\<close> keeps the settings that \<open>dispatch\<close> reads.\<close>

definition NewConsumer :: "NATSConfig \<Rightarrow> natsConfig" where
  "NewConsumer n = \<lparr>DLQSubjectPrefix = natsDLQSubjectPrefix n, MaxDeliver = natsMaxDeliver n\<rparr>"

text \<open>How the broker matches a subject against a filter that ends in \<open>>\<close>: one or more tokens follow
  the tokens before it.\<close>

definition filter_ok :: "(string \<Rightarrow> string \<Rightarrow> bool) \<Rightarrow> bool" where
  "filter_ok mtch \<longleftrightarrow> (\<forall>p s. \<not> ContainsAny p ''*>'' \<longrightarrow>
     (mtch (p @ ''.>'') s \<longleftrightarrow> (\<exists>rest. rest \<noteq> [] \<and> split_on (CHR ''.'') s = split_on (CHR ''.'') p @ rest)))"

section \<open>The observer\<close>

record gauges =
  gPending :: nat
  gQuarantined :: nat
  gOldest :: int
  gFailures :: nat
  gLastObservation :: int

record obsEnv =
  oePending :: "goerr option"
  oeQuarantined :: "goerr option"
  oeOldest :: "goerr option"
  oeNow :: int
  oeCtxDone :: bool

definition observeOnce :: "obsEnv \<Rightarrow> outboxRow list \<Rightarrow> gauges \<Rightarrow> gauges" where
  "observeOnce oe t g =
     (if oePending oe \<noteq> None \<or> oeQuarantined oe \<noteq> None \<or> oeOldest oe \<noteq> None
      then (if oeCtxDone oe then g else g\<lparr>gFailures := gFailures g + 1\<rparr>)
      else (case Observe (oeNow oe) t of (pend, quar, age) \<Rightarrow>
        g\<lparr>gPending := pend, gQuarantined := quar, gOldest := age, gLastObservation := oeNow oe\<rparr>))"

text \<open>The loop of \<open>Observer.Run\<close> after its first observation; each wait ends because the context is
  done or because of the ticker.\<close>

fun observerLoop :: "(bool \<times> obsEnv \<times> outboxRow list) list \<Rightarrow> gauges \<Rightarrow> goerr option option \<times> gauges" where
  "observerLoop [] g = (None, g)"
| "observerLoop ((done', oe, t) # ticks) g = (if done' then (Some None, g) else observerLoop ticks (observeOnce oe t g))"

definition ObserverRun :: "obsEnv \<times> outboxRow list \<Rightarrow> (bool \<times> obsEnv \<times> outboxRow list) list \<Rightarrow> gauges \<Rightarrow> goerr option option \<times> gauges" where
  "ObserverRun first ticks g = observerLoop ticks (observeOnce (fst first) (snd first) g)"

section \<open>The worker\<close>

datatype workerPublisher = ToLog | ToNATS Publisher

record worker =
  wkConfig :: AppConfig
  wkPublisher :: workerPublisher
  wkConsumer :: "natsConfig option"
  wkBatchSize :: int

record workerEnv =
  weOpen :: "goerr option"
  wePing :: "goerr option"
  weNATS :: natsEnv

datatype startError = BadConfig "cfgerr list" | NoStart goerr

text \<open>\<open>run\<close> of \<open>cmd/worker\<close> up to the start of its goroutines.\<close>

definition startWorker :: "workerEnv \<Rightarrow> string list \<Rightarrow> startError + worker" where
  "startWorker we osEnviron = (case LoadWorker osEnviron of
     Inl es \<Rightarrow> Inl (BadConfig es)
   | Inr c \<Rightarrow> (case weOpen we of
     Some err \<Rightarrow> Inl (NoStart (Errorf (''open database: '' @ errorText err) [err]))
   | None \<Rightarrow> (case wePing we of
     Some err \<Rightarrow> Inl (NoStart (Errorf (''connect to database: '' @ errorText err) [err]))
   | None \<Rightarrow>
       (let relay' = NewRelay (Some (obBatchSize (OutboxCfg c)))
        in if natsURL (NATS c) = [] then Inr \<lparr>wkConfig = c, wkPublisher = ToLog, wkConsumer = None, wkBatchSize = relay'\<rparr>
           else (case fst (Connect (weNATS we) c) of
             Inl err \<Rightarrow> Inl (NoStart (Errorf (''nats: '' @ errorText err) [err]))
           | Inr p \<Rightarrow> Inr \<lparr>wkConfig = c, wkPublisher = ToNATS p, wkConsumer = Some (NewConsumer (NATS c)), wkBatchSize = relay'\<rparr>)))))"

text \<open>The rest of \<open>run\<close>: the goroutines in the order in which they end, each with what it returned
  (\<^const>\<open>None\<close> for one that still runs). It waits for all of them and then returns the first error
  sent.\<close>

fun firstError :: "(string \<times> goerr option option) list \<Rightarrow> goerr option" where
  "firstError [] = None"
| "firstError ((name, Some (Some err)) # rs) = Some (Errorf (name @ '': '' @ errorText err) [err])"
| "firstError (_ # rs) = firstError rs"

definition waitWorker :: "(string \<times> goerr option option) list \<Rightarrow> goerr option option" where
  "waitWorker rs = (if list_ex (\<lambda>r. snd r = None) rs then None else Some (firstError rs))"

section \<open>Pruning\<close>

text \<open>\<open>run\<close> of \<open>cmd/prune\<close>, after the database answered: the error it exits with, the counts it
  prints and the tables.\<close>

definition pruneCmd :: "AppConfig \<Rightarrow> bool \<Rightarrow> prune_env \<Rightarrow> prune_env \<Rightarrow> int \<Rightarrow> outboxRow list \<times> processedRow list
    \<Rightarrow> (goerr option \<times> PruneResult \<times> outboxRow list \<times> processedRow list) option" where
  "pruneCmd c dryRun env1 env2 now s = (let r = Retention c in
     if dryRun then Some (None, Eligible now (rtOutbox r) (rtProcessedEvents r) s, s)
     else (case Prune (nat (NewPruner (rtBatchSize r))) env1 env2 now (rtOutbox r) (rtProcessedEvents r) s of
         None \<Rightarrow> None
       | Some ((result, None), s') \<Rightarrow> Some (None, result, s')
       | Some ((result, Some err), s') \<Rightarrow>
           Some (if errorsIs err ContextCanceled then None
             else if errorsIs err ContextDeadlineExceeded then
               Some (Errorf (''prune did not finish within its deadline; the backlog is growing ''
                 @ ''faster than this schedule clears it -- run it more often or raise ''
                 @ ''RETENTION_BATCH_SIZE (deleted '' @ show_nat (prOutbox result) @ '' outbox and ''
                 @ show_nat (prProcessedEvents result) @ '' processed_events rows): '' @ errorText err) [err])
             else Some err, result, s')))"

text \<open>Deliveries to the projection and prune runs, one after the other: what each returned and the
  tables.\<close>

datatype op = Deliver projEnv BusEvent | PruneRun prune_env prune_env int

fun opTime :: "op \<Rightarrow> int" where
  "opTime (Deliver pe e) = pjNow pe"
| "opTime (PruneRun env1 env2 now) = now"

fun runOp :: "(string \<Rightarrow> Order res) \<Rightarrow> AppConfig \<Rightarrow> op \<Rightarrow> outboxRow list \<times> projDB \<Rightarrow> (goerr option \<times> outboxRow list \<times> projDB) option" where
  "runOp decode c (Deliver pe e) s =
     (let (err, db) = Handle decode (natsConsumer (NATS c)) pe e (snd s) in Some (err, fst s, db))"
| "runOp decode c (PruneRun env1 env2 now) s =
     (case pruneCmd c False env1 env2 now (fst s, processedEvents (snd s)) of
        None \<Rightarrow> None
      | Some (err, result, t, p) \<Rightarrow> Some (err, t, (snd s)\<lparr>processedEvents := p\<rparr>))"

fun runOps :: "(string \<Rightarrow> Order res) \<Rightarrow> AppConfig \<Rightarrow> op list \<Rightarrow> outboxRow list \<times> projDB
    \<Rightarrow> (goerr option list \<times> outboxRow list \<times> projDB) option" where
  "runOps decode c [] s = Some ([], s)"
| "runOps decode c (x # ops) s = (case runOp decode c x s of
     None \<Rightarrow> None
   | Some (err, s1) \<Rightarrow> (case runOps decode c ops s1 of None \<Rightarrow> None | Some (errs', s2) \<Rightarrow> Some (err # errs', s2)))"

fun delivered :: "op list \<Rightarrow> BusEvent set" where
  "delivered [] = {}"
| "delivered (Deliver pe e # ops) = insert e (delivered ops)"
| "delivered (PruneRun env1 env2 now # ops) = delivered ops"

text \<open>The broker delivers a copy of a message while it keeps it: from when it was stored until the
  stream's maximal age has passed. There can be several copies of one event, \<open>copies\<close> being the times at
  which they were stored: the relay publishes again what it could not mark, and outside the
  duplicate window JetStream stores that again.\<close>

fun whileKept :: "(string \<Rightarrow> int set) \<Rightarrow> int \<Rightarrow> op \<Rightarrow> bool" where
  "whileKept copies age (Deliver pe e) \<longleftrightarrow> (\<exists>b \<in> copies (evID e). b \<le> pjNow pe \<and> pjNow pe \<le> b + age)"
| "whileKept copies age (PruneRun env1 env2 now) \<longleftrightarrow> True"

text \<open>The copies of an event are stored close enough together: by how much the deduplication rows are
  kept longer than the stream keeps messages.\<close>

definition copiesClose :: "(string \<Rightarrow> int set) \<Rightarrow> AppConfig \<Rightarrow> bool" where
  "copiesClose copies c \<longleftrightarrow> (\<forall>i. \<forall>b \<in> copies i. \<forall>b' \<in> copies i.
     b' \<noteq> b \<longrightarrow> b' - b \<le> rtProcessedEvents (Retention c) - StreamMaxAge (NATS c))"

section \<open>Lemmas\<close>

lemma has_prefix_append: "has_prefix (p @ r) p"
  by (induction p) simp_all

lemma split_on_prefix: "split_on d s = split_on d p @ us \<Longrightarrow> s = p \<or> (\<exists>r. s = p @ d # r)"
proof (induction p arbitrary: s)
  case Nil
  then show ?case by (cases s) (auto split: if_splits list.splits)
next
  case (Cons x xs)
  obtain t ts where t: "split_on d xs = t # ts" using split_on_nonempty [of d xs] by (cases "split_on d xs") auto
  show ?case
  proof (cases s)
    case Nil
    then show ?thesis using Cons.prems t by (auto split: if_splits)
  next
    case (Cons y ys)
    obtain u us' where u: "split_on d ys = u # us'" using split_on_nonempty [of d ys] by (cases "split_on d ys") auto
    have "split_on d ys = split_on d xs @ us \<and> y = x" using Cons.prems t u Cons by (auto split: if_splits)
    with Cons.IH [of ys] Cons show ?thesis by auto
  qed
qed

lemma prefixed_tokens: "split_on (CHR ''.'') s = split_on (CHR ''.'') p @ us \<Longrightarrow> prefixed s p"
  using split_on_prefix [of "CHR ''.''" s p us] has_prefix_append [of "p @ ''.''"] by (auto simp: prefixed_def)

text \<open>A prune run: it returns, and only rows past the retention are gone.\<close>

lemma pruneCmd_run:
  assumes "ParseFor vars role = Inr c"
  shows "\<exists>err res t' p'. pruneCmd c False env1 env2 now (t, p) = Some (err, res, t', p') \<and> set p' \<subseteq> set p
    \<and> (\<forall>r \<in> set p. r \<notin> set p' \<longrightarrow> ProcessedAt r < now - rtProcessedEvents (Retention c))"
proof -
  let ?R = "rtProcessedEvents (Retention c)" and ?q = "\<lambda>r. \<not> ProcessedAt r < now - rtProcessedEvents (Retention c)"
  obtain k1 e1 t' k2 e2 p' where run: "Prune (nat (NewPruner (rtBatchSize (Retention c)))) env1 env2 now (rtOutbox (Retention c)) ?R (t, p)
      = (case e1 of
       None \<Rightarrow> Some ((\<lparr>prOutbox = k1, prProcessedEvents = k2\<rparr>, e2), t', p')
     | Some err \<Rightarrow> Some ((\<lparr>prOutbox = k1, prProcessedEvents = 0\<rparr>, Some err), t', p))"
    and p': "filter ?q p' = filter ?q p" "set p' \<subseteq> set p"
    by (rule Prune_run [of "rtBatchSize (Retention c)" env1 env2 now "rtOutbox (Retention c)" ?R t p])
  have keep: "r \<in> set p'" if "r \<in> set p" "\<not> ProcessedAt r < now - ?R" for r
  proof -
    have "r \<in> set (filter ?q p')" unfolding p'(1) using that by simp
    then show ?thesis by simp
  qed
  show ?thesis using p'(2) keep by (cases e1; cases e2) (auto simp: pruneCmd_def run Let_def)
qed

text \<open>
  Between two operations, with \<open>es\<close> the events counted so far: each was counted once and its row is
  still there unless the retention has passed since a copy was stored, and no row is older than every
  copy.
\<close>

definition kept_inv :: "(string \<Rightarrow> Order res) \<Rightarrow> AppConfig \<Rightarrow> (string \<Rightarrow> int set) \<Rightarrow> int \<Rightarrow> BusEvent list \<Rightarrow> projDB \<Rightarrow> bool" where
  "kept_inv decode c copies now es db \<longleftrightarrow> distinct (map evID es) \<and> counts_ok decode es (orderCounts db)
     \<and> (\<forall>e \<in> set es. (\<exists>r \<in> set (processedEvents db). pConsumer r = natsConsumer (NATS c) \<and> pMessageID r = evID e)
          \<or> (\<exists>b \<in> copies (evID e). b + rtProcessedEvents (Retention c) < now))
     \<and> (\<forall>r \<in> set (processedEvents db). pConsumer r = natsConsumer (NATS c) \<longrightarrow>
          pMessageID r \<in> evID ` set es \<and> (\<exists>b \<in> copies (pMessageID r). b \<le> ProcessedAt r))"

lemma kept_inv_later: "kept_inv decode c copies now es db \<Longrightarrow> now \<le> now' \<Longrightarrow> kept_inv decode c copies now' es db"
  unfolding kept_inv_def by force

lemma kept_inv_prune:
  assumes "kept_inv decode c copies now es db" "set p' \<subseteq> set (processedEvents db)"
    and "\<forall>r \<in> set (processedEvents db). r \<notin> set p' \<longrightarrow> ProcessedAt r < now - rtProcessedEvents (Retention c)"
  shows "kept_inv decode c copies now es (db\<lparr>processedEvents := p'\<rparr>)"
proof -
  let ?R = "rtProcessedEvents (Retention c)"
  have "(\<exists>r \<in> set p'. pConsumer r = natsConsumer (NATS c) \<and> pMessageID r = evID e) \<or> (\<exists>b \<in> copies (evID e). b + ?R < now)"
    if e: "e \<in> set es" for e
  proof (rule disjCI)
    assume old: "\<not> (\<exists>b \<in> copies (evID e). b + ?R < now)"
    then obtain r where r: "r \<in> set (processedEvents db)" "pConsumer r = natsConsumer (NATS c)" "pMessageID r = evID e"
      using assms(1) e unfolding kept_inv_def by blast
    then obtain b where "b \<in> copies (evID e)" "b \<le> ProcessedAt r" using assms(1) unfolding kept_inv_def by metis
    then have "r \<in> set p'" using assms(3) r(1) old by force
    then show "\<exists>r \<in> set p'. pConsumer r = natsConsumer (NATS c) \<and> pMessageID r = evID e" using r by blast
  qed
  then show ?thesis using assms(1,2) unfolding kept_inv_def by (simp add: subset_iff)
qed

text \<open>A copy that can still be delivered is not past the retention, counted from any copy.\<close>

lemma copy_not_past:
  assumes "ParseFor vars role = Inr c" "copiesClose copies c" "b \<in> copies i" "b' \<in> copies i" "now \<le> b' + StreamMaxAge (NATS c)"
  shows "now \<le> b + rtProcessedEvents (Retention c)"
proof -
  have "StreamMaxAge (NATS c) < rtProcessedEvents (Retention c)"
    using validateConfig_Nil(2) [OF ParseFor_Inr(3) [OF assms(1)]] by (auto simp: validateRetention_def Let_def)
  then show ?thesis using assms(2-5) unfolding copiesClose_def by (cases "b' = b") (simp, smt (verit))
qed

lemma kept_inv_deliver:
  assumes "kept_inv decode c copies (pjNow pe) es db" "whileKept copies (StreamMaxAge (NATS c)) (Deliver pe e)"
    and "ParseFor vars role = Inr c" "copiesClose copies c" and "Handle decode (natsConsumer (NATS c)) pe e db = (err, db')"
  shows "\<exists>new. kept_inv decode c copies (pjNow pe) (new @ es) db' \<and> set new \<subseteq> {e}
    \<and> (err = None \<longrightarrow> (\<exists>t. projects decode t e) \<longrightarrow> evID e \<in> evID ` set (new @ es))"
  using assms(5)
proof (cases rule: Handle_cases)
  case same
  have "evID e \<in> evID ` set es" if "err = None" "\<exists>t. projects decode t e"
    using same(2) [OF that] assms(1) unfolding kept_inv_def list_ex_iff by metis
  then show ?thesis using same(1) assms(1) by (intro exI [of _ "[]"]) auto
next
  case (applied t counts)
  have new: "evID e \<notin> evID ` set es"
  proof
    assume "evID e \<in> evID ` set es"
    then obtain x where x: "x \<in> set es" "evID x = evID e" by force
    obtain b where b: "b \<in> copies (evID e)" "b + rtProcessedEvents (Retention c) < pjNow pe"
      using assms(1) x applied(2) unfolding kept_inv_def list_ex_iff by metis
    obtain b' where "b' \<in> copies (evID e)" "pjNow pe \<le> b' + StreamMaxAge (NATS c)" using assms(2) by auto
    from copy_not_past [OF assms(3,4) b(1) this] b(2) show False by simp
  qed
  have "kept_inv decode c copies (pjNow pe) ([e] @ es) db'"
    using assms(1,2) new counts_ok_apply [OF _ applied(1,3)] unfolding kept_inv_def applied(4) by (auto simp: image_iff)
  then show ?thesis by (intro exI [of _ "[e]"]) simp
qed

lemma runOp_inv:
  assumes "ParseFor vars role = Inr c" "kept_inv decode c copies (opTime x) es (snd s)" "whileKept copies (StreamMaxAge (NATS c)) x"
    and "copiesClose copies c"
  shows "\<exists>err s' new. runOp decode c x s = Some (err, s') \<and> kept_inv decode c copies (opTime x) (new @ es) (snd s')
    \<and> set new \<subseteq> delivered [x]
    \<and> (\<forall>pe e. x = Deliver pe e \<longrightarrow> err = None \<longrightarrow> (\<exists>t. projects decode t e) \<longrightarrow> evID e \<in> evID ` set (new @ es))"
proof (cases x)
  case (Deliver pe e)
  obtain err db' where h: "Handle decode (natsConsumer (NATS c)) pe e (snd s) = (err, db')" by fastforce
  from kept_inv_deliver [OF _ _ assms(1,4) h, of es] assms(2,3) Deliver obtain new where
    "kept_inv decode c copies (pjNow pe) (new @ es) db'" "set new \<subseteq> {e}"
    "err = None \<longrightarrow> (\<exists>t. projects decode t e) \<longrightarrow> evID e \<in> evID ` set (new @ es)" by auto
  then show ?thesis using Deliver h by (intro exI [of _ err] exI [of _ "(fst s, db')"] exI [of _ new]) simp
next
  case (PruneRun env1 env2 now)
  obtain err res t' p' where p: "pruneCmd c False env1 env2 now (fst s, processedEvents (snd s)) = Some (err, res, t', p')"
      "set p' \<subseteq> set (processedEvents (snd s))"
      "\<forall>r \<in> set (processedEvents (snd s)). r \<notin> set p' \<longrightarrow> ProcessedAt r < now - rtProcessedEvents (Retention c)"
    using pruneCmd_run [OF assms(1), of env1 env2 now "fst s" "processedEvents (snd s)"] by blast
  have "kept_inv decode c copies now es (snd s\<lparr>processedEvents := p'\<rparr>)"
    using kept_inv_prune [OF _ p(2,3)] assms(2) PruneRun by simp
  then show ?thesis using PruneRun p(1)
    by (intro exI [of _ err] exI [of _ "(t', snd s\<lparr>processedEvents := p'\<rparr>)"] exI [of _ "[]"]) simp
qed

lemma delivered_Cons: "delivered (x # ops) = delivered [x] \<union> delivered ops"
  by (cases x) auto

lemma runOps_inv:
  assumes "ParseFor vars role = Inr c" "kept_inv decode c copies now es (snd s)" "sorted (now # map opTime ops)"
    and "list_all (whileKept copies (StreamMaxAge (NATS c))) ops" "copiesClose copies c"
  shows "\<exists>outs s' es'. runOps decode c ops s = Some (outs, s') \<and> length outs = length ops
    \<and> distinct (map evID (es' @ es)) \<and> counts_ok decode (es' @ es) (orderCounts (snd s')) \<and> set es' \<subseteq> delivered ops
    \<and> (\<forall>k < length ops. \<forall>pe e. ops ! k = Deliver pe e \<longrightarrow> outs ! k = None \<longrightarrow> (\<exists>t. projects decode t e) \<longrightarrow>
         evID e \<in> evID ` set (es' @ es))"
  using assms(2-4)
proof (induction ops arbitrary: now es s)
  case Nil
  then show ?case by (auto simp: kept_inv_def intro!: exI [of _ "[]"])
next
  case (Cons x ops)
  have k: "kept_inv decode c copies (opTime x) es (snd s)" using Cons.prems by (auto intro: kept_inv_later)
  obtain err s1 new where r: "runOp decode c x s = Some (err, s1)" "kept_inv decode c copies (opTime x) (new @ es) (snd s1)"
      "set new \<subseteq> delivered [x]"
      "\<forall>pe e. x = Deliver pe e \<longrightarrow> err = None \<longrightarrow> (\<exists>t. projects decode t e) \<longrightarrow> evID e \<in> evID ` set (new @ es)"
    using runOp_inv [OF assms(1) k _ assms(5)] Cons.prems(3) by auto
  obtain outs s' es' where i: "runOps decode c ops s1 = Some (outs, s')" "length outs = length ops"
      "distinct (map evID (es' @ new @ es))" "counts_ok decode (es' @ new @ es) (orderCounts (snd s'))" "set es' \<subseteq> delivered ops"
      "\<forall>k < length ops. \<forall>pe e. ops ! k = Deliver pe e \<longrightarrow> outs ! k = None \<longrightarrow> (\<exists>t. projects decode t e) \<longrightarrow>
         evID e \<in> evID ` set (es' @ new @ es)"
    using Cons.IH [OF r(2)] Cons.prems(2,3) by auto
  have all: "evID e \<in> evID ` set ((es' @ new) @ es)" if "k < length (x # ops)" "(x # ops) ! k = Deliver pe e"
      "(err # outs) ! k = None" "\<exists>t. projects decode t e" for k pe e
  proof (cases k)
    case 0
    then show ?thesis using r(4) that by auto
  next
    case (Suc j)
    then have "evID e \<in> evID ` set (es' @ new @ es)" using i(6) that by (metis Suc_less_eq length_Cons nth_Cons_Suc)
    then show ?thesis by simp
  qed
  show ?case
    using r(1,3) i(1-5) all delivered_Cons [of x ops]
    by (intro exI [of _ "err # outs"] exI [of _ s'] exI [of _ "es' @ new"]) auto
qed

lemma consistent_counted:
  assumes "consistentIDs A" "set es \<subseteq> A" "\<forall>e \<in> A. projects decode u e \<longrightarrow> evID e \<in> evID ` set es"
  shows "evID ` {e \<in> set es. projects decode u e} = evID ` {e \<in> A. projects decode u e}"
proof -
  have "\<exists>a \<in> set es. evID a = evID e \<and> projects decode u a" if e: "e \<in> A" "projects decode u e" for e
  proof -
    obtain a where a: "a \<in> set es" "evID a = evID e" using assms(3) e by force
    then show ?thesis using consistent_same(1) [OF assms(1) _ e(1) a(2)] assms(2) e(2) by blast
  qed
  then show ?thesis using assms(2) by (fastforce simp: image_iff)
qed

lemma finite_delivered: "finite (delivered ops)"
  by (induction ops rule: delivered.induct) simp_all

lemma observerLoop_runs: "list_all (\<lambda>x. \<not> fst x) ticks \<Longrightarrow> fst (observerLoop ticks g) = None"
  by (induction ticks g rule: observerLoop.induct) simp_all

lemma waitWorker_running: "r \<in> set rs \<Longrightarrow> snd r = None \<Longrightarrow> waitWorker rs = None"
  by (auto simp: waitWorker_def list_ex_iff)

section \<open>Properties\<close>

text \<open>
  C16: Housekeeping never makes the read model count twice. With an accepted configuration, let
  deliveries to the projection (repeated, failing, in any order) be interleaved with runs of
  \<open>cmd/prune\<close>, each interrupted or failing anywhere, in the order of one clock. As long as the broker
  delivers a copy of a message only within the maximal age of its stream, and several copies of one event
  are stored no further apart than the retention of the deduplication rows exceeds that age, every
  run returns, the count of a tenant never exceeds the number of distinct creation events delivered
  for it, and it is that number once each of them has had one successful delivery.
\<close>

theorem pruning_never_recounts:
  assumes "ParseFor vars role = Inr c" "sorted (map opTime ops)"
    and "list_all (whileKept copies (StreamMaxAge (NATS c))) ops" "copiesClose copies c" "consistentIDs (delivered ops)"
  shows "\<exists>outs t' db n. runOps decode c ops (t, emptyProjection) = Some (outs, t', db) \<and> Count None u db = Inr n
    \<and> n \<le> int (card (evID ` {e \<in> delivered ops. projects decode u e}))
    \<and> ((\<forall>e \<in> delivered ops. projects decode u e \<longrightarrow>
          (\<exists>k < length ops. \<exists>pe e'. ops ! k = Deliver pe e' \<and> e' \<in> delivered ops \<and> evID e' = evID e \<and> outs ! k = None)) \<longrightarrow>
        n = int (card (evID ` {e \<in> delivered ops. projects decode u e})))"
proof -
  define now where "now = (if ops = [] then 0 else opTime (hd ops))"
  have start: "kept_inv decode c copies now [] (snd (t, emptyProjection))"
    by (simp add: kept_inv_def counts_ok_def emptyProjection_def)
  have "sorted (now # map opTime ops)" using assms(2) by (cases ops) (simp_all add: now_def)
  from runOps_inv [OF assms(1) start this assms(3,4)] obtain outs t' db es where
    r: "runOps decode c ops (t, emptyProjection) = Some (outs, t', db)" "distinct (map evID es)" "counts_ok decode es (orderCounts db)"
      "set es \<subseteq> delivered ops"
      "\<And>k pe e. k < length ops \<Longrightarrow> ops ! k = Deliver pe e \<Longrightarrow> outs ! k = None \<Longrightarrow> \<exists>t. projects decode t e \<Longrightarrow> evID e \<in> evID ` set es"
    by auto
  let ?A = "{e \<in> set es. projects decode u e}" and ?D = "{e \<in> delivered ops. projects decode u e}"
  have "card (evID ` ?A) \<le> card (evID ` ?D)" using r(4) finite_delivered [of ops] by (intro card_mono) auto
  moreover have "evID ` ?A = evID ` ?D"
    if ok: "\<forall>e \<in> delivered ops. projects decode u e \<longrightarrow>
      (\<exists>k < length ops. \<exists>pe e'. ops ! k = Deliver pe e' \<and> e' \<in> delivered ops \<and> evID e' = evID e \<and> outs ! k = None)"
  proof (rule consistent_counted [OF assms(5) r(4)], intro ballI impI)
    fix e assume e: "e \<in> delivered ops" "projects decode u e"
    then obtain k pe e' where k: "k < length ops" "ops ! k = Deliver pe e'" "e' \<in> delivered ops" "evID e' = evID e" "outs ! k = None"
      using ok by blast
    then show "evID e \<in> evID ` set es" using r(5) consistent_same(1) [OF assms(5) k(3) e(1) k(4)] e(2) by metis
  qed
  moreover have "Count None u db = Inr (countOf u db)" by (simp add: Count_def countOf_def split: option.splits)
  ultimately show ?thesis using r(1) counted [OF r(3,2), of u] by auto
qed

text \<open>
  C24: The consumer never reads its own dead letters. With an accepted configuration whose subject
  prefix is not inside the dead-letter prefix, whatever the handler does with a message that the
  consumer's filter selects, a dead-letter copy of it has a subject of the stream and is not
  selected by the filter.
\<close>

theorem dead_letters_never_consumed:
  assumes "ParseFor vars role = Inr c" "natsURL (NATS c) \<noteq> []" "filter_ok mtch"
    and "\<not> prefixed (natsSubjectPrefix (NATS c)) (natsDLQSubjectPrefix (NATS c))"
    and "mtch (kFilterSubject (consumerConfigOf (NATS c))) (nSubject m)"
    and "dispatch T (NewConsumer (NATS c)) handler copied m mdo s = (acts, s')" "PublishCopy copy \<in> set acts"
  shows "\<not> mtch (kFilterSubject (consumerConfigOf (NATS c))) (nSubject copy)
    \<and> (\<exists>p \<in> set (sSubjects (fst (EnsureStream fault (NATS c)))). mtch p (nSubject copy))"
proof -
  let ?n = "NATS c" and ?d = "CHR ''.''"
  have v: "validateNATS c = []" by (rule validateConfig_Nil(6) [OF ParseFor_Inr(3) [OF assms(1)]])
  have plain: "\<not> ContainsAny (natsSubjectPrefix ?n) ''*>''" "\<not> ContainsAny (natsDLQSubjectPrefix ?n) ''*>''"
      and nest: "\<not> prefixed (natsDLQSubjectPrefix ?n) (natsSubjectPrefix ?n)"
    using v assms(2) by (auto simp: validateNATS_def validateName_def ContainsAny_def list_ex_iff Let_def split: if_splits)
  obtain rest where rest: "split_on ?d (nSubject m) = split_on ?d (natsSubjectPrefix ?n) @ rest"
    using assms(3,5) plain(1) unfolding filter_ok_def consumerConfigOf_def by auto
  have "nSubject copy = natsDLQSubjectPrefix ?n @ ''.'' @ nSubject m"
    using assms(6,7) by (auto simp: dispatch_def deadLetter_def dlqMessage_def NewConsumer_def Let_def split: option.splits prod.splits if_splits)
  then have copy: "split_on ?d (nSubject copy) = split_on ?d (natsDLQSubjectPrefix ?n) @ split_on ?d (nSubject m)"
    using split_on_append [of ?d "natsDLQSubjectPrefix ?n" "nSubject m"] by simp
  have "\<not> mtch (natsSubjectPrefix ?n @ ''.>'') (nSubject copy)"
  proof
    assume "mtch (natsSubjectPrefix ?n @ ''.>'') (nSubject copy)"
    then obtain r where "split_on ?d (nSubject copy) = split_on ?d (natsSubjectPrefix ?n) @ r"
      using assms(3) plain(1) unfolding filter_ok_def by blast
    then have "split_on ?d (natsDLQSubjectPrefix ?n) @ split_on ?d (nSubject m) = split_on ?d (natsSubjectPrefix ?n) @ r"
      using copy by simp
    then have "(\<exists>us. split_on ?d (natsDLQSubjectPrefix ?n) = split_on ?d (natsSubjectPrefix ?n) @ us)
        \<or> (\<exists>us. split_on ?d (natsSubjectPrefix ?n) = split_on ?d (natsDLQSubjectPrefix ?n) @ us)"
      by (metis append_eq_append_conv2)
    then show False using nest assms(4) prefixed_tokens by blast
  qed
  moreover have "mtch (natsDLQSubjectPrefix ?n @ ''.>'') (nSubject copy)"
    using assms(3) plain(2) copy split_on_nonempty [of ?d "nSubject m"] unfolding filter_ok_def by blast
  ultimately show ?thesis by (simp add: consumerConfigOf_def EnsureStream_def)
qed

text \<open>
  A worker outlives its relay. When one publish of a started worker times out, the relay returns
  nil with the row still waiting, and as long as the process is not told to stop, the worker keeps
  waiting for its observer: the process stays up, reports nothing and publishes nothing any more.
  The same wait hides whatever error the consumer returned.
\<close>

theorem worker_outlives_its_relay:
  assumes "startWorker we osEnviron = Inr w" "wkPublisher w = ToNATS p"
    and "healthy de" "claimSQL (nat (wkBatchSize w)) locked t = m # ms" "Subject (pubPrefix p) (mEventType m) = Inr subject"
    and "js (natsMessage T p subject m) b = (Inl (Sentinel ContextDeadlineExceeded), b')"
    and "list_all (\<lambda>x. \<not> fst x) oticks"
  shows "Run (Publish T js p) (nat (wkBatchSize w)) (PollInterval (OutboxCfg (wkConfig w))) ((False, de, locked) # ticks) (t, b)
      = (Some None, [], t, b')
    \<and> (\<forall>rs. set rs = {(''relay'', Some None), (''observer'', fst (ObserverRun first oticks g)), (''consumer'', r)} \<longrightarrow> waitWorker rs = None)"
proof -
  have "Publish T js p m b = (Some (Sentinel ContextDeadlineExceeded), b')"
    using assms(5,6) by (simp add: Publish_def classifyPublish_def)
  then have run: "Run (Publish T js p) (nat (wkBatchSize w)) (PollInterval (OutboxCfg (wkConfig w))) ((False, de, locked) # ticks) (t, b)
      = (Some None, [], t, b')"
    using assms(3,4) by (simp add: DrainOnce_def healthy_def Let_def)
  have "fst (ObserverRun first oticks g) = None" using assms(7) by (simp add: ObserverRun_def observerLoop_runs)
  then have "waitWorker rs = None" if "set rs = {(''relay'', Some None), (''observer'', fst (ObserverRun first oticks g)), (''consumer'', r)}" for rs
    using waitWorker_running [of "(''observer'', fst (ObserverRun first oticks g))" rs] unfolding that by simp
  with run show ?thesis by blast
qed

text \<open>Sample runs: the default settings with a prune run between two deliveries of one message; a
  broker that matches filters ending in \<open>>\<close>; and a worker whose broker does not answer in time.\<close>

lemma default_ages: "case ParseFor [] RoleServer of Inl _ \<Rightarrow> False
    | Inr c \<Rightarrow> StreamMaxAge (NATS c) = 168 * hours \<and> rtProcessedEvents (Retention c) = 192 * hours"
  by code_simp

theorem pruning_never_recounts_witness:
  "\<exists>c outs t db n. ParseFor [] RoleServer = Inr c \<and> Count None ''acme'' db = Inr n \<and> n \<le> 1
     \<and> runOps (\<lambda>_. Inr sampleOrder) c [Deliver lostReply sampleEvent, PruneRun (\<lambda>_. (None, None, None)) (\<lambda>_. (None, None, None)) (200 * minutes),
          Deliver (calmProj\<lparr>pjNow := 170 * hours\<rparr>) sampleEvent] ([], emptyProjection) = Some (outs, t, db)"
proof -
  obtain c where c: "ParseFor [] RoleServer = Inr c" "StreamMaxAge (NATS c) = 168 * hours" "rtProcessedEvents (Retention c) = 192 * hours"
    using default_ages by (auto split: sum.splits)
  let ?dec = "\<lambda>_. Inr sampleOrder" and ?ops = "[Deliver lostReply sampleEvent, PruneRun (\<lambda>_. (None, None, None)) (\<lambda>_. (None, None, None)) (200 * minutes),
          Deliver (calmProj\<lparr>pjNow := 170 * hours\<rparr>) sampleEvent]"
  have "sorted (map opTime ?ops)" "list_all (whileKept (\<lambda>_. {0, 3 * hours}) (StreamMaxAge (NATS c))) ?ops"
      "copiesClose (\<lambda>_. {0, 3 * hours}) c"
    by (simp_all add: c(2,3) lostReply_def calmProj_def copiesClose_def)
  moreover have "consistentIDs (delivered ?ops)" by (simp add: consistentIDs_def)
  ultimately obtain outs t db n where r: "runOps ?dec c ?ops ([], emptyProjection) = Some (outs, t, db)" "Count None ''acme'' db = Inr n"
      "n \<le> int (card (evID ` {e \<in> delivered ?ops. projects ?dec ''acme'' e}))"
    using pruning_never_recounts [OF c(1), of ?ops "\<lambda>_. {0, 3 * hours}" ?dec "[]" "''acme''"] by blast
  have "evID ` {e \<in> delivered ?ops. projects ?dec ''acme'' e} \<subseteq> {evID sampleEvent}" by auto
  then have "card (evID ` {e \<in> delivered ?ops. projects ?dec ''acme'' e}) \<le> card {evID sampleEvent}" by (intro card_mono) simp_all
  then have "n \<le> 1" using r(3) by simp
  with c(1) r(1,2) show ?thesis by blast
qed

text \<open>The retention is counted from one copy. With the default settings a copy of the event that the relay
  publishes again after more than a day finds the deduplication row pruned and is counted a second
  time.\<close>

declare deleteInBatches.simps [code]

theorem late_copy_counts_twice:
  "case ParseFor [] RoleServer of Inl _ \<Rightarrow> False
   | Inr c \<Rightarrow> (case runOps (\<lambda>_. Inr sampleOrder) c [Deliver calmProj sampleEvent, PruneRun (\<lambda>_. (None, None, None)) (\<lambda>_. (None, None, None)) (193 * hours),
          Deliver (calmProj\<lparr>pjNow := 194 * hours\<rparr>) sampleEvent] ([], emptyProjection) of
       None \<Rightarrow> False | Some (outs, t, db) \<Rightarrow> outs = [None, None, None] \<and> Count None ''acme'' db = Inr 2)"
  by code_simp

definition tailMatch :: "string \<Rightarrow> string \<Rightarrow> bool" where
  "tailMatch f s = (let fs = split_on (CHR ''.'') f; ss = split_on (CHR ''.'') s
     in last fs = ''>'' \<and> length fs \<le> length ss \<and> take (length fs - 1) ss = butlast fs)"

lemma tailMatch_ok: "filter_ok tailMatch"
proof -
  have "tailMatch (p @ ''.>'') s \<longleftrightarrow> (\<exists>rest. rest \<noteq> [] \<and> split_on (CHR ''.'') s = split_on (CHR ''.'') p @ rest)" for p s
  proof -
    let ?ss = "split_on (CHR ''.'') s" and ?ps = "split_on (CHR ''.'') p"
    have "tailMatch (p @ ''.>'') s \<longleftrightarrow> length ?ps < length ?ss \<and> take (length ?ps) ?ss = ?ps"
      using split_on_append [of "CHR ''.''" p "''>''"] by (auto simp: tailMatch_def Let_def)
    also have "\<dots> \<longleftrightarrow> (\<exists>rest. rest \<noteq> [] \<and> ?ss = ?ps @ rest)" by (metis append_eq_conv_conj append_take_drop_id drop_eq_Nil not_less)
    finally show ?thesis .
  qed
  then show ?thesis by (simp add: filter_ok_def)
qed

definition natsSettings :: "(string \<times> string) list" where
  "natsSettings = [(''NATS_URL'', ''nats://n''), (''NATS_SUBJECT_PREFIX'', ''events''), (''NATS_DLQ_SUBJECT_PREFIX'', ''dlq'')]"

lemma nats_accepted:
  "case ParseFor natsSettings RoleServer of Inl _ \<Rightarrow> False
   | Inr c \<Rightarrow> natsURL (NATS c) \<noteq> [] \<and> natsSubjectPrefix (NATS c) = ''events'' \<and> natsDLQSubjectPrefix (NATS c) = ''dlq''"
  by code_simp

theorem dead_letters_never_consumed_witness:
  "\<exists>c copy. ParseFor natsSettings RoleServer = Inr c
     \<and> fst (dispatch sampleTime (NewConsumer (NATS c)) (\<lambda>e s. (Some (PermanentErr (Plain ''bad'')), s)) True
          \<lparr>nSubject = ''events.order'', nHeader = [], nData = []\<rparr> (Some (oddMeta 1)) ()) = [PublishCopy copy, TermWithReason ''bad'']
     \<and> nSubject copy = ''dlq.events.order'' \<and> \<not> tailMatch (kFilterSubject (consumerConfigOf (NATS c))) (nSubject copy)"
proof -
  obtain c where c: "ParseFor natsSettings RoleServer = Inr c" "natsURL (NATS c) \<noteq> []" "natsSubjectPrefix (NATS c) = ''events''"
      "natsDLQSubjectPrefix (NATS c) = ''dlq''"
    using nats_accepted by (auto split: sum.splits)
  let ?m = "\<lparr>nSubject = ''events.order'', nHeader = [], nData = []\<rparr>" and ?h = "\<lambda>e s. (Some (PermanentErr (Plain ''bad'')), s)"
  obtain copy where d: "dispatch sampleTime (NewConsumer (NATS c)) ?h True ?m (Some (oddMeta 1)) () = ([PublishCopy copy, TermWithReason ''bad''], ())"
      "nSubject copy = ''dlq.events.order''"
    by (simp add: dispatch_def deadLetter_def dlqMessage_def NewConsumer_def c(4) truncateText_def Let_def)
  have "\<not> prefixed (natsSubjectPrefix (NATS c)) (natsDLQSubjectPrefix (NATS c))"
    "tailMatch (kFilterSubject (consumerConfigOf (NATS c))) (nSubject ?m)"
    unfolding c(3,4) consumerConfigOf_def by code_simp+
  from dead_letters_never_consumed [OF c(1,2) tailMatch_ok this d(1)] show ?thesis using c(1) d by auto
qed

text \<open>The precondition on the prefixes is not checked: \<open>dlq.dlq\<close> for the events beside \<open>dlq\<close>
  for the dead letters is accepted, and then every dead letter is selected again.\<close>

lemma nested_accepted:
  "case ParseFor [(''NATS_URL'', ''nats://n''), (''NATS_SUBJECT_PREFIX'', ''dlq.dlq''), (''NATS_DLQ_SUBJECT_PREFIX'', ''dlq'')] RoleServer of
     Inl _ \<Rightarrow> False | Inr c \<Rightarrow> natsSubjectPrefix (NATS c) = ''dlq.dlq'' \<and> natsDLQSubjectPrefix (NATS c) = ''dlq''"
  by code_simp

theorem nested_dead_letters_loop:
  "\<exists>c. ParseFor [(''NATS_URL'', ''nats://n''), (''NATS_SUBJECT_PREFIX'', ''dlq.dlq''), (''NATS_DLQ_SUBJECT_PREFIX'', ''dlq'')] RoleServer = Inr c
     \<and> (\<forall>mtch m e cause. filter_ok mtch \<longrightarrow> mtch (kFilterSubject (consumerConfigOf (NATS c))) (nSubject m) \<longrightarrow>
          mtch (kFilterSubject (consumerConfigOf (NATS c))) (nSubject (dlqMessage (NewConsumer (NATS c)) m e cause)))"
proof -
  obtain c where c: "ParseFor [(''NATS_URL'', ''nats://n''), (''NATS_SUBJECT_PREFIX'', ''dlq.dlq''), (''NATS_DLQ_SUBJECT_PREFIX'', ''dlq'')] RoleServer = Inr c"
      "natsSubjectPrefix (NATS c) = ''dlq.dlq''" "natsDLQSubjectPrefix (NATS c) = ''dlq''"
    using nested_accepted by (auto split: sum.splits)
  have plain: "\<not> ContainsAny ''dlq.dlq'' ''*>''" and two: "split_on (CHR ''.'') ''dlq.dlq'' = [''dlq'', ''dlq'']" by code_simp+
  have "mtch (kFilterSubject (consumerConfigOf (NATS c))) (nSubject (dlqMessage (NewConsumer (NATS c)) m e cause))"
    if f: "filter_ok mtch" and m: "mtch (kFilterSubject (consumerConfigOf (NATS c))) (nSubject m)" for mtch m e cause
  proof -
    have sel: "mtch (''dlq.dlq'' @ ''.>'') s \<longleftrightarrow> (\<exists>rest. rest \<noteq> [] \<and> split_on (CHR ''.'') s = [''dlq'', ''dlq''] @ rest)" for s
      using f plain unfolding filter_ok_def two [symmetric] by blast
    obtain rest where "split_on (CHR ''.'') (nSubject m) = [''dlq'', ''dlq''] @ rest"
      using m sel [of "nSubject m"] unfolding consumerConfigOf_def c(2) by auto
    then have "split_on (CHR ''.'') (''dlq'' @ ''.'' @ nSubject m) = [''dlq'', ''dlq''] @ ''dlq'' # rest"
      using split_on_append [of "CHR ''.''" "''dlq''" "nSubject m"] by simp
    then have "mtch (''dlq.dlq'' @ ''.>'') (''dlq'' @ ''.'' @ nSubject m)" unfolding sel by blast
    then show ?thesis by (simp add: consumerConfigOf_def c(2,3) dlqMessage_def NewConsumer_def Let_def)
  qed
  with c(1) show ?thesis by blast
qed

definition calmWorker :: workerEnv where
  "calmWorker = \<lparr>weOpen = None, wePing = None, weNATS = \<lparr>neConnect = None, neJetStream = None, neStream = None\<rparr>\<rparr>"

definition calmObserver :: obsEnv where
  "calmObserver = \<lparr>oePending = None, oeQuarantined = None, oeOldest = None, oeNow = 0, oeCtxDone = False\<rparr>"

lemma sample_worker:
  "case startWorker calmWorker [''POSTGRES_DSN=x'', ''NATS_URL=nats://n''] of Inl _ \<Rightarrow> False
   | Inr w \<Rightarrow> wkBatchSize w = 100 \<and> wkPublisher w = ToNATS \<lparr>pubPrefix = ''events'', pubService = ''orderd''\<rparr>"
  by code_simp

theorem worker_outlives_its_relay_witness:
  "\<exists>w. startWorker calmWorker [''POSTGRES_DSN=x'', ''NATS_URL=nats://n''] = Inr w
     \<and> Run (Publish sampleTime (\<lambda>m b. (Inl (Sentinel ContextDeadlineExceeded), b)) \<lparr>pubPrefix = ''events'', pubService = ''orderd''\<rparr>)
         (nat (wkBatchSize w)) (PollInterval (OutboxCfg (wkConfig w))) [(False, calmEnv, {}), (False, calmEnv, {})] (tbl sampleSystem, [])
       = (Some None, [], tbl sampleSystem, ([] :: natsmsg list))
     \<and> waitWorker [(''consumer'', Some (Some (Plain ''consumer deleted''))), (''relay'', Some None),
         (''observer'', fst (ObserverRun (calmObserver, []) [(False, calmObserver, [])]
            \<lparr>gPending = 0, gQuarantined = 0, gOldest = 0, gFailures = 0, gLastObservation = 0\<rparr>))] = None"
proof -
  obtain w where w: "startWorker calmWorker [''POSTGRES_DSN=x'', ''NATS_URL=nats://n''] = Inr w" "wkBatchSize w = 100"
      "wkPublisher w = ToNATS \<lparr>pubPrefix = ''events'', pubService = ''orderd''\<rparr>"
    using sample_worker by (auto split: sum.splits)
  let ?js = "\<lambda>m b. (Inl (Sentinel ContextDeadlineExceeded), b :: natsmsg list)"
  have h: "healthy calmEnv" by (simp add: healthy_def calmEnv_def)
  have n: "claimSQL (nat (wkBatchSize w)) {} (tbl sampleSystem) = [sampleMsg]" using sample_claim w(2) by simp
  obtain sub where s: "Subject ''events'' (mEventType sampleMsg) = Inr sub"
    by (cases "Subject ''events'' (mEventType sampleMsg)") code_simp
  have s': "Subject (pubPrefix \<lparr>pubPrefix = ''events'', pubService = ''orderd''\<rparr>) (mEventType sampleMsg) = Inr sub" using s by simp
  have o: "list_all (\<lambda>x. \<not> fst x) [(False, calmObserver, [] :: outboxRow list)]" by simp
  let ?g = "\<lparr>gPending = 0, gQuarantined = 0, gOldest = 0, gFailures = 0, gLastObservation = 0\<rparr>"
  note end' = worker_outlives_its_relay [where js = ?js and b = "[]" and b' = "[]" and T = sampleTime and ticks = "[(False, calmEnv, {})]"
      and first = "(calmObserver, [])" and g = ?g and r = "Some (Some (Plain ''consumer deleted''))", OF w(1,3) h n s' refl o]
  have "waitWorker [(''consumer'', Some (Some (Plain ''consumer deleted''))), (''relay'', Some None),
      (''observer'', fst (ObserverRun (calmObserver, []) [(False, calmObserver, [])] ?g))] = None"
    using conjunct2 [OF end'] by (rule allE) (erule mp, unfold set_simps, blast)
  with conjunct1 [OF end'] w(1) show ?thesis by blast
qed

end
