(* ===== verification/Auth.thy ===== *)
theory Auth
  imports Errors
begin

text \<open>
  Caller identity (\<open>internal/platform/auth\<close>): the principal and the context that carries it
  (\<open>principal.go\<close>, \<open>dev.go\<close>), the authorisation policy (\<open>policy.go\<close>) and the
  translation of verified token claims into a principal (\<open>claims.go\<close>).
\<close>

section \<open>Principal\<close>

record Principal =
  Subject :: string
  pTenantID :: string
  Scopes :: "string list"
  IsService :: bool

fun HasScope :: "string list \<Rightarrow> string \<Rightarrow> bool" where
  "HasScope [] want = False"
| "HasScope (s # ss) want = (if s = want then True else HasScope ss want)"

text \<open>The part of a \<open>context.Context\<close> the request path reads: the verified principal under
  the unexported key, and the incoming metadata (lower-case keys).\<close>

record ctx =
  principal :: "Principal option"
  metadata :: "(string \<times> string list) list option"

definition WithPrincipal :: "ctx \<Rightarrow> Principal \<Rightarrow> ctx" where
  "WithPrincipal c p = c\<lparr>principal := Some p\<rparr>"

definition PrincipalFrom :: "ctx \<Rightarrow> Principal option" where
  "PrincipalFrom c = principal c"

definition TenantFrom :: "ctx \<Rightarrow> string option" where
  "TenantFrom c = (case PrincipalFrom c of
     None \<Rightarrow> None
   | Some p \<Rightarrow> if pTenantID p = [] then None else Some (pTenantID p))"

definition DevPrincipal :: Principal where
  "DevPrincipal = \<lparr>Subject = ''dev-user'', pTenantID = ''dev-tenant'',
     Scopes = [''orders:read'', ''orders:write''], IsService = False\<rparr>"

definition devVerify :: "string \<Rightarrow> Principal res" where
  "devVerify raw = Inr DevPrincipal"

section \<open>Policy\<close>

record Rule =
  Public :: bool
  ruleScopes :: "string list"

text \<open>\<open>map[string]Rule\<close>, in the order \<open>range\<close> visits it.\<close>

type_synonym Policy = "(string \<times> Rule) list"

fun join :: "string \<Rightarrow> string list \<Rightarrow> string" where
  "join sep [] = []"
| "join sep [x] = x"
| "join sep (x # xs) = x @ sep @ join sep xs"

definition Check :: "Policy \<Rightarrow> string \<Rightarrow> Principal \<Rightarrow> bool \<Rightarrow> goerr option" where
  "Check p method pr authenticated = (case map_of p method of
     None \<Rightarrow> Some (Errorf (''no policy entry for '' @ method) [])
   | Some rule \<Rightarrow>
       if Public rule then None
       else if \<not> authenticated then Some (Errorf (method @ '' requires authentication'') [])
       else (let missing = filter (\<lambda>want. \<not> HasScope (Scopes pr) want) (ruleScopes rule)
             in if missing \<noteq> []
                then Some (Errorf (method @ '' requires scope(s) '' @ join '', '' missing) [])
                else None))"

definition listLines :: "string list \<Rightarrow> string" where
  "listLines ms = concat (map (\<lambda>m. ''    '' @ m @ [CHR 0x0A]) ms)"

definition ValidateCoverage :: "Policy \<Rightarrow> string list \<Rightarrow> string list \<Rightarrow> goerr option" where
  "ValidateCoverage p served declared =
     (let uncovered = filter (\<lambda>m. map_of p m = None) served;
          known = served @ declared;
          stale = filter (\<lambda>m. m \<notin> set known) (map fst p)
      in if uncovered = [] \<and> stale = [] then None
         else (let uncovered = sort uncovered; stale = sort stale
               in Some (Errorf
                    (''authorisation policy does not match the served methods:'' @ [CHR 0x0A]
                     @ (if uncovered \<noteq> [] then
                          [CHR 0x0A] @ ''  served but NOT in the policy (these would be denied at runtime):'' @ [CHR 0x0A]
                          @ listLines uncovered
                          @ [CHR 0x0A] @ ''  Add a Rule for each in internal/grpcapi/policy.go. If an RPC really is'' @ [CHR 0x0A]
                          @ ''  unauthenticated, say so with Rule{Public: true} -- an explicit decision that'' @ [CHR 0x0A]
                          @ ''  shows up in review, rather than an omission that does not.'' @ [CHR 0x0A]
                        else [])
                     @ (if stale \<noteq> [] then
                          [CHR 0x0A] @ ''  in the policy and declared NOWHERE -- not served, and in no .proto'' @ [CHR 0x0A]
                          @ ''  (dead rules, almost certainly a rename):'' @ [CHR 0x0A] @ listLines stale
                        else [])) [])))"

text \<open>The descriptor registry: the package of each linked file, with its services by full name and
  their methods.\<close>

type_synonym registry = "(string \<times> (string \<times> string list) list) list"

definition MethodsInPackages :: "registry \<Rightarrow> string list \<Rightarrow> string list" where
  "MethodsInPackages files packages =
     sort (concat (map (\<lambda>(pkg, services). if pkg \<notin> set packages then []
       else concat (map (\<lambda>(svcName, ms). map (\<lambda>m. ''/'' @ svcName @ ''/'' @ m) ms) services)) files))"

section \<open>Claims\<close>

text \<open>What \<open>encoding/json\<close> decodes a claim to, and the \<open>[]string\<close> a test may put there.\<close>

datatype json = JNull | JBool bool | JNumber string | JString string | JArray "json list"
  | JObject "(string \<times> json) list" | JStrings "string list"

fun typeName :: "json \<Rightarrow> string" where
  "typeName JNull = ''<nil>''"
| "typeName (JBool _) = ''bool''"
| "typeName (JNumber _) = ''float64''"
| "typeName (JString _) = ''string''"
| "typeName (JArray _) = ''[]interface {}''"
| "typeName (JObject _) = ''map[string]interface {}''"
| "typeName (JStrings _) = ''[]string''"

fun walkPath :: "json \<Rightarrow> string list \<Rightarrow> json option" where
  "walkPath cur [] = Some cur"
| "walkPath cur (part # parts) = (case cur of
     JObject obj \<Rightarrow> (case map_of obj part of None \<Rightarrow> None | Some v \<Rightarrow> walkPath v parts)
   | _ \<Rightarrow> None)"

definition lookupClaim :: "(string \<times> json) list \<Rightarrow> string \<Rightarrow> json option" where
  "lookupClaim claims path =
     (if path = [] then None
      else (case map_of claims path of
          Some v \<Rightarrow> Some v
        | None \<Rightarrow>
            (let parts = split_on (CHR ''.'') path
             in if length parts = 1 then None else walkPath (JObject claims) parts)))"

definition stringClaim :: "(string \<times> json) list \<Rightarrow> string \<Rightarrow> string res" where
  "stringClaim claims path = (case lookupClaim claims path of
     None \<Rightarrow> Inl (Errorf ''claim not present'' [])
   | Some raw \<Rightarrow> (case raw of
       JString s \<Rightarrow> if trim_space s = [] then Inl (Errorf ''claim is empty'' []) else Inr s
     | _ \<Rightarrow> Inl (Errorf (''claim is '' @ typeName raw @ '', want string'') [])))"

definition scopesClaim :: "(string \<times> json) list \<Rightarrow> string \<Rightarrow> string list" where
  "scopesClaim claims path = (case lookupClaim claims path of
     None \<Rightarrow> []
   | Some raw \<Rightarrow> (case raw of
       JString v \<Rightarrow> str_fields v
     | JStrings v \<Rightarrow> v
     | JArray v \<Rightarrow> concat (map (\<lambda>item. case item of JString s \<Rightarrow> if s \<noteq> [] then [s] else [] | _ \<Rightarrow> []) v)
     | _ \<Rightarrow> []))"

definition ServiceTokenValue :: string where
  "ServiceTokenValue = ''service''"

definition isServiceToken :: "(string \<times> json) list \<Rightarrow> string \<Rightarrow> string \<Rightarrow> bool" where
  "isServiceToken claims sub serviceClaim =
     (if list_ex (\<lambda>key. case map_of claims key of Some (JString i) \<Rightarrow> i \<noteq> [] \<and> i = sub | _ \<Rightarrow> False)
           [''client_id'', ''azp''] then True
      else if serviceClaim = [] then False
      else (case stringClaim claims serviceClaim of Inl _ \<Rightarrow> False | Inr val \<Rightarrow> val = ServiceTokenValue))"

record claim_options =
  TenantClaim :: string
  ScopeClaim :: string
  ServiceClaim :: string

definition principalFrom :: "claim_options \<Rightarrow> (string \<times> json) list \<Rightarrow> Principal res" where
  "principalFrom opts claims =
     (let sub = (case map_of claims ''sub'' of Some (JString s) \<Rightarrow> s | _ \<Rightarrow> [])
      in if sub = [] then
           Inl (Errorf (sentinel_text ErrInvalidToken @ '': token has no sub claim'') [Sentinel ErrInvalidToken])
         else (case stringClaim claims (TenantClaim opts) of
             Inl err \<Rightarrow> Inl (Errorf (sentinel_text ErrInvalidToken @ '': no tenant in claim '' @ quoted (TenantClaim opts)
               @ '' ('' @ errorText err @ ''). Add a protocol mapper that puts the tenant id in this claim, ''
               @ ''or set OIDC_TENANT_CLAIM to wherever your provider puts it'') [Sentinel ErrInvalidToken])
           | Inr tenant \<Rightarrow>
               Inr \<lparr>Subject = sub, pTenantID = tenant, Scopes = scopesClaim claims (ScopeClaim opts),
                    IsService = isServiceToken claims sub (ServiceClaim opts)\<rparr>))"

section \<open>Properties\<close>

lemma HasScope_iff: "HasScope ss want \<longleftrightarrow> want \<in> set ss"
  by (induction ss want rule: HasScope.induct) auto

text \<open>
  Authorisation is default-deny and needs every scope. A call passes \<open>Check\<close> exactly when the
  policy has a rule for the method and that rule is public or the caller is authenticated and
  holds all the rule's scopes.
\<close>

theorem policy_check_iff:
  "Check p method pr authenticated = None \<longleftrightarrow>
     (\<exists>rule. map_of p method = Some rule
        \<and> (Public rule \<or> (authenticated \<and> set (ruleScopes rule) \<subseteq> set (Scopes pr))))"
  by (auto simp: Check_def HasScope_iff filter_empty_conv Let_def split: option.splits)

text \<open>
  A server that starts has a complete policy and no dead rules. \<open>ValidateCoverage\<close> accepts
  exactly when every served method has a rule and every rule names a served or declared method; the
  verdict does not depend on the iteration order of the map or of the method lists.
\<close>

theorem coverage_iff:
  "ValidateCoverage p served declared = None \<longleftrightarrow>
     set served \<subseteq> dom (map_of p) \<and> dom (map_of p) \<subseteq> set served \<union> set declared"
proof -
  have "ValidateCoverage p served declared = None \<longleftrightarrow>
      filter (\<lambda>m. map_of p m = None) served = [] \<and> filter (\<lambda>m. m \<notin> set (served @ declared)) (map fst p) = []"
    by (simp add: ValidateCoverage_def Let_def)
  also have "\<dots> \<longleftrightarrow> set served \<subseteq> dom (map_of p) \<and> dom (map_of p) \<subseteq> set served \<union> set declared"
    by (auto simp: filter_empty_conv dom_map_of_conv_image_fst map_of_eq_None_iff)
  finally show ?thesis .
qed

lemma stringClaim_Inr: "stringClaim claims path = Inr s \<Longrightarrow>
  lookupClaim claims path = Some (JString s) \<and> trim_space s \<noteq> []"
  by (auto simp: stringClaim_def split: option.splits json.splits if_splits)

lemma trim_space_Nil: "trim_space [] = []"
  by (simp add: trim_space_def trim_left.simps [of "[]"] space_len_def)

text \<open>
  A verified token never yields a partial identity. When \<open>principalFrom\<close> returns a principal
  its subject is the token's non-empty \<open>sub\<close>, its tenant is exactly the configured claim and not
  blank, and its scopes are the ones the scope claim lists; otherwise the error is \<open>ErrInvalidToken\<close>.
\<close>

theorem principal_is_complete:
  "case principalFrom opts claims of
     Inl e \<Rightarrow> errorsIs e ErrInvalidToken
   | Inr p \<Rightarrow> map_of claims ''sub'' = Some (JString (Subject p)) \<and> Subject p \<noteq> []
       \<and> lookupClaim claims (TenantClaim opts) = Some (JString (pTenantID p)) \<and> trim_space (pTenantID p) \<noteq> []
       \<and> pTenantID p \<noteq> [] \<and> Scopes p = scopesClaim claims (ScopeClaim opts)"
  using trim_space_Nil
  by (auto simp: principalFrom_def Let_def split: option.splits json.splits sum.splits if_splits dest!: stringClaim_Inr)

lemma fields_from_nonblank: "\<lbrakk>f \<in> set (fields_from w s)\<rbrakk> \<Longrightarrow> f \<noteq> []"
  by (induction w s rule: fields_from.induct) (auto split: if_splits)

text \<open>
  Scopes are never invented. Every scope of a principal is a non-empty string that stands in
  the scope claim itself: a field of the string form or a string member of the array form. Claims of
  any other type, and array members that are not strings, grant nothing.
\<close>

theorem scopes_not_invented:
  "s \<in> set (scopesClaim claims path) \<longleftrightarrow>
     (\<exists>v. lookupClaim claims path = Some (JString v) \<and> s \<in> set (str_fields v) \<and> s \<noteq> [])
     \<or> (\<exists>v. lookupClaim claims path = Some (JArray v) \<and> JString s \<in> set v \<and> s \<noteq> [])
     \<or> (\<exists>v. lookupClaim claims path = Some (JStrings v) \<and> s \<in> set v)"
proof -
  have arr: "s \<in> set (concat (map (\<lambda>item. case item of JString s \<Rightarrow> if s \<noteq> [] then [s] else [] | _ \<Rightarrow> []) v))
      \<longleftrightarrow> JString s \<in> set v \<and> s \<noteq> []" for v
    by (induction v) (auto split: json.splits if_splits)
  have str: "s \<in> set (str_fields v) \<Longrightarrow> s \<noteq> []" for v
    using fields_from_nonblank by (auto simp: str_fields_def)
  show ?thesis
  proof (cases "lookupClaim claims path")
    case (Some raw)
    then show ?thesis
      using str by (cases raw) (auto simp only: scopesClaim_def arr option.case json.case option.inject json.inject json.distinct list.set empty_iff simp_thms)
  qed (simp add: scopesClaim_def)
qed

end
