(* ===== verification/Ratelimit.thy ===== *)
theory Ratelimit
  imports Errors
begin

text \<open>
  The distributed quota (\<open>internal/platform/ratelimit\<close>): configuration, the GCRA script with the
  Redis keys it reads and writes, and the limiter around it. Durations are \<open>int64\<close> nanoseconds.
  Redis is a map from keys to a value and the instant (in microseconds) at which its \<open>PX\<close>
  time-to-live removes it; the script's clock is Redis's, an argument. Lua numbers are doubles:
  the script adds, subtracts and compares integers, exact below \<open>2^53\<close>.
\<close>

section \<open>Configuration\<close>

record Config =
  Limit :: int
  Period :: int
  Burst :: int

record Result =
  Allowed :: bool
  RetryAfter :: int
  Remaining :: int

definition EmissionInterval :: "Config \<Rightarrow> int" where
  "EmissionInterval c = (if Limit c \<le> 0 then 0 else Period c sdiv Limit c)"

definition DelayTolerance :: "Config \<Rightarrow> int" where
  "DelayTolerance c = wrap64 (EmissionInterval c * Burst c)"

definition Microseconds :: "int \<Rightarrow> int" where
  "Microseconds d = d sdiv 1000"

definition allowAll :: Result where
  "allowAll = \<lparr>Allowed = True, RetryAfter = 0, Remaining = - 1\<rparr>"

record RedisLimiter =
  cfg :: Config
  emissionUS :: int
  toleranceUS :: int

text \<open>\<open>%s\<close> of a \<open>time.Duration\<close> appears in the text of one error; it is left open.\<close>

definition NewRedis :: "(int \<Rightarrow> string) \<Rightarrow> Config \<Rightarrow> RedisLimiter res" where
  "NewRedis showDuration c =
     (if Limit c \<le> 0 then Inl (Errorf (''rate limit must be positive, got '' @ show_int (Limit c)) [])
      else if Period c \<le> 0 then Inl (Errorf (''rate limit period must be positive, got '' @ showDuration (Period c)) [])
      else if Burst c \<le> 0 then Inl (Errorf (''rate limit burst must be positive, got '' @ show_int (Burst c)) [])
      else Inr \<lparr>cfg = c, emissionUS = Microseconds (EmissionInterval c),
                toleranceUS = Microseconds (DelayTolerance c)\<rparr>)"

section \<open>The script\<close>

type_synonym redis = "string \<Rightarrow> (int \<times> int) option"

definition redisGet :: "int \<Rightarrow> redis \<Rightarrow> string \<Rightarrow> int option" where
  "redisGet now_us db key = (case db key of
     None \<Rightarrow> None
   | Some (v, expires) \<Rightarrow> if now_us < expires then Some v else None)"

definition ceilDiv :: "int \<Rightarrow> int \<Rightarrow> int" where
  "ceilDiv a b = - ((- a) div b)"

text \<open>
  One run of \<open>gcraScript\<close>: the reply (allowed, retry in microseconds, remaining) and the
  database after it. With \<open>emission_us = 0\<close> the last division is not finite, and what Redis
  replies for such a number is the argument \<open>nonfinite\<close>.
\<close>

definition gcraScript :: "int \<Rightarrow> int \<Rightarrow> int \<Rightarrow> int \<Rightarrow> string \<Rightarrow> redis \<Rightarrow> (int \<times> int \<times> int) \<times> redis" where
  "gcraScript nonfinite emission_us tolerance_us now_us key db =
     (let tat = (case redisGet now_us db key of None \<Rightarrow> now_us | Some v \<Rightarrow> v);
          tat = (if tat < now_us then now_us else tat);
          new_tat = tat + emission_us;
          allow_at = new_tat - tolerance_us;
          diff = now_us - allow_at
      in if diff < 0 then ((0, - diff, 0), db)
         else (let ttl_ms = ceilDiv (new_tat - now_us) 1000;
                   ttl_ms = (if ttl_ms < 1 then 1 else ttl_ms)
               in ((1, 0, if emission_us = 0 then nonfinite else diff div emission_us),
                   db(key \<mapsto> (new_tat, now_us + ttl_ms * 1000)))))"

text \<open>What \<open>Run().Result()\<close> can hold in each slot of the reply; a \<open>float64\<close> by its integral part.\<close>

datatype luaval = VInt64 int | VInt int | VFloat int | VOther string

definition toInt64 :: "luaval \<Rightarrow> int res" where
  "toInt64 v = (case v of
     VInt64 n \<Rightarrow> Inr n
   | VInt n \<Rightarrow> Inr n
   | VFloat n \<Rightarrow> Inr (wrap64 n)
   | VOther ty \<Rightarrow> Inl (Errorf (''unexpected numeric type '' @ ty) []))"

text \<open>\<open>Allow\<close> after the script ran: \<open>reply\<close> is an error of the client, a reply of another
  type (its \<open>%T\<close> text), or the array.\<close>

definition Allow :: "(string + luaval list) res \<Rightarrow> Result res" where
  "Allow reply = (case reply of
     Inl err \<Rightarrow> Inl (Errorf (''rate limit script: '' @ errorText err) [err])
   | Inr (Inl ty) \<Rightarrow> Inl (Errorf (''rate limit script returned '' @ ty @ '', want a 3-element array'') [])
   | Inr (Inr values) \<Rightarrow>
       if length values \<noteq> 3 then
         Inl (Errorf ''rate limit script returned []interface {}, want a 3-element array'' [])
       else (case toInt64 (values ! 0) of
           Inl err \<Rightarrow> Inl (Errorf (''allowed: '' @ errorText err) [err])
         | Inr allowed \<Rightarrow> (case toInt64 (values ! 1) of
             Inl err \<Rightarrow> Inl (Errorf (''retry after: '' @ errorText err) [err])
           | Inr retryUS \<Rightarrow> (case toInt64 (values ! 2) of
               Inl err \<Rightarrow> Inl (Errorf (''remaining: '' @ errorText err) [err])
             | Inr remaining \<Rightarrow>
                 Inr \<lparr>Allowed = (allowed = 1), RetryAfter = wrap64 (retryUS * 1000), Remaining = remaining\<rparr>))))"

text \<open>The limiter over a database that answers: the script's integers reach Go as \<open>int64\<close>.\<close>

definition allowOn :: "int \<Rightarrow> RedisLimiter \<Rightarrow> int \<Rightarrow> string \<Rightarrow> redis \<Rightarrow> Result res \<times> redis" where
  "allowOn nonfinite l now_us key db =
     (let ((a, r, m), db') = gcraScript nonfinite (emissionUS l) (toleranceUS l) now_us key db
      in (Allow (Inr (Inr [VInt64 a, VInt64 r, VInt64 m])), db'))"

section \<open>The reference algorithm: one theoretical arrival time, no expiry\<close>

text \<open>The effective arrival time of a key: the stored one, never in the past.\<close>

definition tatOf :: "int \<Rightarrow> redis \<Rightarrow> string \<Rightarrow> int" where
  "tatOf now db key = (case db key of None \<Rightarrow> now | Some (v, _) \<Rightarrow> max now v)"

text \<open>The time-to-live covers the stored arrival time.\<close>

definition ttl_ok :: "redis \<Rightarrow> bool" where
  "ttl_ok db \<longleftrightarrow> (\<forall>k v ex. db k = Some (v, ex) \<longrightarrow> v \<le> ex)"

lemma ceilDiv_ge: "0 < b \<Longrightarrow> a \<le> ceilDiv a b * b"
proof -
  assume "0 < b"
  then have "(- a) div b * b \<le> - a"
    using div_mult_mod_eq [of "- a" b] pos_mod_sign [of b "- a"] by linarith
  then show ?thesis by (simp add: ceilDiv_def)
qed

lemma script_tat:
  assumes "ttl_ok db"
  shows "(let tat = (case redisGet now db key of None \<Rightarrow> now | Some v \<Rightarrow> v) in if tat < now then now else tat)
    = tatOf now db key"
  using assms by (auto simp: redisGet_def tatOf_def ttl_ok_def max_def Let_def split: option.splits)
    (force simp: ttl_ok_def)?

lemma gcraScript_eq:
  assumes "ttl_ok db"
  shows "gcraScript nf e tol now key db =
    (let tat = tatOf now db key; slack = now + tol - (tat + e)
     in if slack < 0 then ((0, - slack, 0), db)
        else ((1, 0, if e = 0 then nf else slack div e),
              db(key \<mapsto> (tat + e, now + max 1 (ceilDiv (tat + e - now) 1000) * 1000))))"
proof -
  have "max 1 x = (if x < 1 then 1 else x)" for x :: int by simp
  then show ?thesis
    using script_tat [OF assms, of now key] unfolding gcraScript_def Let_def by (simp add: algebra_simps)
qed

lemma ttl_ok_step: "ttl_ok db \<Longrightarrow> ttl_ok (snd (gcraScript nf e tol now key db))"
proof -
  assume ok: "ttl_ok db"
  have "t \<le> now + max 1 (ceilDiv (t - now) 1000) * 1000" for t
    using ceilDiv_ge [of 1000 "t - now"] by (simp add: max_def)
  then show ?thesis using ok by (auto simp: gcraScript_eq Let_def ttl_ok_def)
qed

section \<open>Configured limiters\<close>

lemma NewRedis_Inr:
  assumes "NewRedis sd c = Inr l"
  shows "0 < Limit c" "0 < Period c" "0 < Burst c" "cfg l = c"
    "emissionUS l = Microseconds (EmissionInterval c)" "toleranceUS l = Microseconds (DelayTolerance c)"
  using assms by (auto simp: NewRedis_def split: if_splits)

lemma Microseconds_nonneg: "0 \<le> d \<Longrightarrow> Microseconds d = d div 1000"
  by (simp add: Microseconds_def sdiv_smod_nonneg)

lemma emission_nonneg: "0 < Limit c \<Longrightarrow> 0 < Period c \<Longrightarrow> EmissionInterval c = Period c div Limit c \<and> 0 \<le> EmissionInterval c"
  by (simp add: EmissionInterval_def sdiv_smod_nonneg pos_imp_zdiv_nonneg_iff)

text \<open>Without a wrap the tolerance covers \<open>Burst\<close> emission intervals, also after truncation to
  microseconds.\<close>

lemma tolerance_covers_burst:
  assumes "NewRedis sd c = Inr l" "in64 (EmissionInterval c * Burst c)"
  shows "0 \<le> emissionUS l" "Burst c * emissionUS l \<le> toleranceUS l" "emissionUS l \<le> toleranceUS l"
proof -
  note n = NewRedis_Inr [OF assms(1)]
  define em where "em = EmissionInterval c"
  have em: "0 \<le> em" using emission_nonneg [OF n(1,2)] unfolding em_def by blast
  have e: "emissionUS l = em div 1000" using n em by (simp add: Microseconds_nonneg em_def)
  have t: "toleranceUS l = (em * Burst c) div 1000"
    using n em assms(2) by (simp add: DelayTolerance_def wrap64_id Microseconds_nonneg em_def)
  show e0: "0 \<le> emissionUS l" using em e by (simp add: pos_imp_zdiv_nonneg_iff)
  have "Burst c * (em div 1000) * 1000 \<le> em * Burst c"
    using n(3) mult_left_mono [of "em div 1000 * 1000" em "Burst c"] by (simp add: mult.commute mult.left_commute)
  then have "Burst c * (em div 1000) \<le> (em * Burst c) div 1000"
    by (metis zdiv_mono1 zero_less_numeral nonzero_mult_div_cancel_right zero_neq_numeral)
  then show b: "Burst c * emissionUS l \<le> toleranceUS l" by (simp add: e t)
  have "1 * emissionUS l \<le> Burst c * emissionUS l" using n(3) e0 by (intro mult_right_mono) simp_all
  with b show "emissionUS l \<le> toleranceUS l" by simp
qed

lemma allowOn_eq:
  assumes "ttl_ok db"
  shows "allowOn nf l now key db =
    (let tat = tatOf now db key; slack = now + toleranceUS l - (tat + emissionUS l)
     in if slack < 0 then (Inr \<lparr>Allowed = False, RetryAfter = wrap64 (- slack * 1000), Remaining = 0\<rparr>, db)
        else (Inr \<lparr>Allowed = True, RetryAfter = 0,
                Remaining = (if emissionUS l = 0 then nf else slack div emissionUS l)\<rparr>,
              db(key \<mapsto> (tat + emissionUS l, now + max 1 (ceilDiv (tat + emissionUS l - now) 1000) * 1000))))"
  by (simp add: allowOn_def gcraScript_eq [OF assms] Allow_def toInt64_def Let_def wrap64_def)

lemma allowOn_ttl_ok: "ttl_ok db \<Longrightarrow> ttl_ok (snd (allowOn nf l now key db))"
  using ttl_ok_step [of db nf "emissionUS l" "toleranceUS l" now key]
  by (simp add: allowOn_def case_prod_unfold Let_def)

text \<open>A sequence of requests (time and key) from all replicas, in the order Redis runs them; the
  result lists the times at which requests for \<open>key\<close> were admitted.\<close>

fun serve :: "int \<Rightarrow> RedisLimiter \<Rightarrow> string \<Rightarrow> (int \<times> string) list \<Rightarrow> redis \<Rightarrow> int list \<times> redis" where
  "serve nf l key [] db = ([], db)"
| "serve nf l key ((now, k) # reqs) db =
     (let (r, db1) = allowOn nf l now k db;
          (ts, db2) = serve nf l key reqs db1
      in (if k = key \<and> (case r of Inr res \<Rightarrow> Allowed res | Inl _ \<Rightarrow> False) then now # ts else ts, db2))"

lemma serve_ttl_ok: "ttl_ok db \<Longrightarrow> ttl_ok (snd (serve nf l key reqs db))"
proof (induction nf l key reqs db rule: serve.induct)
  case (2 nf l key now k reqs db)
  then show ?case using allowOn_ttl_ok [of db nf l now k] by (auto simp: Let_def split: prod.splits)
qed simp

text \<open>Once the key holds an arrival time, every admission pushes it one interval further.\<close>

lemma serve_pushes:
  assumes "ttl_ok db" "db key = Some (v, ex)" "x \<le> v" "fst (serve nf l key reqs db) = ts" "ts \<noteq> []"
  shows "x + int (length ts) * emissionUS l \<le> last ts + toleranceUS l"
  using assms
proof (induction nf l key reqs db arbitrary: x v ex ts rule: serve.induct)
  case (1 nf l key db)
  then show ?case by simp
next
  case (2 nf l key now k reqs db)
  obtain r db1 where a: "allowOn nf l now k db = (r, db1)" by (cases "allowOn nf l now k db")
  obtain ts' db2 where s: "serve nf l key reqs db1 = (ts', db2)" by (cases "serve nf l key reqs db1")
  note IH = "2.IH" [OF a [symmetric] refl]
  have ok1: "ttl_ok db1" using allowOn_ttl_ok [OF "2.prems"(1), of nf l now k] a by simp
  show ?case
  proof (cases "k = key \<and> (case r of Inr res \<Rightarrow> Allowed res | Inl _ \<Rightarrow> False)")
    case True
    then have ts: "ts = now # ts'" using "2.prems"(4) a s by simp
    have tat: "x \<le> tatOf now db key" using "2.prems"(2,3) by (simp add: tatOf_def)
    have adm: "\<exists>ex. db1 key = Some (tatOf now db key + emissionUS l, ex)"
      and now: "tatOf now db key + emissionUS l \<le> now + toleranceUS l"
      using True a by (auto simp: allowOn_eq [OF "2.prems"(1)] Let_def split: if_splits)
    show ?thesis
    proof (cases "ts' = []")
      case True
      then show ?thesis using ts tat now by simp
    next
      case False
      then have "x + emissionUS l + int (length ts') * emissionUS l \<le> last ts' + toleranceUS l"
        using IH [OF ok1, of _ _ "x + emissionUS l" ts'] adm tat s by fastforce
      then show ?thesis using ts False by (simp add: algebra_simps)
    qed
  next
    case False
    then have ts: "ts = ts'" using "2.prems"(4) a s by (auto split: if_splits)
    have "db1 key = Some (v, ex)"
      using False a "2.prems"(2) by (auto simp: allowOn_eq [OF "2.prems"(1)] Let_def split: if_splits)
    then show ?thesis using IH [OF ok1 _ "2.prems"(3)] s ts "2.prems"(5) by simp
  qed
qed

lemma serve_window:
  assumes "ttl_ok db" "fst (serve nf l key reqs db) = ts" "ts \<noteq> []"
  shows "int (length ts) * emissionUS l \<le> last ts - hd ts + toleranceUS l"
  using assms
proof (induction nf l key reqs db arbitrary: ts rule: serve.induct)
  case (1 nf l key db)
  then show ?case by simp
next
  case (2 nf l key now k reqs db)
  obtain r db1 where a: "allowOn nf l now k db = (r, db1)" by (cases "allowOn nf l now k db")
  obtain ts' db2 where s: "serve nf l key reqs db1 = (ts', db2)" by (cases "serve nf l key reqs db1")
  have ok1: "ttl_ok db1" using allowOn_ttl_ok [OF "2.prems"(1), of nf l now k] a by simp
  show ?case
  proof (cases "k = key \<and> (case r of Inr res \<Rightarrow> Allowed res | Inl _ \<Rightarrow> False)")
    case True
    then have ts: "ts = now # ts'" using "2.prems"(2) a s by simp
    have adm: "\<exists>ex. db1 key = Some (tatOf now db key + emissionUS l, ex)"
      and slack: "tatOf now db key + emissionUS l \<le> now + toleranceUS l"
      using True a by (auto simp: allowOn_eq [OF "2.prems"(1)] Let_def split: if_splits)
    have tat: "now \<le> tatOf now db key" by (auto simp: tatOf_def split: option.splits)
    show ?thesis
    proof (cases "ts' = []")
      case True
      then show ?thesis using ts slack tat by simp
    next
      case False
      from adm obtain ex where "db1 key = Some (tatOf now db key + emissionUS l, ex)" by blast
      from serve_pushes [OF ok1 this, of "now + emissionUS l" nf l reqs ts'] tat s False
      show ?thesis using ts by (simp add: algebra_simps)
    qed
  next
    case False
    then have "ts = ts'" using "2.prems"(2) a s by (auto split: if_splits)
    then show ?thesis using "2.IH" [OF a [symmetric] refl ok1] "2.prems"(3) s by simp
  qed
qed

lemma serve_simultaneous:
  assumes "ttl_ok db" "0 < emissionUS l" "emissionUS l \<le> toleranceUS l"
    and "tatOf now db key = now + int m * emissionUS l" "int m \<le> toleranceUS l div emissionUS l"
  shows "length (fst (serve nf l key (replicate n (now, key)) db)) = min n (nat (toleranceUS l div emissionUS l) - m)"
  using assms(1,4,5)
proof (induction n arbitrary: db m)
  case 0
  then show ?case by simp
next
  case (Suc n)
  let ?e = "emissionUS l" and ?t = "toleranceUS l"
  define q where "q = ?t div ?e"
  have "q * ?e + ?t mod ?e = ?t" by (simp only: q_def div_mult_mod_eq)
  then have q: "q * ?e \<le> ?t" "?t < (q + 1) * ?e"
    using pos_mod_bound [OF assms(2), of ?t] pos_mod_sign [OF assms(2), of ?t] unfolding distrib_right by linarith+
  have q0: "0 \<le> q" using assms(2,3) by (simp add: q_def pos_imp_zdiv_nonneg_iff)
  show ?case
  proof (cases "int m < q")
    case True
    then have "(int m + 1) * ?e \<le> q * ?e" using assms(2) by (intro mult_right_mono) simp_all
    with q(1) have fits: "\<not> now + ?t - (now + int m * ?e + ?e) < 0" by (simp add: algebra_simps)
    obtain db1 rm where a: "allowOn nf l now key db = (Inr \<lparr>Allowed = True, RetryAfter = 0, Remaining = rm\<rparr>, db1)"
      and d: "tatOf now db1 key = now + int (Suc m) * ?e"
      using fits Suc.prems(2) assms(2)
      by (auto simp: allowOn_eq [OF Suc.prems(1)] Let_def tatOf_def algebra_simps max_def)
    have ok1: "ttl_ok db1" using allowOn_ttl_ok [OF Suc.prems(1), of nf l now key] a by simp
    have "length (fst (serve nf l key (replicate n (now, key)) db1)) = min n (nat q - Suc m)"
      unfolding q_def using True by (intro Suc.IH [OF ok1 d]) (simp add: q_def)
    then show ?thesis using a True q0 by (simp add: Let_def q_def [symmetric] case_prod_unfold)
  next
    case False
    then have m: "int m = q" using Suc.prems(3) by (simp add: q_def)
    then have over: "now + ?t - (now + int m * ?e + ?e) < 0" using q(2) by (simp add: algebra_simps)
    then obtain res where a: "allowOn nf l now key db = (Inr res, db)" "\<not> Allowed res"
      using Suc.prems(2) by (auto simp: allowOn_eq [OF Suc.prems(1)] Let_def)
    have "length (fst (serve nf l key (replicate n (now, key)) db)) = min n (nat q - m)"
      unfolding q_def by (intro Suc.IH [OF Suc.prems(1,2)]) (use m in \<open>simp add: q_def\<close>)
    then show ?thesis using a m by (simp add: Let_def q_def [symmetric] case_prod_unfold)
  qed
qed

section \<open>Properties\<close>

text \<open>The microseconds of a limiter in terms of the quota it was built from.\<close>

lemma limiter_microseconds:
  assumes "NewRedis sd c = Inr l" "in64 (Period c div Limit c * Burst c)"
  shows "emissionUS l = Period c div Limit c div 1000" "toleranceUS l = Period c div Limit c * Burst c div 1000"
proof -
  note n = NewRedis_Inr [OF assms(1)]
  have em: "EmissionInterval c = Period c div Limit c" "0 \<le> EmissionInterval c" using emission_nonneg [of c] n by blast+
  then have "0 \<le> Period c div Limit c * Burst c" using n by (metis mult_nonneg_nonneg less_imp_le)
  with em show "emissionUS l = Period c div Limit c div 1000" "toleranceUS l = Period c div Limit c * Burst c div 1000"
    using n assms(2) by (simp_all add: DelayTolerance_def wrap64_id Microseconds_nonneg)
qed

text \<open>
  C33: the quota holds over every window and whatever else Redis serves. Take a limiter built for \<open>Limit\<close>
  requests per \<open>Period\<close> with \<open>Burst\<close>, whose tolerance fits 64 bits. Among any interleaving of requests from
  all replicas, let n requests for one key be admitted, from the first to the last. Then n times the whole
  microseconds of \<open>Period / Limit\<close> is at most the time between first and last plus the whole
  microseconds of \<open>Burst\<close> intervals. When the interval is a whole number of microseconds, that is the
  documented quota: n is at most \<open>Burst\<close> plus \<open>Limit\<close> per \<open>Period\<close> of the time between. The key's expiry never
  loosens this.
\<close>

theorem quota_bounds_every_window:
  assumes "NewRedis sd c = Inr l" "in64 (Period c div Limit c * Burst c)"
    and "ttl_ok db" "fst (serve nf l key reqs db) = ts" "ts \<noteq> []"
  shows "int (length ts) * (Period c div Limit c div 1000) \<le> last ts - hd ts + Period c div Limit c * Burst c div 1000
    \<and> (1000 * Limit c dvd Period c \<longrightarrow>
         int (length ts) * Period c \<le> Burst c * Period c + Limit c * ((last ts - hd ts) * 1000))
    \<and> ttl_ok (snd (serve nf l key reqs db))"
proof (intro conjI impI)
  note us = limiter_microseconds [OF assms(1,2)]
  show w: "int (length ts) * (Period c div Limit c div 1000) \<le> last ts - hd ts + Period c div Limit c * Burst c div 1000"
    using serve_window [OF assms(3-5)] unfolding us .
  show "ttl_ok (snd (serve nf l key reqs db))" by (rule serve_ttl_ok [OF assms(3)])
  assume "1000 * Limit c dvd Period c"
  then obtain k where k: "Period c = 1000 * Limit c * k" by blast
  have L: "0 < Limit c" using NewRedis_Inr [OF assms(1)] by blast
  have "Period c div Limit c = 1000 * k" using L by (simp add: k)
  then have "int (length ts) * k \<le> last ts - hd ts + k * Burst c" using w by simp
  from mult_left_mono [OF this, of "1000 * Limit c"] L
  show "int (length ts) * Period c \<le> Burst c * Period c + Limit c * ((last ts - hd ts) * 1000)"
    by (simp add: k algebra_simps)
qed

theorem quota_bounds_every_window_witness:
  "\<exists>l. NewRedis (\<lambda>_. []) \<lparr>Limit = 1, Period = 1000000000, Burst = 1\<rparr> = Inr l
     \<and> (let ts = fst (serve 0 l ''k'' [(5, ''k''), (6, ''k''), (1000005, ''k'')] Map.empty)
        in ts = [5, 1000005] \<and> int (length ts) * 1000000000 \<le> 1 * 1000000000 + 1 * ((last ts - hd ts) * 1000))"
proof -
  let ?c = "\<lparr>Limit = 1, Period = 1000000000, Burst = 1\<rparr>"
  let ?l = "\<lparr>cfg = ?c, emissionUS = 1000000, toleranceUS = 1000000\<rparr>"
  let ?ts = "fst (serve 0 ?l ''k'' [(5, ''k''), (6, ''k''), (1000005, ''k'')] Map.empty)"
  have l: "NewRedis (\<lambda>_. []) ?c = Inr ?l"
    by (simp add: NewRedis_def EmissionInterval_def DelayTolerance_def Microseconds_def sdiv_smod_nonneg wrap64_def)
  have ts: "?ts = [5, 1000005]"
    by (simp add: allowOn_def gcraScript_def redisGet_def Allow_def toInt64_def Let_def ceilDiv_def)
  have "in64 (Period ?c div Limit ?c * Burst ?c)" "ttl_ok Map.empty" by (simp_all add: ttl_ok_def in64_bounds)
  from quota_bounds_every_window [OF l this ts] l ts show ?thesis by (simp add: Let_def)
qed

text \<open>
  A refusal changes nothing and its retry time is exact. When a limiter built by \<open>NewRedis\<close>
  refuses a request, the database is untouched, and, until some other request for the key is
  admitted, a request is admitted at a later time exactly when at least the reported number of
  microseconds has passed. So retrying early never extends the wait.
\<close>

theorem retry_after_is_exact:
  assumes "NewRedis sd c = Inr l" "in64 (EmissionInterval c * Burst c)" "ttl_ok db" "0 < emissionUS l"
    and "gcraScript nf (emissionUS l) (toleranceUS l) now key db = ((0, retry, m), db')" "now \<le> t"
  shows "db' = db \<and> 0 < retry
    \<and> (fst (fst (gcraScript nf (emissionUS l) (toleranceUS l) t key db')) = 1 \<longleftrightarrow> now + retry \<le> t)"
proof -
  let ?e = "emissionUS l" and ?tol = "toleranceUS l"
  note tol = tolerance_covers_burst(3) [OF assms(1,2)]
  have rej: "now + ?tol - (tatOf now db key + ?e) < 0" and r: "retry = tatOf now db key + ?e - now - ?tol" and db: "db' = db"
    using assms(5) by (auto simp: gcraScript_eq [OF assms(3)] Let_def split: if_splits)
  obtain v ex where v: "db key = Some (v, ex)" "now < v"
    using rej tol by (auto simp: tatOf_def max_def split: option.splits if_splits)
  then have r': "retry = v + ?e - now - ?tol" using r by (simp add: tatOf_def)
  have "fst (fst (gcraScript nf ?e ?tol t key db)) = 1 \<longleftrightarrow> max t v + ?e \<le> t + ?tol"
    using v(1) by (simp add: gcraScript_eq [OF assms(3)] Let_def tatOf_def)
  then show ?thesis using db r rej r' tol by (auto simp: max_def)
qed

theorem retry_after_is_exact_witness:
  "let c = \<lparr>Limit = 1, Period = 1000000000, Burst = 1\<rparr>; db = Map.empty(''k'' \<mapsto> (1000005, 1000005))
   in \<exists>l. NewRedis (\<lambda>_. []) c = Inr l
        \<and> gcraScript 0 (emissionUS l) (toleranceUS l) 6 ''k'' db = ((0, 999999, 0), db)
        \<and> fst (fst (gcraScript 0 (emissionUS l) (toleranceUS l) 1000005 ''k'' db)) = 1"
proof -
  let ?c = "\<lparr>Limit = 1, Period = 1000000000, Burst = 1\<rparr>"
  let ?db = "Map.empty(''k'' \<mapsto> (1000005, 1000005))"
  obtain l where l: "NewRedis (\<lambda>_. []) ?c = Inr l" by (simp add: NewRedis_def)
  then have e: "emissionUS l = 1000000" "toleranceUS l = 1000000"
    by (auto simp: NewRedis_def EmissionInterval_def DelayTolerance_def Microseconds_def sdiv_smod_nonneg wrap64_def)
  have "in64 (EmissionInterval ?c * Burst ?c)" by (simp add: EmissionInterval_def sdiv_smod_nonneg in64_bounds)
  moreover have "ttl_ok ?db" by (simp add: ttl_ok_def)
  moreover have g: "gcraScript 0 (emissionUS l) (toleranceUS l) 6 ''k'' ?db = ((0, 999999, 0), ?db)"
    by (simp add: e gcraScript_def redisGet_def Let_def)
  ultimately have "fst (fst (gcraScript 0 (emissionUS l) (toleranceUS l) 1000005 ''k'' ?db)) = 1"
    using retry_after_is_exact [OF l, of ?db 0 6 "''k''" 999999 0 ?db 1000005] e by simp
  with l g show ?thesis by (simp only: Let_def) blast
qed

text \<open>
  An idle key admits exactly its burst. When the emission interval is a whole number of
  microseconds, of any number of simultaneous requests on an idle key exactly the configured
  \<open>Burst\<close> are admitted.
\<close>

theorem burst_is_exact_on_whole_microseconds:
  assumes "NewRedis sd c = Inr l" "in64 (EmissionInterval c * Burst c)" "ttl_ok db" "db key = None"
    and "0 < EmissionInterval c" "EmissionInterval c mod 1000 = 0"
  shows "length (fst (serve nf l key (replicate n (now, key)) db)) = min n (nat (Burst c))"
proof -
  note n = NewRedis_Inr [OF assms(1)]
  define e where "e = EmissionInterval c div 1000"
  have em: "EmissionInterval c = e * 1000" using div_mult_mod_eq [of "EmissionInterval c" 1000] assms(6) by (simp only: e_def add_0_right)
  have e: "emissionUS l = e" "toleranceUS l = e * Burst c" "0 < e"
    using n assms(2,5) unfolding DelayTolerance_def em
    by (simp_all add: wrap64_id Microseconds_nonneg mult.assoc [symmetric] mult.commute [of e])
  have "length (fst (serve nf l key (replicate n (now, key)) db)) = min n (nat (toleranceUS l div emissionUS l) - 0)"
    using assms(4) tolerance_covers_burst(3) [OF assms(1,2)] e n(3)
    by (intro serve_simultaneous [OF assms(3)]) (simp_all add: tatOf_def)
  then show ?thesis using e by simp
qed

theorem burst_is_exact_on_whole_microseconds_witness:
  "let c = \<lparr>Limit = 600, Period = 60000000000, Burst = 20\<rparr>
   in \<exists>l. NewRedis (\<lambda>_. []) c = Inr l \<and> length (fst (serve 0 l ''k'' (replicate 50 (7, ''k'')) Map.empty)) = 20"
proof -
  let ?c = "\<lparr>Limit = 600, Period = 60000000000, Burst = 20\<rparr>"
  obtain l where l: "NewRedis (\<lambda>_. []) ?c = Inr l" by (simp add: NewRedis_def)
  have e: "EmissionInterval ?c = 100000000" by (simp add: EmissionInterval_def sdiv_smod_nonneg)
  have "ttl_ok Map.empty" by (simp add: ttl_ok_def)
  moreover have "in64 (EmissionInterval ?c * Burst ?c)" unfolding e by (simp add: in64_bounds)
  ultimately have "length (fst (serve 0 l ''k'' (replicate 50 (7, ''k'')) Map.empty)) = min 50 (nat (Burst ?c))"
    using e by (intro burst_is_exact_on_whole_microseconds [OF l]) simp_all
  with l show ?thesis by (simp add: Let_def)
qed

text \<open>
  An interval that is not a whole number of microseconds breaks the burst promise. \<open>NewRedis\<close>
  truncates the interval and the tolerance separately, so at 600000 requests a second with a
  burst of 100 an idle key admits 166 simultaneous requests.
\<close>

theorem burst_exceeded_by_truncation:
  "\<exists>l. NewRedis sd \<lparr>Limit = 600000, Period = 1000000000, Burst = 100\<rparr> = Inr l
     \<and> length (fst (serve nf l key (replicate 1000 (now, key)) Map.empty)) = 166"
proof -
  let ?c = "\<lparr>Limit = 600000, Period = 1000000000, Burst = 100\<rparr>"
  obtain l where l: "NewRedis sd ?c = Inr l" by (simp add: NewRedis_def)
  then have e: "emissionUS l = 1" "toleranceUS l = 166"
    by (auto simp: NewRedis_def EmissionInterval_def DelayTolerance_def Microseconds_def sdiv_smod_nonneg wrap64_def)
  have "length (fst (serve nf l key (replicate 1000 (now, key)) Map.empty)) = min 1000 (nat (toleranceUS l div emissionUS l) - 0)"
    by (rule serve_simultaneous) (simp_all add: e ttl_ok_def tatOf_def)
  with l e show ?thesis by simp
qed

text \<open>
  A quota with an emission interval below one microsecond is not enforced at all: \<open>NewRedis\<close>
  accepts it, and on a fresh key every request of every non-decreasing sequence of times is admitted.
\<close>

theorem sub_microsecond_quota_unenforced:
  assumes "0 < Limit c" "0 < Period c" "0 < Burst c" "Period c < 1000 * Limit c" "in64 (EmissionInterval c * Burst c)"
    and "sorted ts"
  shows "\<exists>l. NewRedis sd c = Inr l \<and> fst (serve nf l key (map (\<lambda>t. (t, key)) ts) Map.empty) = ts"
proof -
  obtain l where l: "NewRedis sd c = Inr l" using assms(1-3) by (simp add: NewRedis_def)
  have em: "EmissionInterval c = Period c div Limit c" "0 \<le> EmissionInterval c"
    using emission_nonneg [OF assms(1,2)] by blast+
  have "EmissionInterval c < 1000"
  proof (rule ccontr)
    assume "\<not> EmissionInterval c < 1000"
    then have "1000 * Limit c \<le> (Period c div Limit c) * Limit c"
      using em(1) assms(1) by (intro mult_right_mono) simp_all
    also have "\<dots> \<le> Period c"
      using div_mult_mod_eq [of "Period c" "Limit c"] pos_mod_sign [OF assms(1), of "Period c"] by linarith
    finally show False using assms(4) by simp
  qed
  then have e: "emissionUS l = 0" using NewRedis_Inr(5) [OF l] em(2) by (simp add: Microseconds_nonneg)
  have tol: "0 \<le> toleranceUS l" using tolerance_covers_burst [OF l assms(5)] by simp
  have "fst (serve nf l key (map (\<lambda>t. (t, key)) ts) db) = ts"
    if "ttl_ok db" "\<forall>t \<in> set ts. tatOf t db key = t" "sorted ts" for db
    using that
  proof (induction ts arbitrary: db)
    case (Cons t ts)
    obtain db1 rm where a: "allowOn nf l t key db = (Inr \<lparr>Allowed = True, RetryAfter = 0, Remaining = rm\<rparr>, db1)"
      and d: "\<exists>ex. db1 key = Some (t, ex)"
      using Cons.prems(2) e tol by (auto simp: allowOn_eq [OF Cons.prems(1)] Let_def)
    have "ttl_ok db1" using allowOn_ttl_ok [OF Cons.prems(1), of nf l t key] a by simp
    moreover have "\<forall>t' \<in> set ts. tatOf t' db1 key = t'" using d Cons.prems(3) by (auto simp: tatOf_def max_def)
    ultimately show ?case using Cons.IH [of db1] Cons.prems(3) a by (simp add: Let_def case_prod_unfold)
  qed simp
  from this [of Map.empty] l assms(6) show ?thesis by (auto simp: ttl_ok_def tatOf_def)
qed

theorem sub_microsecond_quota_unenforced_witness:
  "let c = \<lparr>Limit = 2000000, Period = 1000000000, Burst = 1\<rparr>
   in \<exists>l. NewRedis (\<lambda>_. []) c = Inr l \<and> fst (serve 0 l ''k'' (map (\<lambda>t. (t, ''k'')) [3, 3, 3]) Map.empty) = [3, 3, 3]"
proof -
  let ?c = "\<lparr>Limit = 2000000, Period = 1000000000, Burst = 1\<rparr>"
  have "in64 (EmissionInterval ?c * Burst ?c)" by (simp add: EmissionInterval_def sdiv_smod_nonneg in64_bounds)
  from sub_microsecond_quota_unenforced [of ?c, OF _ _ _ _ this, of "[3, 3, 3]" "\<lambda>_. []" 0 "''k''"]
  show ?thesis unfolding Let_def by simp
qed

end
