(* ===== verification/Interceptors.thy ===== *)
theory Interceptors
  imports Auth Ratelimit
begin

text \<open>
  The server-side middleware (\<open>internal/platform/interceptor\<close>). An RPC handler maps a call's
  context, a request and the state of the process to an outcome and the new state; an interceptor
  maps handlers to handlers. The state holds what the interceptors share: occupied admission slots,
  the log, the response headers, the clock, and a component \<open>store\<close> for everything below
  (verifier, limiter and order store), which the interceptors reach only through the functions
  they are given.
\<close>

section \<open>Calls, outcomes, state\<close>

datatype level = LevelInfo | LevelWarn | LevelError

datatype logrec =
    RpcFinished level string codes "string option"
  | PanicRecovered string string
  | NoPolicy string
  | AuthFailed string string
  | AuthDenied string string string string
  | LimiterUnavailable string string string

record 's world =
  inflight :: nat
  logs :: "logrec list"
  headers :: "(string \<times> string) list"
  clock :: int
  backend :: 's

record call =
  callCtx :: ctx
  deadline :: "int option"
  FullMethod :: string

datatype 'p outcome = Reply 'p | Failed goerr | Panicked string

type_synonym ('q, 'p, 's) handler = "call \<Rightarrow> 'q \<Rightarrow> 's world \<Rightarrow> 'p outcome \<times> 's world"

text \<open>The interfaces the interceptors are built over: \<open>auth.Verifier\<close>, \<open>ratelimit.Limiter\<close>
  and \<open>protovalidate.Validator\<close>, whose error is a \<open>ValidationError\<close> with its violations
  or something else.\<close>

type_synonym 's verifier = "string \<Rightarrow> 's \<Rightarrow> Principal res \<times> 's"
type_synonym 's limiter = "string \<Rightarrow> 's \<Rightarrow> Result res \<times> 's"
type_synonym 'q validator = "'q \<Rightarrow> (goerr + field_violation list) option"

definition addLog :: "logrec \<Rightarrow> 's world \<Rightarrow> 's world" where
  "addLog r w = w\<lparr>logs := logs w @ [r]\<rparr>"

section \<open>Recovery and error mapping\<close>

definition handlePanic :: "(detail \<Rightarrow> bool) \<Rightarrow> string \<Rightarrow> string \<Rightarrow> goerr" where
  "handlePanic marshals domain r =
     (let cause = Errorf (''panic: '' @ r) [];
          appErr = appWrap cause KindInternal ''PANIC'' ''handler panicked''
      in case ToError marshals (Some appErr) domain of Some e \<Rightarrow> e | None \<Rightarrow> appErr)"

definition Recovery :: "(detail \<Rightarrow> bool) \<Rightarrow> string \<Rightarrow> ('q, 'p, 's) handler \<Rightarrow> ('q, 'p, 's) handler" where
  "Recovery marshals domain h c q w = (case h c q w of
     (Panicked r, w') \<Rightarrow> (Failed (handlePanic marshals domain r), addLog (PanicRecovered (FullMethod c) r) w')
   | res \<Rightarrow> res)"

text \<open>\<open>mapErr\<close>; \<^const>\<open>None\<close> would be a nil error.\<close>

definition mapErr :: "(detail \<Rightarrow> bool) \<Rightarrow> goerr \<Rightarrow> string \<Rightarrow> goerr option" where
  "mapErr marshals err domain =
     (if statusFromError err \<noteq> None \<and> asApp err = None then Some err
      else ToError marshals (Some err) domain)"

text \<open>With an error the handler's response is discarded by grpc-go; a nil mapped error would
  deliver \<open>nilReply\<close>.\<close>

definition ErrorMap :: "(detail \<Rightarrow> bool) \<Rightarrow> 'p \<Rightarrow> string \<Rightarrow> ('q, 'p, 's) handler \<Rightarrow> ('q, 'p, 's) handler" where
  "ErrorMap marshals nilReply domain h c q w = (case h c q w of
     (Failed err, w') \<Rightarrow> (case mapErr marshals err domain of
         Some e \<Rightarrow> (Failed e, w') | None \<Rightarrow> (Reply nilReply, w'))
   | res \<Rightarrow> res)"

section \<open>Logging\<close>

definition isServerFault :: "codes \<Rightarrow> bool" where
  "isServerFault code \<longleftrightarrow> code \<in> {Internal, Unknown, DataLoss, Unavailable}"

text \<open>\<open>status.Code\<close>.\<close>

definition statusCode :: "goerr option \<Rightarrow> codes" where
  "statusCode err = (case err of None \<Rightarrow> OK
     | Some e \<Rightarrow> (case statusFromError e of Some (c, _, _) \<Rightarrow> c | None \<Rightarrow> Unknown))"

definition recordRpc :: "string \<Rightarrow> goerr option \<Rightarrow> 's world \<Rightarrow> 's world" where
  "recordRpc method err w =
     (let code = statusCode err
      in case err of
           None \<Rightarrow> addLog (RpcFinished LevelInfo method code None) w
         | Some e \<Rightarrow> addLog (RpcFinished (if isServerFault code then LevelError else LevelWarn) method code
                              (Some (errorText e))) w)"

text \<open>A panic unwinds past \<open>Logging\<close> without a record.\<close>

definition Logging :: "('q, 'p, 's) handler \<Rightarrow> ('q, 'p, 's) handler" where
  "Logging h c q w = (case h c q w of
     (Reply p, w') \<Rightarrow> (Reply p, recordRpc (FullMethod c) None w')
   | (Failed e, w') \<Rightarrow> (Failed e, recordRpc (FullMethod c) (Some e) w')
   | (Panicked r, w') \<Rightarrow> (Panicked r, w'))"

section \<open>Admission\<close>

definition HealthCheckMethod :: string where
  "HealthCheckMethod = ''/grpc.health.v1.Health/Check''"

definition overloadedErr :: goerr where
  "overloadedErr = WithDetails (appNew KindResourceExhausted ''SERVER_OVERLOADED'' ''too many concurrent requests'')
     [RetryInfo 100000000]"

definition Admission :: "int \<Rightarrow> ('q, 'p, 's) handler \<Rightarrow> ('q, 'p, 's) handler" where
  "Admission limit h c q w =
     (if FullMethod c = HealthCheckMethod then h c q w
      else if (case deadline c of Some d \<Rightarrow> clock w > d | None \<Rightarrow> False) then
        (Failed (appNew KindResourceExhausted ''DEADLINE_ALREADY_EXPIRED''
           ''request deadline expired before admission''), w)
      else if int (inflight w) < max limit 1 then
        (let (out, w') = h c q (w\<lparr>inflight := inflight w + 1\<rparr>)
         in (out, w'\<lparr>inflight := inflight w' - 1\<rparr>))
      else (Failed overloadedErr, w))"

section \<open>Authentication and authorisation\<close>

definition bearerToken :: "ctx \<Rightarrow> string" where
  "bearerToken c = (case metadata c of
     None \<Rightarrow> []
   | Some md \<Rightarrow> (case map_of md ''authorization'' of
       None \<Rightarrow> []
     | Some [] \<Rightarrow> []
     | Some (raw # _) \<Rightarrow>
         if length raw < 7 \<or> map lower_byte (take 7 raw) \<noteq> ''bearer '' then []
         else trim_space (drop 7 raw)))"

definition authorize :: "'s verifier \<Rightarrow> Policy \<Rightarrow> ctx \<Rightarrow> string \<Rightarrow> 's world \<Rightarrow> ctx res \<times> 's world" where
  "authorize v policy c method w = (case map_of policy method of
     None \<Rightarrow> (Inl (appNew KindPermissionDenied ''NO_POLICY'' ''not authorised''), addLog (NoPolicy method) w)
   | Some rule \<Rightarrow>
       if Public rule then (Inr c, w)
       else (case v (bearerToken c) (backend w) of
           (Inl err, b) \<Rightarrow>
             (Inl (appNew KindUnauthenticated ''UNAUTHENTICATED'' ''invalid or missing credentials''),
              addLog (AuthFailed method (errorText err)) (w\<lparr>backend := b\<rparr>))
         | (Inr p, b) \<Rightarrow>
             (case Check policy method p True of
                Some err \<Rightarrow>
                  (Inl (appNew KindPermissionDenied ''PERMISSION_DENIED'' ''not authorised''),
                   addLog (AuthDenied method (Subject p) (pTenantID p) (errorText err)) (w\<lparr>backend := b\<rparr>))
              | None \<Rightarrow> (Inr (WithPrincipal c p), w\<lparr>backend := b\<rparr>))))"

definition authInterceptor :: "'s verifier \<Rightarrow> Policy \<Rightarrow> ('q, 'p, 's) handler \<Rightarrow> ('q, 'p, 's) handler" where
  "authInterceptor v policy h c q w = (case authorize v policy (callCtx c) (FullMethod c) w of
     (Inl err, w') \<Rightarrow> (Failed err, w')
   | (Inr authCtx, w') \<Rightarrow> h (c\<lparr>callCtx := authCtx\<rparr>) q w')"

section \<open>Quota\<close>

definition limitKey :: "string \<Rightarrow> string \<Rightarrow> string" where
  "limitKey tenantID fullMethod = ''ratelimit:'' @ tenantID @ '':'' @ fullMethod"

definition retrySeconds :: "Result \<Rightarrow> int" where
  "retrySeconds r =
     (let seconds = RetryAfter r sdiv 1000000000;
          seconds = (if RetryAfter r > seconds * 1000000000 then seconds + 1 else seconds)
      in if seconds < 1 then 1 else seconds)"

definition setRetryHeaders :: "Result \<Rightarrow> 's world \<Rightarrow> 's world" where
  "setRetryHeaders r w = w\<lparr>headers := headers w @ [(''retry-after'', show_int (retrySeconds r))]\<rparr>"

definition setRemainingHeader :: "Result \<Rightarrow> 's world \<Rightarrow> 's world" where
  "setRemainingHeader r w =
     (if Remaining r < 0 then w
      else w\<lparr>headers := headers w @ [(''x-ratelimit-remaining'', show_int (Remaining r))]\<rparr>)"

definition quotaExceeded :: "(int \<Rightarrow> string) \<Rightarrow> Result \<Rightarrow> goerr" where
  "quotaExceeded showDuration r =
     WithDetails (WithMetadata (appNew KindResourceExhausted ''RATE_LIMITED'' ''request quota exceeded'')
       [(''retry_after'', showDuration (RetryAfter r))]) [RetryInfo (RetryAfter r)]"

definition checkQuota :: "(int \<Rightarrow> string) \<Rightarrow> 's limiter \<Rightarrow> ctx \<Rightarrow> string \<Rightarrow> 's world \<Rightarrow> goerr option \<times> 's world" where
  "checkQuota showDuration lim c fullMethod w = (case PrincipalFrom c of
     None \<Rightarrow> (None, w)
   | Some p \<Rightarrow>
       if pTenantID p = [] then (None, w)
       else (case lim (limitKey (pTenantID p) fullMethod) (backend w) of
           (Inl err, b) \<Rightarrow> (None, addLog (LimiterUnavailable fullMethod (pTenantID p) (errorText err)) (w\<lparr>backend := b\<rparr>))
         | (Inr r, b) \<Rightarrow>
             if \<not> Allowed r then (Some (quotaExceeded showDuration r), setRetryHeaders r (w\<lparr>backend := b\<rparr>))
             else (None, setRemainingHeader r (w\<lparr>backend := b\<rparr>))))"

definition RateLimit :: "(int \<Rightarrow> string) \<Rightarrow> 's limiter \<Rightarrow> ('q, 'p, 's) handler \<Rightarrow> ('q, 'p, 's) handler" where
  "RateLimit showDuration lim h c q w = (case checkQuota showDuration lim (callCtx c) (FullMethod c) w of
     (Some err, w') \<Rightarrow> (Failed err, w')
   | (None, w') \<Rightarrow> h c q w')"

section \<open>Deadlines and validation\<close>

text \<open>\<open>context.WithTimeout\<close> keeps an earlier deadline of the parent.\<close>

definition withTimeout :: "int \<Rightarrow> int \<Rightarrow> int option \<Rightarrow> int option" where
  "withTimeout now timeout d = (case d of None \<Rightarrow> Some (now + timeout) | Some e \<Rightarrow> Some (min e (now + timeout)))"

definition applyDeadline :: "int \<Rightarrow> int option \<Rightarrow> int \<Rightarrow> int \<Rightarrow> int option" where
  "applyDeadline now d defaultTimeout maxTimeout = (case d of
     None \<Rightarrow> withTimeout now defaultTimeout None
   | Some e \<Rightarrow> if e - now > maxTimeout then withTimeout now maxTimeout d else d)"

definition Deadline :: "int \<Rightarrow> int \<Rightarrow> ('q, 'p, 's) handler \<Rightarrow> ('q, 'p, 's) handler" where
  "Deadline defaultTimeout maxTimeout h c q w =
     h (c\<lparr>deadline := applyDeadline (clock w) (deadline c) defaultTimeout maxTimeout\<rparr>) q w"

definition DeadlineStream :: "int \<Rightarrow> ('q, 'p, 's) handler \<Rightarrow> ('q, 'p, 's) handler" where
  "DeadlineStream maxTimeout h c q w = (case deadline c of
     Some _ \<Rightarrow> h c q w
   | None \<Rightarrow> h (c\<lparr>deadline := withTimeout (clock w) maxTimeout None\<rparr>) q w)"

definition toBadRequest :: "goerr + field_violation list \<Rightarrow> goerr" where
  "toBadRequest err = (case err of
     Inl e \<Rightarrow> appWrap e KindInternal ''VALIDATION_ENGINE_ERROR'' ''validation engine failed''
   | Inr vs \<Rightarrow> WithDetails (appNew KindInvalidArgument ''VALIDATION_FAILED'' ''request failed validation'') [BadRequest vs])"

definition ValidateRequest :: "'q validator \<Rightarrow> ('q, 'p, 's) handler \<Rightarrow> ('q, 'p, 's) handler" where
  "ValidateRequest validator h c q w = (case validator q of
     Some err \<Rightarrow> (Failed (toBadRequest err), w)
   | None \<Rightarrow> h c q w)"

section \<open>The chains (\<open>internal/grpcapi/chain.go\<close>)\<close>

text \<open>What \<open>NewServer\<close> composes; \<open>metrics\<close> is the interceptor of go-grpc-prometheus.\<close>

record ('q, 'p, 's) chain =
  marshals :: "detail \<Rightarrow> bool"
  serviceName :: string
  nilReply :: 'p
  metrics :: "('q, 'p, 's) handler \<Rightarrow> ('q, 'p, 's) handler"
  admissionLimit :: int
  verifier :: "'s verifier"
  policy :: Policy
  limiter :: "'s limiter"
  showDuration :: "int \<Rightarrow> string"
  defaultTimeout :: int
  maxTimeout :: int
  validator :: "'q validator"

definition unary :: "('q, 'p, 's) chain \<Rightarrow> ('q, 'p, 's) handler \<Rightarrow> ('q, 'p, 's) handler" where
  "unary d h =
     Recovery (marshals d) (serviceName d)
     (metrics d
     (Logging
     (ErrorMap (marshals d) (nilReply d) (serviceName d)
     (Admission (admissionLimit d)
     (authInterceptor (verifier d) (policy d)
     (RateLimit (showDuration d) (limiter d)
     (Deadline (defaultTimeout d) (maxTimeout d)
     (ValidateRequest (validator d) h))))))))"

definition streaming :: "('q, 'p, 's) chain \<Rightarrow> ('q, 'p, 's) handler \<Rightarrow> ('q, 'p, 's) handler" where
  "streaming d h =
     Recovery (marshals d) (serviceName d)
     (metrics d
     (Logging
     (ErrorMap (marshals d) (nilReply d) (serviceName d)
     (authInterceptor (verifier d) (policy d)
     (RateLimit (showDuration d) (limiter d)
     (DeadlineStream (maxTimeout d) h))))))"

section \<open>Lemmas\<close>

text \<open>What the chain relies on in the metrics interceptor: it only observes.\<close>

definition transparent :: "(('q, 'p, 's) handler \<Rightarrow> ('q, 'p, 's) handler) \<Rightarrow> bool" where
  "transparent i \<longleftrightarrow> (\<forall>h. i h = h)"

lemma transparentD: "transparent i \<Longrightarrow> i h = h"
  by (simp add: transparent_def)

lemma mapErr_status: "mapErr ms e dmn = Some e' \<Longrightarrow> statusFromError e' \<noteq> None"
  by (auto simp: mapErr_def ToError_StatusErr statusFromError_def split: if_splits)

lemma mapErr_not_None: "mapErr ms e dmn \<noteq> None"
  by (simp add: mapErr_def ToError_StatusErr)

lemma handlePanic_eq:
  "handlePanic ms dmn r = StatusErr Internal ''internal error''
     (if ms (ErrorInfo ''PANIC'' dmn []) then [ErrorInfo ''PANIC'' dmn []] else [])"
  by (simp add: handlePanic_def ToError_def ToStatus_def toApp_def appWrap_def GRPCCode_def kindInfo_def Redacts_def Let_def)

lemma ErrorMap_Failed: "ErrorMap ms np dmn h c q w = (Failed e, w') \<Longrightarrow> statusFromError e \<noteq> None"
  using mapErr_status by (fastforce simp: ErrorMap_def split: prod.splits outcome.splits option.splits)

lemma Logging_outcome: "fst (Logging h c q w) = fst (h c q w)"
  by (auto simp: Logging_def split: prod.splits outcome.splits)

text \<open>Handlers that agree except for the text of their panics.\<close>

definition panic_equiv :: "('q, 'p, 's) handler \<Rightarrow> ('q, 'p, 's) handler \<Rightarrow> bool" where
  "panic_equiv h h' \<longleftrightarrow> (\<forall>c q w. h c q w = h' c q w
     \<or> (\<exists>r r' w'. h c q w = (Panicked r, w') \<and> h' c q w = (Panicked r', w')))"

lemma panic_equivE:
  assumes "panic_equiv h h'"
  obtains "h c q w = h' c q w" | r r' w' where "h c q w = (Panicked r, w')" "h' c q w = (Panicked r', w')"
  using assms unfolding panic_equiv_def by blast

lemma panic_equiv_steps:
  assumes "panic_equiv h h'"
  shows "panic_equiv (ValidateRequest va h) (ValidateRequest va h')"
    and "panic_equiv (Deadline a b h) (Deadline a b h')"
    and "panic_equiv (RateLimit sd lim h) (RateLimit sd lim h')"
    and "panic_equiv (authInterceptor v pol h) (authInterceptor v pol h')"
    and "panic_equiv (ErrorMap ms np dmn h) (ErrorMap ms np dmn h')"
    and "panic_equiv (Logging h) (Logging h')"
    and "panic_equiv (Admission n h) (Admission n h')"
proof -
  show "panic_equiv (ValidateRequest va h) (ValidateRequest va h')"
    using assms by (simp add: panic_equiv_def ValidateRequest_def split: option.splits)
  show "panic_equiv (Deadline a b h) (Deadline a b h')"
    using assms by (simp add: panic_equiv_def Deadline_def)
  show "panic_equiv (RateLimit sd lim h) (RateLimit sd lim h')"
    using assms by (simp add: panic_equiv_def RateLimit_def split: option.splits prod.splits)
  show "panic_equiv (authInterceptor v pol h) (authInterceptor v pol h')"
    using assms by (simp add: panic_equiv_def authInterceptor_def split: sum.splits prod.splits)
  have em: "ErrorMap ms np dmn h c q w = ErrorMap ms np dmn h' c q w
      \<or> (\<exists>r r' w'. ErrorMap ms np dmn h c q w = (Panicked r, w') \<and> ErrorMap ms np dmn h' c q w = (Panicked r', w'))" for c q w
    by (rule panic_equivE [OF assms, of c q w]) (simp_all add: ErrorMap_def)
  then show "panic_equiv (ErrorMap ms np dmn h) (ErrorMap ms np dmn h')" by (simp add: panic_equiv_def)
  have lg: "Logging h c q w = Logging h' c q w
      \<or> (\<exists>r r' w'. Logging h c q w = (Panicked r, w') \<and> Logging h' c q w = (Panicked r', w'))" for c q w
    by (rule panic_equivE [OF assms, of c q w]) (simp_all add: Logging_def)
  then show "panic_equiv (Logging h) (Logging h')" by (simp add: panic_equiv_def)
  have ad: "Admission n h c q w = Admission n h' c q w
      \<or> (\<exists>r r' w'. Admission n h c q w = (Panicked r, w') \<and> Admission n h' c q w = (Panicked r', w'))" for c q w
    by (rule panic_equivE [OF assms, of c q w]; rule panic_equivE [OF assms, of c q "w\<lparr>inflight := inflight w + 1\<rparr>"])
      (auto simp: Admission_def)
  then show "panic_equiv (Admission n h) (Admission n h')" by (simp add: panic_equiv_def)
qed

lemma Recovery_panic_equiv: "panic_equiv h h' \<Longrightarrow> fst (Recovery ms dmn h c q w) = fst (Recovery ms dmn h' c q w)"
  by (rule panic_equivE [of h h' c q w]) (auto simp: Recovery_def handlePanic_eq)

lemma Recovery_outcome:
  "case fst (Recovery ms dmn (Logging (ErrorMap ms np dmn g)) c q w) of
     Reply _ \<Rightarrow> True | Failed e \<Rightarrow> statusFromError e \<noteq> None | Panicked _ \<Rightarrow> False"
proof (cases "Logging (ErrorMap ms np dmn g) c q w")
  case (Pair o' w')
  then show ?thesis
  proof (cases o')
    case (Failed e)
    then have "fst (ErrorMap ms np dmn g c q w) = Failed e"
      using Pair Logging_outcome [of "ErrorMap ms np dmn g" c q w] by simp
    then have "statusFromError e \<noteq> None"
      using ErrorMap_Failed [of ms np dmn g c q w e] by (cases "ErrorMap ms np dmn g c q w") simp
    then show ?thesis using Pair Failed by (simp add: Recovery_def)
  qed (simp_all add: Recovery_def handlePanic_eq statusFromError_def)
qed

text \<open>A handler that refuses to run outside a condition; a chain that cannot tell it from the
  handler itself only ever runs the handler inside the condition.\<close>

definition guarded :: "(call \<Rightarrow> 'q \<Rightarrow> 's world \<Rightarrow> bool) \<Rightarrow> ('q, 'p, 's) handler \<Rightarrow> ('q, 'p, 's) handler" where
  "guarded Q h c q w = (if Q c q w then h c q w else (Panicked ''outside the condition'', w))"

text \<open>The caller was authorised: the method is public and the context as it came, or the credential
  verified to the principal in the context, who holds every scope of the method's rule.\<close>

definition authorised :: "'s verifier \<Rightarrow> Policy \<Rightarrow> call \<Rightarrow> 's \<Rightarrow> ctx \<Rightarrow> bool" where
  "authorised v pol c0 b c \<longleftrightarrow> (\<exists>rule. map_of pol (FullMethod c0) = Some rule
     \<and> (if Public rule then c = callCtx c0
        else (\<exists>p. fst (v (bearerToken (callCtx c0)) b) = Inr p \<and> c = WithPrincipal (callCtx c0) p
           \<and> set (ruleScopes rule) \<subseteq> set (Scopes p))))"

lemma Check_None_scopes:
  "Check pol m p True = None \<Longrightarrow> map_of pol m = Some rule \<Longrightarrow> \<not> Public rule \<Longrightarrow> set (ruleScopes rule) \<subseteq> set (Scopes p)"
  by (auto simp: Check_def HasScope_iff filter_empty_conv Let_def split: if_splits)

lemma authorize_authorised:
  assumes "authorize v pol (callCtx c) (FullMethod c) w = (Inr c', w')"
  shows "authorised v pol c (backend w) c' \<and> clock w' = clock w \<and> inflight w' = inflight w"
proof -
  obtain rule where rule: "map_of pol (FullMethod c) = Some rule"
    using assms by (auto simp: authorize_def split: option.splits)
  show ?thesis
  proof (cases "Public rule")
    case True
    then show ?thesis using assms rule by (simp add: authorize_def authorised_def)
  next
    case False
    obtain p b where v: "v (bearerToken (callCtx c)) (backend w) = (Inr p, b)"
      using assms rule False by (auto simp: authorize_def split: prod.splits sum.splits)
    have "Check pol (FullMethod c) p True = None" "c' = WithPrincipal (callCtx c) p" "w' = w\<lparr>backend := b\<rparr>"
      using assms rule False v by (auto simp: authorize_def split: option.splits)
    with rule False v Check_None_scopes [OF this(1) rule False] show ?thesis by (simp add: authorised_def)
  qed
qed

lemma checkQuota_frame:
  "checkQuota sd lim c m w = (r, w') \<Longrightarrow> clock w' = clock w \<and> inflight w' = inflight w"
  by (auto simp: checkQuota_def addLog_def setRetryHeaders_def setRemainingHeader_def
      split: option.splits if_splits prod.splits sum.splits)

text \<open>The part of the chain below the error mapping, with its conditions.\<close>

definition inner :: "('q, 'p, 's) chain \<Rightarrow> ('q, 'p, 's) handler \<Rightarrow> ('q, 'p, 's) handler" where
  "inner d h = authInterceptor (verifier d) (policy d) (RateLimit (showDuration d) (limiter d)
     (Deadline (defaultTimeout d) (maxTimeout d) (ValidateRequest (validator d) h)))"

definition handler_pre :: "('q, 'p, 's) chain \<Rightarrow> call \<Rightarrow> 's world \<Rightarrow> call \<Rightarrow> 'q \<Rightarrow> 's world \<Rightarrow> bool" where
  "handler_pre d c0 w0 c q w \<longleftrightarrow> FullMethod c = FullMethod c0
     \<and> authorised (verifier d) (policy d) c0 (backend w0) (callCtx c)
     \<and> (\<exists>e. deadline c = Some e \<and> e \<le> clock w0 + max (defaultTimeout d) (maxTimeout d))
     \<and> validator d q = None
     \<and> inflight w = inflight w0"

lemma applyDeadline_bound:
  "\<exists>e. applyDeadline now d dt mt = Some e \<and> e \<le> now + max dt mt"
  by (cases d) (auto simp: applyDeadline_def withTimeout_def)

lemma inner_guarded: "inner d h c q w = inner d (guarded (handler_pre d c w) h) c q w"
proof (cases "authorize (verifier d) (policy d) (callCtx c) (FullMethod c) w")
  case (Pair r w1)
  show ?thesis
  proof (cases r)
    case (Inl e)
    then show ?thesis using Pair by (simp add: inner_def authInterceptor_def)
  next
    case (Inr c')
    note a = authorize_authorised [OF Pair [unfolded Inr]]
    obtain r2 w2 where q2: "checkQuota (showDuration d) (limiter d) c' (FullMethod c) w1 = (r2, w2)"
      by (cases "checkQuota (showDuration d) (limiter d) c' (FullMethod c) w1")
    note f = checkQuota_frame [OF q2]
    have "handler_pre d c w (c\<lparr>callCtx := c', deadline := applyDeadline (clock w2) (deadline c) (defaultTimeout d) (maxTimeout d)\<rparr>) q w2"
      if "validator d q = None"
      using a f that applyDeadline_bound [of "clock w" "deadline c" "defaultTimeout d" "maxTimeout d"]
      by (simp add: handler_pre_def)
    then show ?thesis
      using Pair Inr q2
      by (cases r2; cases "validator d q")
        (simp_all add: inner_def authInterceptor_def RateLimit_def Deadline_def ValidateRequest_def guarded_def)
  qed
qed

lemma Recovery_cong: "h c q w = h' c q w \<Longrightarrow> Recovery ms dmn h c q w = Recovery ms dmn h' c q w"
  by (simp add: Recovery_def)

lemma Logging_cong: "h c q w = h' c q w \<Longrightarrow> Logging h c q w = Logging h' c q w"
  by (simp add: Logging_def)

lemma ErrorMap_cong: "h c q w = h' c q w \<Longrightarrow> ErrorMap ms np dmn h c q w = ErrorMap ms np dmn h' c q w"
  by (simp add: ErrorMap_def)

lemma Admission_inner:
  "Admission n (inner d h) c q w = Admission n (inner d (guarded (\<lambda>c' q' w'. handler_pre d c w c' q' (w'\<lparr>inflight := inflight w\<rparr>)
     \<and> (FullMethod c = HealthCheckMethod \<or> int (inflight w') \<le> max n 1)) h)) c q w"
proof -
  let ?Q = "\<lambda>c' q' w'. handler_pre d c w c' q' (w'\<lparr>inflight := inflight w\<rparr>) \<and> (FullMethod c = HealthCheckMethod \<or> int (inflight w') \<le> max n 1)"
  have strengthen: "inner d h c q u = inner d (guarded ?Q h) c q u"
    if u: "u = w \<and> FullMethod c = HealthCheckMethod \<or> u = w\<lparr>inflight := inflight w + 1\<rparr> \<and> int (inflight w) < max n 1" for u
  proof -
    have "guarded (handler_pre d c u) h = guarded (handler_pre d c u) (guarded ?Q h)"
      using u by (auto simp: fun_eq_iff guarded_def handler_pre_def)
    then show ?thesis using inner_guarded [of d h c q u] inner_guarded [of d "guarded ?Q h" c q u] by simp
  qed
  show ?thesis using strengthen [of w] strengthen [of "w\<lparr>inflight := inflight w + 1\<rparr>"] by (simp add: Admission_def)
qed

lemma inflight_outer:
  "inflight (snd (ErrorMap ms np dmn g c q w)) = inflight (snd (g c q w))"
  "inflight (snd (Logging g c q w)) = inflight (snd (g c q w))"
  "inflight (snd (Recovery ms dmn g c q w)) = inflight (snd (g c q w))"
  by (simp_all add: ErrorMap_def Logging_def Recovery_def recordRpc_def addLog_def Let_def
      split: prod.splits outcome.splits option.splits)

section \<open>Properties\<close>

text \<open>
  Whatever a handler does (reply, fail with any error tree, panic), the client of the unary and of
  the streaming chain gets a reply or a proper gRPC status. No raw error and no panic escapes.
\<close>

theorem chain_yields_reply_or_status:
  assumes "transparent (metrics d)"
  shows "(case fst (unary d h c q w) of Reply _ \<Rightarrow> True | Failed e \<Rightarrow> statusFromError e \<noteq> None | Panicked _ \<Rightarrow> False)
    \<and> (case fst (streaming d h c q w) of Reply _ \<Rightarrow> True | Failed e \<Rightarrow> statusFromError e \<noteq> None | Panicked _ \<Rightarrow> False)"
  unfolding unary_def streaming_def transparentD [OF assms] by (intro conjI Recovery_outcome)

text \<open>
  A panic tells the client nothing. Two handlers that panic with different values under the
  same conditions are indistinguishable to a client of the unary chain.
\<close>

theorem panic_value_not_leaked:
  assumes "transparent (metrics d)" "panic_equiv h h'"
  shows "fst (unary d h c q w) = fst (unary d h' c q w)"
  unfolding unary_def transparentD [OF assms(1)]
  by (intro Recovery_panic_equiv panic_equiv_steps assms(2))

text \<open>
  C27: a unary handler runs only for an authorised, bounded, valid and admitted request. The chain
  cannot be told apart from one whose handler refuses to run unless the method is public or the
  credential verified to the principal in the context with every required scope, the call has a
  deadline no later than the configured maximum from now, the request passed validation, and the
  slots in use, its own included, are within the admission limit (the health check apart).
\<close>

theorem handler_runs_only_when_authorised:
  assumes "transparent (metrics d)"
  shows "unary d h c q w = unary d (guarded (\<lambda>c' q' w'. handler_pre d c w c' q' (w'\<lparr>inflight := inflight w\<rparr>)
     \<and> (FullMethod c = HealthCheckMethod \<or> int (inflight w') \<le> max (admissionLimit d) 1)) h) c q w"
  unfolding unary_def transparentD [OF assms] inner_def [symmetric]
  by (intro Recovery_cong Logging_cong ErrorMap_cong Admission_inner)

definition sampleChain :: "(nat, nat, unit) chain" where
  "sampleChain = \<lparr>marshals = (\<lambda>_. True), serviceName = ''orderd'', nilReply = 0, metrics = (\<lambda>h. h), admissionLimit = 1,
     verifier = (\<lambda>raw b. if raw = ''good'' then (Inr DevPrincipal, b) else (Inl (Sentinel ErrInvalidToken), b)),
     policy = [(''/m'', \<lparr>Public = False, ruleScopes = [''orders:read'']\<rparr>)],
     limiter = (\<lambda>k b. (Inr allowAll, b)), showDuration = (\<lambda>_. []), defaultTimeout = 10, maxTimeout = 60,
     validator = (\<lambda>q. None)\<rparr>"

definition sampleCall :: "string \<Rightarrow> call" where
  "sampleCall tok = \<lparr>callCtx = \<lparr>principal = None, metadata = Some [(''authorization'', [''Bearer '' @ tok])]\<rparr>,
     deadline = None, FullMethod = ''/m''\<rparr>"

definition sampleWorld :: "unit world" where
  "sampleWorld = \<lparr>inflight = 0, logs = [], headers = [], clock = 0, backend = ()\<rparr>"

lemma sample_transparent: "transparent (metrics sampleChain)"
  by (simp add: transparent_def sampleChain_def)

lemma bearer_good: "bearerToken (callCtx (sampleCall ''good'')) = ''good''" "bearerToken (callCtx (sampleCall ''bad'')) = ''bad''"
  by code_simp+

lemma sample_reply:
  "fst (unary sampleChain (\<lambda>c q w. (Reply (q + 1), w)) (sampleCall ''good'') 4 sampleWorld) = Reply 5"
  using bearer_good(1)
  by (simp add: unary_def Recovery_def Logging_def ErrorMap_def Admission_def authInterceptor_def authorize_def RateLimit_def
      checkQuota_def Deadline_def ValidateRequest_def Check_def sampleChain_def sampleCall_def sampleWorld_def WithPrincipal_def
      PrincipalFrom_def DevPrincipal_def allowAll_def HealthCheckMethod_def setRemainingHeader_def)

theorem chain_yields_reply_or_status_witness:
  "\<exists>e. fst (unary sampleChain (\<lambda>c q w. (Panicked ''secret'', w)) (sampleCall ''good'') 4 sampleWorld) = Failed e
     \<and> statusFromError e \<noteq> None"
proof -
  let ?o = "fst (unary sampleChain (\<lambda>c q w. (Panicked ''secret'', w)) (sampleCall ''good'') 4 sampleWorld)"
  have "\<exists>e. ?o = Failed e"
    using bearer_good(1)
    by (simp add: unary_def Recovery_def Logging_def ErrorMap_def Admission_def authInterceptor_def authorize_def RateLimit_def
        checkQuota_def Deadline_def ValidateRequest_def Check_def sampleChain_def sampleCall_def sampleWorld_def WithPrincipal_def
        PrincipalFrom_def DevPrincipal_def allowAll_def HealthCheckMethod_def setRemainingHeader_def)
  with chain_yields_reply_or_status [OF sample_transparent, of "\<lambda>c q w. (Panicked ''secret'', w)" "sampleCall ''good''" 4 sampleWorld]
  show ?thesis by (cases ?o) auto
qed

theorem panic_value_not_leaked_witness:
  "fst (unary sampleChain (\<lambda>c q w. (Panicked ''secret'', w)) (sampleCall ''good'') 4 sampleWorld)
     = fst (unary sampleChain (\<lambda>c q w. (Panicked [], w)) (sampleCall ''good'') 4 sampleWorld)"
  by (rule panic_value_not_leaked [OF sample_transparent]) (simp add: panic_equiv_def)

theorem handler_runs_only_when_authorised_witness:
  "fst (unary sampleChain (guarded (\<lambda>c' q' w'. handler_pre sampleChain (sampleCall ''good'') sampleWorld c' q' (w'\<lparr>inflight := 0\<rparr>)
       \<and> (FullMethod (sampleCall ''good'') = HealthCheckMethod \<or> int (inflight w') \<le> max 1 1)) (\<lambda>c q w. (Reply (q + 1), w)))
     (sampleCall ''good'') 4 sampleWorld) = Reply 5"
proof -
  have "inflight sampleWorld = 0" "admissionLimit sampleChain = 1" by (simp_all add: sampleWorld_def sampleChain_def)
  with handler_runs_only_when_authorised [OF sample_transparent, of "\<lambda>c q w. (Reply (q + 1), w)" "sampleCall ''good''" 4 sampleWorld]
    sample_reply show ?thesis by simp
qed

text \<open>
  The admission slot is given back on every path. If the handler itself leaves the count of
  occupied slots alone, so does the whole unary chain, whether the handler replies, fails, panics
  or is never reached.
\<close>

theorem admission_slot_released:
  assumes "transparent (metrics d)" "\<forall>c q w. inflight (snd (h c q w)) = inflight w"
  shows "inflight (snd (unary d h c q w)) = inflight w"
proof -
  have inner: "inflight (snd (inner d h c q w)) = inflight w" for c q w
    using assms(2)
    by (auto simp: inner_def authInterceptor_def RateLimit_def Deadline_def ValidateRequest_def authorize_def addLog_def
        dest!: checkQuota_frame split: prod.splits sum.splits option.splits if_splits)
  have adm: "inflight (snd (Admission n (inner d h) c q w)) = inflight w" for n
    using inner [of c q w] inner [of c q "w\<lparr>inflight := inflight w + 1\<rparr>"]
    by (auto simp: Admission_def split: prod.splits)
  show ?thesis
    unfolding unary_def transparentD [OF assms(1)] inner_def [symmetric] inflight_outer adm ..
qed

theorem admission_slot_released_witness:
  "inflight (snd (unary sampleChain (\<lambda>c q w. (Panicked ''boom'', w)) (sampleCall ''good'') 4 sampleWorld)) = 0"
  using admission_slot_released [OF sample_transparent, of "\<lambda>c q w. (Panicked ''boom'', w)" "sampleCall ''good''" 4 sampleWorld]
  by (simp add: sampleWorld_def)

text \<open>
  A caller that is not authorised costs no quota and reaches nothing. When the credential does
  not verify, the unary chain answers Unauthenticated or sheds the call before that, and the part of
  the state below the interceptors is only what the verifier made of it: neither the limiter nor the
  handler ran.
\<close>

theorem unauthenticated_reaches_nothing:
  assumes "transparent (metrics d)" "map_of (policy d) (FullMethod c) = Some rule" "\<not> Public rule"
    and "verifier d (bearerToken (callCtx c)) (backend w) = (Inl err, b)"
  shows "(\<exists>ds m. fst (unary d h c q w) = Failed (StatusErr Unauthenticated m ds)
        \<and> backend (snd (unary d h c q w)) = b)
    \<or> (\<exists>ds m. fst (unary d h c q w) = Failed (StatusErr ResourceExhausted m ds)
        \<and> backend (snd (unary d h c q w)) = backend w)"
proof -
  have inner: "inner d h c q u = (Failed (appNew KindUnauthenticated ''UNAUTHENTICATED'' ''invalid or missing credentials''),
      addLog (AuthFailed (FullMethod c) (errorText err)) (u\<lparr>backend := b\<rparr>))" if "backend u = backend w" for u
    using assms(2-4) that by (simp add: inner_def authInterceptor_def authorize_def)
  have map: "mapErr ms (AppErr k r m md ds None) dmn = Some (StatusErr (GRPCCode k)
      (StMessage (ToStatus ms (Some (AppErr k r m md ds None)) dmn)) (StDetails (ToStatus ms (Some (AppErr k r m md ds None)) dmn)))"
    for ms k r m md ds dmn
    by (simp add: mapErr_def ToError_StatusErr StCode_ToStatus KindOf_def)
  have codes: "GRPCCode KindUnauthenticated = Unauthenticated" "GRPCCode KindResourceExhausted = ResourceExhausted"
    by (simp_all add: GRPCCode_def kindInfo_def)
  show ?thesis
    unfolding unary_def transparentD [OF assms(1)] inner_def [symmetric]
    using inner [of w] inner [of "w\<lparr>inflight := inflight w + 1\<rparr>"]
    by (simp add: Recovery_def Logging_def ErrorMap_def Admission_def appNew_def overloadedErr_def map codes
        recordRpc_def addLog_def Let_def)
qed

theorem unauthenticated_reaches_nothing_witness:
  "\<exists>ds m. fst (unary sampleChain (\<lambda>c q w. (Reply 0, w)) (sampleCall ''bad'') 4 sampleWorld) = Failed (StatusErr Unauthenticated m ds)
     \<or> fst (unary sampleChain (\<lambda>c q w. (Reply 0, w)) (sampleCall ''bad'') 4 sampleWorld) = Failed (StatusErr ResourceExhausted m ds)"
proof -
  have "map_of (policy sampleChain) (FullMethod (sampleCall ''bad'')) = Some \<lparr>Public = False, ruleScopes = [''orders:read'']\<rparr>"
    "verifier sampleChain (bearerToken (callCtx (sampleCall ''bad''))) (backend sampleWorld) = (Inl (Sentinel ErrInvalidToken), ())"
    unfolding bearer_good by (simp_all add: sampleChain_def sampleCall_def)
  from unauthenticated_reaches_nothing [OF sample_transparent this(1) _ this(2), of "\<lambda>c q w. (Reply 0, w)" 4]
  show ?thesis by auto
qed

text \<open>
  The log records what the client saw. After a unary call that failed, the last log record is
  the finished record with exactly the code of the error the client gets (an error level exactly for
  server faults), or the record of the panic that was turned into that error.
\<close>

theorem log_records_final_code:
  assumes "transparent (metrics d)" "unary d h c q w = (Failed e, w')"
  shows "last (logs w') = RpcFinished (if isServerFault (statusCode (Some e)) then LevelError else LevelWarn)
        (FullMethod c) (statusCode (Some e)) (Some (errorText e))
    \<or> (\<exists>r. last (logs w') = PanicRecovered (FullMethod c) r \<and> statusCode (Some e) = Internal)"
  using assms(2) unfolding unary_def transparentD [OF assms(1)]
  by (auto simp: Recovery_def Logging_def recordRpc_def addLog_def Let_def handlePanic_eq statusCode_def statusFromError_def
      split: prod.splits outcome.splits)

theorem log_records_final_code_witness:
  "\<exists>e w'. unary sampleChain (\<lambda>c q w. (Failed (Plain ''db down''), w)) (sampleCall ''good'') 4 sampleWorld = (Failed e, w')
     \<and> last (logs w') = RpcFinished LevelError ''/m'' Internal (Some (errorText e))"
proof -
  let ?r = "unary sampleChain (\<lambda>c q w. (Failed (Plain ''db down''), w)) (sampleCall ''good'') 4 sampleWorld"
  have e: "\<exists>w' m ds. ?r = (Failed (StatusErr Internal m ds), w') \<and> (\<forall>r. last (logs w') \<noteq> PanicRecovered ''/m'' r)"
    using bearer_good(1)
    by (simp add: unary_def Recovery_def Logging_def ErrorMap_def Admission_def authInterceptor_def authorize_def RateLimit_def
        checkQuota_def Deadline_def ValidateRequest_def Check_def sampleChain_def sampleCall_def sampleWorld_def WithPrincipal_def
        PrincipalFrom_def DevPrincipal_def allowAll_def HealthCheckMethod_def setRemainingHeader_def mapErr_def statusFromError_def
        ToError_StatusErr StCode_ToStatus KindOf_def classify_def GRPCCode_def kindInfo_def recordRpc_def addLog_def Let_def)
  then obtain w' m ds where r: "?r = (Failed (StatusErr Internal m ds), w')" "\<forall>r. last (logs w') \<noteq> PanicRecovered ''/m'' r" by blast
  have "FullMethod (sampleCall ''good'') = ''/m''" by (simp add: sampleCall_def)
  with log_records_final_code [OF sample_transparent r(1)] r show ?thesis
    by (auto simp: statusCode_def statusFromError_def isServerFault_def)
qed

text \<open>
  Quotas of different tenants and methods never share a key, as long as method names hold no
  colon (gRPC method names do not), whatever characters tenant ids hold.
\<close>

theorem limitKey_injective:
  assumes "CHR '':'' \<notin> set m" "CHR '':'' \<notin> set m'"
  shows "limitKey t m = limitKey t' m' \<longleftrightarrow> t = t' \<and> m = m'"
proof
  assume eq: "limitKey t m = limitKey t' m'"
  have tw: "takeWhile (\<lambda>c. c \<noteq> CHR '':'') (rev (limitKey u n)) = rev n" if "CHR '':'' \<notin> set n" for u n
    using that unfolding limitKey_def rev_append append_assoc by (subst takeWhile_append2) auto
  have "rev m = rev m'" using tw [OF assms(1), of t] tw [OF assms(2), of t'] eq by simp
  then have "m = m'" by simp
  with eq show "t = t' \<and> m = m'" by (simp add: limitKey_def)
qed simp

theorem limitKey_injective_witness:
  "limitKey ''a:/x'' ''/m'' \<noteq> limitKey ''a'' ''/m''"
  using limitKey_injective [of "''/m''" "''/m''" "''a:/x''" "''a''"] by simp

text \<open>
  The advertised retry time is never early and never a second late. For a non-negative wait the
  \<open>retry-after\<close> header is the least number of whole seconds that covers it, and at least 1.
\<close>

theorem retry_header_covers_wait:
  assumes "0 \<le> RetryAfter r"
  shows "RetryAfter r \<le> retrySeconds r * 1000000000 \<and> 1 \<le> retrySeconds r
    \<and> (retrySeconds r = 1 \<or> (retrySeconds r - 1) * 1000000000 < RetryAfter r)"
proof -
  define s where "s = RetryAfter r div 1000000000"
  have "RetryAfter r = s * 1000000000 + RetryAfter r mod 1000000000" "0 \<le> RetryAfter r mod 1000000000"
      "RetryAfter r mod 1000000000 < 1000000000"
    by (simp_all add: s_def)
  moreover have "RetryAfter r sdiv 1000000000 = s" using assms by (simp add: sdiv_smod_nonneg s_def)
  ultimately show ?thesis by (auto simp: retrySeconds_def Let_def)
qed

theorem retry_header_covers_wait_witness:
  "retrySeconds \<lparr>Allowed = False, RetryAfter = 1000000001, Remaining = 0\<rparr> * 1000000000 \<ge> 1000000001"
  using retry_header_covers_wait [of "\<lparr>Allowed = False, RetryAfter = 1000000001, Remaining = 0\<rparr>"] by simp

end
