(* ===== verification/Outbound.thy ===== *)
theory Outbound
  imports Interceptors Appconfig
begin

text \<open>
  The gRPC client (\<open>internal/platform/client\<close>): the deadline budget, the identity a call carries,
  the conversion of an upstream's status, the retry policy and \<open>Dial\<close>. An invoker is a function
  of the outgoing context and the method; its result is the error of the call. The metrics
  interceptor passes calls through and is left out.
\<close>

section \<open>Outgoing calls\<close>

text \<open>
  What a \<open>context.Context\<close> carries for an outgoing call: the map installed with
  \<open>metadata.NewOutgoingContext\<close>, with the keys as its author wrote them, and the pairs appended
  afterwards.
\<close>

record rawMD =
  rawMap :: "(string \<times> string list) list"
  rawAdded :: "(string \<times> string) list"

record outctx =
  oCtx :: ctx
  oDeadline :: "int option"
  oMD :: "rawMD option"

type_synonym invoker = "outctx \<Rightarrow> string \<Rightarrow> goerr option"

datatype transport = InsecureTransport | SystemTLS | OtherTransport string

record Retry =
  rMethod :: string
  MaxAttempts :: int
  InitialBackoff :: int
  MaxBackoff :: int
  BackoffMultiplier :: float64

record Options =
  Target :: string
  oDefaultTimeout :: int
  oReserveFraction :: float64
  oMinBudget :: int
  oRetry :: "Retry list"
  Credentials :: "(outctx \<Rightarrow> string res) option"
  TransportCredentials :: "transport option"
  MaxRecvBytes :: int

definition newOptions :: "AppConfig \<Rightarrow> string \<Rightarrow> Options" where
  "newOptions c target = \<lparr>Target = target, oDefaultTimeout = upDefaultTimeout (Upstream c),
     oReserveFraction = ReserveFraction (Upstream c), oMinBudget = MinBudget (Upstream c), oRetry = [],
     Credentials = None, TransportCredentials = None, MaxRecvBytes = MaxRecvMsgBytes (Server c)\<rparr>"

definition applyDefaults :: "Options \<Rightarrow> Options" where
  "applyDefaults o' =
     (let o1 = (if oDefaultTimeout o' \<le> 0 then o'\<lparr>oDefaultTimeout := 10 * seconds\<rparr> else o');
          o2 = (if fle (oReserveFraction o1) (fofint 0) \<or> fle (fofint 1) (oReserveFraction o1)
                then o1\<lparr>oReserveFraction := rnd 1 10\<rparr> else o1);
          o3 = (if oMinBudget o2 \<le> 0 then o2\<lparr>oMinBudget := 50 * millis\<rparr> else o2)
      in if MaxRecvBytes o3 \<le> 0 then o3\<lparr>MaxRecvBytes := 4194304\<rparr> else o3)"

section \<open>Metadata\<close>

definition lowerKey :: "string \<Rightarrow> string" where
  "lowerKey = map lower_byte"

definition authorizationKey :: string where "authorizationKey = ''authorization''"
definition MetadataTenantID :: string where "MetadataTenantID = ''x-gomicro-tenant-id''"
definition MetadataSubject :: string where "MetadataSubject = ''x-gomicro-subject''"

text \<open>\<open>metadata.FromOutgoingContext\<close>: one map with lower-case keys. The list of the installed map is
  the order of one iteration; of two keys that differ in case only, the later one stays.\<close>

definition putKey :: "string \<Rightarrow> string list \<Rightarrow> (string \<times> string list) list \<Rightarrow> (string \<times> string list) list" where
  "putKey k vs m = filter (\<lambda>(k', _). k' \<noteq> k) m @ [(k, vs)]"

definition FromOutgoingContext :: "outctx \<Rightarrow> (string \<times> string list) list option" where
  "FromOutgoingContext o' = (case oMD o' of
     None \<Rightarrow> None
   | Some raw \<Rightarrow>
       Some (foldl (\<lambda>m (k, v). putKey (lowerKey k) ((case map_of m (lowerKey k) of None \<Rightarrow> [] | Some vs \<Rightarrow> vs) @ [v]) m)
         (foldl (\<lambda>m (k, vs). putKey (lowerKey k) vs m) [] (rawMap raw)) (rawAdded raw)))"

text \<open>\<open>metadata.AppendToOutgoingContext\<close> keeps the installed map (an empty one if there is none).\<close>

definition AppendToOutgoingContext :: "string \<Rightarrow> string \<Rightarrow> outctx \<Rightarrow> outctx" where
  "AppendToOutgoingContext k v o' =
     o'\<lparr>oMD := Some (case oMD o' of None \<Rightarrow> \<lparr>rawMap = [], rawAdded = [(k, v)]\<rparr>
       | Some raw \<Rightarrow> raw\<lparr>rawAdded := rawAdded raw @ [(k, v)]\<rparr>)\<rparr>"

text \<open>The header fields of the request.\<close>

definition wireHeaders :: "outctx \<Rightarrow> (string \<times> string) list" where
  "wireHeaders o' = (case oMD o' of
     None \<Rightarrow> []
   | Some raw \<Rightarrow> concat (map (\<lambda>(k, vs). map (Pair k) vs) (rawMap raw)) @ map (\<lambda>(k, v). (lowerKey k, v)) (rawAdded raw))"

section \<open>Identity\<close>

definition stripAuthorization :: "outctx \<Rightarrow> outctx" where
  "stripAuthorization o' = (case FromOutgoingContext o' of
     None \<Rightarrow> o'
   | Some md \<Rightarrow>
       if map_of md authorizationKey \<noteq> None
       then o'\<lparr>oMD := Some \<lparr>rawMap = filter (\<lambda>(k, _). k \<noteq> authorizationKey) md, rawAdded = []\<rparr>\<rparr>
       else o')"

definition attachIdentity :: "Options \<Rightarrow> outctx \<Rightarrow> outctx res" where
  "attachIdentity opts o' =
     (let o1 = stripAuthorization o';
          o2 = (case PrincipalFrom (oCtx o1) of
             None \<Rightarrow> o1
           | Some p \<Rightarrow>
               (let o3 = (if pTenantID p \<noteq> [] then AppendToOutgoingContext MetadataTenantID (pTenantID p) o1 else o1)
                in if Auth.Subject p \<noteq> [] then AppendToOutgoingContext MetadataSubject (Auth.Subject p) o3 else o3))
      in case Credentials opts of
           None \<Rightarrow> Inr o2
         | Some token' \<Rightarrow> (case token' o2 of
             Inl err \<Rightarrow> Inl err
           | Inr token \<Rightarrow>
               if trim_space token = [] then Inr o2
               else Inr (AppendToOutgoingContext authorizationKey (''Bearer '' @ token) o2)))"

definition unaryIdentity :: "Options \<Rightarrow> invoker \<Rightarrow> invoker" where
  "unaryIdentity opts ivk o' mth = (case attachIdentity opts o' of
     Inl err \<Rightarrow> Some (Errorf (''client: credentials for '' @ mth @ '': '' @ errorText err) [err])
   | Inr o1 \<Rightarrow> ivk o1 mth)"

definition streamIdentity :: "Options \<Rightarrow> invoker \<Rightarrow> invoker" where
  "streamIdentity opts ivk o' mth = (case attachIdentity opts o' of
     Inl err \<Rightarrow> Some (Errorf (''client: credentials for '' @ mth @ '': '' @ errorText err) [err])
   | Inr o1 \<Rightarrow> ivk o1 mth)"

section \<open>Budget\<close>

text \<open>\<open>time.Until\<close> saturates. Converting a float that has no \<open>int64\<close> value is up to the
  implementation: the argument \<open>conv\<close>.\<close>

definition timeUntil :: "int \<Rightarrow> int \<Rightarrow> int" where
  "timeUntil now d = max (- (2 ^ 63)) (min (2 ^ 63 - 1) (d - now))"

definition toDuration :: "(float64 \<Rightarrow> int) \<Rightarrow> float64 \<Rightarrow> int" where
  "toDuration conv x = (case ftrunc x of Some i \<Rightarrow> if in64 i then i else conv x | None \<Rightarrow> conv x)"

definition budget :: "(float64 \<Rightarrow> int) \<Rightarrow> int \<Rightarrow> int option \<Rightarrow> int \<Rightarrow> int \<Rightarrow> float64 \<Rightarrow> int \<times> bool" where
  "budget conv now d dflt minBudget reserve = (case d of
     None \<Rightarrow> (dflt, True)
   | Some d' \<Rightarrow>
       (let remaining = timeUntil now d'
        in if remaining \<le> 0 then (0, False)
           else (let allowed = toDuration conv (fmul (fofint remaining) (fsub (fofint 1) reserve))
                 in if allowed < minBudget then (0, False) else (allowed, True))))"

definition newBudgetError :: "(int \<Rightarrow> string) \<Rightarrow> int \<Rightarrow> string \<Rightarrow> string \<Rightarrow> int option \<Rightarrow> goerr" where
  "newBudgetError showDur now target mth d =
     (let remaining = (case d of None \<Rightarrow> 0 | Some d' \<Rightarrow> timeUntil now d')
      in UpstreamErr target mth DeadlineExceeded ''BUDGET_EXHAUSTED'' []
           (''not enough deadline left to call '' @ target @ '' ('' @ showDur remaining @ '' remaining)'') 0
           (Sentinel ErrBudgetExhausted))"

text \<open>The interceptors read the clock twice: in \<open>budget\<close>, and then where the context gets its timeout or
  the error its text.\<close>

type_synonym readings = "int \<times> int"

definition unaryBudget :: "(float64 \<Rightarrow> int) \<Rightarrow> (int \<Rightarrow> string) \<Rightarrow> readings \<Rightarrow> Options \<Rightarrow> invoker \<Rightarrow> invoker" where
  "unaryBudget conv showDur now opts ivk o' mth =
     (case budget conv (fst now) (oDeadline o') (oDefaultTimeout opts) (oMinBudget opts) (oReserveFraction opts) of
        (allowed, False) \<Rightarrow> Some (newBudgetError showDur (snd now) (Target opts) mth (oDeadline o'))
      | (allowed, True) \<Rightarrow> ivk (o'\<lparr>oDeadline := withTimeout (snd now) allowed (oDeadline o')\<rparr>) mth)"

definition streamBudget :: "(float64 \<Rightarrow> int) \<Rightarrow> (int \<Rightarrow> string) \<Rightarrow> readings \<Rightarrow> Options \<Rightarrow> invoker \<Rightarrow> invoker" where
  "streamBudget conv showDur now opts ivk o' mth =
     (if \<not> snd (budget conv (fst now) (oDeadline o') (oDefaultTimeout opts) (oMinBudget opts) (oReserveFraction opts))
      then Some (newBudgetError showDur (snd now) (Target opts) mth (oDeadline o'))
      else ivk o' mth)"

section \<open>Upstream errors\<close>

text \<open>The details that set a field of the error: the first \<open>ErrorInfo\<close> with a reason, and the last
  \<open>RetryInfo\<close>. (A \<open>RetryInfo\<close> without a delay sets nothing; here every \<open>RetryInfo\<close> has one, and one without
  counts among the other details.)\<close>

fun readDetails :: "detail list \<Rightarrow> string \<times> string \<times> int \<Rightarrow> string \<times> string \<times> int" where
  "readDetails [] a = a"
| "readDetails (ErrorInfo r d md # ds) (reason, domain, after) =
     readDetails ds (if reason = [] then (r, d, after) else (reason, domain, after))"
| "readDetails (RetryInfo delay # ds) (reason, domain, after) = readDetails ds (reason, domain, delay)"
| "readDetails (_ # ds) a = readDetails ds a"

definition newUpstreamError :: "string \<Rightarrow> string \<Rightarrow> goerr option \<Rightarrow> goerr option" where
  "newUpstreamError target mth err = (case err of
     None \<Rightarrow> None
   | Some e \<Rightarrow> (case statusFromError e of
       None \<Rightarrow> Some e
     | Some (code, message, details) \<Rightarrow>
         (case readDetails details ([], [], 0) of (reason, domain, after) \<Rightarrow>
            Some (UpstreamErr target mth code reason domain message after (Plain (code_name code @ '': '' @ message))))))"

definition unaryErrors :: "Options \<Rightarrow> invoker \<Rightarrow> invoker" where
  "unaryErrors opts ivk o' mth = newUpstreamError (Target opts) mth (ivk o' mth)"

text \<open>\<open>From\<close> is \<^const>\<open>asUpstream\<close>. The methods of \<open>*Error\<close>.\<close>

fun upKind :: "goerr \<Rightarrow> Kind" where
  "upKind (UpstreamErr target mth code reason domain message after e) =
     (if code \<in> {Unavailable, DeadlineExceeded, Canceled, ResourceExhausted} then KindUnavailable else KindInternal)"
| "upKind _ = KindInternal"

definition upAppError :: "goerr \<Rightarrow> Kind \<Rightarrow> string \<Rightarrow> string \<Rightarrow> goerr" where
  "upAppError e kind reason message = appWrap e kind reason message"

fun AsAppError :: "goerr \<Rightarrow> goerr" where
  "AsAppError (UpstreamErr target mth code reason domain message after e) =
     (let up = UpstreamErr target mth code reason domain message after e; kind = upKind up;
          (r, m) = (if kind = KindInternal
             then (''UPSTREAM_FAILED'', ''upstream '' @ target @ '' returned '' @ code_name code @ '' from '' @ mth)
             else (''UPSTREAM_UNAVAILABLE'', ''an upstream service is unavailable''))
      in WithMetadata (appWrap up kind r m) [(''upstream'', target), (''upstream_method'', mth), (''upstream_code'', code_name code)])"
| "AsAppError e = e"

text \<open>The chains, outermost first.\<close>

definition unaryChain :: "(float64 \<Rightarrow> int) \<Rightarrow> (int \<Rightarrow> string) \<Rightarrow> readings \<Rightarrow> Options \<Rightarrow> invoker \<Rightarrow> invoker" where
  "unaryChain conv showDur now opts ivk =
     unaryIdentity opts (unaryBudget conv showDur now opts (unaryErrors opts ivk))"

definition streamChain :: "(float64 \<Rightarrow> int) \<Rightarrow> (int \<Rightarrow> string) \<Rightarrow> readings \<Rightarrow> Options \<Rightarrow> invoker \<Rightarrow> invoker" where
  "streamChain conv showDur now opts ivk = streamIdentity opts (streamBudget conv showDur now opts ivk)"

section \<open>Retry policy\<close>

text \<open>The service configuration before it is rendered as JSON; \<open>d.Seconds()\<close> is a float.\<close>

definition durationSeconds :: "int \<Rightarrow> float64" where
  "durationSeconds d = fsub (fofint (d sdiv seconds)) (fneg (fdiv (fofint (d smod seconds)) (fofint seconds)))"

record retryPolicy =
  rpMaxAttempts :: int
  rpInitialBackoff :: float64
  rpMaxBackoff :: float64
  rpBackoffMultiplier :: float64
  rpRetryableStatusCodes :: "string list"

record methodConfig =
  mcService :: string
  mcMethod :: string
  mcRetryPolicy :: retryPolicy

record serviceConfig =
  MethodConfig :: "methodConfig list"
  RetryThrottling :: "(int \<times> float64) option"

definition retryableCodes :: "string list" where
  "retryableCodes = [''UNAVAILABLE'']"

definition splitMethod :: "string \<Rightarrow> (string \<times> string) res" where
  "splitMethod full =
     (let trimmed = (case full of c # cs \<Rightarrow> if c = CHR ''/'' then cs else full | [] \<Rightarrow> []);
          service = takeWhile (\<lambda>c. c \<noteq> CHR ''/'') trimmed;
          found = CHR ''/'' \<in> set trimmed;
          mth = tl (dropWhile (\<lambda>c. c \<noteq> CHR ''/'') trimmed)
      in if trimmed = [] then Inl (Errorf ''client: empty method name in the retry policy'' [])
         else if service = [] then Inl (Errorf (''client: '' @ quoted full @ '' names a method with no service'') [])
         else if found \<and> mth = [] then Inl (Errorf (''client: '' @ quoted full @ '' has a trailing slash and no method name'') [])
         else Inr (service, mth))"

fun methodConfigs :: "string list \<Rightarrow> Retry list \<Rightarrow> methodConfig list res" where
  "methodConfigs seen [] = Inr []"
| "methodConfigs seen (r # rs) = (case splitMethod (rMethod r) of
     Inl err \<Rightarrow> Inl err
   | Inr (service, mth) \<Rightarrow>
       (let key = service @ ''/'' @ mth
        in if key \<in> set seen then Inl (Errorf (''client: '' @ quoted (rMethod r) @ '' appears twice in the retry policy; grpc-go rejects ''
             @ ''the entire service config on a duplicate, so every other method loses its policy too'') [])
           else if MaxAttempts r < 2 then Inl (Errorf (''client: retry policy for '' @ quoted (rMethod r) @ '' has MaxAttempts ''
             @ show_int (MaxAttempts r) @ ''; it counts the first attempt, so anything below 2 means no retry at all and grpc-go rejects it'') [])
           else if InitialBackoff r \<le> 0 \<or> MaxBackoff r \<le> 0 \<or> fle (BackoffMultiplier r) (fofint 0)
             then Inl (Errorf (''client: retry policy for '' @ quoted (rMethod r) @ '' needs a positive InitialBackoff, ''
               @ ''MaxBackoff and BackoffMultiplier; grpc-go rejects the whole config otherwise'') [])
           else (case methodConfigs (key # seen) rs of
             Inl err \<Rightarrow> Inl err
           | Inr cs \<Rightarrow> Inr (\<lparr>mcService = service, mcMethod = mth,
               mcRetryPolicy = \<lparr>rpMaxAttempts = MaxAttempts r, rpInitialBackoff = durationSeconds (InitialBackoff r),
                 rpMaxBackoff = durationSeconds (MaxBackoff r), rpBackoffMultiplier = BackoffMultiplier r,
                 rpRetryableStatusCodes = retryableCodes\<rparr>\<rparr> # cs))))"

text \<open>\<open>json.Marshal\<close> refuses a float that is not finite.\<close>

definition buildServiceConfig :: "Retry list \<Rightarrow> bool \<Rightarrow> serviceConfig option res" where
  "buildServiceConfig retries throttle =
     (if retries = [] then Inr None
      else (case methodConfigs [] retries of
        Inl err \<Rightarrow> Inl err
      | Inr cs \<Rightarrow>
          if list_ex (\<lambda>r. \<not> is_fin (BackoffMultiplier r)) retries
          then Inl (Errorf ''client: render service config: json: unsupported value'' [])
          else Inr (Some \<lparr>MethodConfig = cs, RetryThrottling = if throttle then Some (10, rnd 1 10) else None\<rparr>)))"

section \<open>Dialling\<close>

record conn =
  cnTransport :: transport
  cnMaxRecv :: int
  cnKeepaliveTime :: int
  cnServiceConfig :: "serviceConfig option"
  cnOptions :: Options

text \<open>The argument is what \<open>grpc.NewClient\<close> answers.\<close>

definition Dial :: "goerr option \<Rightarrow> AppConfig \<Rightarrow> Options \<Rightarrow> conn res" where
  "Dial fault c opts =
     (if Target opts = [] then Inl (Errorf ''client: no target'' [])
      else (let o' = applyDefaults opts
        in if TransportCredentials o' = Some InsecureTransport \<and> IsProduction c
           then Inl (Errorf (''client: refusing an insecure connection to '' @ Target o' @ '' when APP_ENV=production: the ''
             @ ''service credential would cross the network in clear text'') [])
           else (case buildServiceConfig (oRetry o') True of
             Inl err \<Rightarrow> Inl err
           | Inr sc \<Rightarrow> (case fault of
               Some err \<Rightarrow> Inl (Errorf (''client: dial '' @ Target o' @ '': '' @ errorText err) [err])
             | None \<Rightarrow> Inr \<lparr>cnTransport = (case TransportCredentials o' of None \<Rightarrow> SystemTLS | Some t \<Rightarrow> t),
                 cnMaxRecv = MaxRecvBytes o', cnKeepaliveTime = wrap64 (KeepaliveMinTime (Server c) * 2),
                 cnServiceConfig = sc, cnOptions = o'\<rparr>))))"

section \<open>Lemmas\<close>

subsection \<open>Rounding of the budget\<close>

lemma powi_53: "(2::real) powi (- 53) = 1 / 9007199254740992" "(2::real) powi (- 51) = 4 * 2 powi (- 53)"
  by (simp_all add: power_int_def power_inverse field_simps)

lemma powi_range: "(2::real) powi (- 1022) \<le> 2 powi (- 60)" "(2::real) powi 66 \<le> 2 powi 1023"
  by (rule power_int_increasing; simp)+

lemma relative_bounds:
  fixes x y u :: real
  assumes "\<bar>y - x\<bar> \<le> x * u" "0 < x" "u \<le> 1 / 8"
  shows "x * 7 / 8 \<le> y" "y \<le> x * 9 / 8"
proof -
  have "x * u \<le> x * (1 / 8)" using assms(2,3) by (intro mult_left_mono) auto
  then show "x * 7 / 8 \<le> y" "y \<le> x * 9 / 8" using assms(1) by linarith+
qed

lemma relative_product:
  fixes u x y f g p :: real
  assumes "0 < u" "u \<le> 1 / 8" "0 < x" "0 < y" "\<bar>f - x\<bar> \<le> x * u" "\<bar>g - y\<bar> \<le> y * u" "\<bar>p - f * g\<bar> \<le> f * g * u"
  shows "x * y * (1 - 4 * u) \<le> p" "p \<le> x * y * (1 + 4 * u)"
proof -
  have lo: "x * (1 - u) \<le> f" "y * (1 - u) \<le> g" and hi: "f \<le> x * (1 + u)" "g \<le> y * (1 + u)"
    using assms(5,6) by (simp_all add: algebra_simps abs_le_iff)
  have pos: "0 \<le> x * (1 - u)" "0 \<le> y * (1 - u)" "0 \<le> f" "0 \<le> g"
    using assms(1-4) lo by (auto intro: order_trans [rotated])
  have p: "f * g * (1 - u) \<le> p" "p \<le> f * g * (1 + u)" using assms(7) by (simp_all add: algebra_simps abs_le_iff)
  have "(x * (1 - u)) * (y * (1 - u)) * (1 - u) \<le> f * g * (1 - u)"
    using mult_mono [OF lo pos(3,2)] assms(2) by (intro mult_right_mono) auto
  moreover have "f * g * (1 + u) \<le> (x * (1 + u)) * (y * (1 + u)) * (1 + u)"
    using mult_mono [OF hi _ pos(4)] assms(1,3) by (intro mult_right_mono) auto
  moreover have "1 - 4 * u \<le> (1 - u) ^ 3"
  proof -
    have "u ^ 3 \<le> u" using assms(1,2) power_decreasing [of 1 3 u] by simp
    moreover have "(1 - u) ^ 3 = 1 - 3 * u + 3 * u ^ 2 - u ^ 3" by (simp add: power3_eq_cube power2_eq_square algebra_simps)
    moreover have "0 \<le> u ^ 2" by simp
    ultimately show ?thesis using assms(1) by linarith
  qed
  then have "x * y * (1 - 4 * u) \<le> x * y * (1 - u) ^ 3" using assms(3,4) by (intro mult_left_mono) auto
  moreover have "(1 + u) ^ 3 \<le> 1 + 4 * u"
  proof -
    have "u ^ 2 \<le> u / 8" using assms(1,2) mult_left_mono [of u "1/8" u] by (simp add: power2_eq_square)
    moreover have "u ^ 3 \<le> u ^ 2" using assms(1,2) power_decreasing [of 2 3 u] by simp
    moreover have "(1 + u) ^ 3 = 1 + 3 * u + 3 * u ^ 2 + u ^ 3" by (simp add: power3_eq_cube power2_eq_square algebra_simps)
    ultimately show ?thesis using assms(1) by linarith
  qed
  then have "x * y * (1 + u) ^ 3 \<le> x * y * (1 + 4 * u)" using assms(3,4) by (intro mult_left_mono) auto
  ultimately show "x * y * (1 - 4 * u) \<le> p" "p \<le> x * y * (1 + 4 * u)"
    using p by (simp_all add: power3_eq_cube mult.assoc mult.left_commute mult.commute)
qed

lemma fofint_one: "is_fin (fofint 1)" "fval (fofint 1) = 1"
proof -
  have "fofint 1 = Fin 4503599627370496 (- 52)" by code_simp
  then show "is_fin (fofint 1)" "fval (fofint 1) = 1" by (simp_all add: scaled_def power_int_def power_inverse power_divide)
qed

lemma fsub_ok:
  assumes "is_fin x" "is_fin y" "2 powi (- 60) \<le> fval x - fval y" "fval x - fval y < 2 powi 66"
  shows "is_fin (fsub x y)" "\<bar>fval (fsub x y) - (fval x - fval y)\<bar> \<le> (fval x - fval y) * 2 powi (- 53)"
proof -
  obtain m e m' e' where xy: "x = Fin m e" "y = Fin m' e'" using assms(1,2) by (cases x; cases y) auto
  let ?n = "numer m (e - min e e') - numer m' (e' - min e e')"
  have v: "scaled ?n (min e e') = fval x - fval y" using fsub_Fin(2) by (simp add: xy)
  have "0 < (2::real) powi (- 60)" by simp
  then have "0 < ?n" using assms(3) v scaled_pos_iff [of ?n "min e e'"] by linarith
  moreover have "2 powi (- 1022) \<le> scaled ?n (min e e')" "scaled ?n (min e e') < 2 powi 1023"
    unfolding v using assms(3,4) powi_range by linarith+
  ultimately have "is_fin (rndScaled ?n (min e e'))"
      "\<bar>fval (rndScaled ?n (min e e')) - scaled ?n (min e e')\<bar> \<le> scaled ?n (min e e') * 2 powi (- 53)"
    by (rule rndScaled_ok)+
  moreover have "fsub x y = rndScaled ?n (min e e')" unfolding xy by (rule fsub_Fin(1))
  ultimately show "is_fin (fsub x y)" "\<bar>fval (fsub x y) - (fval x - fval y)\<bar> \<le> (fval x - fval y) * 2 powi (- 53)"
    unfolding v by simp_all
qed

lemma fmul_ok:
  assumes "is_fin x" "is_fin y" "2 powi (- 60) \<le> fval x * fval y" "fval x * fval y < 2 powi 66"
  shows "is_fin (fmul x y)" "\<bar>fval (fmul x y) - fval x * fval y\<bar> \<le> fval x * fval y * 2 powi (- 53)" "0 \<le> fval (fmul x y)"
proof -
  obtain m e m' e' where xy: "x = Fin m e" "y = Fin m' e'" using assms(1,2) by (cases x; cases y) auto
  have v: "scaled (m * m') (e + e') = fval x * fval y" by (simp add: xy scaled_mult)
  have "0 < (2::real) powi (- 60)" by simp
  then have "0 < m * m'" using assms(3) v scaled_pos_iff [of "m * m'" "e + e'"] by linarith
  moreover have "2 powi (- 1022) \<le> scaled (m * m') (e + e')" "scaled (m * m') (e + e') < 2 powi 1023"
    unfolding v using assms(3,4) powi_range by linarith+
  ultimately have "is_fin (rndScaled (m * m') (e + e'))"
      "\<bar>fval (rndScaled (m * m') (e + e')) - scaled (m * m') (e + e')\<bar> \<le> scaled (m * m') (e + e') * 2 powi (- 53)"
      "0 \<le> fval (rndScaled (m * m') (e + e'))"
    by (rule rndScaled_ok)+
  moreover have "fmul x y = rndScaled (m * m') (e + e')" unfolding xy by (rule fmul.simps(1))
  ultimately show "is_fin (fmul x y)" "\<bar>fval (fmul x y) - fval x * fval y\<bar> \<le> fval x * fval y * 2 powi (- 53)" "0 \<le> fval (fmul x y)"
    unfolding v by simp_all
qed

text \<open>The reserve the budget can honour: a fraction that is not lost in rounding.\<close>

definition honoured :: "float64 \<Rightarrow> bool" where
  "honoured r \<longleftrightarrow> is_fin r \<and> 2 powi (- 51) \<le> fval r \<and> fval r \<le> 1 - 2 powi (- 51)"

lemma allowed_bounds:
  fixes conv :: "float64 \<Rightarrow> int"
  assumes "0 < n" "n < 2 ^ 63" "honoured r"
  defines "a \<equiv> toDuration conv (fmul (fofint n) (fsub (fofint 1) r))"
  shows "a < n" "of_int a \<le> of_int n * (1 - fval r) * (1 + 2 powi (- 51))" "of_int n * (1 - fval r) * (1 - 2 powi (- 51)) - 1 < of_int a"
proof -
  let ?u = "(2::real) powi (- 53)" and ?q = "1 - fval r" and ?N = "of_int n :: real"
  let ?f = "fofint n" and ?s = "fsub (fofint 1) r"
  have u: "0 < ?u" "?u \<le> 1 / 8" by (simp_all add: powi_53)
  have "?N < of_int (2 ^ 63)" using assms(2) by (simp only: of_int_less_iff)
  then have N: "1 \<le> ?N" "?N < 2 ^ 63" using assms(1) by simp_all
  have q: "4 * ?u \<le> ?q" "?q \<le> 1 - 4 * ?u" "is_fin r" using assms(3) unfolding honoured_def powi_53(2) by auto
  have f: "is_fin ?f" "\<bar>fval ?f - ?N\<bar> \<le> ?N * ?u"
  proof -
    have "2 powi (- 60) \<le> (1::real)" "(2::real) ^ 63 < 2 powi 66" by (simp_all add: power_int_def power_inverse power_divide)
    then have "2 powi (- 1022) \<le> ?N / of_int 1" "?N / of_int 1 < 2 powi 1023" using N powi_range by simp_all
    with rnd_ok(1,2) [OF assms(1) zero_less_one] show "is_fin ?f" "\<bar>fval ?f - ?N\<bar> \<le> ?N * ?u" by (simp_all add: fofint_def)
  qed
  have s: "is_fin ?s" "\<bar>fval ?s - ?q\<bar> \<le> ?q * ?u"
    using fsub_ok [of "fofint 1" r] fofint_one q by (auto simp: power_int_def power_inverse power_divide)
  have pos: "0 < ?N" "0 < ?q" using N(1) q(1) u(1) by linarith+
  have fs: "?N / 2 \<le> fval ?f" "fval ?f \<le> 2 * ?N" "?u \<le> fval ?s" "fval ?s \<le> 2"
  proof -
    show "?N / 2 \<le> fval ?f" "fval ?f \<le> 2 * ?N" using relative_bounds [OF f(2) pos(1) u(2)] N(1) by linarith+
    have "v \<le> t \<and> t \<le> 2" if "w * 7 / 8 \<le> t" "t \<le> w * 9 / 8" "4 * v \<le> w" "w \<le> 1 - 4 * v" "0 < v" for v w t :: real
      using that by linarith
    from this [OF relative_bounds [OF s(2) pos(2) u(2)] q(1,2) u(1)] show "?u \<le> fval ?s" "fval ?s \<le> 2" by blast+
  qed
  have "1 / 2 * ?u \<le> fval ?f * fval ?s" using fs N(1) u(1) by (intro mult_mono) auto
  moreover have "fval ?f * fval ?s \<le> (2 * ?N) * 2" using fs N(1) u(1) by (intro mult_mono) auto
  ultimately have p: "is_fin (fmul ?f ?s)" "\<bar>fval (fmul ?f ?s) - fval ?f * fval ?s\<bar> \<le> fval ?f * fval ?s * ?u" "0 \<le> fval (fmul ?f ?s)"
    using fmul_ok [OF f(1) s(1)] N(2) by (auto simp: power_int_def power_inverse power_divide)
  have r: "?N * ?q * (1 - 4 * ?u) \<le> fval (fmul ?f ?s)" "fval (fmul ?f ?s) \<le> ?N * ?q * (1 + 4 * ?u)"
    by (rule relative_product [OF u pos f(2) s(2) p(2)])+
  have "?q * (1 + 4 * ?u) \<le> (1 - 4 * ?u) * (1 + 4 * ?u)" using q u by (intro mult_right_mono) auto
  also have "\<dots> < 1" using u by (simp add: algebra_simps)
  finally have "?N * (?q * (1 + 4 * ?u)) < ?N * 1" using N(1) by (intro mult_strict_left_mono) auto
  then have lt: "fval (fmul ?f ?s) < ?N" using r(2) by (simp add: mult.assoc)
  then have fl: "\<lfloor>fval (fmul ?f ?s)\<rfloor> < n" by linarith
  then have "in64 \<lfloor>fval (fmul ?f ?s)\<rfloor>" using p(3) assms(2) by (simp add: in64_def) linarith
  then have a: "a = \<lfloor>fval (fmul ?f ?s)\<rfloor>" unfolding a_def toDuration_def using ftrunc_floor [OF p(3,1)] by simp
  show "a < n" using fl a by simp
  show "of_int a \<le> ?N * ?q * (1 + 2 powi (- 51))" unfolding a powi_53(2) using r(2) by linarith
  show "?N * ?q * (1 - 2 powi (- 51)) - 1 < of_int a" unfolding a powi_53(2) using r(1) by linarith
qed

subsection \<open>Metadata and identity\<close>

lemma lowerKey_idem: "lowerKey (lowerKey k) = lowerKey k"
  by (simp add: lowerKey_def lower_byte_idem)

lemma lower_names [simp]: "lowerKey authorizationKey = authorizationKey" "lowerKey MetadataTenantID \<noteq> authorizationKey"
    "lowerKey MetadataSubject \<noteq> authorizationKey"
  by code_simp+

lemma keys_putKey: "fst ` set (putKey k vs m) = insert k (fst ` set m)"
  by (force simp: putKey_def)

lemma keys_fold:
  assumes "\<And>m k x. fst ` set (f m (k, x)) = insert (lowerKey k) (fst ` set m)"
  shows "fst ` set (foldl f m xs) = fst ` set m \<union> lowerKey ` fst ` set xs"
proof (induction xs arbitrary: m)
  case (Cons a xs)
  obtain k x where a: "a = (k, x)" by fastforce
  have "fst ` set (foldl f m (a # xs)) = fst ` set (f m (k, x)) \<union> lowerKey ` fst ` set xs" using Cons.IH [of "f m (k, x)"] by (simp add: a)
  then show ?case unfolding assms by (auto simp: a)
qed simp

lemma keys_outgoing:
  assumes "FromOutgoingContext o' = Some md" "oMD o' = Some raw"
  shows "fst ` set md = lowerKey ` (fst ` set (rawMap raw) \<union> fst ` set (rawAdded raw))"
proof -
  let ?m = "foldl (\<lambda>m (k, vs). putKey (lowerKey k) vs m) [] (rawMap raw)"
  have m: "fst ` set ?m = lowerKey ` fst ` set (rawMap raw)" by (subst keys_fold) (simp_all add: keys_putKey)
  have md: "md = foldl (\<lambda>m (k, v). putKey (lowerKey k) ((case map_of m (lowerKey k) of None \<Rightarrow> [] | Some vs \<Rightarrow> vs) @ [v]) m) ?m (rawAdded raw)"
    using assms unfolding FromOutgoingContext_def by simp
  have "fst ` set md = fst ` set ?m \<union> lowerKey ` fst ` set (rawAdded raw)"
    unfolding md by (rule keys_fold) (simp add: keys_putKey)
  then show ?thesis unfolding m by (simp add: image_Un)
qed

text \<open>The credentials on the wire.\<close>

definition authValues :: "outctx \<Rightarrow> string list" where
  "authValues o' = map snd (filter (\<lambda>(k, _). lowerKey k = authorizationKey) (wireHeaders o'))"

lemma authValues_append:
  "authValues (AppendToOutgoingContext k v o') = authValues o' @ (if lowerKey k = authorizationKey then [v] else [])"
  by (simp add: authValues_def wireHeaders_def AppendToOutgoingContext_def lowerKey_idem split: option.splits)

lemma wire_keys: "oMD o' = Some raw \<Longrightarrow> (k, v) \<in> set (wireHeaders o') \<Longrightarrow> lowerKey k \<in> lowerKey ` (fst ` set (rawMap raw) \<union> fst ` set (rawAdded raw))"
  by (force simp: wireHeaders_def lowerKey_idem image_iff)

lemma authValues_strip: "authValues (stripAuthorization o') = []"
proof (cases "oMD o'")
  case None
  then show ?thesis by (simp add: authValues_def wireHeaders_def stripAuthorization_def FromOutgoingContext_def)
next
  case (Some raw)
  then obtain md where md: "FromOutgoingContext o' = Some md" by (simp add: FromOutgoingContext_def)
  note keys = keys_outgoing [OF md Some]
  show ?thesis
  proof (cases "map_of md authorizationKey")
    case None
    then have "authorizationKey \<notin> lowerKey ` (fst ` set (rawMap raw) \<union> fst ` set (rawAdded raw))"
      unfolding keys [symmetric] by (simp add: map_of_eq_None_iff)
    then have "lowerKey k \<noteq> authorizationKey" if "(k, v) \<in> set (wireHeaders o')" for k v
      using wire_keys [OF Some that] by metis
    then show ?thesis using None md by (auto simp: stripAuthorization_def authValues_def filter_empty_conv)
  next
    case (Some v)
    have "lowerKey k = k" if "(k, vs) \<in> set md" for k vs
    proof -
      have "k \<in> fst ` set md" using that by force
      then show ?thesis unfolding keys using lowerKey_idem by auto
    qed
    then show ?thesis using Some md
      by (auto simp: stripAuthorization_def authValues_def wireHeaders_def filter_empty_conv)
  qed
qed

lemma attachIdentity_auth:
  assumes "attachIdentity opts o' = Inr o1"
  shows "authValues o1 = [] \<or> (\<exists>token' o2 tok. Credentials opts = Some token' \<and> token' o2 = Inr tok \<and> authValues o1 = [''Bearer '' @ tok])"
  using assms authValues_strip [of o'] unfolding attachIdentity_def Let_def
  by (auto simp: authValues_append split: option.splits sum.splits if_splits)

subsection \<open>Errors\<close>

lemma statusless_upstream: "newUpstreamError t mth err = Some e \<Longrightarrow> statusFromError e = None"
  by (auto simp: newUpstreamError_def statusFromError_def split: option.splits prod.splits)

text \<open>Getting a credential never fails with a gRPC status.\<close>

definition statuslessCredentials :: "Options \<Rightarrow> bool" where
  "statuslessCredentials opts \<longleftrightarrow> (\<forall>token' o' err. Credentials opts = Some token' \<longrightarrow> token' o' = Inl err \<longrightarrow> asStatus err = None)"

lemma attachIdentity_Inl:
  assumes "statuslessCredentials opts" "attachIdentity opts o' = Inl err"
  shows "asStatus err = None"
  using assms unfolding attachIdentity_def Let_def statuslessCredentials_def
  by (auto split: option.splits sum.splits if_splits)

lemma mapErr_AsAppError:
  "\<exists>c msg' ds. mapErr ms (AsAppError (UpstreamErr t mth code reason dm message after cause)) service = Some (StatusErr c msg' ds)
     \<and> c = (if code \<in> {Unavailable, DeadlineExceeded, Canceled, ResourceExhausted} then Unavailable else Internal)
     \<and> (\<forall>x \<in> set ds. \<exists>r md. x = ErrorInfo r service md)"
proof -
  let ?up = "UpstreamErr t mth code reason dm message after cause"
  obtain r m md where form: "AsAppError ?up = AppErr (upKind ?up) r m md [] (Some ?up)"
    by (cases "upKind ?up = KindInternal") (simp_all add: appWrap_def Let_def)
  have "GRPCCode (upKind ?up) = (if code \<in> {Unavailable, DeadlineExceeded, Canceled, ResourceExhausted} then Unavailable else Internal)"
    by (simp add: GRPCCode_def kindInfo_def)
  then show ?thesis unfolding form
    by (simp add: mapErr_def ToError_def ToStatus_def toApp_def Let_def del: upKind.simps)
qed

lemma unaryChain_statusless:
  assumes "unaryChain conv sd now opts ivk o' mth = Some e" "statuslessCredentials opts"
  shows "statusFromError e = None"
proof (cases "attachIdentity opts o'")
  case (Inl err)
  then show ?thesis using assms attachIdentity_Inl [OF assms(2) Inl]
    by (auto simp: unaryChain_def unaryIdentity_def statusFromError_def)
next
  case (Inr o1)
  have "unaryBudget conv sd now opts (unaryErrors opts ivk) o1 mth = Some e" using assms(1) Inr by (simp add: unaryChain_def unaryIdentity_def)
  then show ?thesis using statusless_upstream
    by (auto simp: unaryBudget_def unaryErrors_def newBudgetError_def statusFromError_def Let_def split: prod.splits bool.splits)
qed

subsection \<open>Settings and retries\<close>

lemma config_options:
  fixes target :: string
  assumes "ParseFor vars role = Inr c"
  defines "opts \<equiv> applyDefaults (newOptions c target)"
  shows "oDefaultTimeout opts = upDefaultTimeout (Upstream c)" "oMinBudget opts = MinBudget (Upstream c)"
    "oReserveFraction opts = ReserveFraction (Upstream c)" "Target opts = target" "Credentials opts = None"
proof -
  have "validateUpstream c = []" by (rule validateConfig_Nil(7) [OF ParseFor_Inr(3) [OF assms(1)]])
  then show "oDefaultTimeout opts = upDefaultTimeout (Upstream c)" "oMinBudget opts = MinBudget (Upstream c)"
    "oReserveFraction opts = ReserveFraction (Upstream c)" "Target opts = target" "Credentials opts = None"
    by (simp_all add: opts_def applyDefaults_def newOptions_def validateUpstream_def Let_def)
qed

lemma budget_Some:
  assumes "honoured r" "budget conv now (Some d) dflt mb r = (a, ok)"
  shows "if ok then mb \<le> a \<and> a < timeUntil now d \<and> 0 < timeUntil now d
       \<and> \<bar>of_int a - of_int (timeUntil now d) * (1 - fval r)\<bar> \<le> 1 + of_int (timeUntil now d) * 2 powi (- 51)
     else of_int (timeUntil now d) * (1 - fval r) * (1 - 2 powi (- 51)) < of_int mb + (1 :: real) \<or> timeUntil now d \<le> 0"
proof (cases "timeUntil now d \<le> 0")
  case True
  then show ?thesis using assms(2) by (auto simp: budget_def)
next
  case False
  let ?n = "timeUntil now d" and ?q = "1 - fval r" and ?u = "(2::real) powi (- 51)"
  let ?a = "toDuration conv (fmul (fofint ?n) (fsub (fofint 1) r))"
  have n: "0 < ?n" "?n < 2 ^ 63" using False by (auto simp: timeUntil_def)
  note b = allowed_bounds [OF n assms(1), of conv]
  have "0 < ?u" by simp
  then have q: "0 \<le> ?q" "?q \<le> 1" using assms(1) unfolding honoured_def by linarith+
  have "of_int ?n * ?q * ?u \<le> of_int ?n * 1 * ?u" using n(1) q by (intro mult_right_mono mult_left_mono) auto
  then have near: "\<bar>of_int ?a - of_int ?n * ?q\<bar> \<le> 1 + of_int ?n * ?u" using b(2,3) by (simp add: algebra_simps abs_le_iff)
  show ?thesis
  proof (cases "?a < mb")
    case True
    then have "of_int ?a < (of_int mb :: real)" by simp
    then show ?thesis using b(3) assms(2) True False by (auto simp: budget_def Let_def)
  next
    case f: False
    then show ?thesis using b(1) near n(1) assms(2) False by (auto simp: budget_def Let_def)
  qed
qed

lemma methodConfigs_Inr:
  assumes "methodConfigs seen rs = Inr cs"
  shows "distinct (map (\<lambda>mc. mcService mc @ ''/'' @ mcMethod mc) cs) \<and> list_all2 (\<lambda>r mc. splitMethod (rMethod r) = Inr (mcService mc, mcMethod mc)
       \<and> rpMaxAttempts (mcRetryPolicy mc) = MaxAttempts r \<and> 2 \<le> MaxAttempts r \<and> rpRetryableStatusCodes (mcRetryPolicy mc) = retryableCodes
       \<and> mcService mc @ ''/'' @ mcMethod mc \<notin> set seen) rs cs"
  using assms
proof (induction seen rs arbitrary: cs rule: methodConfigs.induct)
  case (2 seen r rs)
  obtain service mth where sm: "splitMethod (rMethod r) = Inr (service, mth)"
    using 2(2) by (cases "splitMethod (rMethod r)") auto
  let ?key = "service @ ''/'' @ mth"
  have ok: "?key \<notin> set seen" "2 \<le> MaxAttempts r" "\<not> (InitialBackoff r \<le> 0 \<or> MaxBackoff r \<le> 0 \<or> fle (BackoffMultiplier r) (fofint 0))"
    using 2(2) sm by (auto simp: Let_def split: if_splits)
  then obtain cs' mc where cs: "methodConfigs (?key # seen) rs = Inr cs'" "cs = mc # cs'" "mcService mc = service" "mcMethod mc = mth"
      "rpMaxAttempts (mcRetryPolicy mc) = MaxAttempts r" "rpRetryableStatusCodes (mcRetryPolicy mc) = retryableCodes"
    using 2(2) sm by (auto simp: Let_def not_less split: sum.splits)
  have IH: "distinct (map (\<lambda>mc. mcService mc @ ''/'' @ mcMethod mc) cs')"
      "list_all2 (\<lambda>r mc. splitMethod (rMethod r) = Inr (mcService mc, mcMethod mc)
       \<and> rpMaxAttempts (mcRetryPolicy mc) = MaxAttempts r \<and> 2 \<le> MaxAttempts r \<and> rpRetryableStatusCodes (mcRetryPolicy mc) = retryableCodes
       \<and> mcService mc @ ''/'' @ mcMethod mc \<notin> set (?key # seen)) rs cs'"
    using "2.IH" [OF sm _ refl] ok cs(1) by (auto simp: not_less)
  have "?key \<noteq> mcService x @ ''/'' @ mcMethod x" if "x \<in> set cs'" for x
    using IH(2) that by (auto simp: list_all2_conv_all_nth in_set_conv_nth)
  moreover have "list_all2 (\<lambda>r mc. splitMethod (rMethod r) = Inr (mcService mc, mcMethod mc)
       \<and> rpMaxAttempts (mcRetryPolicy mc) = MaxAttempts r \<and> 2 \<le> MaxAttempts r \<and> rpRetryableStatusCodes (mcRetryPolicy mc) = retryableCodes
       \<and> mcService mc @ ''/'' @ mcMethod mc \<notin> set seen) rs cs'"
    using IH(2) by (rule list_all2_mono) auto
  ultimately show ?case using IH(1) sm ok cs by force
qed auto

section \<open>Properties\<close>

text \<open>
  C23: A unary upstream call leaves its caller headroom. Take an accepted configuration whose reserve is
  honoured (a number with at least 2^-51 and at most 1 - 2^-51, so that it is not lost in rounding). A
  unary call whose context has no deadline gets the default timeout. One whose context has a deadline
  either is made with a timeout of at least the minimal budget that leaves the reserved fraction of
  the time that remained when the clock was read first (to within a nanosecond and the rounding of
  float64), counted from the second reading and cut at the caller's deadline, so it ends strictly
  before the caller's deadline unless the reserve itself passed between the readings; or it is
  refused before it is made because less than the minimal budget is left.
\<close>

theorem upstream_call_leaves_headroom:
  assumes "ParseFor vars role = Inr c" "honoured (ReserveFraction (Upstream c))" "opts = applyDefaults (newOptions c target)"
  shows "case oDeadline o' of
      None \<Rightarrow> unaryBudget conv sd (now, later) opts ivk o' mth = ivk (o'\<lparr>oDeadline := Some (later + upDefaultTimeout (Upstream c))\<rparr>) mth
    | Some d \<Rightarrow>
        (\<exists>a d'. unaryBudget conv sd (now, later) opts ivk o' mth = ivk (o'\<lparr>oDeadline := Some d'\<rparr>) mth
           \<and> MinBudget (Upstream c) \<le> a \<and> a < d - now \<and> d' = min d (later + a) \<and> (later - now < d - now - a \<longrightarrow> d' < d)
           \<and> \<bar>of_int a - of_int (timeUntil now d) * (1 - fval (ReserveFraction (Upstream c)))\<bar>
               \<le> 1 + of_int (timeUntil now d) * (2 powi (- 51) :: real))
        \<or> (\<exists>e. unaryBudget conv sd (now, later) opts ivk o' mth = Some e \<and> errorsIs e ErrBudgetExhausted
           \<and> (d \<le> now \<or> of_int (timeUntil now d) * (1 - fval (ReserveFraction (Upstream c))) * (1 - 2 powi (- 51))
                < of_int (MinBudget (Upstream c)) + (1 :: real)))"
proof (cases "oDeadline o'")
  case None
  then show ?thesis using config_options [OF assms(1), of target] assms(3) by (simp add: unaryBudget_def budget_def withTimeout_def)
next
  case (Some d)
  let ?r = "ReserveFraction (Upstream c)" and ?mb = "MinBudget (Upstream c)"
  obtain a ok where b: "budget conv now (Some d) (upDefaultTimeout (Upstream c)) ?mb ?r = (a, ok)" by fastforce
  note cs = budget_Some [OF assms(2) b]
  have u: "unaryBudget conv sd (now, later) opts ivk o' mth = (if ok then ivk (o'\<lparr>oDeadline := Some (min d (later + a))\<rparr>) mth
      else Some (newBudgetError sd later target mth (Some d)))"
    using config_options [OF assms(1), of target] assms(3) b Some by (simp add: unaryBudget_def withTimeout_def split: bool.split)
  show ?thesis
  proof (cases ok)
    case True
    then have a: "?mb \<le> a" "a < timeUntil now d" "0 < timeUntil now d" using cs by simp_all
    have "timeUntil now d \<le> d - now" using a(3) by (auto simp: timeUntil_def)
    then have lt: "a < d - now" using a(2) by simp
    show ?thesis unfolding Some option.case
      by (rule disjI1, rule exI [of _ a], rule exI [of _ "min d (later + a)"]) (use True u lt a(1) cs in auto)
  next
    case False
    have "timeUntil now d \<le> 0 \<longleftrightarrow> d \<le> now" by (auto simp: timeUntil_def)
    then show ?thesis using False u cs Some by (auto simp: newBudgetError_def Let_def)
  qed
qed

text \<open>
  C22: The caller's token is never forwarded. Whatever metadata the context of a call carries, under any
  spelling of the key, the request that leaves has no authorization header, or exactly the one of
  the service's own credential.
\<close>

theorem caller_token_never_forwarded:
  "(\<exists>o1. unaryChain conv sd now opts ivk o' mth = newUpstreamError (Target opts) mth (ivk o1 mth)
       \<and> (authValues o1 = [] \<or> (\<exists>token' o2 tok. Credentials opts = Some token' \<and> token' o2 = Inr tok \<and> authValues o1 = [''Bearer '' @ tok])))
     \<or> (\<exists>e. unaryChain conv sd now opts ivk o' mth = Some e \<and> (errorsIs e ErrBudgetExhausted \<or> (\<exists>err. attachIdentity opts o' = Inl err)))"
proof (cases "attachIdentity opts o'")
  case (Inl err)
  then show ?thesis by (auto simp: unaryChain_def unaryIdentity_def)
next
  case (Inr o1)
  have r: "unaryChain conv sd now opts ivk o' mth = unaryBudget conv sd now opts (unaryErrors opts ivk) o1 mth" using Inr by (simp add: unaryChain_def unaryIdentity_def)
  obtain a ok where b: "budget conv (fst now) (oDeadline o1) (oDefaultTimeout opts) (oMinBudget opts) (oReserveFraction opts) = (a, ok)" by fastforce
  have same: "authValues (o1\<lparr>oDeadline := x\<rparr>) = authValues o1" for x by (simp add: authValues_def wireHeaders_def)
  show ?thesis
  proof (cases ok)
    case True
    then have "unaryChain conv sd now opts ivk o' mth = newUpstreamError (Target opts) mth (ivk (o1\<lparr>oDeadline := withTimeout (snd now) a (oDeadline o1)\<rparr>) mth)"
      using r b by (simp add: unaryBudget_def unaryErrors_def)
    then show ?thesis using attachIdentity_auth [OF Inr] same by metis
  next
    case False
    then show ?thesis using r b by (auto simp: unaryBudget_def newBudgetError_def Let_def)
  qed
qed

text \<open>
  C25: An upstream's status never becomes the service's own. When getting the service's own credential never
  fails with a gRPC status (no credential, as by default, never does), what a unary call returns is no gRPC status;
  if a handler passes an upstream failure on, the error interceptor answers \<open>Internal\<close> with the
  redacted message and the service's own domain, and if it is translated with \<open>AsAppError\<close> the
  code is \<open>Unavailable\<close> or \<open>Internal\<close>, again under the service's own domain only.
\<close>

theorem upstream_status_never_leaks:
  assumes "unaryChain conv sd now opts ivk o' mth = Some e" "statuslessCredentials opts"
  shows "statusFromError e = None \<and> (\<forall>t m' code reason dm message after cause. e = UpstreamErr t m' code reason dm message after (Plain cause) \<longrightarrow>
      mapErr ms e service = Some (StatusErr Internal ''internal error'' (if ms (ErrorInfo ''INTERNAL'' service []) then [ErrorInfo ''INTERNAL'' service []] else []))
      \<and> (\<exists>c msg' ds. mapErr ms (AsAppError e) service = Some (StatusErr c msg' ds)
           \<and> c = (if code \<in> {Unavailable, DeadlineExceeded, Canceled, ResourceExhausted} then Unavailable else Internal)
           \<and> (\<forall>x \<in> set ds. \<exists>r md. x = ErrorInfo r service md)))"
proof -
  have s: "statusFromError e = None" by (rule unaryChain_statusless [OF assms])
  have direct: "mapErr ms e service = Some (StatusErr Internal ''internal error'' (if ms (ErrorInfo ''INTERNAL'' service []) then [ErrorInfo ''INTERNAL'' service []] else []))"
    if "e = UpstreamErr t m' code reason dm message after (Plain cause)" for t m' code reason dm message after cause
    by (simp add: that mapErr_def statusFromError_def ToError_def ToStatus_def toApp_def classify_def appWrap_def Redacts_def GRPCCode_def kindInfo_def Let_def)
  have translated: "\<exists>c msg' ds. mapErr ms (AsAppError e) service = Some (StatusErr c msg' ds)
      \<and> c = (if code \<in> {Unavailable, DeadlineExceeded, Canceled, ResourceExhausted} then Unavailable else Internal)
      \<and> (\<forall>x \<in> set ds. \<exists>r md. x = ErrorInfo r service md)"
    if "e = UpstreamErr t m' code reason dm message after (Plain cause)" for t m' code reason dm message after cause
    unfolding that by (rule mapErr_AsAppError)
  show ?thesis
    by (intro conjI allI impI s; (elim direct translated)?)
qed

text \<open>Which methods a connection retries: those named, and those of a service named alone.\<close>

definition retried :: "serviceConfig option \<Rightarrow> string \<Rightarrow> string \<Rightarrow> bool" where
  "retried sc service mth \<longleftrightarrow> (case sc of None \<Rightarrow> False
     | Some s \<Rightarrow> list_ex (\<lambda>mc. mcService mc = service \<and> (mcMethod mc = mth \<or> mcMethod mc = [])) (MethodConfig s))"

text \<open>
  Nothing is retried that was not listed. A connection retries a method exactly if the options list
  it, or its service, and then only on \<open>UNAVAILABLE\<close>, with at least two attempts, under a retry
  throttle, and with no name twice (a duplicate would make grpc-go drop every policy); and a
  production service never gets an unencrypted connection.
\<close>

theorem only_listed_methods_retry:
  assumes "Dial fault c opts = Inr cn"
  shows "(retried (cnServiceConfig cn) service mth \<longleftrightarrow>
        (\<exists>r \<in> set (oRetry opts). splitMethod (rMethod r) = Inr (service, mth) \<or> splitMethod (rMethod r) = Inr (service, [])))
    \<and> (\<forall>sc. cnServiceConfig cn = Some sc \<longrightarrow> distinct (map (\<lambda>mc. mcService mc @ ''/'' @ mcMethod mc) (MethodConfig sc))
        \<and> RetryThrottling sc \<noteq> None
        \<and> (\<forall>mc \<in> set (MethodConfig sc). rpRetryableStatusCodes (mcRetryPolicy mc) = [''UNAVAILABLE''] \<and> 2 \<le> rpMaxAttempts (mcRetryPolicy mc)))
    \<and> (IsProduction c \<longrightarrow> cnTransport cn \<noteq> InsecureTransport)"
proof -
  have same: "oRetry (applyDefaults opts) = oRetry opts" "TransportCredentials (applyDefaults opts) = TransportCredentials opts"
    by (simp_all add: applyDefaults_def Let_def)
  obtain sc where sc: "buildServiceConfig (oRetry opts) True = Inr sc" "cnServiceConfig cn = sc"
    using assms by (auto simp: Dial_def Let_def same split: if_splits sum.splits option.splits)
  have tr: "IsProduction c \<longrightarrow> cnTransport cn \<noteq> InsecureTransport"
    using assms by (auto simp: Dial_def Let_def same split: if_splits sum.splits option.splits)
  show ?thesis
  proof (cases sc)
    case None
    then have "oRetry opts = []" using sc(1) by (auto simp: buildServiceConfig_def split: if_splits sum.splits)
    then show ?thesis using tr sc None by (simp add: retried_def)
  next
    case (Some s)
    then have m: "methodConfigs [] (oRetry opts) = Inr (MethodConfig s)" "RetryThrottling s \<noteq> None"
      using sc(1) by (auto simp: buildServiceConfig_def split: if_splits sum.splits)
    note cs = methodConfigs_Inr [OF m(1)]
    have l: "list_all2 (\<lambda>r mc. splitMethod (rMethod r) = Inr (mcService mc, mcMethod mc) \<and> rpRetryableStatusCodes (mcRetryPolicy mc) = [''UNAVAILABLE'']
        \<and> 2 \<le> rpMaxAttempts (mcRetryPolicy mc)) (oRetry opts) (MethodConfig s)"
      using conjunct2 [OF cs] by (rule list_all2_mono) (simp add: retryableCodes_def)
    have fwd: "\<exists>r \<in> set (oRetry opts). splitMethod (rMethod r) = Inr (mcService mc, mcMethod mc)"
      and pol: "rpRetryableStatusCodes (mcRetryPolicy mc) = [''UNAVAILABLE''] \<and> 2 \<le> rpMaxAttempts (mcRetryPolicy mc)"
      if "mc \<in> set (MethodConfig s)" for mc
      using l that by (fastforce simp: list_all2_conv_all_nth in_set_conv_nth)+
    have bwd: "\<exists>mc \<in> set (MethodConfig s). splitMethod (rMethod r) = Inr (mcService mc, mcMethod mc)" if "r \<in> set (oRetry opts)" for r
      using l that by (fastforce simp: list_all2_conv_all_nth in_set_conv_nth)
    have "retried (Some s) service mth \<longleftrightarrow>
        (\<exists>r \<in> set (oRetry opts). splitMethod (rMethod r) = Inr (service, mth) \<or> splitMethod (rMethod r) = Inr (service, []))"
      using fwd bwd by (fastforce simp: retried_def list_ex_iff)
    then show ?thesis using tr sc(2) Some m(2) pol cs by auto
  qed
qed

text \<open>Sample settings: the default reserve is a tenth, rounded.\<close>

lemma default_reserve:
  "case ParseFor [] RoleServer of Inl _ \<Rightarrow> False
   | Inr c \<Rightarrow> ReserveFraction (Upstream c) = Fin 7205759403792794 (- 56) \<and> MinBudget (Upstream c) = 50 * millis"
  by code_simp

definition outCall :: outctx where
  "outCall = \<lparr>oCtx = \<lparr>principal = None, metadata = None\<rparr>, oDeadline = Some seconds,
     oMD = Some \<lparr>rawMap = [(''Authorization'', [''Bearer user''])], rawAdded = []\<rparr>\<rparr>"

theorem upstream_call_leaves_headroom_witness:
  "\<exists>c d'. ParseFor [] RoleServer = Inr c \<and> 50 * millis \<le> d' \<and> d' < seconds
     \<and> unaryBudget (\<lambda>_. 0) show_int (0, 5) (applyDefaults (newOptions c ''inventory'')) (\<lambda>o' m. Some (Errorf (show_int (the (oDeadline o'))) [])) outCall ''/s/m''
       = Some (Errorf (show_int d') [])"
proof -
  obtain c where c: "ParseFor [] RoleServer = Inr c" "ReserveFraction (Upstream c) = Fin 7205759403792794 (- 56)" "MinBudget (Upstream c) = 50 * millis"
    using default_reserve by (auto split: sum.splits)
  have v: "fval (ReserveFraction (Upstream c)) = 7205759403792794 / 72057594037927936"
    by (simp add: c(2) scaled_def power_int_def power_inverse power_divide)
  have h: "honoured (ReserveFraction (Upstream c))" unfolding honoured_def v by (simp add: c(2) powi_53)
  have t: "timeUntil 0 seconds = seconds" by (simp add: timeUntil_def)
  let ?u = "unaryBudget (\<lambda>_. 0) show_int (0, 5) (applyDefaults (newOptions c ''inventory'')) (\<lambda>o' m. Some (Errorf (show_int (the (oDeadline o'))) []))
    outCall ''/s/m''"
  from upstream_call_leaves_headroom [OF c(1) h refl, where o' = outCall and conv = "\<lambda>_. 0" and sd = show_int and now = 0 and later = 5
      and target = "''inventory''" and ivk = "\<lambda>o' m. Some (Errorf (show_int (the (oDeadline o'))) [])" and mth = "''/s/m''"]
  obtain a where a: "?u = Some (Errorf (show_int (min seconds (5 + a))) [])" "50 * millis \<le> a"
      "\<bar>of_int a - of_int seconds * (1 - fval (ReserveFraction (Upstream c)))\<bar> \<le> 1 + of_int seconds * (2 powi (- 51) :: real)"
    using c(3) by (auto simp: outCall_def v t powi_53)
  have "x \<le> 950000000" if "x - of_int seconds * (1 - fval (ReserveFraction (Upstream c))) \<le> 1 + of_int seconds * 2 powi (- 51)" for x :: real
    using that by (simp add: v powi_53)
  from this [OF abs_le_D1 [OF a(3)]] have "of_int a \<le> (950000000 :: real)" .
  then have "5 + a < seconds" by simp
  with a(1,2) c(1) show ?thesis by (intro exI [of _ c] exI [of _ "5 + a"]) (simp add: min_def)
qed

theorem upstream_status_never_leaks_witness:
  "\<exists>c e. ParseFor [] RoleServer = Inr c
     \<and> unaryChain (\<lambda>_. 0) show_int (0, 5) (applyDefaults (newOptions c ''inventory'')) (\<lambda>o' m. Some (StatusErr NotFound ''no such sku'' []))
         (outCall\<lparr>oDeadline := None\<rparr>) ''/s/m'' = Some e
     \<and> mapErr (\<lambda>_. True) e ''orderd'' = Some (StatusErr Internal ''internal error'' [ErrorInfo ''INTERNAL'' ''orderd'' []])"
proof -
  obtain c where c: "ParseFor [] RoleServer = Inr c" using default_reserve by (auto split: sum.splits)
  let ?opts = "applyDefaults (newOptions c ''inventory'')" and ?e = "UpstreamErr ''inventory'' ''/s/m'' NotFound [] [] ''no such sku'' 0 (Plain ''NotFound: no such sku'')"
  note co = config_options [OF c, of "''inventory''"]
  obtain o1 where o1: "attachIdentity ?opts (outCall\<lparr>oDeadline := None\<rparr>) = Inr o1" "oDeadline o1 = None"
    by (auto simp: attachIdentity_def co(5) stripAuthorization_def outCall_def PrincipalFrom_def FromOutgoingContext_def Let_def)
  have u: "unaryChain (\<lambda>_. 0) show_int (0, 5) ?opts (\<lambda>o' m. Some (StatusErr NotFound ''no such sku'' [])) (outCall\<lparr>oDeadline := None\<rparr>) ''/s/m'' = Some ?e"
    by (simp add: unaryChain_def unaryIdentity_def o1 unaryBudget_def budget_def unaryErrors_def newUpstreamError_def statusFromError_def co(4))
  have "statuslessCredentials ?opts" by (simp add: statuslessCredentials_def co(5))
  from upstream_status_never_leaks [OF u this, of "\<lambda>_. True" "''orderd''"] c u show ?thesis by auto
qed

definition retryGet :: Retry where
  "retryGet = \<lparr>rMethod = ''order.v1.OrderService/GetOrder'', MaxAttempts = 3, InitialBackoff = 100 * millis, MaxBackoff = seconds,
     BackoffMultiplier = fofint 2\<rparr>"

lemma sample_dial:
  "case ParseFor [] RoleServer of Inl _ \<Rightarrow> False
   | Inr c \<Rightarrow> (case Dial None c ((newOptions c ''inventory'')\<lparr>oRetry := [retryGet]\<rparr>) of Inl _ \<Rightarrow> False | Inr cn \<Rightarrow> True)"
  by code_simp

theorem only_listed_methods_retry_witness:
  "\<exists>c cn. ParseFor [] RoleServer = Inr c \<and> Dial None c ((newOptions c ''inventory'')\<lparr>oRetry := [retryGet]\<rparr>) = Inr cn
     \<and> retried (cnServiceConfig cn) ''order.v1.OrderService'' ''GetOrder'' \<and> \<not> retried (cnServiceConfig cn) ''order.v1.OrderService'' ''CreateOrder''"
proof -
  obtain c cn where c: "ParseFor [] RoleServer = Inr c" "Dial None c ((newOptions c ''inventory'')\<lparr>oRetry := [retryGet]\<rparr>) = Inr cn"
    using sample_dial by (auto split: sum.splits)
  have m: "splitMethod (rMethod retryGet) = Inr (''order.v1.OrderService'', ''GetOrder'')" by code_simp
  show ?thesis
    using c only_listed_methods_retry [OF c(2), of "''order.v1.OrderService''" "''GetOrder''"]
      only_listed_methods_retry [OF c(2), of "''order.v1.OrderService''" "''CreateOrder''"] by (auto simp: m)
qed

section \<open>What the guarantees miss\<close>

text \<open>A reserve of NaN passes validation and the defaults, and then every call with a deadline is
  refused (the conversion of NaN gives no positive number on the platforms Go supports).\<close>

lemma nan_accepted:
  "case ParseFor [(''UPSTREAM_RESERVE_FRACTION'', ''NaN'')] RoleServer of Inl _ \<Rightarrow> False
   | Inr c \<Rightarrow> ReserveFraction (Upstream c) = FNaN \<and> 0 < MinBudget (Upstream c)"
  by code_simp

theorem nan_reserve_refuses_calls:
  "\<exists>c. ParseFor [(''UPSTREAM_RESERVE_FRACTION'', ''NaN'')] RoleServer = Inr c
     \<and> (\<forall>conv sd now ivk o' d mth. conv FNaN \<le> 0 \<longrightarrow> oDeadline o' = Some d \<longrightarrow>
          unaryBudget conv sd now (applyDefaults (newOptions c target)) ivk o' mth = Some (newBudgetError sd (snd now) target mth (Some d)))"
proof -
  obtain c where c: "ParseFor [(''UPSTREAM_RESERVE_FRACTION'', ''NaN'')] RoleServer = Inr c" "ReserveFraction (Upstream c) = FNaN" "0 < MinBudget (Upstream c)"
    using nan_accepted by (auto split: sum.splits)
  note co = config_options [OF c(1), of target]
  have nan: "fmul x (fsub y FNaN) = FNaN" for x y by (cases x; cases y) simp_all
  have "unaryBudget conv sd now (applyDefaults (newOptions c target)) ivk o' mth = Some (newBudgetError sd (snd now) target mth (Some d))"
    if "conv FNaN \<le> 0" "oDeadline o' = Some d" for conv sd now ivk o' d mth
    using that c(3) by (simp add: unaryBudget_def budget_def co c(2) nan toDuration_def Let_def)
  with c(1) show ?thesis by blast
qed

text \<open>An error of the credential is wrapped and returned as it is: a gRPC status from a token endpoint
  passes the error interceptor and becomes the service's own.\<close>

theorem credential_status_leaks:
  assumes "attachIdentity opts o' = Inl (StatusErr code message details)"
  shows "\<exists>e text'. unaryChain conv sd now opts ivk o' mth = Some e \<and> mapErr ms e service = Some e
    \<and> statusFromError e = Some (code, text', details)"
  using assms by (simp add: unaryChain_def unaryIdentity_def mapErr_def statusFromError_def)

text \<open>The streaming chain has no error conversion: the upstream's status passes through and, returned
  by a handler, becomes the service's own.\<close>

theorem stream_status_leaks:
  assumes "attachIdentity opts o' = Inr o1" "oDeadline o1 = None" "ivk o1 mth = Some (StatusErr code message details)"
  shows "\<exists>e. streamChain conv sd now opts ivk o' mth = Some e \<and> mapErr ms e service = Some (StatusErr code message details)"
  using assms by (simp add: streamChain_def streamIdentity_def streamBudget_def budget_def mapErr_def statusFromError_def)

end
