(* ===== verification/Forkrename.thy ===== *)
theory Forkrename
  imports Errors "HOL-Library.Sublist"
begin

text \<open>
  The tool that turns the template into somebody's repository (\<open>cmd/rename\<close>): what it accepts, which
  tracked files it rewrites and how, and how it removes itself and the documentation about it. The
  repository is the list of its files with their contents; what git, the code generator and the
  operating system answer are arguments.
\<close>

section \<open>Text\<close>

fun indexOf :: "string \<Rightarrow> string \<Rightarrow> nat option" where
  "indexOf [] sub = (if sub = [] then Some 0 else None)"
| "indexOf (c # cs) sub = (if has_prefix (c # cs) sub then Some 0 else map_option Suc (indexOf cs sub))"

definition containsText :: "string \<Rightarrow> string \<Rightarrow> bool" where
  "containsText s sub \<longleftrightarrow> indexOf s sub \<noteq> None"

text \<open>\<open>strings.ReplaceAll\<close> for a text that is not empty (the tool never asks for another).\<close>

function replaceAll :: "string \<Rightarrow> string \<Rightarrow> string \<Rightarrow> string" where
  "replaceAll old new [] = []"
| "replaceAll old new (c # cs) =
     (if old \<noteq> [] \<and> has_prefix (c # cs) old then new @ replaceAll old new (drop (length old) (c # cs))
      else c # replaceAll old new cs)"
  by pat_completeness auto
termination
  by (relation "measure (\<lambda>(old, new, s). length s)") (auto simp: Suc_diff_le neq_Nil_conv)

definition joinLines :: "string list \<Rightarrow> string" where
  "joinLines ls = (case ls of [] \<Rightarrow> [] | l # ls' \<Rightarrow> l @ concat (map (\<lambda>x. CHR 0x0A # x) ls'))"

definition trimRightSet :: "string \<Rightarrow> string \<Rightarrow> string" where
  "trimRightSet s cutset = rev (dropWhile (\<lambda>c. c \<in> set cutset) (rev s))"

definition has_suffix :: "string \<Rightarrow> string \<Rightarrow> bool" where
  "has_suffix s e \<longleftrightarrow> has_prefix (rev s) (rev e)"

section \<open>Marked documentation\<close>

definition forkToolBegin :: string where "forkToolBegin = ''<!-- fork-tool:begin -->''"
definition forkToolEnd :: string where "forkToolEnd = ''<!-- fork-tool:end -->''"

lemma has_prefix_length: "has_prefix s p \<Longrightarrow> length p \<le> length s"
  by (induction s p rule: has_prefix.induct) auto

lemma indexOf_bound: "indexOf s sub = Some i \<Longrightarrow> i + length sub \<le> length s"
proof (induction s arbitrary: i)
  case (Cons c cs)
  then show ?case by (cases "has_prefix (c # cs) sub") (auto dest: has_prefix_length)
qed (auto split: if_splits)

function stripMarked :: "string \<Rightarrow> string res" where
  "stripMarked content = (case indexOf content forkToolBegin of
     None \<Rightarrow>
       if containsText content forkToolEnd
       then Inl (Errorf (''a '' @ forkToolEnd @ '' marker has no matching '' @ forkToolBegin) [])
       else Inr content
   | Some start \<Rightarrow> (case indexOf (drop start content) forkToolEnd of
       None \<Rightarrow> Inl (Errorf (''a '' @ forkToolBegin @ '' marker has no matching '' @ forkToolEnd) [])
     | Some offset \<Rightarrow>
         (let fin = start + offset + length forkToolEnd;
              fin' = (if fin < length content \<and> content ! fin = CHR 0x0A then fin + 1 else fin)
          in stripMarked (take start content @ drop fin' content))))"
  by pat_completeness auto
termination
proof (relation "measure length", goal_cases)
  case (2 content start offset fin fin')
  have "start + length forkToolBegin \<le> length content" by (rule indexOf_bound [OF 2(1)])
  then have "start < length content" by (simp add: forkToolBegin_def)
  moreover have "start < fin'" using 2(3,4) by (simp add: forkToolEnd_def)
  ultimately show ?case by auto
qed simp

declare stripMarked.simps [simp del]

text \<open>\<open>removeTaskTarget\<close>: the block of a target, with the blank line before it.\<close>

fun findLine :: "(string \<Rightarrow> bool) \<Rightarrow> nat \<Rightarrow> string list \<Rightarrow> nat option" where
  "findLine p i [] = None"
| "findLine p i (l # ls) = (if p l then Some i else findLine p (i + 1) ls)"

definition inBlock :: "string \<Rightarrow> bool" where
  "inBlock l \<longleftrightarrow> trim_space l = [] \<or> has_prefix l ''    '' \<or> has_prefix l [CHR 0x09]"

definition removeTaskTarget :: "string \<Rightarrow> string \<Rightarrow> string \<times> bool" where
  "removeTaskTarget content name =
     (let ls = split_on (CHR 0x0A) content
      in case findLine (\<lambda>l. trimRightSet l [CHR '' '', CHR 0x09, CHR 0x0D] = ''  '' @ name @ '':'') 0 ls of
           None \<Rightarrow> (content, False)
         | Some start \<Rightarrow>
             (let fin = (case findLine (\<lambda>l. \<not> inBlock l) (start + 1) (drop (start + 1) ls) of None \<Rightarrow> length ls | Some i \<Rightarrow> i);
                  start' = (if 0 < start \<and> trim_space (ls ! (start - 1)) = [] then start - 1 else start)
              in (joinLines (take start' ls @ drop fin ls), True)))"

section \<open>The plan\<close>

record plan =
  oldModule :: string
  newModule :: string
  oldImage :: string
  newImage :: string

definition alnum :: "char \<Rightarrow> bool" where
  "alnum c \<longleftrightarrow> (97 \<le> byte c \<and> byte c \<le> 122) \<or> (65 \<le> byte c \<and> byte c \<le> 90) \<or> (48 \<le> byte c \<and> byte c \<le> 57)"

definition modulePathRE :: "string \<Rightarrow> bool" where
  "modulePathRE s \<longleftrightarrow> 2 \<le> length s \<and> alnum (hd s) \<and> alnum (last s)
     \<and> list_all (\<lambda>c. alnum c \<or> c \<in> set ''._~/-'') (butlast (tl s))"

definition lastElement :: "string \<Rightarrow> string" where
  "lastElement path = last (split_on (CHR ''/'') path)"

definition newPlan :: "string \<Rightarrow> string \<Rightarrow> string \<Rightarrow> plan res" where
  "newPlan old module0 img =
     (let new = trim_space module0
      in if new = [] then Inl (Errorf ''-module is required, e.g. -module github.com/acme/orders'' [])
         else if \<not> modulePathRE new then Inl (Errorf (quoted new @ '' is not a usable module path'') [])
         else if new = old then Inl (Errorf (''the module path is already '' @ old) [])
         else if CHR ''/'' \<notin> set new then Inl (Errorf (quoted new @ '' has no host: a module path outside a repository host ''
           @ ''cannot be fetched by anyone else'') [])
         else (let img' = (if img = [] then lastElement new else img)
               in if list_ex (\<lambda>c. c \<in> {CHR '' '', CHR ''/'', CHR 0x5C, CHR '':''}) img'
                  then Inl (Errorf (quoted img' @ '' is not a usable image prefix'') [])
                  else Inr \<lparr>oldModule = old, newModule = new, oldImage = lastElement old, newImage = img'\<rparr>))"

definition skip :: "string \<Rightarrow> string option" where
  "skip rel =
     (if has_prefix rel ''gen/'' then Some ''generated: regenerated instead''
      else if has_prefix rel ''proto/third_party/'' then Some ''third-party: not ours to edit''
      else if rel = ''LICENSE'' \<or> has_suffix rel ''/LICENSE'' then Some ''licence text''
      else if has_prefix rel ''.git/'' then Some ''git internals''
      else None)"

definition isDeploymentFile :: "string \<Rightarrow> bool" where
  "isDeploymentFile rel \<longleftrightarrow> has_prefix rel ''deploy/'' \<or> rel = ''Taskfile.yml''"

definition rewrite :: "plan \<Rightarrow> string \<Rightarrow> string \<Rightarrow> string" where
  "rewrite p rel content =
     (let c1 = replaceAll (oldModule p) (newModule p) content
      in if oldImage p \<noteq> newImage p \<and> isDeploymentFile rel
         then foldl (\<lambda>c target. replaceAll (oldImage p @ ''/'' @ target) (newImage p @ ''/'' @ target) c) c1
                [''orderd'', ''worker'', ''migrate'']
         else c1)"

section \<open>The repository\<close>

type_synonym repo = "(string \<times> string) list"

text \<open>What the system answers: errors of reading (of a file that is there) and stating, errors of writing
  with the content the failed write left behind, and an error of removing \<open>cmd/rename\<close> with the files of it
  that are gone by then.\<close>

record renameEnv =
  nvRoot :: "goerr option"
  nvStatus :: "string res"
  nvFiles :: "string res"
  nvFilesAfter :: "string res"
  nvRead :: "string \<Rightarrow> goerr option"
  nvStat :: "string \<Rightarrow> goerr option"
  nvWrite :: "string \<Rightarrow> (goerr \<times> string) option"
  nvRemove :: "(goerr \<times> string list) option"
  nvRegenerate :: "repo \<Rightarrow> goerr option \<times> repo"

definition writeFile :: "string \<Rightarrow> string \<Rightarrow> repo \<Rightarrow> repo" where
  "writeFile rel content fs = (rel, content) # filter (\<lambda>(k, _). k \<noteq> rel) fs"

text \<open>\<open>apply\<close>: the files that changed, or the error, and the repository (with what was written before
  an error).\<close>

fun applyPlan :: "plan \<Rightarrow> renameEnv \<Rightarrow> bool \<Rightarrow> string list \<Rightarrow> repo \<Rightarrow> string list res \<times> repo" where
  "applyPlan p nv dryRun [] fs = (Inr [], fs)"
| "applyPlan p nv dryRun (rel # rels) fs =
     (if skip rel \<noteq> None then applyPlan p nv dryRun rels fs
      else (case map_of fs rel of
        None \<Rightarrow> applyPlan p nv dryRun rels fs
      | Some raw \<Rightarrow> (case nvRead nv rel of
        Some err \<Rightarrow> (Inl (Errorf (''read '' @ rel @ '': '' @ errorText err) [err]), fs)
      | None \<Rightarrow>
          if CHR 0x00 \<in> set raw \<or> rewrite p rel raw = raw then applyPlan p nv dryRun rels fs
          else if dryRun then (case applyPlan p nv dryRun rels fs of (r, fs') \<Rightarrow> (map_sum id (Cons rel) r, fs'))
          else (case nvStat nv rel of
            Some err \<Rightarrow> (Inl (Errorf (''stat '' @ rel @ '': '' @ errorText err) [err]), fs)
          | None \<Rightarrow> (case nvWrite nv rel of
            Some (err, left) \<Rightarrow> (Inl (Errorf (''write '' @ rel @ '': '' @ errorText err) [err]), writeFile rel left fs)
          | None \<Rightarrow> (case applyPlan p nv dryRun rels (writeFile rel (rewrite p rel raw) fs) of (r, fs') \<Rightarrow> (map_sum id (Cons rel) r, fs')))))))"

definition requireCleanTree :: "renameEnv \<Rightarrow> goerr option" where
  "requireCleanTree nv = (case nvStatus nv of
     Inl err \<Rightarrow> Some (Errorf (''git status: '' @ errorText err) [err])
   | Inr out \<Rightarrow> if trim_space out = [] then None else Some (Errorf ''the working tree has uncommitted changes.'' []))"

fun moduleLine :: "string list \<Rightarrow> string option" where
  "moduleLine [] = None"
| "moduleLine (l # ls) = (if has_prefix (trim_space l) ''module '' then Some (trim_space (drop 7 (trim_space l))) else moduleLine ls)"

definition currentModulePath :: "renameEnv \<Rightarrow> repo \<Rightarrow> string res" where
  "currentModulePath nv fs = (case map_of fs ''go.mod'' of
     None \<Rightarrow> Inl (Errorf ''read go.mod: no such file'' [])
   | Some raw \<Rightarrow> (case nvRead nv ''go.mod'' of
       Some err \<Rightarrow> Inl (Errorf (''read go.mod: '' @ errorText err) [err])
     | None \<Rightarrow> (case moduleLine (split_on (CHR 0x0A) raw) of
         None \<Rightarrow> Inl (Errorf ''go.mod has no module line'' [])
       | Some m \<Rightarrow> Inr m)))"

definition trackedFiles :: "string res \<Rightarrow> string list res" where
  "trackedFiles out = (case out of
     Inl err \<Rightarrow> Inl (Errorf (''git ls-files: '' @ errorText err) [err])
   | Inr s \<Rightarrow> Inr (filter (\<lambda>n. n \<noteq> []) (split_on (CHR 0x00) s)))"

text \<open>\<open>filepath.Ext\<close>: from the last dot of the last element on.\<close>

definition fileExt :: "string \<Rightarrow> string" where
  "fileExt path = (let e = lastElement path
     in if CHR ''.'' \<in> set e then CHR ''.'' # last (split_on (CHR ''.'') e) else [])"

fun stripDocs :: "renameEnv \<Rightarrow> string list \<Rightarrow> repo \<Rightarrow> goerr option \<times> repo" where
  "stripDocs nv [] fs = (None, fs)"
| "stripDocs nv (rel # rels) fs =
     (if fileExt rel \<noteq> ''.md'' then stripDocs nv rels fs
      else (case map_of fs rel of
        None \<Rightarrow> stripDocs nv rels fs
      | Some content \<Rightarrow>
          if nvRead nv rel \<noteq> None \<or> \<not> containsText content forkToolBegin then stripDocs nv rels fs
          else (case stripMarked content of
            Inl err \<Rightarrow> (Some (Errorf (rel @ '': '' @ errorText err) [err]), fs)
          | Inr updated \<Rightarrow> (case nvWrite nv rel of
              Some (err, left) \<Rightarrow> (Some (Errorf (''rewrite '' @ rel @ '': '' @ errorText err) [err]), writeFile rel left fs)
            | None \<Rightarrow> stripDocs nv rels (writeFile rel updated fs)))))"

definition removeForkToolDocs :: "renameEnv \<Rightarrow> repo \<Rightarrow> goerr option \<times> repo" where
  "removeForkToolDocs nv fs = (case trackedFiles (nvFilesAfter nv) of
     Inl err \<Rightarrow> (Some err, fs)
   | Inr files \<Rightarrow> stripDocs nv files fs)"

definition removeSelf :: "renameEnv \<Rightarrow> repo \<Rightarrow> goerr option \<times> repo" where
  "removeSelf nv fs0 = (case nvRemove nv of
     Some (err, gone) \<Rightarrow> (Some (Errorf (''delete cmd/rename: '' @ errorText err) [err]),
       filter (\<lambda>(k, _). \<not> (has_prefix k ''cmd/rename/'' \<and> k \<in> set gone)) fs0)
   | None \<Rightarrow>
       (let fs = filter (\<lambda>(k, _). \<not> has_prefix k ''cmd/rename/'') fs0
        in case map_of fs ''Taskfile.yml'' of
             None \<Rightarrow> (None, fs)
           | Some raw \<Rightarrow> (case nvRead nv ''Taskfile.yml'' of
               Some err \<Rightarrow> (Some (Errorf (''read Taskfile.yml: '' @ errorText err) [err]), fs)
             | None \<Rightarrow> (case removeTaskTarget raw ''verify:rename'' of
                 (updated, False) \<Rightarrow> removeForkToolDocs nv fs
               | (updated, True) \<Rightarrow> (case nvWrite nv ''Taskfile.yml'' of
                   Some (err, left) \<Rightarrow> (Some (Errorf (''rewrite Taskfile.yml: '' @ errorText err) [err]), writeFile ''Taskfile.yml'' left fs)
                 | None \<Rightarrow> removeForkToolDocs nv (writeFile ''Taskfile.yml'' updated fs))))))"

record renameFlags =
  flModule :: string
  flImage :: string
  flKeep :: bool
  flDryRun :: bool
  flSkipGen :: bool

text \<open>\<open>run\<close>: the error, the files rewritten and the repository.\<close>

definition renameRun :: "renameFlags \<Rightarrow> renameEnv \<Rightarrow> repo \<Rightarrow> goerr option \<times> string list \<times> repo" where
  "renameRun fl nv fs = (case nvRoot nv of
     Some err \<Rightarrow> (Some (Errorf (''this does not look like a git repository: '' @ errorText err) [err]), [], fs)
   | None \<Rightarrow> (case currentModulePath nv fs of
     Inl err \<Rightarrow> (Some err, [], fs)
   | Inr old \<Rightarrow> (case newPlan old (flModule fl) (flImage fl) of
     Inl err \<Rightarrow> (Some err, [], fs)
   | Inr p \<Rightarrow> (case (if flDryRun fl then None else requireCleanTree nv) of
     Some err \<Rightarrow> (Some err, [], fs)
   | None \<Rightarrow> (case trackedFiles (nvFiles nv) of
     Inl err \<Rightarrow> (Some err, [], fs)
   | Inr files \<Rightarrow> (case applyPlan p nv (flDryRun fl) files fs of
     (Inl err, fs1) \<Rightarrow> (Some err, [], fs1)
   | (Inr changed, fs1) \<Rightarrow>
       if flDryRun fl \<or> flSkipGen fl then (None, changed, fs1)
       else (case nvRegenerate nv fs1 of
         (Some err, fs2) \<Rightarrow> (Some (Errorf (''regenerate protobuf code: '' @ errorText err) [err]), changed, fs2)
       | (None, fs2) \<Rightarrow>
           if flKeep fl then (None, changed, fs2)
           else (case removeSelf nv fs2 of (e, fs3) \<Rightarrow> (e, changed, fs3)))))))))"

section \<open>Lemmas\<close>

subsection \<open>Replacing\<close>

lemma has_prefix_iff: "has_prefix s p \<longleftrightarrow> (\<exists>r. s = p @ r)"
  by (induction s p rule: has_prefix.induct) auto

text \<open>\<open>strings.Split\<close>: the parts between the occurrences that \<open>ReplaceAll\<close> replaces.\<close>

function cutAll :: "string \<Rightarrow> string \<Rightarrow> string list" where
  "cutAll old [] = [[]]"
| "cutAll old (c # cs) =
     (if old \<noteq> [] \<and> has_prefix (c # cs) old then [] # cutAll old (drop (length old) (c # cs))
      else (case cutAll old cs of [] \<Rightarrow> [[c]] | w # ws \<Rightarrow> (c # w) # ws))"
  by pat_completeness auto
termination
  by (relation "measure (\<lambda>(old, s). length s)") (auto simp: Suc_diff_le neq_Nil_conv)

fun joinWith :: "string \<Rightarrow> string list \<Rightarrow> string" where
  "joinWith sep [] = []"
| "joinWith sep [w] = w"
| "joinWith sep (w # ws) = w @ sep @ joinWith sep ws"

lemma joinWith_Cons: "ws \<noteq> [] \<Longrightarrow> joinWith sep (w # ws) = w @ sep @ joinWith sep ws"
  by (cases ws) simp_all

lemma joinWith_first: "joinWith sep ((c # w) # ws) = c # joinWith sep (w # ws)"
  by (cases ws) simp_all

lemma cutAll_nonempty: "cutAll old s \<noteq> []"
  by (cases s) (auto split: list.splits)

lemma joinWith_cutAll: "joinWith old (cutAll old s) = s"
proof (induction old s rule: cutAll.induct)
  case (2 old c cs)
  show ?case
  proof (cases "old \<noteq> [] \<and> has_prefix (c # cs) old")
    case True
    then obtain r where r: "c # cs = old @ r" by (auto simp: has_prefix_iff)
    then have d: "drop (length old) (c # cs) = r" by simp
    have IH: "joinWith old (cutAll old r) = r" using 2(1) [OF True] unfolding d .
    have "joinWith old (cutAll old (c # cs)) = old @ r"
      unfolding cutAll.simps(2) if_P [OF True] joinWith_Cons [OF cutAll_nonempty] d IH by simp
    then show ?thesis by (simp only: r)
  next
    case False
    obtain w ws where w: "cutAll old cs = w # ws" using cutAll_nonempty by (cases "cutAll old cs") auto
    have "joinWith old (w # ws) = cs" using 2(2) [OF False] unfolding w .
    then show ?thesis unfolding cutAll.simps(2) if_not_P [OF False] w by (simp add: joinWith_first)
  qed
qed simp

lemma replaceAll_joinWith: "replaceAll old new s = joinWith new (cutAll old s)"
proof (induction old new s rule: replaceAll.induct)
  case (2 old new c cs)
  show ?case
  proof (cases "old \<noteq> [] \<and> has_prefix (c # cs) old")
    case True
    then show ?thesis using 2(1) by (simp add: joinWith_Cons cutAll_nonempty)
  next
    case False
    obtain w ws where "cutAll old cs = w # ws" using cutAll_nonempty by (cases "cutAll old cs") auto
    then show ?thesis unfolding replaceAll.simps(2) cutAll.simps(2) if_not_P [OF False] 2(2) [OF False] by (simp add: joinWith_first)
  qed
qed simp

lemma cutAll_first: "cutAll old s = w # ws \<Longrightarrow> \<exists>r. s = w @ r"
  using joinWith_cutAll [of old s] by (cases ws) auto

lemma cutAll_free: "old \<noteq> [] \<Longrightarrow> w \<in> set (cutAll old s) \<Longrightarrow> \<not> containsText w old"
proof (induction old s arbitrary: w rule: cutAll.induct)
  case (1 old)
  then show ?case by (simp add: containsText_def)
next
  case (2 old c cs)
  show ?case
  proof (cases "has_prefix (c # cs) old")
    case True
    then show ?thesis using 2(1) [of w] 2(3,4) by (auto simp: containsText_def)
  next
    case False
    obtain v vs where v: "cutAll old cs = v # vs" using cutAll_nonempty by (cases "cutAll old cs") auto
    have IH: "\<not> containsText x old" if "x \<in> set (v # vs)" for x using 2(2) [of x] False 2(3) that v by simp
    have "\<not> has_prefix (c # v) old"
    proof
      assume "has_prefix (c # v) old"
      then obtain r r' where "c # v = old @ r" "cs = v @ r'" using cutAll_first [OF v] by (auto simp: has_prefix_iff)
      then have "c # cs = old @ r @ r'" by (metis append.assoc append_Cons)
      then show False using False has_prefix_iff by blast
    qed
    then have "\<not> containsText (c # v) old" using IH [of v] by (simp add: containsText_def)
    moreover have "w = c # v \<or> w \<in> set vs" using 2(4) False v by auto
    ultimately show ?thesis using IH by auto
  qed
qed

text \<open>What replacing means: the text falls into parts that do not hold the old word, and the old word between
  them becomes the new one.\<close>

definition replaced :: "string \<Rightarrow> string \<Rightarrow> string \<Rightarrow> string \<Rightarrow> bool" where
  "replaced old new s t \<longleftrightarrow> (\<exists>ws. (\<forall>w\<in>set ws. \<not> containsText w old) \<and> s = joinWith old ws \<and> t = joinWith new ws)"

lemma replaceAll_replaced: "old \<noteq> [] \<Longrightarrow> replaced old new s (replaceAll old new s)"
  unfolding replaced_def using cutAll_free joinWith_cutAll replaceAll_joinWith by metis

lemma replaced_absent: "\<not> containsText s old \<Longrightarrow> old \<noteq> [] \<Longrightarrow> replaceAll old new s = s"
proof (induction old new s rule: replaceAll.induct)
  case (2 old new c cs)
  then show ?case by (auto simp: containsText_def split: if_splits)
qed simp

subsection \<open>Files\<close>

lemma map_of_writeFile: "map_of (writeFile rel c fs) q = (if q = rel then Some c else map_of fs q)"
  by (simp add: writeFile_def map_of_filter_other)

text \<open>What the rewriting leaves alone.\<close>

lemma applyPlan_keeps:
  assumes "applyPlan p nv dryRun files fs = (r, fs')"
    and "dryRun \<or> skip q \<noteq> None \<or> q \<notin> set files \<or> map_of fs q = None \<or> (\<exists>raw. map_of fs q = Some raw \<and> CHR 0x00 \<in> set raw)"
  shows "map_of fs' q = map_of fs q"
  using assms
proof (induction files arbitrary: fs r fs')
  case (Cons rel rels)
  show ?case
  proof (cases "\<exists>raw. skip rel = None \<and> map_of fs rel = Some raw \<and> CHR 0x00 \<notin> set raw \<and> nvRead nv rel = None \<and> rewrite p rel raw \<noteq> raw
      \<and> \<not> dryRun \<and> nvStat nv rel = None")
    case True
    then obtain raw where raw: "skip rel = None" "map_of fs rel = Some raw" "CHR 0x00 \<notin> set raw" "nvRead nv rel = None"
        "rewrite p rel raw \<noteq> raw" "\<not> dryRun" "nvStat nv rel = None" by blast
    let ?fs = "writeFile rel (rewrite p rel raw) fs"
    have q: "q \<noteq> rel" using Cons.prems(2) raw by auto
    show ?thesis
    proof (cases "nvWrite nv rel")
      case None
      then obtain r1 where a: "applyPlan p nv dryRun rels ?fs = (r1, fs')" using Cons.prems(1) raw by (auto split: prod.splits)
      show ?thesis using Cons.IH [OF a] Cons.prems(2) q by (auto simp: map_of_writeFile)
    next
      case (Some w)
      then show ?thesis using Cons.prems(1) raw q by (cases w) (auto simp: map_of_writeFile)
    qed
  next
    case False
    then have "fs' = fs \<or> (\<exists>r1. applyPlan p nv dryRun rels fs = (r1, fs'))"
      using Cons.prems(1) by (auto split: if_splits option.splits prod.splits)
    then show ?thesis using Cons.IH [of fs] Cons.prems(2) by auto
  qed
qed simp

lemma map_sum_Inr: "map_sum id f x = Inr y \<longleftrightarrow> (\<exists>z. x = Inr z \<and> y = f z)"
  by (cases x) auto

lemma applyPlan_rewrites:
  assumes "applyPlan p nv False files fs = (Inr changed, fs')" "distinct files"
    and "q \<in> set files" "skip q = None" "map_of fs q = Some raw" "CHR 0x00 \<notin> set raw"
  shows "map_of fs' q = Some (rewrite p q raw)"
  using assms
proof (induction files arbitrary: fs changed)
  case (Cons rel rels)
  show ?case
  proof (cases "rel = q")
    case True
    then have n: "nvRead nv q = None" using Cons.prems by (auto split: option.splits)
    have "q \<notin> set rels" using Cons.prems(2) True by simp
    show ?thesis
    proof (cases "rewrite p q raw = raw")
      case same: True
      then have "applyPlan p nv False rels fs = (Inr changed, fs')" using Cons.prems True n by simp
      then show ?thesis using applyPlan_keeps [of p nv False rels fs _ fs' q] \<open>q \<notin> set rels\<close> same Cons.prems(5) by simp
    next
      case new: False
      then obtain r1 where "applyPlan p nv False rels (writeFile q (rewrite p q raw) fs) = (r1, fs')"
        using Cons.prems True n by (auto split: option.splits prod.splits)
      then show ?thesis using applyPlan_keeps [of p nv False rels _ r1 fs' q] \<open>q \<notin> set rels\<close> by (simp add: map_of_writeFile)
    qed
  next
    case False
    then have "q \<in> set rels" using Cons.prems(3) by simp
    obtain fs1 changed1 where a: "applyPlan p nv False rels fs1 = (Inr changed1, fs')" "map_of fs1 q = map_of fs q"
    proof (cases "\<exists>x. skip rel = None \<and> map_of fs rel = Some x \<and> CHR 0x00 \<notin> set x \<and> rewrite p rel x \<noteq> x")
      case True
      then obtain x where "skip rel = None" "map_of fs rel = Some x" "CHR 0x00 \<notin> set x" "rewrite p rel x \<noteq> x" by blast
      then obtain r1 where "applyPlan p nv False rels (writeFile rel (rewrite p rel x) fs) = (Inr r1, fs')"
        using Cons.prems(1) by (auto simp: map_sum_Inr split: option.splits prod.splits)
      then show ?thesis using that False by (simp add: map_of_writeFile)
    next
      case f: False
      then have "applyPlan p nv False rels fs = (Inr changed, fs')"
        using Cons.prems(1) by (auto split: if_splits option.splits)
      then show ?thesis using that by blast
    qed
    show ?thesis using Cons.IH [OF a(1)] Cons.prems a(2) \<open>q \<in> set rels\<close> by simp
  qed
qed simp

lemma stripDocs_other: "stripDocs nv rels fs = (e, fs') \<Longrightarrow> q \<notin> set rels \<Longrightarrow> map_of fs' q = map_of fs q"
proof (induction rels arbitrary: fs)
  case (Cons rel rels)
  show ?case
  proof (cases "\<exists>fs1. stripDocs nv rels fs1 = (e, fs') \<and> map_of fs1 q = map_of fs q")
    case True
    then show ?thesis using Cons.IH Cons.prems(2) by (metis list.set_intros(2))
  next
    case False
    then show ?thesis using Cons.prems by (auto simp: map_of_writeFile split: if_splits option.splits sum.splits)
  qed
qed simp

lemma stripDocs_keeps:
  "stripDocs nv rels fs = (e, fs') \<Longrightarrow> fileExt q \<noteq> ''.md'' \<or> (\<forall>raw. map_of fs q = Some raw \<longrightarrow> \<not> containsText raw forkToolBegin)
    \<Longrightarrow> map_of fs' q = map_of fs q"
proof (induction rels arbitrary: fs)
  case (Cons rel rels)
  show ?case
  proof (cases "\<exists>fs1. stripDocs nv rels fs1 = (e, fs') \<and> map_of fs1 q = map_of fs q")
    case True
    then show ?thesis using Cons.IH Cons.prems(2) by metis
  next
    case False
    then show ?thesis using Cons.prems by (auto simp: map_of_writeFile split: if_splits option.splits sum.splits)
  qed
qed simp

lemma removeSelf_keeps:
  assumes "removeSelf nv fs = (e, fs')"
    and "fileExt q \<noteq> ''.md'' \<or> (\<forall>raw. map_of fs q = Some raw \<longrightarrow> \<not> containsText raw forkToolBegin)" "q \<noteq> ''Taskfile.yml''" "\<not> has_prefix q ''cmd/rename/''"
  shows "map_of fs' q = map_of fs q"
proof -
  have f: "map_of (filter (\<lambda>(k, _). \<not> has_prefix k ''cmd/rename/'') fs) q = map_of fs q"
    using assms(4) by (induction fs) auto
  have f': "map_of (filter (\<lambda>(k, _). \<not> (has_prefix k ''cmd/rename/'' \<and> k \<in> set gone)) fs) q = map_of fs q" for gone
    using assms(4) by (induction fs) auto
  have d: "map_of fs2 q = map_of fs q" if "removeForkToolDocs nv fs1 = (e', fs2)" "map_of fs1 q = map_of fs q" for fs1 fs2 e'
    using that stripDocs_keeps [of nv _ fs1 e' fs2 q] assms(2) by (auto simp: removeForkToolDocs_def split: sum.splits)
  show ?thesis
    using assms(1) f f' assms(3) d unfolding removeSelf_def Let_def
    by (fastforce simp: map_of_writeFile split: option.splits prod.splits bool.splits)
qed

lemma applyPlan_dry: "applyPlan p nv True files fs = (r, fs') \<Longrightarrow> fs' = fs"
  by (induction files arbitrary: r) (auto split: if_splits option.splits prod.splits)

subsection \<open>Documentation\<close>

lemma stripMarked_result:
  "stripMarked content = Inr out \<Longrightarrow> \<not> containsText out forkToolBegin \<and> \<not> containsText out forkToolEnd \<and> subseq out content"
proof (induction content rule: stripMarked.induct)
  case (1 content)
  show ?case
  proof (cases "indexOf content forkToolBegin")
    case None
    then show ?thesis using "1.prems" by (auto simp: stripMarked.simps [of content] containsText_def split: if_splits)
  next
    case (Some start)
    show ?thesis
    proof (cases "indexOf (drop start content) forkToolEnd")
      case None
      then show ?thesis using "1.prems" Some by (simp add: stripMarked.simps [of content])
    next
      case e: (Some offset)
      let ?fin = "start + offset + length forkToolEnd"
      let ?fin' = "if ?fin < length content \<and> content ! ?fin = CHR 0x0A then ?fin + 1 else ?fin"
      let ?next = "take start content @ drop ?fin' content"
      have r: "stripMarked ?next = Inr out" using "1.prems" Some e by (simp add: stripMarked.simps [of content] Let_def)
      have IH: "\<not> containsText out forkToolBegin \<and> \<not> containsText out forkToolEnd \<and> subseq out ?next"
        by (rule "1.IH" [OF Some e refl refl r])
      have "start \<le> ?fin'" by simp
      then have "drop ?fin' content = drop (?fin' - start) (drop start content)" by simp
      then have "subseq (drop ?fin' content) (drop start content)" by (metis suffix_drop suffix_imp_subseq)
      then have "subseq ?next (take start content @ drop start content)" by (rule list_emb_append_mono [OF subseq_order.order_refl])
      then show ?thesis using IH by (auto intro: subseq_order.order_trans)
    qed
  qed
qed

lemma stripMarked_unmarked: "\<not> containsText c forkToolBegin \<Longrightarrow> \<not> containsText c forkToolEnd \<Longrightarrow> stripMarked c = Inr c"
  by (simp add: stripMarked.simps [of c] containsText_def)

lemma stripDocs_strips:
  assumes "stripDocs nv rels fs = (None, fs')" "distinct rels" "q \<in> set rels" "fileExt q = ''.md''"
    and "map_of fs q = Some content" "nvRead nv q = None"
  shows "\<exists>out. map_of fs' q = Some out \<and> \<not> containsText out forkToolBegin
    \<and> (if containsText content forkToolBegin then stripMarked content = Inr out else out = content)"
  using assms
proof (induction rels arbitrary: fs)
  case (Cons rel rels)
  show ?case
  proof (cases "rel = q")
    case True
    have q: "q \<notin> set rels" using Cons.prems(2) True by simp
    show ?thesis
    proof (cases "containsText content forkToolBegin")
      case True
      then obtain out where "stripMarked content = Inr out" "stripDocs nv rels (writeFile q out fs) = (None, fs')"
        using Cons.prems \<open>rel = q\<close> by (auto split: sum.splits option.splits)
      then show ?thesis using stripDocs_other [OF _ q] True stripMarked_result by (auto simp: map_of_writeFile)
    next
      case False
      then show ?thesis using Cons.prems True stripDocs_other [OF _ q] by auto
    qed
  next
    case False
    then obtain fs1 where "stripDocs nv rels fs1 = (None, fs')" "map_of fs1 q = map_of fs q"
      using Cons.prems(1) by (auto simp: map_of_writeFile split: if_splits option.splits sum.splits)
    then show ?thesis using Cons.IH [of fs1] Cons.prems False by simp
  qed
qed simp

subsection \<open>A run\<close>

text \<open>The files that \<open>removeSelf\<close> deletes or may edit, which runs unless \<open>-keep\<close> is given: those of the tool,
  the task file, and markdown that holds a marker of the tool's documentation.\<close>

definition cleanedUp :: "renameFlags \<Rightarrow> string option \<Rightarrow> string \<Rightarrow> bool" where
  "cleanedUp fl content q \<longleftrightarrow> \<not> flKeep fl \<and> (has_prefix q ''cmd/rename/'' \<or> q = ''Taskfile.yml''
     \<or> fileExt q = ''.md'' \<and> (case content of None \<Rightarrow> False | Some raw \<Rightarrow> containsText raw forkToolBegin))"

lemma renameRun_refused:
  assumes "renameRun fl nv fs = (e, changed, fs')" "currentModulePath nv fs = Inr old" "trackedFiles (nvFiles nv) = Inr files"
    and "flDryRun fl \<or> requireCleanTree nv \<noteq> None \<or> isl (newPlan old (flModule fl) (flImage fl))"
  shows "fs' = fs"
  using assms
  by (auto simp: renameRun_def dest: applyPlan_dry split: option.splits sum.splits prod.splits if_splits)

lemma renameRun_applied:
  assumes "renameRun fl nv fs = (e, changed, fs')" "currentModulePath nv fs = Inr old" "trackedFiles (nvFiles nv) = Inr files"
    and "\<forall>repo q. \<not> has_prefix q ''gen/'' \<longrightarrow> map_of (snd (nvRegenerate nv repo)) q = map_of repo q"
  obtains (untouched) "fs' = fs" "e \<noteq> None"
    | (applied) p r fs1 where "newPlan old (flModule fl) (flImage fl) = Inr p" "applyPlan p nv (flDryRun fl) files fs = (r, fs1)"
        "isl r \<Longrightarrow> e \<noteq> None" "\<And>q. \<not> cleanedUp fl (map_of fs1 q) q \<Longrightarrow> \<not> has_prefix q ''gen/'' \<Longrightarrow> map_of fs' q = map_of fs1 q"
proof (cases "nvRoot nv = None \<and> (flDryRun fl \<or> requireCleanTree nv = None) \<and> \<not> isl (newPlan old (flModule fl) (flImage fl))")
  case False
  then have "fs' = fs \<and> e \<noteq> None" using assms(1-3) by (auto 4 4 simp: renameRun_def isl_def dest: sym split: option.splits sum.splits if_splits)
  then show ?thesis using untouched by blast
next
  case True
  then obtain p where p: "newPlan old (flModule fl) (flImage fl) = Inr p" by (cases "newPlan old (flModule fl) (flImage fl)") auto
  obtain r fs1 where a: "applyPlan p nv (flDryRun fl) files fs = (r, fs1)" by fastforce
  obtain re fs2 where g: "nvRegenerate nv fs1 = (re, fs2)" by fastforce
  obtain se fs3 where v: "removeSelf nv fs2 = (se, fs3)" by fastforce
  have k2: "map_of fs2 q = map_of fs1 q" if "\<not> has_prefix q ''gen/''" for q using assms(4) that g by (metis snd_conv)
  have k3: "map_of fs3 q = map_of fs2 q" if "\<not> cleanedUp fl (map_of fs2 q) q" "\<not> flKeep fl" for q
    using removeSelf_keeps [OF v, of q] that by (auto simp: cleanedUp_def split: option.splits)
  have c: "(if flDryRun fl then None else requireCleanTree nv) = None" using True by auto
  have run: "(e, changed, fs') = (case r of Inl err \<Rightarrow> (Some err, [], fs1) | Inr ch \<Rightarrow>
      if flDryRun fl \<or> flSkipGen fl then (None, ch, fs1)
      else (case re of Some err \<Rightarrow> (Some (Errorf (''regenerate protobuf code: '' @ errorText err) [err]), ch, fs2)
        | None \<Rightarrow> if flKeep fl then (None, ch, fs2) else (se, ch, fs3)))"
    using assms(1) True unfolding renameRun_def c by (auto simp: assms(2,3) p a g v split: option.splits sum.splits)
  show ?thesis
  proof (rule applied [OF p a])
    show "e \<noteq> None" if "isl r" using run that by (cases r) auto
    show "map_of fs' q = map_of fs1 q" if "\<not> cleanedUp fl (map_of fs1 q) q" "\<not> has_prefix q ''gen/''" for q
      using run k2 [OF that(2)] k3 [of q] that(1) by (auto split: sum.splits if_splits option.splits)
  qed
qed

section \<open>Properties\<close>

text \<open>
  C39: The rename tool edits what is ours, exactly, but for cleaning up after itself. With \<open>-dry-run\<close>, over a
  working tree with uncommitted changes, and with a module path it refuses, the repository is untouched.
  Otherwise leave aside the generated files and, unless \<open>-keep\<close> is given, what the tool cleans up: everything
  under \<open>cmd/rename/\<close>, which it deletes, \<open>Taskfile.yml\<close>, and every markdown file that holds the marker of the
  tool's documentation, whoever it belongs to. Whatever a run does and however it ends, a file that is
  untracked, skipped (under \<open>proto/third_party/\<close>, a licence) or binary keeps its content; and when the run
  succeeds without \<open>-dry-run\<close>, every file that is tracked, ours and text holds exactly the rewriting of
  what it held. Of the code generator this assumes that it writes only under \<open>gen/\<close>, and of git that it lists
  a file once.
\<close>

theorem rename_edits_only_ours:
  assumes "renameRun fl nv fs = (e, changed, fs')"
    and "\<forall>repo q. \<not> has_prefix q ''gen/'' \<longrightarrow> map_of (snd (nvRegenerate nv repo)) q = map_of repo q"
    and "trackedFiles (nvFiles nv) = Inr files" "distinct files" "currentModulePath nv fs = Inr old"
  shows "(flDryRun fl \<or> requireCleanTree nv \<noteq> None \<or> isl (newPlan old (flModule fl) (flImage fl)) \<longrightarrow> fs' = fs)
    \<and> (\<forall>q. \<not> cleanedUp fl (map_of fs q) q \<and> \<not> has_prefix q ''gen/''
          \<and> (skip q \<noteq> None \<or> q \<notin> set files \<or> (\<exists>raw. map_of fs q = Some raw \<and> CHR 0x00 \<in> set raw))
        \<longrightarrow> map_of fs' q = map_of fs q)
    \<and> (\<forall>q raw p. \<not> cleanedUp fl (Some (rewrite p q raw)) q \<and> e = None \<and> \<not> flDryRun fl \<and> newPlan old (flModule fl) (flImage fl) = Inr p
          \<and> skip q = None \<and> q \<in> set files \<and> map_of fs q = Some raw \<and> CHR 0x00 \<notin> set raw
        \<longrightarrow> map_of fs' q = Some (rewrite p q raw))"
proof (intro conjI allI impI; (elim conjE)?)
  show "fs' = fs" if "flDryRun fl \<or> requireCleanTree nv \<noteq> None \<or> isl (newPlan old (flModule fl) (flImage fl))"
    by (rule renameRun_refused [OF assms(1,5,3) that])
next
  fix q
  assume q: "\<not> cleanedUp fl (map_of fs q) q" "\<not> has_prefix q ''gen/''"
    "skip q \<noteq> None \<or> q \<notin> set files \<or> (\<exists>raw. map_of fs q = Some raw \<and> CHR 0x00 \<in> set raw)"
  show "map_of fs' q = map_of fs q"
  proof (cases rule: renameRun_applied [OF assms(1,5,3,2)])
    case (2 p r fs1)
    then show ?thesis using applyPlan_keeps [OF 2(2), of q] q by auto
  qed simp_all
next
  fix q raw p
  assume q: "\<not> cleanedUp fl (Some (rewrite p q raw)) q" "e = None" "\<not> flDryRun fl" "newPlan old (flModule fl) (flImage fl) = Inr p"
    "skip q = None" "q \<in> set files" "map_of fs q = Some raw" "CHR 0x00 \<notin> set raw"
  show "map_of fs' q = Some (rewrite p q raw)"
  proof (cases rule: renameRun_applied [OF assms(1,5,3,2)])
    case (2 p' r fs1)
    then obtain ch where "applyPlan p nv False files fs = (Inr ch, fs1)" using q by (cases r) auto
    moreover have "\<not> has_prefix q ''gen/''" using q(5) by (auto simp: skip_def split: if_splits)
    ultimately show ?thesis using applyPlan_rewrites [OF _ assms(4) q(6,5,7,8)] 2(4) q(1) by simp
  qed (use q in simp_all)
qed


text \<open>A small repository, with the answers of a system in which everything works.\<close>

definition sep0 :: "string list \<Rightarrow> string" where
  "sep0 ns = concat (map (\<lambda>n. n @ [CHR 0x00]) ns)"

definition sampleEnv :: renameEnv where
  "sampleEnv = \<lparr>nvRoot = None, nvStatus = Inr [],
     nvFiles = Inr (sep0 [''go.mod'', ''a.go'', ''LICENSE'', ''README.md'', ''cmd/rename/m.go'', ''Taskfile.yml'']),
     nvFilesAfter = Inr (sep0 [''go.mod'', ''a.go'', ''LICENSE'', ''README.md'', ''Taskfile.yml'']),
     nvRead = (\<lambda>_. None), nvStat = (\<lambda>_. None), nvWrite = (\<lambda>_. None),
     nvRemove = None, nvRegenerate = (\<lambda>repo. (None, repo))\<rparr>"

definition sampleRepo :: repo where
  "sampleRepo = [(''go.mod'', ''module t.io/old''), (''a.go'', ''import t.io/old/x''), (''LICENSE'', ''t.io/old''),
     (''README.md'', ''a'' @ forkToolBegin @ ''b'' @ forkToolEnd @ ''c''), (''cmd/rename/m.go'', ''t.io/old''), (''Taskfile.yml'', ''t'')]"

definition sampleFlags :: renameFlags where
  "sampleFlags = \<lparr>flModule = ''t.io/mine'', flImage = [], flKeep = False, flDryRun = False, flSkipGen = False\<rparr>"

lemma sample_run:
  "renameRun sampleFlags sampleEnv sampleRepo =
     (None, [''go.mod'', ''a.go'', ''cmd/rename/m.go''],
      [(''README.md'', ''ac''), (''a.go'', ''import t.io/mine/x''), (''go.mod'', ''module t.io/mine''), (''LICENSE'', ''t.io/old''), (''Taskfile.yml'', ''t'')])"
  by code_simp

lemma sample_listing:
  "trackedFiles (nvFiles sampleEnv) = Inr [''go.mod'', ''a.go'', ''LICENSE'', ''README.md'', ''cmd/rename/m.go'', ''Taskfile.yml'']"
  "trackedFiles (nvFilesAfter sampleEnv) = Inr [''go.mod'', ''a.go'', ''LICENSE'', ''README.md'', ''Taskfile.yml'']"
  by code_simp+

lemma fileExt_a: "fileExt ''a.go'' \<noteq> ''.md''"
  by code_simp

lemma sample_module: "currentModulePath sampleEnv sampleRepo = Inr ''t.io/old''"
  by code_simp

theorem rename_edits_only_ours_witness:
  "map_of (snd (snd (renameRun sampleFlags sampleEnv sampleRepo))) ''LICENSE'' = map_of sampleRepo ''LICENSE''
     \<and> map_of (snd (snd (renameRun sampleFlags sampleEnv sampleRepo))) ''a.go''
       = Some (rewrite \<lparr>oldModule = ''t.io/old'', newModule = ''t.io/mine'', oldImage = ''old'', newImage = ''mine''\<rparr> ''a.go'' ''import t.io/old/x'')"
proof -
  have "\<forall>repo q. \<not> has_prefix q ''gen/'' \<longrightarrow> map_of (snd (nvRegenerate sampleEnv repo)) q = map_of repo q" by (simp add: sampleEnv_def)
  note R = rename_edits_only_ours [OF sample_run this sample_listing(1) _ sample_module]
  have l: "\<not> cleanedUp sampleFlags (map_of sampleRepo ''LICENSE'') ''LICENSE''" "\<not> has_prefix ''LICENSE'' ''gen/''" "skip ''LICENSE'' \<noteq> None" by code_simp+
  have a: "\<not> cleanedUp sampleFlags x ''a.go''" "skip ''a.go'' = None" "\<not> flDryRun sampleFlags" "map_of sampleRepo ''a.go'' = Some ''import t.io/old/x''"
    "newPlan ''t.io/old'' (flModule sampleFlags) (flImage sampleFlags)
      = Inr \<lparr>oldModule = ''t.io/old'', newModule = ''t.io/mine'', oldImage = ''old'', newImage = ''mine''\<rparr>" for x
    by (simp add: cleanedUp_def fileExt_a, code_simp+)
  have d: "distinct [''go.mod'', ''a.go'', ''LICENSE'', ''README.md'', ''cmd/rename/m.go'', ''Taskfile.yml'']" by simp
  show ?thesis unfolding sample_run snd_conv
    using conjunct1 [OF conjunct2 [OF R [OF d]], THEN spec, THEN mp, OF conjI [OF l(1) conjI [OF l(2) disjI1 [OF l(3)]]]]
      conjunct2 [OF conjunct2 [OF R [OF d]], THEN spec [where x = "''a.go''"], THEN spec, THEN spec, THEN mp] a by simp
qed

text \<open>
  The rewriting of a file replaces every occurrence of the old module path, and nothing else: the content
  falls into parts that do not hold the path, and the result is the same parts around the new one. In a
  deployment file, when the image prefix changes, the three image names are replaced in the same way, one
  after the other; no other file has its images renamed; and a file that holds neither comes out as it was,
  so it is not written.
\<close>

theorem rename_replaces_every_path:
  assumes "newPlan old module0 img = Inr p" "old \<noteq> []"
  shows "\<exists>c1. replaced old (trim_space module0) content c1
    \<and> (if isDeploymentFile rel \<and> oldImage p \<noteq> newImage p
       then \<exists>c2 c3. replaced (oldImage p @ ''/orderd'') (newImage p @ ''/orderd'') c1 c2
              \<and> replaced (oldImage p @ ''/worker'') (newImage p @ ''/worker'') c2 c3
              \<and> replaced (oldImage p @ ''/migrate'') (newImage p @ ''/migrate'') c3 (rewrite p rel content)
       else rewrite p rel content = c1)
    \<and> (\<not> containsText content old \<and> \<not> isDeploymentFile rel \<longrightarrow> rewrite p rel content = content)"
proof -
  have p: "oldModule p = old" "newModule p = trim_space module0"
    using assms(1) by (auto simp: newPlan_def Let_def split: if_splits)
  let ?c1 = "replaceAll old (trim_space module0) content"
  have "replaced old (trim_space module0) content ?c1" by (rule replaceAll_replaced [OF assms(2)])
  moreover have "rewrite p rel content = ?c1" if "\<not> (isDeploymentFile rel \<and> oldImage p \<noteq> newImage p)"
    using that by (auto simp: rewrite_def p)
  moreover have "\<exists>c2 c3. replaced (oldImage p @ ''/orderd'') (newImage p @ ''/orderd'') ?c1 c2
      \<and> replaced (oldImage p @ ''/worker'') (newImage p @ ''/worker'') c2 c3
      \<and> replaced (oldImage p @ ''/migrate'') (newImage p @ ''/migrate'') c3 (rewrite p rel content)"
    if "isDeploymentFile rel \<and> oldImage p \<noteq> newImage p"
    unfolding rewrite_def Let_def p if_P [OF that [unfolded conj_commute [of "isDeploymentFile rel"]]]
    by (auto intro!: exI replaceAll_replaced)
  moreover have "rewrite p rel content = content" if "\<not> containsText content old \<and> \<not> isDeploymentFile rel"
    using that replaced_absent assms(2) by (simp add: rewrite_def p)
  ultimately show ?thesis by (intro exI [of _ ?c1] conjI) (auto split: if_split)
qed

lemma sample_plan:
  "newPlan ''t.io/old'' '' t.io/mine '' [] = Inr \<lparr>oldModule = ''t.io/old'', newModule = ''t.io/mine'', oldImage = ''old'', newImage = ''mine''\<rparr>"
  by code_simp

theorem rename_replaces_every_path_witness:
  "\<exists>c1. replaced ''t.io/old'' (trim_space '' t.io/mine '') ''image: t.io/old/worker'' c1
     \<and> (\<exists>c2 c3. replaced ''old/orderd'' ''mine/orderd'' c1 c2 \<and> replaced ''old/worker'' ''mine/worker'' c2 c3
         \<and> replaced ''old/migrate'' ''mine/migrate'' c3
             (rewrite \<lparr>oldModule = ''t.io/old'', newModule = ''t.io/mine'', oldImage = ''old'', newImage = ''mine''\<rparr> ''deploy/k8s.yml'' ''image: t.io/old/worker''))"
  using rename_replaces_every_path [OF sample_plan, of "''image: t.io/old/worker''" "''deploy/k8s.yml''"]
  by (simp add: isDeploymentFile_def)

text \<open>
  The documentation of the tool leaves with the tool. When the tool has removed itself from a repository that
  has a \<open>Taskfile.yml\<close>, nothing is left of \<open>cmd/rename\<close>, and every tracked markdown file that could be read
  has no opening marker: one that had none is untouched, and one that had is what it was with text taken
  out, none of either marker left.
\<close>

theorem fork_docs_leave_with_the_tool:
  assumes "removeSelf nv fs = (None, fs')" "map_of fs ''Taskfile.yml'' = Some taskfile"
    and "trackedFiles (nvFilesAfter nv) = Inr files" "distinct files"
    and "q \<in> set files" "fileExt q = ''.md''" "\<not> has_prefix q ''cmd/rename/''" "map_of fs q = Some content" "nvRead nv q = None"
  shows "\<exists>out. map_of fs' q = Some out \<and> \<not> containsText out forkToolBegin \<and> subseq out content
    \<and> (if containsText content forkToolBegin then \<not> containsText out forkToolEnd else out = content)"
proof -
  have f: "map_of (filter (\<lambda>(k, _). \<not> has_prefix k ''cmd/rename/'') fs) q' = map_of fs q'" if "\<not> has_prefix q' ''cmd/rename/''" for q'
    using that by (induction fs) auto
  have "q \<noteq> ''Taskfile.yml''" using assms(6) by (auto simp: fileExt_def lastElement_def)
  moreover have "map_of (filter (\<lambda>(k, _). \<not> has_prefix k ''cmd/rename/'') fs) ''Taskfile.yml'' = Some taskfile"
    using assms(2) by (subst f) simp_all
  ultimately obtain fs1 where d: "stripDocs nv files fs1 = (None, fs')" "map_of fs1 q = Some content"
    using assms(1) f [OF assms(7)] assms(3,8) unfolding removeSelf_def Let_def removeForkToolDocs_def
    by (auto simp: map_of_writeFile split: option.splits prod.splits bool.splits)
  show ?thesis
    using stripDocs_strips [OF d(1) assms(4-6) d(2) assms(9)] stripMarked_result [of content] by (auto split: if_splits)
qed

lemma sample_removed: "removeSelf sampleEnv sampleRepo =
    (None, [(''README.md'', ''ac''), (''go.mod'', ''module t.io/old''), (''a.go'', ''import t.io/old/x''), (''LICENSE'', ''t.io/old''), (''Taskfile.yml'', ''t'')])"
  by code_simp

theorem fork_docs_leave_with_the_tool_witness:
  "\<exists>out. map_of (snd (removeSelf sampleEnv sampleRepo)) ''README.md'' = Some out
     \<and> \<not> containsText out forkToolBegin \<and> \<not> containsText out forkToolEnd \<and> subseq out (''a'' @ forkToolBegin @ ''b'' @ forkToolEnd @ ''c'')"
proof -
  have m: "map_of sampleRepo ''Taskfile.yml'' = Some ''t''" "nvRead sampleEnv ''README.md'' = None" "fileExt ''README.md'' = ''.md''"
    "map_of sampleRepo ''README.md'' = Some (''a'' @ forkToolBegin @ ''b'' @ forkToolEnd @ ''c'')"
    "containsText (''a'' @ forkToolBegin @ ''b'' @ forkToolEnd @ ''c'') forkToolBegin"
    by code_simp+
  show ?thesis
    using fork_docs_leave_with_the_tool [OF sample_removed m(1) sample_listing(2) _ _ m(3) _ m(4,2)] m(5)
    unfolding sample_removed snd_conv by simp
qed

text \<open>
  Without a \<open>Taskfile.yml\<close> the tool removes itself and leaves its documentation behind, although its
  references to the tool are as dead as anywhere: the early return comes before the cleaning of the documents.
\<close>

theorem no_taskfile_keeps_docs:
  assumes "nvRemove nv = None" "map_of fs ''Taskfile.yml'' = None"
  shows "removeSelf nv fs = (None, filter (\<lambda>(k, _). \<not> has_prefix k ''cmd/rename/'') fs)"
proof -
  have "map_of (filter (\<lambda>(k, _). \<not> has_prefix k ''cmd/rename/'') fs) ''Taskfile.yml'' = None"
    using assms(2) by (auto simp: map_of_eq_None_iff)
  then show ?thesis using assms by (simp add: removeSelf_def)
qed

text \<open>The check of the module path accepts an empty path element, which Go does not.\<close>

theorem module_check_accepts_empty_element: "\<not> isl (newPlan ''t.io/old'' ''github.com//orders'' [])"
  by code_simp

text \<open>The clean-up asks neither git nor the list of what is skipped: marked markdown of a third party loses
  its section, and a file under \<open>cmd/rename/\<close> that git ignores is deleted.\<close>

theorem clean_up_reaches_others:
  "let repo = (''proto/third_party/README.md'', ''a'' @ forkToolBegin @ ''b'' @ forkToolEnd @ ''c'') # (''cmd/rename/notes.txt'', ''x'') # sampleRepo;
       nv = sampleEnv\<lparr>nvFilesAfter := Inr (sep0 [''go.mod'', ''a.go'', ''LICENSE'', ''README.md'', ''Taskfile.yml'', ''proto/third_party/README.md''])\<rparr>;
       fs' = snd (snd (renameRun sampleFlags nv repo))
   in skip ''proto/third_party/README.md'' \<noteq> None \<and> map_of fs' ''proto/third_party/README.md'' = Some ''ac''
     \<and> map_of fs' ''cmd/rename/notes.txt'' = None"
  by code_simp

end
