(* ===== verification/Conformance.thy ===== *)
theory Conformance
  imports Orderpgtx
begin

text \<open>
  The contract suite of the stores (\<open>internal/order/ordertest\<close>): its fixtures, its subtests as functions
  that run against an adapter from a fresh state, and the proof that both adapters pass all of them. What a
  subtest needs of an adapter beyond the contract \<open>order_store\<close>, that operations succeed when nothing
  stands in their way and refuse with the right error, is the locale \<open>conforming_store\<close>.
\<close>

section \<open>Fixtures\<close>

definition RefTime :: int where "RefTime = 1773500966535000000"
definition RefTenant :: string where "RefTenant = ''tenant-a''"
definition OtherTen :: string where "OtherTen = ''tenant-b''"

abbreviation second :: int where "second \<equiv> 1000000000"

text \<open>A panic of a builder is \<^const>\<open>None\<close>.\<close>

definition USD :: "int \<Rightarrow> int \<Rightarrow> money option" where
  "USD units nanos = (case NewMoney ''USD'' units nanos of Inl _ \<Rightarrow> None | Inr m \<Rightarrow> Some m)"

definition lineItem :: "string \<Rightarrow> int \<Rightarrow> money \<Rightarrow> Item" where
  "lineItem sku quantity unitPrice = \<lparr>SKU = sku, Quantity = quantity, UnitPrice = unitPrice\<rparr>"

type_synonym OrderOption = "Order \<Rightarrow> Order"

definition WithID :: "string \<Rightarrow> OrderOption" where "WithID i o' = o'\<lparr>ID := i\<rparr>"
definition WithTenant :: "string \<Rightarrow> OrderOption" where "WithTenant t o' = o'\<lparr>TenantID := t\<rparr>"
definition WithCustomer :: "string \<Rightarrow> OrderOption" where "WithCustomer c o' = o'\<lparr>CustomerID := c\<rparr>"
definition WithStatus :: "Status \<Rightarrow> OrderOption" where "WithStatus st o' = o'\<lparr>Status := st\<rparr>"
definition WithCreatedAt :: "int \<Rightarrow> OrderOption" where "WithCreatedAt t o' = o'\<lparr>CreatedAt := t, UpdatedAt := t\<rparr>"
definition WithItems :: "Item list \<Rightarrow> OrderOption" where "WithItems is o' = o'\<lparr>Items := is\<rparr>"

definition NewOrder :: "OrderOption list \<Rightarrow> Order option" where
  "NewOrder opts = (case USD 19 990000000 of
     None \<Rightarrow> None
   | Some price \<Rightarrow>
       (let o' = foldl (\<lambda>o' opt. opt o')
              \<lparr>ID = ''00000000-0000-7000-8000-000000000001'', TenantID = RefTenant, CustomerID = ''customer-1'',
               Status = StatusPending, Items = [lineItem ''SKU-1'' 2 price],
               Total = \<lparr>CurrencyCode = [], Units = 0, Nanos = 0\<rparr>, CreatedAt = RefTime, UpdatedAt = RefTime\<rparr> opts
        in case ComputeTotal (Items o') of Inl _ \<Rightarrow> None | Inr t \<Rightarrow> Some (o'\<lparr>Total := t\<rparr>)))"

text \<open>The hexadecimal digits that fit, with leading zeros.\<close>

fun hexPad :: "nat \<Rightarrow> nat \<Rightarrow> string" where
  "hexPad 0 n = []"
| "hexPad (Suc k) n = hexPad k (n div 16) @ [''0123456789abcdef'' ! (n mod 16)]"

definition SeqID :: "int \<Rightarrow> string" where
  "SeqID n = ''00000000-0000-7000-8000-'' @ hexPad 12 (nat n)"

section \<open>The suite\<close>

record 's Harness =
  hStore :: "'s StorePort"
  hAtomic :: "'s Atomic"
  hEvents :: "'s \<Rightarrow> Event list res"

text \<open>\<open>cmp.Diff\<close> with \<open>EquateApproxTime(time.Microsecond)\<close>.\<close>

definition sameOrder :: "Order \<Rightarrow> Order \<Rightarrow> bool" where
  "sameOrder want got \<longleftrightarrow> want\<lparr>CreatedAt := 0, UpdatedAt := 0\<rparr> = got\<lparr>CreatedAt := 0, UpdatedAt := 0\<rparr>
     \<and> \<bar>CreatedAt want - CreatedAt got\<bar> \<le> 1000 \<and> \<bar>UpdatedAt want - UpdatedAt got\<bar> \<le> 1000"

text \<open>\<open>errors.Is\<close> against an error value of the test's own.\<close>

fun wrapsError :: "goerr \<Rightarrow> goerr \<Rightarrow> bool" where
  "wrapsError (Errorf m es) t \<longleftrightarrow> Errorf m es = t \<or> list_ex (\<lambda>e. wrapsError e t) es"
| "wrapsError (PermanentErr e) t \<longleftrightarrow> PermanentErr e = t \<or> wrapsError e t"
| "wrapsError (AppErr k r m md ds w) t \<longleftrightarrow> AppErr k r m md ds w = t \<or> (case w of None \<Rightarrow> False | Some e \<Rightarrow> wrapsError e t)"
| "wrapsError (UpstreamErr u m c r d x a e) t \<longleftrightarrow> UpstreamErr u m c r d x a e = t \<or> wrapsError e t"
| "wrapsError e t \<longleftrightarrow> e = t"

definition failsWith :: "sentinel \<Rightarrow> 'a res \<Rightarrow> bool" where
  "failsWith want r = (case r of Inl err \<Rightarrow> errorsIs err want | Inr _ \<Rightarrow> False)"

definition refusedWith :: "sentinel \<Rightarrow> goerr option \<times> 's \<Rightarrow> bool" where
  "refusedWith want r = (case fst r of Some err \<Rightarrow> errorsIs err want | None \<Rightarrow> False)"

text \<open>A subtest gets the adapter and its fresh state and says whether it passes. \<open>t.Fatal\<close> and a panic end it.\<close>

type_synonym 's subtest = "'s Harness \<Rightarrow> 's \<Rightarrow> bool"

definition given :: "'a option \<Rightarrow> ('a \<Rightarrow> bool) \<Rightarrow> bool" where
  "given x k = (case x of None \<Rightarrow> False | Some y \<Rightarrow> k y)"

definition mustCreate :: "'s Harness \<Rightarrow> Order option \<Rightarrow> 's \<Rightarrow> 's option" where
  "mustCreate h o' s = (case o' of None \<Rightarrow> None | Some x \<Rightarrow> (case sCreate (hStore h) x s of (Some _, _) \<Rightarrow> None | (None, s') \<Rightarrow> Some s'))"

fun mustCreateAll :: "'s Harness \<Rightarrow> Order option list \<Rightarrow> 's \<Rightarrow> 's option" where
  "mustCreateAll h [] s = Some s"
| "mustCreateAll h (o' # os) s = (case mustCreate h o' s of None \<Rightarrow> None | Some s' \<Rightarrow> mustCreateAll h os s')"

definition eventFor :: "Order \<Rightarrow> string \<Rightarrow> Event" where
  "eventFor o' typ = \<lparr>Type = typ, AggregateID = ID o', eTenantID = TenantID o', OccurredAt = CreatedAt o', eOrder = o'\<rparr>"

definition anyFilter :: ListFilter where
  "anyFilter = \<lparr>fStatus = StatusUnspecified, fCustomerID = [], PageSize = 0, PageToken = []\<rparr>"

definition listIDs :: "'s Harness \<Rightarrow> ListFilter \<Rightarrow> 's \<Rightarrow> string list option" where
  "listIDs h f s = (case sList (hStore h) RefTenant f s of Inl _ \<Rightarrow> None | Inr page \<Rightarrow> Some (map ID (Orders page)))"

definition roundTrips :: "'s subtest" where
  "roundTrips h s = given (NewOrder [WithID (SeqID 1)]) (\<lambda>want. given (mustCreate h (Some want) s) (\<lambda>s1.
     case sGet (hStore h) RefTenant (ID want) s1 of Inl _ \<Rightarrow> False | Inr got \<Rightarrow> sameOrder want got))"

definition unknownNotFound :: "'s subtest" where
  "unknownNotFound h s = failsWith ErrNotFound (sGet (hStore h) RefTenant (SeqID 99) s)"

definition duplicateRefused :: "'s subtest" where
  "duplicateRefused h s = given (NewOrder [WithID (SeqID 1)]) (\<lambda>o'. given (mustCreate h (Some o') s) (\<lambda>s1.
     refusedWith ErrDuplicate (sCreate (hStore h) o' s1)))"

definition otherTenantMissing :: "'s subtest" where
  "otherTenantMissing h s = given (NewOrder [WithID (SeqID 1), WithTenant OtherTen]) (\<lambda>o'. given (mustCreate h (Some o') s) (\<lambda>s1.
     failsWith ErrNotFound (sGet (hStore h) RefTenant (ID o') s1)))"

definition tenantRequired :: "'s subtest" where
  "tenantRequired h s = given (NewOrder [WithID (SeqID 1), WithTenant []]) (\<lambda>o'.
     (let r = sCreate (hStore h) o' s
      in refusedWith ErrMissingTenant r
         \<and> failsWith ErrMissingTenant (sGet (hStore h) [] (SeqID 1) (snd r))
         \<and> failsWith ErrMissingTenant (sList (hStore h) [] anyFilter (snd r))))"

definition updatePersists :: "'s subtest" where
  "updatePersists h s = given (NewOrder [WithID (SeqID 1)]) (\<lambda>o0. given (mustCreate h (Some o0) s) (\<lambda>s1.
     (let o' = o0\<lparr>Status := StatusCancelled, UpdatedAt := RefTime + 3600 * second\<rparr>
      in case sUpdate (hStore h) o' s1 of
           (Some _, _) \<Rightarrow> False
         | (None, s2) \<Rightarrow> (case sGet (hStore h) RefTenant (ID o') s2 of
             Inl _ \<Rightarrow> False
           | Inr got \<Rightarrow> Status got = StatusCancelled \<and> UpdatedAt got = UpdatedAt o'))))"

definition updateUnknown :: "'s subtest" where
  "updateUnknown h s = given (NewOrder [WithID (SeqID 42)]) (\<lambda>o'. refusedWith ErrNotFound (sUpdate (hStore h) o' s))"

definition listsOwnTenant :: "'s subtest" where
  "listsOwnTenant h s = given (mustCreateAll h [NewOrder [WithID (SeqID 1), WithTenant RefTenant],
       NewOrder [WithID (SeqID 2), WithTenant OtherTen]] s) (\<lambda>s1.
     given (listIDs h anyFilter s1) (\<lambda>is. is = [SeqID 1]))"

definition stableOrder :: "'s subtest" where
  "stableOrder h s = given (mustCreateAll h (map (\<lambda>i. NewOrder [WithID (SeqID i), WithCreatedAt RefTime]) [1..5]) s) (\<lambda>s1.
     given (listIDs h anyFilter s1) (\<lambda>first. given (listIDs h anyFilter s1) (\<lambda>again. first = again)))"

text \<open>Orders a second apart.\<close>

definition timed :: "int \<Rightarrow> Order option" where
  "timed i = NewOrder [WithID (SeqID i), WithCreatedAt (RefTime + i * second)]"

text \<open>The loop follows the tokens (\<open>walk\<close>) and gives up before an eleventh page.\<close>

definition pagesOnce :: "'s subtest" where
  "pagesOnce h s = given (mustCreateAll h (map timed [1..7]) s) (\<lambda>s1.
     case walk (hStore h) RefTenant (anyFilter\<lparr>PageSize := 3\<rparr>) (replicate 10 s1) of
       Inl _ \<Rightarrow> False
     | Inr (os, finished) \<Rightarrow> finished \<and> length (remdups (map ID os)) = 7
         \<and> list_all (\<lambda>i. count_list (map ID os) i = 1) (map ID os))"

definition filters :: "'s subtest" where
  "filters h s = given (mustCreateAll h [NewOrder [WithID (SeqID 1), WithStatus StatusPending, WithCustomer ''alice''],
       NewOrder [WithID (SeqID 2), WithStatus StatusCancelled, WithCustomer ''alice''],
       NewOrder [WithID (SeqID 3), WithStatus StatusPending, WithCustomer ''bob'']] s) (\<lambda>s1.
     given (listIDs h (anyFilter\<lparr>fStatus := StatusCancelled\<rparr>) s1) (\<lambda>byStatus.
     given (listIDs h (anyFilter\<lparr>fCustomerID := ''bob''\<rparr>) s1) (\<lambda>byCustomer.
       byStatus = [SeqID 2] \<and> byCustomer = [SeqID 3])))"

text \<open>The token of the first of three pages.\<close>

definition withToken :: "'s Harness \<Rightarrow> 's \<Rightarrow> (string \<Rightarrow> 's \<Rightarrow> bool) \<Rightarrow> bool" where
  "withToken h s k = given (mustCreateAll h (map timed [1..3]) s) (\<lambda>s1.
     case sList (hStore h) RefTenant (anyFilter\<lparr>PageSize := 1\<rparr>) s1 of
       Inl _ \<Rightarrow> False
     | Inr page \<Rightarrow> NextPageToken page \<noteq> [] \<and> k (NextPageToken page) s1)"

definition otherFilterRefused :: "'s subtest" where
  "otherFilterRefused h s = withToken h s (\<lambda>token s1. failsWith ErrInvalidPageToken
     (sList (hStore h) RefTenant (anyFilter\<lparr>PageSize := 1, PageToken := token, fStatus := StatusCancelled\<rparr>) s1))"

definition malformedRefused :: "'s subtest" where
  "malformedRefused h s = failsWith ErrInvalidPageToken (sList (hStore h) RefTenant (anyFilter\<lparr>PageToken := ''!!!not-base64!!!''\<rparr>) s)"

text \<open>\<open>tamperCursorID\<close>; setting the field \<open>i\<close> of a JSON object, or its error, is an argument.\<close>

definition tamperCursorID :: "(string \<Rightarrow> string \<Rightarrow> string res) \<Rightarrow> string \<Rightarrow> string \<Rightarrow> string option" where
  "tamperCursorID setField token newID = (case DecodeString token of
     None \<Rightarrow> None
   | Some raw \<Rightarrow> (case setField raw newID of Inl _ \<Rightarrow> None | Inr b \<Rightarrow> Some (EncodeToString b)))"

definition injectedID :: string where
  "injectedID = [CHR 0x27] @ ''; DROP TABLE orders; --''"

definition tamperedRefused :: "(string \<Rightarrow> string \<Rightarrow> string res) \<Rightarrow> 's subtest" where
  "tamperedRefused setField h s = withToken h s (\<lambda>token s1. given (tamperCursorID setField token injectedID) (\<lambda>tampered.
     failsWith ErrInvalidPageToken (sList (hStore h) RefTenant (anyFilter\<lparr>PageSize := 1, PageToken := tampered\<rparr>) s1)))"

definition boom :: goerr where "boom = Plain ''business rule failed''"

definition rollbackBody :: "Order \<Rightarrow> 's txbody" where
  "rollbackBody o' st pub s = (case sCreate st o' s of
     (Some err, s1) \<Rightarrow> (Inl err, s1)
   | (None, s1) \<Rightarrow> (case pPublish pub (eventFor o' EventOrderCreated) s1 of
       (Some err, s2) \<Rightarrow> (Inl err, s2)
     | (None, s2) \<Rightarrow> (Inl boom, s2)))"

definition rollbackLeavesNothing :: "'s subtest" where
  "rollbackLeavesNothing h s = given (NewOrder [WithID (SeqID 1)]) (\<lambda>o'.
     case aInTx (hAtomic h) (rollbackBody o') s of
       (Inr _, _) \<Rightarrow> False
     | (Inl err, s1) \<Rightarrow> wrapsError err boom \<and> failsWith ErrNotFound (sGet (hStore h) RefTenant (ID o') s1)
         \<and> (case hEvents h s1 of Inl _ \<Rightarrow> False | Inr es \<Rightarrow> es = []))"

definition commitBody :: "Order \<Rightarrow> 's txbody" where
  "commitBody o' st pub s = (case sCreate st o' s of
     (Some err, s1) \<Rightarrow> (Inl err, s1)
   | (None, s1) \<Rightarrow> (case pPublish pub (eventFor o' EventOrderCreated) s1 of
       (Some err, s2) \<Rightarrow> (Inl err, s2)
     | (None, s2) \<Rightarrow> (Inr o', s2)))"

definition commitWritesBoth :: "'s subtest" where
  "commitWritesBoth h s = given (NewOrder [WithID (SeqID 1)]) (\<lambda>o'.
     case aInTx (hAtomic h) (commitBody o') s of
       (Inl _, _) \<Rightarrow> False
     | (Inr _, s1) \<Rightarrow> \<not> isl (sGet (hStore h) RefTenant (ID o') s1)
         \<and> (case hEvents h s1 of Inl _ \<Rightarrow> False
            | Inr es \<Rightarrow> length es = 1 \<and> Type (es ! 0) = EventOrderCreated \<and> AggregateID (es ! 0) = ID o'))"

text \<open>The names of the subtests that fail, each run from the fresh state.\<close>

definition RunStoreContract :: "(string \<Rightarrow> string \<Rightarrow> string res) \<Rightarrow> 's Harness \<Rightarrow> 's \<Rightarrow> string list" where
  "RunStoreContract setField h fresh = map fst (filter (\<lambda>(name, test). \<not> test h fresh)
     [(''Create then Get round-trips every field'', roundTrips),
      (''Get of an unknown id returns ErrNotFound'', unknownNotFound),
      (''Create with a duplicate id returns ErrDuplicate'', duplicateRefused),
      (''an order in another tenant is indistinguishable from missing'', otherTenantMissing),
      (''writes without a tenant fail closed'', tenantRequired),
      (''Update persists changes'', updatePersists),
      (''Update of an unknown id returns ErrNotFound'', updateUnknown),
      (''List returns only the caller's tenant'', listsOwnTenant),
      (''List orders rows stably when timestamps collide'', stableOrder),
      (''paging visits every row exactly once'', pagesOnce),
      (''List filters by status and customer'', filters),
      (''a page token from a different filter is rejected'', otherFilterRefused),
      (''a malformed page token is rejected'', malformedRefused),
      (''a page token with a tampered id is rejected'', tamperedRefused setField),
      (''a rolled back transaction writes neither the order nor the event'', rollbackLeavesNothing),
      (''a committed transaction writes both the order and the event'', commitWritesBoth)])"

definition memHarness :: "codec \<Rightarrow> memstate Harness" where
  "memHarness K = \<lparr>hStore = memStore K, hAtomic = memAtomic K, hEvents = (\<lambda>s. Inr (Events s))\<rparr>"

definition pgHarness :: "pglib \<Rightarrow> codec \<Rightarrow> string \<Rightarrow> pgdb Harness" where
  "pgHarness L K tp = \<lparr>hStore = pgStore L calmPg K, hAtomic = pgAtomic L calmPg K tp, hEvents = pgEvents L calmPg\<rparr>"

section \<open>Adapters that conform\<close>

text \<open>The orders of the suite, and what the codec of the page tokens has to do with them.\<close>

definition fixtures :: "Order option list" where
  "fixtures = [NewOrder [WithID (SeqID 1)], NewOrder [WithID (SeqID 1), WithTenant OtherTen], NewOrder [WithID (SeqID 42)],
     map_option (\<lambda>o'. o'\<lparr>Status := StatusCancelled, UpdatedAt := RefTime + 3600 * second\<rparr>) (NewOrder [WithID (SeqID 1)]),
     NewOrder [WithID (SeqID 1), WithTenant RefTenant], NewOrder [WithID (SeqID 2), WithTenant OtherTen],
     NewOrder [WithID (SeqID 1), WithStatus StatusPending, WithCustomer ''alice''],
     NewOrder [WithID (SeqID 2), WithStatus StatusCancelled, WithCustomer ''alice''],
     NewOrder [WithID (SeqID 3), WithStatus StatusPending, WithCustomer ''bob'']]
   @ map (\<lambda>i. NewOrder [WithID (SeqID i), WithCreatedAt RefTime]) [1..5] @ map timed [1..7]"

definition codec_serves :: "codec \<Rightarrow> (string \<Rightarrow> string \<Rightarrow> string res) \<Rightarrow> bool" where
  "codec_serves K setField \<longleftrightarrow> codec_ok K \<and> uuidValidate K injectedID \<noteq> None
     \<and> (\<forall>o' \<in> set fixtures. given o' (\<lambda>x. uuidValidate K (ID x) = None \<and> (\<forall>h. \<not> isl (marshal K \<lparr>cCreatedAt = CreatedAt x, cID = ID x, FilterHash = h\<rparr>))))
     \<and> (\<forall>c b. marshal K c = Inr b \<longrightarrow> (\<exists>b'. setField b injectedID = Inr b' \<and> b' \<noteq> [] \<and> (\<forall>c'. unmarshal K b' = Inr c' \<longrightarrow> cID c' = injectedID)))"

text \<open>
  An adapter with nothing in its way: \<open>accepts\<close> are the orders it stores as they are, \<open>asks\<close> the tenants and
  customers it can be asked for, \<open>evs\<close> reads the event log. Creating, reading, updating, listing and publishing succeed when the table allows it and refuse with
  the error of the port when not, and a transaction has the outcome of its body.
\<close>

locale conforming_store = order_store +
  fixes evs :: "'a \<Rightarrow> Event list res" and accepts :: "Order \<Rightarrow> bool" and asks :: "string \<Rightarrow> bool"
  assumes accepts_ok: "accepts o' \<Longrightarrow> TenantID o' \<noteq> [] \<and> asks (TenantID o') \<and> asks (CustomerID o') \<and> id_ok (ID o') \<and> storable o' \<and> norm o' = o'"
    and create_works: "\<lbrakk>inv s; accepts o'; \<And>t. tab s (t, ID o') = None\<rbrakk> \<Longrightarrow> \<exists>s'. sCreate S o' s = (None, s')"
    and create_duplicate: "\<lbrakk>inv s; accepts o'; tab s (TenantID o', ID o') = Some x\<rbrakk> \<Longrightarrow> refusedWith ErrDuplicate (sCreate S o' s)"
    and create_tenantless: "TenantID o' = [] \<Longrightarrow> refusedWith ErrMissingTenant (sCreate S o' s)"
    and get_works: "\<lbrakk>inv s; id_ok i; tab s (t, i) = Some o'\<rbrakk> \<Longrightarrow> sGet S t i s = Inr o'"
    and get_missing: "\<lbrakk>inv s; id_ok i; t \<noteq> []; asks t; tab s (t, i) = None\<rbrakk> \<Longrightarrow> failsWith ErrNotFound (sGet S t i s)"
    and get_tenantless: "failsWith ErrMissingTenant (sGet S [] i s)"
    and update_works: "\<lbrakk>inv s; accepts o'; tab s (TenantID o', ID o') = Some x\<rbrakk> \<Longrightarrow> \<exists>s'. sUpdate S o' s = (None, s')"
    and update_missing: "\<lbrakk>inv s; accepts o'; tab s (TenantID o', ID o') = None\<rbrakk> \<Longrightarrow> refusedWith ErrNotFound (sUpdate S o' s)"
    and list_works: "\<lbrakk>inv s; t \<noteq> []; asks t; fCustomerID f = [] \<or> asks (fCustomerID f); DecodePageToken K t f = Inr cur; \<forall>a i. cur = Some (a, i) \<longrightarrow> id_ok i;
      \<forall>i o'. tab s (t, i) = Some o' \<longrightarrow> \<not> isl (EncodePageToken K t f o')\<rbrakk> \<Longrightarrow> \<exists>p. sList S t f s = Inr p"
    and list_bad_token: "\<lbrakk>t \<noteq> []; DecodePageToken K t f = Inl e\<rbrakk> \<Longrightarrow> sList S t f s = Inl e"
    and list_tenantless: "failsWith ErrMissingTenant (sList S [] f s)"
    and publish_works: "\<lbrakk>inv s; accepts o'; tab s (TenantID o', ID o') = Some o'\<rbrakk> \<Longrightarrow>
      \<exists>s'. pPublish P (eventFor o' EventOrderCreated) s = (None, s')"
    and intx_outcome: "fn S P s = (r, s') \<Longrightarrow> aInTx A fn s = (r, if isl r then s else s')"
    and events_are_log: "inv s \<Longrightarrow> evs s = Inr (log s)"

subsection \<open>The fixtures\<close>

definition refOrder :: "int \<Rightarrow> Order" where
  "refOrder i = \<lparr>ID = SeqID i, TenantID = RefTenant, CustomerID = ''customer-1'', Status = StatusPending,
     Items = [lineItem ''SKU-1'' 2 \<lparr>CurrencyCode = ''USD'', Units = 19, Nanos = 990000000\<rparr>],
     Total = \<lparr>CurrencyCode = ''USD'', Units = 39, Nanos = 980000000\<rparr>, CreatedAt = RefTime, UpdatedAt = RefTime\<rparr>"

lemma USD_price: "USD 19 990000000 = Some \<lparr>CurrencyCode = ''USD'', Units = 19, Nanos = 990000000\<rparr>"
  by code_simp

lemma ref_total: "ComputeTotal [lineItem ''SKU-1'' 2 \<lparr>CurrencyCode = ''USD'', Units = 19, Nanos = 990000000\<rparr>]
    = Inr \<lparr>CurrencyCode = ''USD'', Units = 39, Nanos = 980000000\<rparr>"
  by code_simp

lemma NewOrder_ref:
  "NewOrder [WithID (SeqID i)] = Some (refOrder i)"
  "NewOrder [WithID (SeqID i), WithTenant t] = Some ((refOrder i)\<lparr>TenantID := t\<rparr>)"
  "NewOrder [WithID (SeqID i), WithCreatedAt a] = Some ((refOrder i)\<lparr>CreatedAt := a, UpdatedAt := a\<rparr>)"
  "NewOrder [WithID (SeqID i), WithStatus st, WithCustomer c] = Some ((refOrder i)\<lparr>Status := st, CustomerID := c\<rparr>)"
  unfolding NewOrder_def USD_price option.case Let_def foldl.simps WithID_def WithTenant_def WithCreatedAt_def WithStatus_def
    WithCustomer_def Order.simps ref_total sum.case refOrder_def
  by (rule refl)+

definition timedOrder :: "int \<Rightarrow> Order" where
  "timedOrder i = (refOrder i)\<lparr>CreatedAt := RefTime + i * second, UpdatedAt := RefTime + i * second\<rparr>"

lemma timed_ref: "timed i = Some (timedOrder i)"
  by (simp add: timed_def timedOrder_def NewOrder_ref)

lemma refOrder_fields [simp]: "ID (refOrder i) = SeqID i" "TenantID (refOrder i) = RefTenant" "ID (timedOrder i) = SeqID i"
    "TenantID (timedOrder i) = RefTenant" "Status (refOrder i) = StatusPending" "CustomerID (refOrder i) = ''customer-1''"
    "CreatedAt (refOrder i) = RefTime" "UpdatedAt (refOrder i) = RefTime" "Status (timedOrder i) = StatusPending"
  by (simp_all add: refOrder_def timedOrder_def)

lemma ref_tenants [simp]: "RefTenant \<noteq> []" "OtherTen \<noteq> []" "RefTenant \<noteq> OtherTen" "OtherTen \<noteq> RefTenant"
  by (simp_all add: RefTenant_def OtherTen_def)

lemma SeqID_distinct: "distinct (map SeqID [1..7])"
  by code_simp

lemma SeqID_small: "SeqID i = SeqID j \<longleftrightarrow> i = j" if "i \<in> {1..7}" "j \<in> {1..7}"
  using SeqID_distinct that by (auto simp: distinct_map inj_on_def)

lemma timed_card: "n \<le> 7 \<Longrightarrow> card (timedOrder ` {1..n}) = nat n"
proof -
  assume "n \<le> 7"
  then have "inj_on timedOrder {1..n}" using SeqID_small by (auto simp: inj_on_def dest!: arg_cong [of _ _ ID])
  then show ?thesis by (simp add: card_image)
qed

definition fixtureOrders :: "Order list" where
  "fixtureOrders = [refOrder 1, (refOrder 1)\<lparr>TenantID := OtherTen\<rparr>, refOrder 42,
     (refOrder 1)\<lparr>Status := StatusCancelled, UpdatedAt := RefTime + 3600 * second\<rparr>,
     (refOrder 1)\<lparr>TenantID := RefTenant\<rparr>, (refOrder 2)\<lparr>TenantID := OtherTen\<rparr>,
     (refOrder 1)\<lparr>Status := StatusPending, CustomerID := ''alice''\<rparr>,
     (refOrder 2)\<lparr>Status := StatusCancelled, CustomerID := ''alice''\<rparr>,
     (refOrder 3)\<lparr>Status := StatusPending, CustomerID := ''bob''\<rparr>]
   @ map (\<lambda>i. (refOrder i)\<lparr>CreatedAt := RefTime, UpdatedAt := RefTime\<rparr>) [1..5] @ map timedOrder [1..7]"

lemma fixtures_some: "fixtures = map Some fixtureOrders"
  by (simp add: fixtures_def fixtureOrders_def NewOrder_ref timed_ref comp_def)

subsection \<open>Pages\<close>

lemma page_of_all:
  assumes "page_of K t f M p" "finite M" "int (card M) < ClampPageSize (PageSize f)"
  shows "set (Orders p) = M" "NextPageToken p = []" "distinct (map sortKey (Orders p))"
proof -
  have p: "sorted_wrt (<) (map sortKey (Orders p))" "set (Orders p) \<subseteq> M" using assms(1) by (simp_all add: page_of_def)
  then show d: "distinct (map sortKey (Orders p))" by (simp add: strict_sorted_iff)
  then have "distinct (Orders p)" by (simp add: distinct_map)
  then have "length (Orders p) \<le> card M" using card_mono [OF assms(2) p(2)] by (simp add: distinct_card)
  then show "set (Orders p) = M" "NextPageToken p = []" using assms(1,3) by (auto simp: page_of_def split: if_splits)
qed

lemma page_of_single: "page_of K t f {x} p \<Longrightarrow> 1 < ClampPageSize (PageSize f) \<Longrightarrow> Orders p = [x]"
  using page_of_all [of K t f "{x}" p] by (cases "Orders p" rule: remdups_adj.cases) auto

lemma count_once: "distinct xs \<Longrightarrow> x \<in> set xs \<Longrightarrow> count_list xs x = 1"
  by (induction xs) (auto simp: count_list_0_iff)

subsection \<open>Tokens\<close>

lemma serves_encode:
  assumes "codec_serves K setField" "x \<in> set fixtureOrders"
  shows "uuidValidate K (ID x) = None" "\<not> isl (EncodePageToken K t f x)"
proof -
  have x: "uuidValidate K (ID x) = None \<and> (\<forall>h. \<not> isl (marshal K \<lparr>cCreatedAt = CreatedAt x, cID = ID x, FilterHash = h\<rparr>))"
    using assms unfolding codec_serves_def fixtures_some by (simp add: given_def)
  then show "uuidValidate K (ID x) = None" by simp
  have "\<not> isl (marshal K \<lparr>cCreatedAt = CreatedAt x, cID = ID x, FilterHash = filterHash t f\<rparr>)" using x by blast
  then show "\<not> isl (EncodePageToken K t f x)" by (auto simp: EncodePageToken_def encodeCursor_def isl_def split: sum.splits)
qed

lemma malformed_token: "DecodeString ''!!!not-base64!!!'' = None"
  by code_simp

lemma other_filter_hash:
  "filterHash RefTenant (anyFilter\<lparr>PageSize := 1\<rparr>) \<noteq> filterHash RefTenant (anyFilter\<lparr>PageSize := 1, PageToken := token, fStatus := StatusCancelled\<rparr>)"
proof -
  have "filterHash RefTenant anyFilter \<noteq> filterHash RefTenant (anyFilter\<lparr>fStatus := StatusCancelled\<rparr>)" by code_simp
  then show ?thesis by (simp add: filterHash_def)
qed

lemma invalid_token_refused: "errorsIs (Errorf m [Sentinel ErrInvalidPageToken]) ErrInvalidPageToken"
  by simp

lemma tampered_token:
  assumes "codec_serves K setField" "x \<in> set fixtureOrders" "EncodePageToken K t f x = Inr token"
  shows "\<exists>tampered. tamperCursorID setField token injectedID = Some tampered
    \<and> (\<exists>e. DecodePageToken K t (f\<lparr>PageToken := tampered\<rparr>) = Inl e \<and> errorsIs e ErrInvalidPageToken)"
proof -
  obtain c b where b: "marshal K c = Inr b" "token = EncodeToString b"
    using assms(3) by (auto simp: EncodePageToken_def encodeCursor_def split: sum.splits)
  obtain b' where b': "setField b injectedID = Inr b'" "b' \<noteq> []" "\<And>c'. unmarshal K b' = Inr c' \<Longrightarrow> cID c' = injectedID"
    using assms(1) b(1) unfolding codec_serves_def by meson
  have u: "uuidValidate K injectedID \<noteq> None" using assms(1) by (simp add: codec_serves_def)
  have "\<exists>e. decodeCursor K (EncodeToString b') h = Inl e \<and> errorsIs e ErrInvalidPageToken" for h
    using b'(3) u by (cases "unmarshal K b'") (auto simp: decodeCursor_def base64_roundtrip)
  then obtain e where "decodeCursor K (EncodeToString b') (filterHash t (f\<lparr>PageToken := EncodeToString b'\<rparr>)) = Inl e" "errorsIs e ErrInvalidPageToken" by blast
  then show ?thesis
    using b b'(1,2) by (auto simp: tamperCursorID_def base64_roundtrip DecodePageToken_def EncodeToString_nonempty)
qed

subsection \<open>Running the suite\<close>

context conforming_store
begin

text \<open>A state that holds exactly the orders of a set, and no event.\<close>

definition holding :: "Order set \<Rightarrow> 'a \<Rightarrow> bool" where
  "holding R s \<longleftrightarrow> inv s \<and> log s = [] \<and> (\<forall>t i x. tab s (t, i) = Some x \<longleftrightarrow> x \<in> R \<and> TenantID x = t \<and> ID x = i)"

lemma holding_create:
  assumes "holding R s" "accepts o'" "ID o' \<notin> ID ` R"
  shows "\<exists>s'. sCreate S o' s = (None, s') \<and> holding (insert o' R) s'"
proof -
  have none: "tab s (t, ID o') = None" for t
    using assms(1,3) unfolding holding_def by (metis imageI not_None_eq)
  have new: "\<forall>x \<in> R. ID x \<noteq> ID o'" using assms(3) by (metis imageI)
  have inv: "inv s" using assms(1) by (simp add: holding_def)
  obtain s' where c: "sCreate S o' s = (None, s')" using create_works [OF inv assms(2) none] by blast
  have a: "id_ok (ID o')" "storable o'" "norm o' = o'" using accepts_ok [OF assms(2)] by simp_all
  have k: "tab s' = (tab s)((TenantID o', ID o') \<mapsto> o')" "log s' = log s" "inv s'"
    using create_ok [OF inv a(1,2) c] a(3) by simp_all
  have "holding (insert o' R) s'"
    using assms(1) k new unfolding holding_def by (auto split: if_splits)
  with c show ?thesis by blast
qed

lemma holding_creates:
  assumes "holding R s" "\<forall>o' \<in> set os. accepts o'" "distinct (map ID os)" "ID ` set os \<inter> ID ` R = {}" "hStore h = S"
  shows "\<exists>s'. mustCreateAll h (map Some os) s = Some s' \<and> holding (R \<union> set os) s'"
  using assms(1-4)
proof (induction os arbitrary: R s)
  case (Cons o' os)
  obtain s1 where s1: "sCreate S o' s = (None, s1)" "holding (insert o' R) s1"
    using holding_create [OF Cons.prems(1), of o'] Cons.prems(2,4) by auto
  have "ID ` set os \<inter> ID ` insert o' R = {}" using Cons.prems(3,4) by auto
  then obtain s2 where "mustCreateAll h (map Some os) s1 = Some s2" "holding (insert o' R \<union> set os) s2"
    using Cons.IH [OF s1(2)] Cons.prems(2,3) by auto
  then show ?case using s1(1) assms(5) by (auto simp: mustCreate_def)
qed simp

lemma holding_get: "holding R s \<Longrightarrow> x \<in> R \<Longrightarrow> id_ok (ID x) \<Longrightarrow> sGet S (TenantID x) (ID x) s = Inr x"
  by (rule get_works) (auto simp: holding_def)

lemma holding_get_other:
  assumes "holding R s" "id_ok i" "t \<noteq> []" "asks t" "\<And>x. x \<in> R \<Longrightarrow> ID x = i \<Longrightarrow> TenantID x \<noteq> t"
  shows "failsWith ErrNotFound (sGet S t i s)"
proof (rule get_missing)
  show "tab s (t, i) = None" using assms(1,5) by (cases "tab s (t, i)") (auto simp: holding_def)
qed (use assms in \<open>simp_all add: holding_def\<close>)

lemma holding_selected: "holding R s \<Longrightarrow> selected (tab s) t f cur = {x \<in> R. TenantID x = t \<and> matches f x \<and> past cur x}"
  by (auto simp: selected_def holding_def)

lemma holding_list:
  assumes "holding R s" "t \<noteq> []" "asks t" "fCustomerID f = [] \<or> asks (fCustomerID f)" "DecodePageToken K t f = Inr cur"
    and "\<forall>a i. cur = Some (a, i) \<longrightarrow> id_ok i" and "\<And>x. x \<in> R \<Longrightarrow> \<not> isl (EncodePageToken K t f x)"
  shows "\<exists>p. sList S t f s = Inr p \<and> page_of K t f {x \<in> R. TenantID x = t \<and> matches f x \<and> past (map_option cnorm cur) x} p"
proof -
  have inv: "inv s" using assms(1) by (simp add: holding_def)
  have "\<forall>i x. tab s (t, i) = Some x \<longrightarrow> \<not> isl (EncodePageToken K t f x)" using assms(1,7) by (simp add: holding_def)
  then obtain p where p: "sList S t f s = Inr p" using list_works [OF inv assms(2-6)] by blast
  then show ?thesis using list_page [OF inv p] assms(5) unfolding holding_selected [OF assms(1)] by auto
qed

lemma holding_list_start:
  assumes "holding R s" "t \<noteq> []" "asks t" "fCustomerID f = [] \<or> asks (fCustomerID f)" "PageToken f = []"
    and "\<And>x. x \<in> R \<Longrightarrow> \<not> isl (EncodePageToken K t f x)"
  shows "\<exists>p. sList S t f s = Inr p \<and> page_of K t f {x \<in> R. TenantID x = t \<and> matches f x} p"
  using holding_list [OF assms(1-4), of None] assms(5,6) by (simp add: DecodePageToken_def past_def)

lemma holding_walk:
  assumes "holding R s" "t \<noteq> []" "asks t" "codec_ok K" "\<And>x. x \<in> R \<Longrightarrow> uuidValidate K (ID x) = None \<and> id_ok (ID x)"
    and "\<And>x f. x \<in> R \<Longrightarrow> \<not> isl (EncodePageToken K t f x)"
    and "fCustomerID f = [] \<or> asks (fCustomerID f)" "DecodePageToken K t f = Inr cur" "\<forall>a i. cur = Some (a, i) \<longrightarrow> id_ok i"
  shows "\<exists>os fin. walk S t f (replicate n s) = Inr (os, fin)"
  using assms(7-9)
proof (induction n arbitrary: f cur)
  case (Suc n)
  obtain p where p: "sList S t f s = Inr p"
      and page: "page_of K t f {x \<in> R. TenantID x = t \<and> matches f x \<and> past (map_option cnorm cur) x} p"
    using holding_list [OF assms(1-3) Suc.prems assms(6)] by blast
  show ?case
  proof (cases "NextPageToken p = []")
    case True
    then show ?thesis using p by auto
  next
    case False
    note more = page_of_more [OF page False assms(4)]
    have m: "last (Orders p) \<in> R" "DecodePageToken K t (f\<lparr>PageToken := NextPageToken p\<rparr>) = Inr (Some (sortKey (last (Orders p))))"
      using more(2,3) assms(5) by auto
    have "\<forall>a i. Some (sortKey (last (Orders p))) = Some (a, i) \<longrightarrow> id_ok i" using m(1) assms(5) by (auto simp: sortKey_def)
    from Suc.IH [OF _ m(2) this] Suc.prems(1) show ?thesis using p False by auto
  qed
qed auto

text \<open>The subtests, for an adapter that accepts the fixtures.\<close>

lemma subtests_simple:
  assumes fresh: "holding {} s" and acc: "\<forall>o' \<in> set fixtureOrders. accepts o'" and h: "hStore h = S"
  shows "roundTrips h s" "duplicateRefused h s" "otherTenantMissing h s" "tenantRequired h s" "updatePersists h s" "updateUnknown h s"
proof -
  have acc': "accepts (refOrder 1)" "accepts ((refOrder 1)\<lparr>TenantID := OtherTen\<rparr>)" "accepts (refOrder 42)"
      "accepts ((refOrder 1)\<lparr>Status := StatusCancelled, UpdatedAt := RefTime + 3600 * second\<rparr>)"
    using acc by (simp_all add: fixtureOrders_def)
  have ok: "id_ok (SeqID 1)" and ask: "asks RefTenant" using accepts_ok [OF acc'(1)] by simp_all
  obtain s1 where s1: "sCreate S (refOrder 1) s = (None, s1)" "holding {refOrder 1} s1"
    using holding_create [OF fresh acc'(1)] by auto
  have get1: "sGet S RefTenant (SeqID 1) s1 = Inr (refOrder 1)" using holding_get [OF s1(2), of "refOrder 1"] ok by simp
  then show "roundTrips h s" using s1(1) h by (simp add: roundTrips_def NewOrder_ref given_def mustCreate_def sameOrder_def)
  have inv1: "inv s1" and tab1: "tab s1 (RefTenant, SeqID 1) = Some (refOrder 1)" using s1(2) by (simp_all add: holding_def)
  show "duplicateRefused h s"
    using create_duplicate [OF inv1 acc'(1)] tab1 s1(1) h by (simp add: duplicateRefused_def NewOrder_ref given_def mustCreate_def)
  obtain s2 where s2: "sCreate S ((refOrder 1)\<lparr>TenantID := OtherTen\<rparr>) s = (None, s2)" "holding {(refOrder 1)\<lparr>TenantID := OtherTen\<rparr>} s2"
    using holding_create [OF fresh acc'(2)] by auto
  have "failsWith ErrNotFound (sGet S RefTenant (SeqID 1) s2)" using holding_get_other [OF s2(2) ok _ ask] by simp
  then show "otherTenantMissing h s" using s2(1) h by (simp add: otherTenantMissing_def NewOrder_ref given_def mustCreate_def)
  show "tenantRequired h s"
    using create_tenantless get_tenantless list_tenantless h by (simp add: tenantRequired_def NewOrder_ref given_def)
  let ?u = "(refOrder 1)\<lparr>Status := StatusCancelled, UpdatedAt := RefTime + 3600 * second\<rparr>"
  obtain s3 where s3: "sUpdate S ?u s1 = (None, s3)" using update_works [OF inv1 acc'(4)] tab1 by fastforce
  have a: "id_ok (ID ?u)" "storable ?u" "norm ?u = ?u" using accepts_ok [OF acc'(4)] by simp_all
  have "inv s3 \<and> tab s3 = (tab s1)((TenantID ?u, ID ?u) \<mapsto> norm ?u)" using update_ok [OF inv1 a(1,2) s3] tab1 by simp
  then have "sGet S RefTenant (SeqID 1) s3 = Inr ?u" using get_works [of s3 "SeqID 1" RefTenant ?u] ok a(3) by simp
  then show "updatePersists h s" using s1(1) s3 h by (simp add: updatePersists_def NewOrder_ref given_def mustCreate_def)
  have "inv s" "tab s (RefTenant, SeqID 42) = None" using fresh by (auto simp: holding_def)
  then show "updateUnknown h s" using update_missing [OF _ acc'(3)] h by (simp add: updateUnknown_def NewOrder_ref given_def)
qed

lemma subtests_transactions:
  assumes fresh: "holding {} s" and acc: "accepts (refOrder 1)"
    and h: "h = \<lparr>hStore = S, hAtomic = A, hEvents = evs\<rparr>"
  shows "rollbackLeavesNothing h s" "commitWritesBoth h s"
proof -
  let ?o = "refOrder 1"
  have ok: "id_ok (SeqID 1)" "norm ?o = ?o" and ask: "asks RefTenant" using accepts_ok [OF acc] by simp_all
  obtain s1 where s1: "sCreate S ?o s = (None, s1)" "holding {?o} s1" using holding_create [OF fresh acc] by auto
  have i1: "inv s1" "tab s1 (RefTenant, SeqID 1) = Some ?o" using s1(2) by (simp_all add: holding_def)
  obtain s2 where s2: "pPublish P (eventFor ?o EventOrderCreated) s1 = (None, s2)" using publish_works [OF i1(1) acc] i1(2) by auto
  have p: "tab s2 = tab s1 \<and> log s2 = log s1 @ [enorm (eventFor ?o EventOrderCreated)] \<and> inv s2"
    by (rule publish_ok [OF i1(1) _ s2]) (simp add: eventFor_def i1(2) ok(2))
  have r: "rollbackBody ?o S P s = (Inl boom, s2)" "commitBody ?o S P s = (Inr ?o, s2)"
    using s1(1) s2 by (simp_all add: rollbackBody_def commitBody_def)
  have "failsWith ErrNotFound (sGet S RefTenant (SeqID 1) s)" by (rule holding_get_other [OF fresh ok(1) _ ask]) simp_all
  moreover have "evs s = Inr []" using fresh events_are_log [of s] by (simp add: holding_def)
  ultimately show "rollbackLeavesNothing h s"
    using intx_outcome [where fn = "rollbackBody ?o", OF r(1)] by (simp add: rollbackLeavesNothing_def NewOrder_ref given_def h boom_def)
  have "sGet S RefTenant (SeqID 1) s2 = Inr ?o" by (rule get_works) (use p i1 ok in simp_all)
  moreover have "evs s2 = Inr [enorm (eventFor ?o EventOrderCreated)]" using p s1(2) events_are_log [of s2] by (simp add: holding_def)
  ultimately show "commitWritesBoth h s"
    using intx_outcome [where fn = "commitBody ?o", OF r(2)] enorm_same by (simp add: commitWritesBoth_def NewOrder_ref given_def h eventFor_def)
qed

lemma fixture_page:
  assumes "holding R s" "R \<subseteq> set fixtureOrders" "codec_serves K setField" "PageToken f = []"
    and "asks RefTenant" "fCustomerID f = [] \<or> asks (fCustomerID f)"
  shows "\<exists>p. sList S RefTenant f s = Inr p \<and> page_of K RefTenant f {x \<in> R. TenantID x = RefTenant \<and> matches f x} p"
proof (rule holding_list_start [OF assms(1) ref_tenants(1) assms(5,6,4)])
  show "\<not> isl (EncodePageToken K RefTenant f x)" if "x \<in> R" for x
    by (rule serves_encode(2) [OF assms(3)]) (use that assms(2) in blast)
qed

lemma holding_ids:
  assumes "holding R s" "R \<subseteq> set fixtureOrders" "codec_serves K setField" "hStore h = S" "PageToken f = []" "PageSize f = 0"
    and "{x \<in> R. TenantID x = RefTenant \<and> matches f x} = {y}" "asks RefTenant" "fCustomerID f = [] \<or> asks (fCustomerID f)"
  shows "listIDs h f s = Some [ID y]"
proof -
  obtain p where p: "sList S RefTenant f s = Inr p" "page_of K RefTenant f {y} p"
    using fixture_page [OF assms(1,2,3,5,8,9)] assms(7) by auto
  have "1 < ClampPageSize (PageSize f)" using assms(6) by (simp add: ClampPageSize_def DefaultPageSize_def)
  then have "Orders p = [y]" by (rule page_of_single [OF p(2)])
  then show ?thesis using p(1) assms(4) by (simp add: listIDs_def)
qed

lemma subtests_lists:
  assumes fresh: "holding {} s" and acc: "\<forall>o' \<in> set fixtureOrders. accepts o'" and cs: "codec_serves K setField" and h: "hStore h = S"
  shows "listsOwnTenant h s" "stableOrder h s" "filters h s"
proof -
  have ask: "asks RefTenant" and bob: "asks ''bob''"
    using acc accepts_ok [of "refOrder 1"] accepts_ok [of "(refOrder 3)\<lparr>Status := StatusPending, CustomerID := ''bob''\<rparr>"]
    by (simp_all add: fixtureOrders_def)
  let ?a = "(refOrder 1)\<lparr>TenantID := RefTenant\<rparr>" and ?b = "(refOrder 2)\<lparr>TenantID := OtherTen\<rparr>"
  have "\<exists>s'. mustCreateAll h (map Some [?a, ?b]) s = Some s' \<and> holding ({} \<union> set [?a, ?b]) s'"
    by (rule holding_creates [OF fresh _ _ _ h]) (use acc SeqID_small [of 1 2] in \<open>simp_all add: fixtureOrders_def\<close>)
  then obtain s1 where s1: "mustCreateAll h (map Some [?a, ?b]) s = Some s1" "holding {?a, ?b} s1" by auto
  have "listIDs h anyFilter s1 = Some [ID ?a]"
    by (rule holding_ids [OF s1(2) _ cs h]) (auto simp: fixtureOrders_def anyFilter_def matches_def ask bob)
  then show "listsOwnTenant h s" using s1(1) by (simp add: listsOwnTenant_def NewOrder_ref given_def)
  let ?c = "(refOrder 1)\<lparr>Status := StatusPending, CustomerID := ''alice''\<rparr>" and ?d = "(refOrder 2)\<lparr>Status := StatusCancelled, CustomerID := ''alice''\<rparr>"
    and ?e = "(refOrder 3)\<lparr>Status := StatusPending, CustomerID := ''bob''\<rparr>"
  have "\<exists>s'. mustCreateAll h (map Some [?c, ?d, ?e]) s = Some s' \<and> holding ({} \<union> set [?c, ?d, ?e]) s'"
    by (rule holding_creates [OF fresh _ _ _ h])
      (use acc SeqID_small [of 1 2] SeqID_small [of 1 3] SeqID_small [of 2 3] in \<open>simp_all add: fixtureOrders_def\<close>)
  then obtain s2 where s2: "mustCreateAll h (map Some [?c, ?d, ?e]) s = Some s2" "holding {?c, ?d, ?e} s2" by auto
  have "listIDs h (anyFilter\<lparr>fStatus := StatusCancelled\<rparr>) s2 = Some [ID ?d]"
    by (rule holding_ids [OF s2(2) _ cs h]) (auto simp: fixtureOrders_def anyFilter_def matches_def ask bob)
  moreover have "listIDs h (anyFilter\<lparr>fCustomerID := ''bob''\<rparr>) s2 = Some [ID ?e]"
    by (rule holding_ids [OF s2(2) _ cs h]) (auto simp: fixtureOrders_def anyFilter_def matches_def ask bob)
  ultimately show "filters h s" using s2(1) by (simp add: filters_def NewOrder_ref given_def)
  let ?os = "map (\<lambda>i. (refOrder i)\<lparr>CreatedAt := RefTime, UpdatedAt := RefTime\<rparr>) [1..5]"
  have ids: "map ID ?os = map SeqID [1..5]" by simp
  have "distinct (map ID ?os)" unfolding ids using SeqID_distinct by (auto simp: distinct_map inj_on_def)
  then have "\<exists>s'. mustCreateAll h (map Some ?os) s = Some s' \<and> holding ({} \<union> set ?os) s'"
    by (intro holding_creates [OF fresh _ _ _ h]) (use acc in \<open>auto simp: fixtureOrders_def\<close>)
  then obtain s3 where s3: "mustCreateAll h (map Some ?os) s = Some s3" "holding (set ?os) s3" by auto
  have "set ?os \<subseteq> set fixtureOrders" unfolding fixtureOrders_def set_append by blast
  then obtain p where "sList S RefTenant anyFilter s3 = Inr p"
    using fixture_page [OF s3(2) _ cs, of anyFilter] ask by (auto simp: anyFilter_def)
  then show "stableOrder h s" using s3(1) h by (simp add: stableOrder_def NewOrder_ref given_def listIDs_def comp_def)
qed

lemma timed_states:
  assumes fresh: "holding {} s" and acc: "\<forall>o' \<in> set fixtureOrders. accepts o'" and h: "hStore h = S" and n: "n \<le> 7"
  shows "\<exists>s'. mustCreateAll h (map timed [1..n]) s = Some s' \<and> holding (timedOrder ` {1..n}) s'"
    and "timedOrder ` {1..n} \<subseteq> set fixtureOrders" and "inj_on ID (timedOrder ` {1..n})"
proof -
  show sub: "timedOrder ` {1..n} \<subseteq> set fixtureOrders" using n unfolding fixtureOrders_def set_append set_map set_upto by auto
  have inj: "inj_on SeqID {1..n}" using SeqID_small n by (auto simp: inj_on_def)
  then show "inj_on ID (timedOrder ` {1..n})" by (auto simp: inj_on_def)
  have m: "map timed [1..n] = map Some (map timedOrder [1..n])" by (simp add: timed_ref comp_def)
  have "distinct (map ID (map timedOrder [1..n]))" using inj by (simp add: distinct_map comp_def)
  moreover have "\<forall>o' \<in> set (map timedOrder [1..n]). accepts o'" using acc sub by auto
  ultimately show "\<exists>s'. mustCreateAll h (map timed [1..n]) s = Some s' \<and> holding (timedOrder ` {1..n}) s'"
    unfolding m using holding_creates [OF fresh _ _ _ h, of "map timedOrder [1..n]"] by simp
qed

lemma first_token:
  assumes fresh: "holding {} s" and acc: "\<forall>o' \<in> set fixtureOrders. accepts o'" and cs: "codec_serves K setField" and h: "hStore h = S"
    and k: "\<And>x token s1. x \<in> set fixtureOrders \<Longrightarrow> EncodePageToken K RefTenant (anyFilter\<lparr>PageSize := 1\<rparr>) x = Inr token \<Longrightarrow> k token s1"
  shows "withToken h s k"
proof -
  let ?f = "anyFilter\<lparr>PageSize := 1\<rparr>"
  obtain s1 where s1: "mustCreateAll h (map timed [1..3]) s = Some s1" "holding (timedOrder ` {1..3}) s1"
    using timed_states(1) [OF fresh acc h, of 3] by auto
  have sub: "timedOrder ` {1..3} \<subseteq> set fixtureOrders" by (rule timed_states(2) [OF fresh acc h]) simp
  have M: "{x \<in> timedOrder ` {1..3}. TenantID x = RefTenant \<and> matches ?f x} = timedOrder ` {1..3}"
    by (auto simp: matches_def anyFilter_def)
  obtain p where p: "sList S RefTenant ?f s1 = Inr p" "page_of K RefTenant ?f (timedOrder ` {1..3}) p"
    using fixture_page [OF s1(2) sub cs, of ?f] acc accepts_ok [of "refOrder 1"] unfolding M by (auto simp: anyFilter_def fixtureOrders_def)
  have "card (timedOrder ` {1..3}) = 3" using timed_card [of 3] by simp
  moreover have "card (set (Orders p)) \<le> 1"
    using p(2) card_length [of "Orders p"] by (simp add: page_of_def ClampPageSize_def anyFilter_def MaxPageSize_def)
  ultimately have ne: "timedOrder ` {1..3} \<noteq> set (Orders p)" by auto
  then have tok: "EncodePageToken K RefTenant ?f (last (Orders p)) = Inr (NextPageToken p)" and len: "length (Orders p) = 1"
    using p(2) by (auto simp: page_of_def ClampPageSize_def anyFilter_def MaxPageSize_def)
  then have "last (Orders p) \<in> set fixtureOrders" using p(2) sub last_in_set [of "Orders p"] unfolding page_of_def by fastforce
  then show ?thesis
    using k [OF _ tok] EncodePageToken_decodes [OF _ serves_encode(1) [OF cs] tok] cs s1(1) p(1) h
    by (auto simp: withToken_def given_def codec_serves_def)
qed

lemma subtests_tokens:
  assumes "holding {} s" "\<forall>o' \<in> set fixtureOrders. accepts o'" and cs: "codec_serves K setField" and h: "hStore h = S"
  shows "otherFilterRefused h s" "malformedRefused h s" "tamperedRefused setField h s"
proof -
  have bad: "failsWith ErrInvalidPageToken (sList S RefTenant f s1)" if "DecodePageToken K RefTenant f = Inl e" "errorsIs e ErrInvalidPageToken" for f e s1
    using list_bad_token [OF ref_tenants(1) that(1)] that(2) by (simp add: failsWith_def)
  have ok: "codec_ok K" using cs by (simp add: codec_serves_def)
  show "malformedRefused h s"
    unfolding malformedRefused_def h
    by (rule bad, simp add: DecodePageToken_def decodeCursor_def malformed_token) (rule invalid_token_refused)
  show "otherFilterRefused h s" unfolding otherFilterRefused_def h
  proof (rule first_token [OF assms])
    fix x token s1
    assume x: "x \<in> set fixtureOrders" "EncodePageToken K RefTenant (anyFilter\<lparr>PageSize := 1\<rparr>) x = Inr token"
    note d = EncodePageToken_decodes [OF ok serves_encode(1) [OF cs x(1)] x(2)]
    show "failsWith ErrInvalidPageToken (sList S RefTenant (anyFilter\<lparr>PageSize := 1, PageToken := token, fStatus := StatusCancelled\<rparr>) s1)"
      by (rule bad, use d other_filter_hash [of token] in \<open>simp add: DecodePageToken_def\<close>) (rule invalid_token_refused)
  qed
  show "tamperedRefused setField h s" unfolding tamperedRefused_def h
  proof (rule first_token [OF assms])
    fix x token s1
    assume x: "x \<in> set fixtureOrders" "EncodePageToken K RefTenant (anyFilter\<lparr>PageSize := 1\<rparr>) x = Inr token"
    show "given (tamperCursorID setField token injectedID) (\<lambda>tampered.
        failsWith ErrInvalidPageToken (sList S RefTenant (anyFilter\<lparr>PageSize := 1, PageToken := tampered\<rparr>) s1))"
      using tampered_token [OF cs x] bad by (auto simp: given_def)
  qed
qed

lemma subtest_paging:
  assumes fresh: "holding {} s" and acc: "\<forall>o' \<in> set fixtureOrders. accepts o'" and cs: "codec_serves K setField" and h: "hStore h = S"
  shows "pagesOnce h s"
proof -
  let ?R = "timedOrder ` {1..7}" and ?f = "anyFilter\<lparr>PageSize := 3\<rparr>"
  obtain s1 where s1: "mustCreateAll h (map timed [1..7]) s = Some s1" "holding ?R s1"
    using timed_states(1) [OF fresh acc h, of 7] by auto
  have sub: "?R \<subseteq> set fixtureOrders" and inj: "inj_on ID ?R" using timed_states(2,3) [OF fresh acc h, of 7] by simp_all
  have ok: "codec_ok K" using cs by (simp add: codec_serves_def)
  have R: "uuidValidate K (ID x) = None \<and> id_ok (ID x)" "\<not> isl (EncodePageToken K RefTenant f x)" if "x \<in> ?R" for x f
  proof -
    have x: "x \<in> set fixtureOrders" using that sub by blast
    then have "accepts x" using acc by blast
    then show "uuidValidate K (ID x) = None \<and> id_ok (ID x)" "\<not> isl (EncodePageToken K RefTenant f x)"
      using serves_encode [OF cs x] accepts_ok by simp_all
  qed
  have ask: "asks RefTenant" using acc accepts_ok [of "refOrder 1"] by (simp add: fixtureOrders_def)
  have dec: "DecodePageToken K RefTenant ?f = Inr None" by (simp add: DecodePageToken_def anyFilter_def)
  have sel: "selected (tab s1) RefTenant ?f None = ?R"
    unfolding holding_selected [OF s1(2)] by (auto simp: matches_def anyFilter_def past_def)
  obtain os fin where w: "walk S RefTenant ?f (replicate 10 s1) = Inr (os, fin)"
    using holding_walk [OF s1(2) ref_tenants(1) ask ok R _ dec, of 10] by (force simp: anyFilter_def)
  have inv: "inv s1" using s1(2) by (simp add: holding_def)
  have tab: "uuidValidate K i = None" if "tab s1 (RefTenant, i) = Some x" for i x using that R s1(2) by (auto simp: holding_def)
  have card: "card ?R = 7" using timed_card [of 7] by simp
  have fin: "fin" by (rule walk_ends [OF w dec refl ok inv tab]) (simp_all add: sel card)
  have tabs: "\<forall>t \<in> set (replicate 10 s1). inv t" "\<forall>t \<in> set (replicate 10 s1). \<forall>i x. tab t (RefTenant, i) = Some x \<longrightarrow> uuidValidate K i = None"
    using inv tab by auto
  note wc = walk_correct [OF w dec refl ok tabs, unfolded option.map]
  have c: "sorted_wrt (<) (map sortKey os)" by (rule conjunct1 [OF wc])
  have all: "k \<in> sortKey ` set os" if "k \<in> sortKey ` ?R" for k
  proof -
    have "\<forall>t \<in> set (replicate 10 s1). k \<in> sortKey ` selected (tab t) RefTenant ?f None" using that sel by (simp del: split_paired_All)
    then show ?thesis using wc fin by blast
  qed
  have sound: "set os \<subseteq> ?R" using walk_sound [OF w dec refl ok tabs] sel by auto
  have "?R \<subseteq> set os"
  proof
    fix x assume x: "x \<in> ?R"
    then obtain y where "y \<in> set os" "sortKey y = sortKey x" using all [of "sortKey x"] by (metis imageE imageI)
    then show "x \<in> set os" using inj_onD [OF inj, of y x] sound x by (auto simp: sortKey_def)
  qed
  with sound have os: "set os = ?R" by blast
  have "distinct (map sortKey os)" using c by (simp only: strict_sorted_iff)
  then have do: "distinct os" by (simp add: distinct_map)
  then have d: "distinct (map ID os)" using inj os by (simp add: distinct_map)
  have "length os = 7" using distinct_card [OF do] card unfolding os by simp
  then have "length (remdups (map ID os)) = 7" using d by (simp add: distinct_remdups_id)
  moreover have "list_all (\<lambda>i. count_list (map ID os) i = 1) (map ID os)" using count_once [OF d] by (simp add: list_all_iff)
  ultimately show ?thesis using s1(1) w fin h by (simp add: pagesOnce_def given_def)
qed

text \<open>All of it.\<close>

lemma suite_passes:
  assumes "inv s" "tab s = Map.empty" "log s = []" "\<forall>o' \<in> set fixtures. given o' accepts" "codec_serves K setField" "id_ok (SeqID 99)"
  shows "RunStoreContract setField \<lparr>hStore = S, hAtomic = A, hEvents = evs\<rparr> s = []"
proof -
  let ?h = "\<lparr>hStore = S, hAtomic = A, hEvents = evs\<rparr>"
  have fresh: "holding {} s" using assms(1-3) by (simp add: holding_def)
  have acc: "\<forall>o' \<in> set fixtureOrders. accepts o'" using assms(4) unfolding fixtures_some by (simp add: given_def)
  have h: "hStore ?h = S" by simp
  have "accepts (refOrder 1)" using acc by (simp add: fixtureOrders_def)
  note tests = subtests_simple [OF fresh acc h] subtests_transactions [OF fresh this refl] subtests_lists [OF fresh acc assms(5) h]
    subtests_tokens [OF fresh acc assms(5) h] subtest_paging [OF fresh acc assms(5) h]
  have "failsWith ErrNotFound (sGet S RefTenant (SeqID 99) s)" 
    by (rule holding_get_other [OF fresh assms(6)]) (use accepts_ok [OF \<open>accepts (refOrder 1)\<close>] in simp_all)
  then have "unknownNotFound ?h s" by (simp add: unknownNotFound_def)
  with tests show ?thesis unfolding RunStoreContract_def by (simp only: filter.simps split_conv not_True_eq_False if_False list.map simp_thms)
qed

end

section \<open>The adapters\<close>

subsection \<open>In memory\<close>

lemma hexPad_digits: "set (hexPad k n) \<subseteq> set ''0123456789abcdef''"
proof (induction k arbitrary: n)
  case (Suc k)
  have "''0123456789abcdef'' ! (n mod 16) \<in> set ''0123456789abcdef''" by (rule nth_mem) simp
  then show ?case using Suc [of "n div 16"] by simp
qed simp

lemma SeqID_no_nul: "no_nul (SeqID i)"
  using hexPad_digits [of 12 "nat i"] unfolding no_nul_def SeqID_def by auto

lemma fixture_ids: "x \<in> set fixtureOrders \<Longrightarrow> TenantID x \<noteq> [] \<and> no_nul (ID x)"
  using SeqID_no_nul by (auto simp: fixtureOrders_def)

lemma viewList_works:
  assumes "mem_inv s" "t \<noteq> []" "DecodePageToken K t f = Inr cur"
    and "\<forall>i o'. mem_tab s (t, i) = Some o' \<longrightarrow> \<not> isl (EncodePageToken K t f o')"
  shows "\<exists>p. viewList K t f s = Inr p"
proof -
  let ?xs = "mem_rows t f cur s" and ?n = "nat (ClampPageSize (PageSize f))"
  have "\<not> isl (EncodePageToken K t f x)" if "x \<in> set ?xs" for x
    using that assms(4) unfolding mem_rows_set [OF assms(1,2)] by (auto simp: selected_def)
  moreover have "take ?n ?xs ! (?n - 1) \<in> set ?xs" if "?n < length ?xs"
    using that ClampPageSize_range [of "PageSize f"] by (simp add: nth_take)
  ultimately show ?thesis using assms(2,3) by (auto simp: viewList_eq Let_def isl_def split: sum.split)
qed

interpretation memc: conforming_store K "memStore K" memPublisher "memAtomic K" mem_tab events mem_inv no_nul
  "\<lambda>_. True" "\<lambda>x. x" "\<lambda>e. e" "\<lambda>c. c" "\<lambda>s. Inr (Events s)" "\<lambda>o'. TenantID o' \<noteq> [] \<and> no_nul (ID o')" "\<lambda>_. True"
proof (unfold_locales, goal_cases)
  case (2 s o')
  then have "map_of (orders s) (key (TenantID o') (ID o')) = None"
    using 2(3) [of "TenantID o'"] by (simp add: mem_tab_def)
  then show ?case using 2(2) by (simp add: memStore_def viewCreate_def Let_def)
next
  case (3 s o' x)
  then show ?case by (auto simp: memStore_def viewCreate_def Let_def mem_tab_def refusedWith_def)
next
  case (5 s i t o')
  then show ?case by (auto simp: memStore_def viewGet_def mem_tab_def split: if_splits)
next
  case (6 s i t)
  then show ?case by (auto simp: memStore_def viewGet_def mem_tab_def failsWith_def)
next
  case (8 s o' x)
  then show ?case by (auto simp: memStore_def viewUpdate_def Let_def mem_tab_def)
next
  case (9 s o')
  then show ?case by (auto simp: memStore_def viewUpdate_def Let_def mem_tab_def refusedWith_def)
next
  case (10 s t f cur)
  then show ?case using viewList_works by (simp add: memStore_def)
next
  case (14 fn s r s')
  then show ?case by (cases r) (auto simp: memAtomic_def InTx_def)
qed (auto simp: memStore_def viewCreate_def viewGet_def viewList_def memPublisher_def viewPublish_def Events_def refusedWith_def failsWith_def)

subsection \<open>Postgres\<close>

text \<open>The orders the tables take as they are, with items of a positive quantity and an encoding as JSON.\<close>

definition pg_accepts :: "pglib \<Rightarrow> Order \<Rightarrow> bool" where
  "pg_accepts L o' \<longleftrightarrow> held L o' \<and> list_all (\<lambda>i. 0 < Quantity i) (Items o')
     \<and> (case jsonOrder L o' of Inl _ \<Rightarrow> False | Inr p \<Rightarrow> \<not> isl (jsonbStore L p))"

lemma calm [simp]: "fBegin calmPg = None" "fInsertOrder calmPg = None" "fInsertItems calmPg = None" "fSelect calmPg = None"
    "fSelectItems calmPg = None" "fUpdate calmPg = None" "fDeleteItems calmPg = None" "fInsertEvent calmPg = None"
    "fSelectEvents calmPg = None" "fEnd calmPg = None" "fTxBegin calmPg = None" "fTxCommit calmPg = None"
  by (simp_all add: calmPg_def)

lemma distinct_by_groups:
  assumes "\<And>k. distinct (map g (filter (\<lambda>x. f x = k) xs))"
  shows "distinct (map (\<lambda>x. (f x, g x)) xs)"
  using assms
proof (induction xs)
  case (Cons x xs)
  have "distinct (map g (filter (\<lambda>y. f y = k) xs))" for k using Cons.prems [of k] by (auto split: if_splits)
  then have "distinct (map (\<lambda>x. (f x, g x)) xs)" by (rule Cons.IH)
  moreover have "(f x, g x) \<notin> set (map (\<lambda>x. (f x, g x)) xs)" using Cons.prems [of "f x"] by force
  ultimately show ?case by simp
qed simp

text \<open>The primary key of the items.\<close>

lemma item_keys: assumes "pg_inv L s" shows "distinct (map (\<lambda>it. (iOrderID it, iLineNo it)) (itemsT s))"
proof (rule distinct_by_groups)
  fix k
  show "distinct (map iLineNo (filter (\<lambda>it. iOrderID it = k) (itemsT s)))"
  proof (cases "\<exists>r \<in> set (ordersT s). rID r = k")
    case True
    then obtain r where r: "r \<in> set (ordersT s)" "rID r = k" by blast
    have "map iLineNo (preload s r) = [0..<length (Items (orderAt s r))]"
      using toRow_lines [of "orderAt s r"] orderAt(2) [OF assms r(1)] by simp
    then have "distinct (map iLineNo (preload s r))" by simp
    then have d: "distinct (preload s r)" "inj_on iLineNo (set (preload s r))" unfolding distinct_map by blast+
    have p: "preload s r = sort_key iLineNo (filter (\<lambda>it. iOrderID it = k) (itemsT s))" by (simp add: preload_def r(2))
    show ?thesis using d unfolding p distinct_map by simp
  next
    case False
    then have "filter (\<lambda>it. iOrderID it = k) (itemsT s) = []" using assms unfolding pg_inv_def filter_empty_conv by blast
    then show ?thesis by simp
  qed
qed

lemma toRow_quantity: "list_all (\<lambda>i. 0 < Quantity i) (Items o') \<Longrightarrow> it \<in> set (snd (toRow o')) \<Longrightarrow> 0 < iQuantity it"
  by (auto simp: toRow_def set_zip itemRowOf_def list_all_length)

lemma insertItems_works:
  assumes "pg_accepts L o'" "distinct (map (\<lambda>it. (iOrderID it, iLineNo it)) (itemsT s))" "\<forall>it \<in> set (itemsT s). iOrderID it \<noteq> ID o'"
    and "\<exists>r \<in> set (ordersT s). rID r = ID o'"
  shows "insertItemsSQL L calmPg (snd (toRow o')) s = (None, s\<lparr>itemsT := itemsT s @ snd (toRow o')\<rparr>)"
proof -
  let ?its = "snd (toRow o')"
  have h: "uuid_ok L (ID o')" "pg_storable o'" "list_all (textItem L) ?its"
    using assms(1) by (auto simp: pg_accepts_def held_def textOrder_def)
  have st: "map (storedItem L) ?its = map Some ?its" using stored_items [OF h(1,2)] h(3) by (auto simp: list_all_iff)
  have the: "map the (map Some ?its) = ?its" by (simp add: comp_def)
  have "distinct (map iLineNo ?its)" unfolding toRow_lines by simp
  then have d: "distinct (map (\<lambda>it. (iOrderID it, iLineNo it)) ?its)" by (auto simp: distinct_map inj_on_def)
  have q: "\<forall>it \<in> set ?its. 0 < iQuantity it" using toRow_quantity [of o'] assms(1) by (auto simp: pg_accepts_def)
  have all: "\<not> list_ex (\<lambda>r. r = None) (map Some ?its)" "\<not> list_ex (\<lambda>it. iQuantity it \<le> 0) ?its"
      "distinct (map (\<lambda>it. (iOrderID it, iLineNo it)) (itemsT s @ ?its))"
      "\<not> list_ex (\<lambda>it. \<not> list_ex (\<lambda>r. rID r = iOrderID it) (ordersT s)) ?its"
    using q assms(2-4) d toRow_items(1) [of _ o'] by (auto simp: list_ex_iff not_le)
  show ?thesis unfolding insertItemsSQL_def calm option.case Let_def st the using all by (simp only: if_False not_True_eq_False simp_thms)
qed

lemma pgCreate_works:
  assumes "pg_inv L s" "pg_accepts L o'" "\<And>t. pg_tab s (t, ID o') = None"
  shows "\<exists>s'. pgCreate L calmPg o' s = (None, s')"
proof -
  have h: "pgUuid L (ID o') = Some (ID o')" "pg_storable o'" "textRow L (fst (toRow o'))" "TenantID o' \<noteq> []"
    using assms(2) by (auto simp: pg_accepts_def held_def textOrder_def uuid_ok_def)
  have new: "\<forall>r \<in> set (ordersT s). rID r \<noteq> ID o'" using orderAt(6) [OF assms(1)] assms(3) by fastforce
  have n: "- 1000000000 < Nanos (Total o')" "Nanos (Total o') < 1000000000" 
    using h(2) unfolding pg_storable_def Validate_None_iff [of "Total o'"] NanosPerUnit_def by simp_all
  have row: "rID (fst (toRow o')) = ID o'" "rTenantID (fst (toRow o')) = TenantID o'" "rTotalNanos (fst (toRow o')) = Nanos (Total o')"
    by (simp_all add: toRow_def)
  obtain s1 where i: "insertOrderSQL L calmPg (fst (toRow o')) s = (None, s1)"
      and s1: "itemsT s1 = itemsT s" "\<exists>r \<in> set (ordersT s1). rID r = ID o'"
    using h(1,3,4) new n row by (simp add: insertOrderSQL_def list_ex_iff)
  have free: "\<forall>it \<in> set (itemsT s1). iOrderID it \<noteq> ID o'" using assms(1) new s1(1) unfolding pg_inv_def by metis
  note it = insertItems_works [OF assms(2) item_keys [OF assms(1), folded s1(1)] free s1(2)]
  show ?thesis using i it h(4) by (auto simp: pgCreate_def inTransaction_def case_prod_beta Let_def)
qed

lemma pgCreate_duplicate:
  assumes "pg_inv L s" "pg_accepts L o'" "pg_tab s (TenantID o', ID o') = Some x"
  shows "refusedWith ErrDuplicate (pgCreate L calmPg o' s)"
proof -
  have h: "pgUuid L (ID o') = Some (ID o')" "pg_storable o'" "textRow L (fst (toRow o'))" "TenantID o' \<noteq> []"
    using assms(2) by (auto simp: pg_accepts_def held_def textOrder_def uuid_ok_def)
  obtain r where r: "r \<in> set (ordersT s)" "rID r = ID o'" using assms(3) toRow_fields(1) unfolding pg_tab_iff [OF assms(1)] by metis
  have n: "- 1000000000 < Nanos (Total o')" "Nanos (Total o') < 1000000000"
    using h(2) unfolding pg_storable_def Validate_None_iff [of "Total o'"] NanosPerUnit_def by simp_all
  have row: "rID (fst (toRow o')) = ID o'" "rTenantID (fst (toRow o')) = TenantID o'" "rTotalNanos (fst (toRow o')) = Nanos (Total o')"
    by (simp_all add: toRow_def)
  have "insertOrderSQL L calmPg (fst (toRow o')) s = (Some (PgError pgUniqueViolation ''orders_pkey'' []), s)"
    using h(1,3,4) r n row by (auto simp: insertOrderSQL_def list_ex_iff)
  then show ?thesis using h(4) by (simp add: pgCreate_def inTransaction_def case_prod_beta Let_def refusedWith_def mapWriteError_def)
qed

lemma pg_found:
  assumes "pg_inv L s" "t \<noteq> []"
  shows "filter (\<lambda>r. list_all (\<lambda>p. p r) [\<lambda>r. rTenantID r = t \<and> rID r = i] \<and> rTenantID r = t) (ordersT s)
    = (case find (\<lambda>r. rTenantID r = t \<and> rID r = i) (ordersT s) of None \<Rightarrow> [] | Some r \<Rightarrow> [r])"
proof -
  have "distinct (map rID (ordersT s))" using assms(1) by (simp add: pg_inv_def)
  moreover have "filter (\<lambda>r. rTenantID r = t \<and> rID r = i) rs = (case find (\<lambda>r. rTenantID r = t \<and> rID r = i) rs of None \<Rightarrow> [] | Some r \<Rightarrow> [r])"
    if "distinct (map rID rs)" for rs using that
  proof (induction rs)
    case (Cons r rs)
    show ?case
    proof (cases "rTenantID r = t \<and> rID r = i")
      case True
      then have "filter (\<lambda>r. rTenantID r = t \<and> rID r = i) rs = []" using Cons.prems by (auto simp: filter_empty_conv image_iff)
      then show ?thesis using True by simp
    qed (use Cons in auto)
  qed simp
  moreover have "filter (\<lambda>r. list_all (\<lambda>p. p r) [\<lambda>r. rTenantID r = t \<and> rID r = i] \<and> rTenantID r = t) (ordersT s)
      = filter (\<lambda>r. rTenantID r = t \<and> rID r = i) (ordersT s)" by (rule filter_cong) auto
  ultimately show ?thesis by simp
qed

lemma pgUpdate_missing:
  assumes "pg_inv L s" "pg_accepts L o'" "pg_tab s (TenantID o', ID o') = None"
  shows "refusedWith ErrNotFound (pgUpdate L calmPg o' s)"
proof -
  have h: "pgUuid L (ID o') = Some (ID o')" "textRow L (fst (toRow o'))" "TenantID o' \<noteq> []"
    using assms(2) by (auto simp: pg_accepts_def held_def textOrder_def uuid_ok_def)
  have "find (\<lambda>r. rTenantID r = TenantID o' \<and> rID r = ID o') (ordersT s) = None"
    using assms(3) orderAt(3) [OF assms(1)] by (auto simp: pg_tab_def find_Some_iff split: option.splits sum.splits)
  then have none: "scopedOrders (TenantID o') [\<lambda>r. rTenantID r = TenantID o' \<and> rID r = ID o'] s = Inr []"
    using pg_found [OF assms(1) h(3), of "ID o'"] by (simp add: scopedOrders_eq [OF h(3)])
  have row: "rID (fst (toRow o')) = ID o'" by (simp add: toRow_def)
  have u: "fst (updateOrderSQL L calmPg (TenantID o') (fst (toRow o')) s) = Inr 0"
    using h(1,2) none row by (simp add: updateOrderSQL_def)
  obtain s1 where "updateOrderSQL L calmPg (TenantID o') (fst (toRow o')) s = (Inr 0, s1)" using u by (metis prod.collapse)
  then show ?thesis using h(3) by (simp add: pgUpdate_def inTransaction_def case_prod_beta Let_def refusedWith_def)
qed

lemma pgUpdate_works:
  assumes "pg_inv L s" "pg_accepts L o'" "pg_tab s (TenantID o', ID o') = Some x"
  shows "\<exists>s'. pgUpdate L calmPg o' s = (None, s')"
proof -
  have h: "pgUuid L (ID o') = Some (ID o')" "pg_storable o'" "textRow L (fst (toRow o'))" "TenantID o' \<noteq> []"
    using assms(2) by (auto simp: pg_accepts_def held_def textOrder_def uuid_ok_def)
  have n: "- 1000000000 < rTotalNanos (fst (toRow o'))" "rTotalNanos (fst (toRow o')) < 1000000000"
    using h(2) unfolding pg_storable_def Validate_None_iff [of "Total o'"] NanosPerUnit_def by (simp_all add: toRow_def)
  have row: "rID (fst (toRow o')) = ID o'" by (simp add: toRow_def)
  obtain r where r: "r \<in> set (ordersT s)" "rTenantID r = TenantID o'" "rID r = ID o'"
    using assms(3) toRow_fields(1,2) unfolding pg_tab_iff [OF assms(1)] by metis
  have d: "distinct (map rID (ordersT s))" using assms(1) by (simp add: pg_inv_def)
  have "find (\<lambda>r. rTenantID r = TenantID o' \<and> rID r = ID o') (ordersT s) = Some r" using find_unique [OF d] r by blast
  then have hit: "scopedOrders (TenantID o') [\<lambda>r. rTenantID r = TenantID o' \<and> rID r = ID o'] s = Inr [r]"
    using pg_found [OF assms(1) h(4), of "ID o'"] by (simp add: scopedOrders_eq [OF h(4)])
  obtain s1 where u: "updateOrderSQL L calmPg (TenantID o') (fst (toRow o')) s = (Inr 1, s1)" "itemsT s1 = itemsT s"
      "\<exists>r \<in> set (ordersT s1). rID r = ID o'"
    using h(1,3) hit n row r(1,3) by (auto simp: updateOrderSQL_def)
  let ?s2 = "s1\<lparr>itemsT := filter (\<lambda>it. iOrderID it \<noteq> ID o') (itemsT s1)\<rparr>"
  have del: "deleteItemsSQL L calmPg (ID o') s1 = (None, ?s2)" using h(1) by (simp add: deleteItemsSQL_def)
  have keys: "distinct (map (\<lambda>it. (iOrderID it, iLineNo it)) (itemsT ?s2))"
    using item_keys [OF assms(1)] u(2) by (simp add: distinct_map_filter)
  have "insertItemsSQL L calmPg (snd (toRow o')) ?s2 = (None, ?s2\<lparr>itemsT := itemsT ?s2 @ snd (toRow o')\<rparr>)"
    by (rule insertItems_works [OF assms(2) keys]) (use u(3) in simp_all)
  then show ?thesis using u(1) del h(4) by (auto simp: pgUpdate_def inTransaction_def case_prod_beta Let_def)
qed

lemma pgList_works:
  assumes "pg_inv L s" "t \<noteq> []" "textFilter L t f" "DecodePageToken K t f = Inr cur" "\<forall>a i. cur = Some (a, i) \<longrightarrow> uuid_ok L i"
    and "\<forall>i o'. pg_tab s (t, i) = Some o' \<longrightarrow> \<not> isl (EncodePageToken K t f o')"
  shows "\<exists>p. pgList L calmPg K t f s = Inr p"
proof -
  let ?xs = "map (orderAt s) (pg_rows t f (map_option (pg_cnorm L) cur) s)" and ?n = "nat (ClampPageSize (PageSize f))"
  have "pgList L calmPg K t f s = pagedRows K t f ?xs"
    by (rule pgList_eq [OF assms(1,2) _ _ assms(4) _ assms(3)]) (use assms(5) in \<open>auto simp: uuid_ok_def\<close>)
  moreover have "\<not> isl (EncodePageToken K t f x)" if "x \<in> set ?xs" for x
    using that assms(6) unfolding pg_rows_set [OF assms(1)] by (auto simp: selected_def)
  moreover have "take ?n ?xs ! (?n - 1) \<in> set ?xs" if "?n < length ?xs"
    using that ClampPageSize_range [of "PageSize f"] nth_mem [of "?n - 1" ?xs] by (simp add: nth_take)
  ultimately show ?thesis by (auto simp: pagedRows_def Let_def isl_def split: sum.split)
qed

lemma pgEvents_log:
  assumes "pg_inv L s" shows "pgEvents L calmPg s = Inr (pg_log L s)"
proof -
  have "sorted_wrt (<) (map (\<lambda>r. mID (msg r)) (outboxT s))" using assms by (simp add: pg_inv_def)
  then have "sort_key (\<lambda>r. mID (msg r)) (outboxT s) = outboxT s" by (intro sort_key_id_if_sorted) (simp only: strict_sorted_iff)
  moreover obtain es where "eventsOf L (outboxT s) = Inr es" using eventsOf_decodes [of "outboxT s" L] assms by (auto simp: pg_inv_def)
  ultimately show ?thesis by (simp add: pgEvents_def pg_log_def)
qed

text \<open>With a database that answers every statement, the Postgres adapter conforms.\<close>

lemma pg_conforming:
  assumes "pglib_ok L" "pgText L EventOrderCreated" "pgText L tp"
  shows "conforming_store K (pgStore L calmPg K) (pgPublisher L calmPg tp) (pgAtomic L calmPg K tp) pg_tab (pg_log L) (pg_inv L) (uuid_ok L)
    pg_storable pg_norm pg_enorm (pg_cnorm L) (pgEvents L calmPg) (pg_accepts L) (pgText L)"
proof -
  note st = pg_order_store [OF assms(1), of K calmPg tp]
  show ?thesis
  proof (intro conforming_store.intro st conforming_store_axioms.intro, goal_cases)
    case (1 o')
    then show ?case by (auto simp: pg_accepts_def held_def textOrder_def textRow_def toRow_def)
  next
    case (2 s o')
    then show ?case using pgCreate_works by (simp add: pgStore_def)
  next
    case (3 s o' x)
    then show ?case using pgCreate_duplicate by (simp add: pgStore_def)
  next
    case (5 s i t o')
    then have "t \<noteq> []" using pg_tab_iff [OF 5(1)] by (auto simp: held_def)
    then show ?case using 5 pg_tab_text [OF 5(1,3)] by (simp add: pgStore_def pgGet_eq)
  next
    case (6 s i t)
    then show ?case by (simp add: pgStore_def pgGet_eq failsWith_def)
  next
    case (8 s o' x)
    then show ?case using pgUpdate_works by (simp add: pgStore_def)
  next
    case (9 s o')
    then show ?case using pgUpdate_missing by (simp add: pgStore_def)
  next
    case (10 s t f cur)
    then show ?case using pgList_works by (simp add: pgStore_def textFilter_def)
  next
    case (13 s o')
    then obtain p q where "jsonOrder L o' = Inr p" "jsonbStore L p = Inr q"
      by (auto simp: pg_accepts_def isl_def split: sum.splits) (metis sum.exhaust)
    then show ?case
      using 13(2) assms(2,3) by (auto simp: pg_accepts_def held_def textOrder_def uuid_ok_def textRow_def toRow_def
          pgPublisher_def pgPublish_def eventFor_def Let_def)
  next
    case (14 fn s r s')
    then show ?case by (cases r) (auto simp: pgAtomic_def pgInTx_def)
  next
    case (15 s)
    then show ?case by (rule pgEvents_log)
  qed (auto simp: pgStore_def pgCreate_def pgGet_def pgList_def refusedWith_def failsWith_def)
qed

section \<open>Properties\<close>

text \<open>
  C12: Both adapters pass the contract suite of the repository, every subtest of it, from their empty state:
  the in-memory store always, the Postgres store on a database that answers its statements and can hold
  the orders of the suite. Assumed are the codec of the page tokens (\<open>codec_serves\<close>), the \<open>uuid\<close> and JSON
  functions (\<open>pglib_ok\<close>), and that they take the values the suite uses.
\<close>

theorem adapters_pass_the_contract:
  assumes "codec_serves K setField" "pglib_ok L" "\<forall>o' \<in> set fixtures. given o' (pg_accepts L)"
    and "uuid_ok L (SeqID 99)" "pgText L EventOrderCreated" "pgText L tp"
  shows "RunStoreContract setField (memHarness K) New = [] \<and> RunStoreContract setField (pgHarness L K tp) emptyPg = []"
proof
  have "\<forall>o' \<in> set fixtures. given o' (\<lambda>o'. TenantID o' \<noteq> [] \<and> no_nul (ID o'))"
    using fixture_ids unfolding fixtures_some by (auto simp: given_def)
  moreover have "no_nul (SeqID 99)" by (rule SeqID_no_nul)
  moreover have "mem_inv New" "mem_tab New = Map.empty" "events New = []"
    by (auto simp: mem_inv_def New_def mem_tab_def fun_eq_iff)
  ultimately show "RunStoreContract setField (memHarness K) New = []"
    unfolding memHarness_def using memc.suite_passes [of New K setField] assms(1) by simp
  have "pg_inv L emptyPg" "pg_tab emptyPg = Map.empty" "pg_log L emptyPg = []"
    by (auto simp: pg_inv_def emptyPg_def pg_tab_def pg_log_def fun_eq_iff)
  then show "RunStoreContract setField (pgHarness L K tp) emptyPg = []"
    unfolding pgHarness_def
    by (rule conforming_store.suite_passes [OF pg_conforming [OF assms(2,5,6)] _ _ _ assms(3,1,4)])
qed

text \<open>Concrete functions under which the assumptions hold.\<close>

definition sampleSetField :: "string \<Rightarrow> string \<Rightarrow> string res" where
  "sampleSetField b i = (case sampleUnmarshal b of Inl e \<Rightarrow> Inl e | Inr c \<Rightarrow> sampleMarshal (c\<lparr>cID := i\<rparr>))"

definition suitePglib :: pglib where
  "suitePglib = \<lparr>pgUuid = Some, pgText = (\<lambda>_. True),
     jsonOrder = (\<lambda>o'. if o' \<in> set fixtureOrders then Inr (replicate (length (takeWhile (\<lambda>x. x \<noteq> o') fixtureOrders)) (CHR ''a''))
       else Inl (Plain ''json'')),
     jsonbStore = Inr, unjsonOrder = (\<lambda>q. Inr (fixtureOrders ! length q))\<rparr>"

lemma length_SeqID: "length (SeqID i) = 36"
proof -
  have "length (hexPad k n) = k" for k n by (induction k arbitrary: n) simp_all
  then show ?thesis by (simp add: SeqID_def)
qed

lemma fixture_fields:
  assumes "x \<in> set fixtureOrders"
  shows "length (ID x) = 36" "Items x = Items (refOrder 1)" "Total x = Total (refOrder 1)" "StatusValid (Status x)"
    "1000 dvd CreatedAt x" "1000 dvd UpdatedAt x"
  using assms length_SeqID
  by (auto simp: fixtureOrders_def refOrder_def timedOrder_def StatusValid_def RefTime_def intro!: dvd_add)

lemma sampleCodec_serves: "codec_serves sampleCodec sampleSetField"
proof -
  have "uuidValidate sampleCodec injectedID \<noteq> None" by (simp add: sampleCodec_def injectedID_def)
  then show ?thesis
    using sampleCodec_ok fixture_fields(1) unfolding codec_serves_def fixtures_some
    by (auto simp: given_def sampleCodec_def sampleMarshal_def sampleUnmarshal_def sampleSetField_def takeWhile_run drop_run Let_def)
qed

lemma nth_takeWhile_self: "x \<in> set xs \<Longrightarrow> xs ! length (takeWhile (\<lambda>y. y \<noteq> x) xs) = x"
  by (induction xs) auto

lemma suitePglib_ok: "pglib_ok suitePglib" "x \<in> set fixtureOrders \<Longrightarrow> pg_accepts suitePglib x"
proof -
  show "pglib_ok suitePglib" by (auto simp: pglib_ok_def suitePglib_def nth_takeWhile_self split: if_splits)
  assume x: "x \<in> set fixtureOrders"
  note f = fixture_fields [OF x]
  have m: "valid_money (Total (refOrder 1))" "list_all (\<lambda>i. valid_money (UnitPrice i)) (Items (refOrder 1))"
    by (simp_all add: refOrder_def lineItem_def) code_simp+
  have "pg_norm x = x" using f(5,6) by (simp add: pg_norm_def pgTime_def)
  moreover have "textRow suitePglib (fst (toRow x))" by (simp add: textRow_def toRow_def f suitePglib_def refOrder_def)
  moreover have "list_all (textItem suitePglib) (snd (toRow x))"
    by (simp add: toRow_def f(2) suitePglib_def refOrder_def lineItem_def itemRowOf_def textItem_def)
  ultimately show "pg_accepts suitePglib x"
    using f m fixture_ids [OF x] x
    by (simp add: pg_accepts_def held_def pg_storable_def textOrder_def uuid_ok_def suitePglib_def refOrder_def lineItem_def)
qed

theorem adapters_pass_the_contract_witness:
  "RunStoreContract sampleSetField (memHarness sampleCodec) New = []
    \<and> RunStoreContract sampleSetField (pgHarness suitePglib sampleCodec []) emptyPg = []"
proof (rule adapters_pass_the_contract [OF sampleCodec_serves suitePglib_ok(1)])
  show "\<forall>o' \<in> set fixtures. given o' (pg_accepts suitePglib)" unfolding fixtures_some using suitePglib_ok(2) by (simp add: given_def)
qed (simp_all add: uuid_ok_def suitePglib_def)

end
