(* ===== verification/Oidc.thy ===== *)
theory Oidc
  imports Auth Cursor
begin

text \<open>
  Token verification (\<open>internal/platform/auth/jwks.go\<close>, \<open>oidc.go\<close>): parsing published keys,
  the key cache with its freshness and rate limits, and the OIDC verifier. The network, the JSON
  decoder and the clock are arguments; \<open>golang-jwt\<close>'s parser and signature check, \<open>url.Parse\<close>,
  IP parsing and the curve check of \<open>crypto/ecdh\<close> are the fields of \<open>jwtlib\<close>.
\<close>

section \<open>Keys\<close>

datatype pubkey = RSAKey nat nat | ECKey string nat nat

record parsedKey =
  pkey :: pubkey
  palg :: string

record jwk =
  Kty :: string
  Kid :: string
  Use :: string
  Alg :: string
  N :: string
  E :: string
  Crv :: string
  X :: string
  Y :: string

text \<open>What \<open>ParseWithClaims\<close> is told to require of a token. (The allowed algorithms are checked in
  \<open>keyFunc\<close> below; the clock is the library's own.)\<close>

record parse_options =
  Issuer :: string
  Audience :: string
  Leeway :: int
  ExpirationRequired :: bool

record jwtlib =
  jwtHeader :: "string \<Rightarrow> (string \<times> json) list res"
  jwtVerify :: "string \<Rightarrow> pubkey \<Rightarrow> parse_options \<Rightarrow> (string \<times> json) list res"
  urlParse :: "string \<Rightarrow> (string \<times> string) res"
  isLoopbackIP :: "string \<Rightarrow> bool"
  ecdhCheck :: "string \<Rightarrow> string \<Rightarrow> goerr option"

definition trimRightEq :: "string \<Rightarrow> string" where
  "trimRightEq s = rev (dropWhile (\<lambda>c. c = CHR ''='') (rev s))"

definition b64 :: "string \<Rightarrow> string res" where
  "b64 s =
     (if s = [] then Inl (Plain ''empty'')
      else (case DecodeString (trimRightEq s) of
          None \<Rightarrow> Inl (Plain ''illegal base64 data'')
        | Some b \<Rightarrow> Inr b))"

text \<open>\<open>new(big.Int).SetBytes\<close> and \<open>BitLen\<close>.\<close>

definition setBytes :: "string \<Rightarrow> nat" where
  "setBytes b = foldl (\<lambda>n c. n * 256 + byte c) 0 b"

fun bitLen :: "nat \<Rightarrow> nat" where
  "bitLen n = (if n = 0 then 0 else Suc (bitLen (n div 2)))"

declare bitLen.simps [simp del]

definition minRSABits :: nat where
  "minRSABits = 2048"

definition maxRSABits :: nat where
  "maxRSABits = 8192"

definition defaultMaxAge :: int where
  "defaultMaxAge = 15 * 60 * 1000000000"

definition parseRSA :: "jwk \<Rightarrow> pubkey res" where
  "parseRSA j = (case b64 (N j) of
     Inl err \<Rightarrow> Inl (Errorf (''modulus: '' @ errorText err) [err])
   | Inr nBytes \<Rightarrow> (case b64 (E j) of
       Inl err \<Rightarrow> Inl (Errorf (''exponent: '' @ errorText err) [err])
     | Inr eBytes \<Rightarrow>
         if length eBytes = 0 \<or> length eBytes > 8 then
           Inl (Errorf (''exponent is '' @ show_nat (length eBytes) @ '' bytes, want 1-8'') [])
         else (let n = setBytes nBytes; e = setBytes eBytes
               in if \<not> e < 2 ^ 63 \<or> e > 2 ^ 32 - 1 then Inl (Plain ''exponent does not fit in an int'')
                  else if n = 0 then Inl (Plain ''modulus is not positive'')
                  else if e < 3 \<or> e mod 2 = 0 then Inl (Errorf (''exponent '' @ show_nat e @ '' is invalid'') [])
                  else if bitLen n < minRSABits \<or> bitLen n > maxRSABits then
                    Inl (Errorf (''modulus is '' @ show_nat (bitLen n) @ '' bits, want between ''
                      @ show_nat minRSABits @ '' and '' @ show_nat maxRSABits) [])
                  else Inr (RSAKey n e))))"

definition curveSize :: "string \<Rightarrow> nat option" where
  "curveSize crv = (if crv = ''P-256'' then Some 32 else if crv = ''P-384'' then Some 48
     else if crv = ''P-521'' then Some 66 else None)"

definition parseEC :: "jwtlib \<Rightarrow> jwk \<Rightarrow> pubkey res" where
  "parseEC L j = (case curveSize (Crv j) of
     None \<Rightarrow> Inl (Errorf (''unsupported curve '' @ quoted (Crv j)) [])
   | Some sz \<Rightarrow> (case b64 (X j) of
       Inl err \<Rightarrow> Inl (Errorf (''x: '' @ errorText err) [err])
     | Inr xBytes \<Rightarrow> (case b64 (Y j) of
         Inl err \<Rightarrow> Inl (Errorf (''y: '' @ errorText err) [err])
       | Inr yBytes \<Rightarrow>
           if length xBytes \<noteq> sz \<or> length yBytes \<noteq> sz then
             Inl (Errorf (''coordinates are '' @ show_nat (length xBytes) @ ''/'' @ show_nat (length yBytes)
               @ '' bytes, want '' @ show_nat sz @ '' each for '' @ Crv j) [])
           else (case ecdhCheck L (Crv j) (CHR 0x04 # xBytes @ yBytes) of
               Some err \<Rightarrow> Inl (Errorf (''point is not on curve '' @ Crv j @ '': '' @ errorText err) [err])
             | None \<Rightarrow> Inr (ECKey (Crv j) (setBytes xBytes) (setBytes yBytes))))))"

definition parseJwk :: "jwtlib \<Rightarrow> jwk \<Rightarrow> pubkey res" where
  "parseJwk L j =
     (if Use j \<noteq> [] \<and> Use j \<noteq> ''sig'' then
        Inl (Errorf (''key use '' @ quoted (Use j) @ '' is not '' @ quoted ''sig'') [])
      else if Kty j = ''RSA'' then parseRSA j
      else if Kty j = ''EC'' then parseEC L j
      else if Kty j = ''oct'' then
        Inl (Plain ''symmetric (oct) keys are refused: a published symmetric key lets anyone who can read the JWKS forge tokens'')
      else Inl (Errorf (''unsupported key type '' @ quoted (Kty j)) []))"

section \<open>The key cache\<close>

text \<open>What the HTTP exchange and the JSON decoder gave: an error building or sending the request, a
  status other than 200 (its text), an error reading the body, an undecodable body, or the
  document.\<close>

datatype 'd fetched = ReqErr goerr | DoErr goerr | BadStatus string | ReadErr goerr | BadJSON goerr | Document 'd

text \<open>Entries in document order; a later key with the same id replaces an earlier one.\<close>

fun collectKeys :: "jwtlib \<Rightarrow> jwk list \<Rightarrow> (string \<times> parsedKey) list \<Rightarrow> (string \<times> parsedKey) list" where
  "collectKeys L [] out = out"
| "collectKeys L (j # js) out = (case parseJwk L j of
     Inl _ \<Rightarrow> collectKeys L js out
   | Inr k \<Rightarrow> if Kid j = [] then collectKeys L js out
       else collectKeys L js ((Kid j, \<lparr>pkey = k, palg = Alg j\<rparr>) # filter (\<lambda>(i, _). i \<noteq> Kid j) out))"

definition fetchKeys :: "jwtlib \<Rightarrow> jwk list fetched \<Rightarrow> (string \<times> parsedKey) list res" where
  "fetchKeys L resp = (case resp of
     ReqErr err \<Rightarrow> Inl err
   | DoErr err \<Rightarrow> Inl err
   | ReadErr err \<Rightarrow> Inl err
   | BadStatus st \<Rightarrow> Inl (Errorf (''jwks endpoint returned '' @ st) [])
   | BadJSON err \<Rightarrow> Inl (Errorf (''jwks is not valid JSON: '' @ errorText err) [err])
   | Document js \<Rightarrow> Inr (collectKeys L js []))"

text \<open>\<open>fetchedAt\<close> and \<open>lastAttempt\<close> are \<^const>\<open>None\<close> for the zero time.\<close>

record keyCache =
  minRefresh :: int
  maxAge :: int
  keys :: "(string \<times> parsedKey) list"
  fetchedAt :: "int option"
  lastAttempt :: "int option"
  warm :: bool

definition newKeyCache :: "int \<Rightarrow> int \<Rightarrow> keyCache" where
  "newKeyCache mr ma = \<lparr>minRefresh = mr, maxAge = (if ma = 0 then defaultMaxAge else ma), keys = [],
     fetchedAt = None, lastAttempt = None, warm = False\<rparr>"

text \<open>\<open>time.Since\<close>; since the zero time it saturates at the largest duration.\<close>

definition since :: "int \<Rightarrow> int option \<Rightarrow> int" where
  "since now t = (case t of None \<Rightarrow> 2 ^ 63 - 1 | Some s \<Rightarrow> now - s)"

definition lookup :: "int \<Rightarrow> keyCache \<Rightarrow> string \<Rightarrow> parsedKey option \<times> bool" where
  "lookup now c kid = (map_of (keys c) kid, maxAge c \<le> 0 \<or> since now (fetchedAt c) < maxAge c)"

definition rateLimited :: "int \<Rightarrow> keyCache \<Rightarrow> bool" where
  "rateLimited now c \<longleftrightarrow> minRefresh c > 0 \<and> lastAttempt c \<noteq> None \<and> since now (lastAttempt c) < minRefresh c"

text \<open>\<open>refresh\<close> at \<open>now\<close>; when it fetches, the endpoint's answer is \<open>resp\<close> and it
  arrives at \<open>later\<close>.\<close>

definition refresh :: "jwtlib \<Rightarrow> int \<Rightarrow> int \<Rightarrow> jwk list fetched \<Rightarrow> keyCache \<Rightarrow> goerr option \<times> keyCache" where
  "refresh L now later resp c =
     (if rateLimited now c then
        (if warm c then (None, c) else (Some (Plain ''jwks refresh rate-limited and no keys cached''), c))
      else (let c = c\<lparr>lastAttempt := Some now\<rparr>
            in case fetchKeys L resp of
                 Inl err \<Rightarrow> (Some err, c)
               | Inr ks \<Rightarrow>
                   if ks = [] then (Some (Plain ''jwks contained no usable signing keys''), c)
                   else (None, c\<lparr>keys := ks, fetchedAt := Some later, warm := True\<rparr>)))"

definition keyFor :: "jwtlib \<Rightarrow> int \<Rightarrow> int \<Rightarrow> jwk list fetched \<Rightarrow> string \<Rightarrow> keyCache \<Rightarrow> parsedKey res \<times> keyCache" where
  "keyFor L now later resp kid c = (case lookup now c kid of
     (Some k, True) \<Rightarrow> (Inr k, c)
   | _ \<Rightarrow>
       (let (refreshErr, c') = refresh L now later resp c
        in case fst (lookup later c' kid) of
             Some k \<Rightarrow> (Inr k, c')
           | None \<Rightarrow> (case refreshErr of
               Some err \<Rightarrow>
                 if \<not> warm c' then (Inl (Errorf (''jwks unavailable and no keys cached: '' @ errorText err) [err]), c')
                 else (Inl (Errorf (''unknown key id '' @ quoted kid @ '' (refresh failed: '' @ errorText err @ '')'') [err]), c')
             | None \<Rightarrow> (Inl (Errorf (''unknown key id '' @ quoted kid) []), c'))))"

section \<open>The verifier\<close>

definition signingAlgorithms :: "string list" where
  "signingAlgorithms = [''RS256'', ''RS384'', ''RS512'', ''PS256'', ''PS384'', ''PS512'', ''ES256'', ''ES384'', ''ES512'']"

record OIDCOptions = claim_options +
  oIssuerURL :: string
  oAudience :: string
  oJWKSURL :: string
  oLeeway :: int
  oAllowInsecureIssuer :: bool
  oMaxKeyAge :: int
  oMinRefresh :: int

definition isLoopback :: "jwtlib \<Rightarrow> string \<Rightarrow> bool" where
  "isLoopback L host \<longleftrightarrow> host = ''localhost'' \<or> isLoopbackIP L host"

definition requireSecureURL :: "jwtlib \<Rightarrow> string \<Rightarrow> string \<Rightarrow> bool \<Rightarrow> goerr option" where
  "requireSecureURL L raw field allowInsecure =
     (if raw = [] then None
      else (case urlParse L raw of
          Inl err \<Rightarrow> Some (Errorf (field @ '' is not a valid URL: '' @ errorText err) [err])
        | Inr (scheme, host) \<Rightarrow>
            if scheme = ''https'' then None
            else if scheme = ''http'' then
              (if isLoopback L host \<or> allowInsecure then None
               else Some (Errorf (field @ '' uses http:// with non-loopback host '' @ quoted host
                 @ '': bearer tokens and signing keys must not cross a network in cleartext. If this is a container name on a ''
                 @ ''development network, set OIDC_ALLOW_INSECURE_ISSUER=true -- which APP_ENV=production refuses'') []))
            else Some (Errorf (field @ '' has unsupported scheme '' @ quoted scheme) [])))"

text \<open>\<open>errors.Join\<close>.\<close>

definition errorsJoin :: "goerr list \<Rightarrow> goerr" where
  "errorsJoin es = Errorf (join [CHR 0x0A] (map errorText es)) es"

record OIDCVerifier =
  opts :: OIDCOptions
  lastDiscovery :: "int option"
  cache :: "keyCache option"
  discoverErr :: "goerr option"

definition NewOIDCVerifier :: "jwtlib \<Rightarrow> OIDCOptions \<Rightarrow> OIDCVerifier res" where
  "NewOIDCVerifier L o' =
     (let errs =
        (if oIssuerURL o' = [] then [Plain ''OIDC_ISSUER_URL is required when AUTH_MODE=oidc''] else [])
        @ (if oAudience o' = [] then [Plain (''OIDC_AUDIENCE is required when AUTH_MODE=oidc: ''
             @ ''without it this service would accept any token the issuer signed, including tokens meant for other applications'')] else [])
        @ (if TenantClaim o' = [] then
             [Plain ''OIDC_TENANT_CLAIM is required: the tenant must come from the verified token''] else [])
        @ (case requireSecureURL L (oIssuerURL o') ''OIDC_ISSUER_URL'' (oAllowInsecureIssuer o') of
             Some err \<Rightarrow> if oIssuerURL o' \<noteq> [] then [err] else [] | None \<Rightarrow> [])
        @ (case requireSecureURL L (oJWKSURL o') ''OIDC_JWKS_URL'' (oAllowInsecureIssuer o') of
             Some err \<Rightarrow> if oJWKSURL o' \<noteq> [] then [err] else [] | None \<Rightarrow> [])
      in if errs \<noteq> [] then Inl (errorsJoin errs)
         else Inr \<lparr>opts = (if oMinRefresh o' = 0 then o'\<lparr>oMinRefresh := 30 * 1000000000\<rparr> else o'),
                    lastDiscovery = None, cache = None, discoverErr = None\<rparr>)"

record discoveryDocument =
  dIssuer :: string
  JWKSURI :: string

definition trimSuffixSlash :: "string \<Rightarrow> string" where
  "trimSuffixSlash s = (if s \<noteq> [] \<and> last s = CHR ''/'' then butlast s else s)"

definition discover :: "jwtlib \<Rightarrow> OIDCOptions \<Rightarrow> discoveryDocument fetched \<Rightarrow> string res" where
  "discover L o' resp =
     (let endpoint = trimSuffixSlash (oIssuerURL o') @ ''/.well-known/openid-configuration''
      in case resp of
           ReqErr err \<Rightarrow> Inl err
         | ReadErr err \<Rightarrow> Inl err
         | DoErr err \<Rightarrow> Inl (Errorf (''oidc discovery at '' @ endpoint @ '': '' @ errorText err) [err])
         | BadStatus st \<Rightarrow> Inl (Errorf (''oidc discovery at '' @ endpoint @ '' returned '' @ st) [])
         | BadJSON err \<Rightarrow> Inl (Errorf (''oidc discovery document is not valid JSON: '' @ errorText err) [err])
         | Document doc \<Rightarrow>
             if dIssuer doc \<noteq> oIssuerURL o' then
               Inl (Errorf (''oidc discovery issuer mismatch: document says '' @ quoted (dIssuer doc)
                 @ '', configured issuer is '' @ quoted (oIssuerURL o')) [])
             else if JWKSURI doc = [] then Inl (Plain ''oidc discovery document has no jwks_uri'')
             else (case requireSecureURL L (JWKSURI doc) ''jwks_uri'' (oAllowInsecureIssuer o') of
                 Some err \<Rightarrow> Inl err
               | None \<Rightarrow> Inr (JWKSURI doc)))"

text \<open>\<open>keySet\<close>; the result \<open>Inl None\<close> is the pair \<open>(nil, nil)\<close>.\<close>

definition keySet :: "jwtlib \<Rightarrow> int \<Rightarrow> discoveryDocument fetched \<Rightarrow> OIDCVerifier
    \<Rightarrow> (goerr option + keyCache) \<times> OIDCVerifier" where
  "keySet L now resp v = (case cache v of
     Some c \<Rightarrow> (Inr c, v)
   | None \<Rightarrow>
       if oJWKSURL (opts v) \<noteq> [] then
         (let c = newKeyCache (oMinRefresh (opts v)) (oMaxKeyAge (opts v)) in (Inr c, v\<lparr>cache := Some c\<rparr>))
       else if oMinRefresh (opts v) > 0 \<and> lastDiscovery v \<noteq> None \<and> since now (lastDiscovery v) < oMinRefresh (opts v) then
         (Inl (discoverErr v), v)
       else (let v = v\<lparr>lastDiscovery := Some now\<rparr>
             in case discover L (opts v) resp of
                  Inl err \<Rightarrow> (Inl (Some err), v\<lparr>discoverErr := Some err\<rparr>)
                | Inr url \<Rightarrow>
                    (let c = newKeyCache (oMinRefresh (opts v)) (oMaxKeyAge (opts v))
                     in (Inr c, v\<lparr>discoverErr := None, cache := Some c\<rparr>))))"

definition headerString :: "(string \<times> json) list \<Rightarrow> string \<Rightarrow> string" where
  "headerString hdr k = (case map_of hdr k of Some (JString s) \<Rightarrow> s | _ \<Rightarrow> [])"

definition keyFunc :: "jwtlib \<Rightarrow> int \<Rightarrow> int \<Rightarrow> jwk list fetched \<Rightarrow> (string \<times> json) list \<Rightarrow> keyCache
    \<Rightarrow> pubkey res \<times> keyCache" where
  "keyFunc L now later resp hdr c =
     (let kid = headerString hdr ''kid''
      in if kid = [] then (Inl (Plain ''token header has no kid''), c)
         else (case keyFor L now later resp kid c of
             (Inl err, c') \<Rightarrow> (Inl err, c')
           | (Inr pk, c') \<Rightarrow>
               (let alg = headerString hdr ''alg''
                in if palg pk \<noteq> [] \<and> palg pk \<noteq> alg then
                     (Inl (Errorf (''token alg '' @ quoted alg @ '' does not match the algorithm '' @ quoted (palg pk)
                        @ '' published for key '' @ quoted kid) []), c')
                   else (case pkey pk of
                       RSAKey n e \<Rightarrow>
                         if \<not> has_prefix alg ''RS'' \<and> \<not> has_prefix alg ''PS'' then
                           (Inl (Errorf (''key '' @ quoted kid @ '' is RSA but the token asks for '' @ quoted alg) []), c')
                         else (Inr (pkey pk), c')
                     | ECKey crv x y \<Rightarrow>
                         if \<not> has_prefix alg ''ES'' then
                           (Inl (Errorf (''key '' @ quoted kid @ '' is ECDSA but the token asks for '' @ quoted alg) []), c')
                         else (Inr (pkey pk), c')))))"

text \<open>
  \<open>Verify\<close>. \<open>jwt.ParseWithClaims\<close> decodes the header, refuses an algorithm outside the
  allowlist, asks the key function, and then checks signature and claims with the key it got.
\<close>

definition invalidToken :: "goerr \<Rightarrow> goerr" where
  "invalidToken err = Errorf (sentinel_text ErrInvalidToken @ '': '' @ errorText err) [Sentinel ErrInvalidToken, err]"

definition oidcVerify :: "jwtlib \<Rightarrow> int \<Rightarrow> int \<Rightarrow> discoveryDocument fetched \<Rightarrow> jwk list fetched \<Rightarrow> string \<Rightarrow> OIDCVerifier
    \<Rightarrow> Principal res \<times> OIDCVerifier" where
  "oidcVerify L now later disc resp raw v =
     (if trim_space raw = [] then (Inl (Sentinel ErrNoCredentials), v)
      else (case keySet L now disc v of
          (Inl None, v') \<Rightarrow> (Inl (Errorf (sentinel_text ErrInvalidToken @ '': %!w(<nil>)'') [Sentinel ErrInvalidToken]), v')
        | (Inl (Some err), v') \<Rightarrow> (Inl (invalidToken err), v')
        | (Inr c, v') \<Rightarrow> (case jwtHeader L raw of
            Inl err \<Rightarrow> (Inl (invalidToken err), v')
          | Inr hdr \<Rightarrow>
              if headerString hdr ''alg'' \<notin> set signingAlgorithms then
                (Inl (invalidToken (Plain ''token signature is invalid: signing method is invalid'')), v')
              else (case keyFunc L now later resp hdr c of
                  (Inl err, c') \<Rightarrow> (Inl (invalidToken err), v'\<lparr>cache := Some c'\<rparr>)
                | (Inr k, c') \<Rightarrow>
                    (case jwtVerify L raw k \<lparr>Issuer = oIssuerURL (opts v'), Audience = oAudience (opts v'), Leeway = oLeeway (opts v'), ExpirationRequired = True\<rparr> of
                       Inl err \<Rightarrow> (Inl (invalidToken err), v'\<lparr>cache := Some c'\<rparr>)
                     | Inr claims \<Rightarrow>
                         (principalFrom (claim_options.truncate (opts v')) claims, v'\<lparr>cache := Some c'\<rparr>))))))"

section \<open>Invariants\<close>

text \<open>A key that may verify a signature: never a symmetric one, RSA within both size bounds.\<close>

fun key_ok :: "pubkey \<Rightarrow> bool" where
  "key_ok (RSAKey n e) \<longleftrightarrow> 2048 \<le> bitLen n \<and> bitLen n \<le> 8192 \<and> 3 \<le> e \<and> odd e \<and> e < 2 ^ 32"
| "key_ok (ECKey crv x y) \<longleftrightarrow> crv \<in> {''P-256'', ''P-384'', ''P-521''}"

definition keys_ok :: "(string \<times> parsedKey) list \<Rightarrow> bool" where
  "keys_ok ks \<longleftrightarrow> (\<forall>(kid, k) \<in> set ks. kid \<noteq> [] \<and> key_ok (pkey k))"

definition verifier_ok :: "OIDCVerifier \<Rightarrow> bool" where
  "verifier_ok v \<longleftrightarrow> (case cache v of Some c \<Rightarrow> keys_ok (keys c)
     | None \<Rightarrow> lastDiscovery v \<noteq> None \<longrightarrow> discoverErr v \<noteq> None)"

lemma parseRSA_ok: "parseRSA j = Inr k \<Longrightarrow> key_ok k"
  by (auto simp: parseRSA_def Let_def minRSABits_def maxRSABits_def odd_iff_mod_2_eq_one not_less split: sum.splits if_splits)

lemma parseEC_ok: "parseEC L j = Inr k \<Longrightarrow> key_ok k"
  by (auto simp: parseEC_def curveSize_def split: sum.splits option.splits if_splits)

lemma parseJwk_ok: "parseJwk L j = Inr k \<Longrightarrow> key_ok k"
  by (auto simp: parseJwk_def parseRSA_ok parseEC_ok split: if_splits)

lemma keys_ok_insert: "keys_ok ks \<Longrightarrow> kid \<noteq> [] \<Longrightarrow> key_ok (pkey k) \<Longrightarrow> keys_ok ((kid, k) # filter P ks)"
  by (auto simp: keys_ok_def)

lemma collectKeys_ok: "keys_ok out \<Longrightarrow> keys_ok (collectKeys L js out)"
proof (induction L js out rule: collectKeys.induct)
  case (2 L j js out)
  show ?case
  proof (cases "parseJwk L j")
    case (Inl e)
    then show ?thesis using 2 by simp
  next
    case (Inr k)
    then show ?thesis using 2 parseJwk_ok [OF Inr] by (simp add: keys_ok_insert)
  qed
qed simp

lemma fetchKeys_ok: "fetchKeys L resp = Inr ks \<Longrightarrow> keys_ok ks"
  using collectKeys_ok [of "[]" L] by (auto simp: fetchKeys_def keys_ok_def split: fetched.splits)

lemma refresh_keys:
  assumes "refresh L now later resp c = (r, c')"
  shows "keys c' = keys c \<or> (fetchKeys L resp = Inr (keys c') \<and> keys c' \<noteq> [])"
  using assms by (auto simp: refresh_def Let_def split: if_splits sum.splits)

lemma keyFor_keys:
  assumes "keyFor L now later resp kid c = (r, c')"
  shows "c' = c \<or> (\<exists>e. refresh L now later resp c = (e, c'))"
  using assms
  by (auto simp: keyFor_def Let_def lookup_def split: option.splits prod.splits if_splits bool.splits)

lemma keyFor_ok: "keys_ok (keys c) \<Longrightarrow> keyFor L now later resp kid c = (r, c') \<Longrightarrow> keys_ok (keys c')"
  using keyFor_keys refresh_keys fetchKeys_ok by metis

lemma keyFor_found: "keyFor L now later resp kid c = (Inr k, c') \<Longrightarrow> map_of (keys c') kid = Some k"
  by (auto simp: keyFor_def Let_def lookup_def split: option.splits prod.splits if_splits bool.splits)

text \<open>The algorithm families a key may be used with.\<close>

fun fits :: "pubkey \<Rightarrow> string \<Rightarrow> bool" where
  "fits (RSAKey _ _) alg \<longleftrightarrow> has_prefix alg ''RS'' \<or> has_prefix alg ''PS''"
| "fits (ECKey _ _ _) alg \<longleftrightarrow> has_prefix alg ''ES''"

lemma keyFunc_Inr:
  assumes "keyFunc L now later resp hdr c = (Inr k, c')"
  shows "\<exists>pk. keyFor L now later resp (headerString hdr ''kid'') c = (Inr pk, c') \<and> pkey pk = k
    \<and> (palg pk = [] \<or> palg pk = headerString hdr ''alg'') \<and> fits k (headerString hdr ''alg'')"
proof -
  obtain pk where "keyFor L now later resp (headerString hdr ''kid'') c = (Inr pk, c')"
    using assms by (auto simp: keyFunc_def Let_def split: if_splits prod.splits sum.splits pubkey.splits)
  with assms show ?thesis
    by (cases "pkey pk"; cases k) (auto simp: keyFunc_def Let_def split: if_splits)
qed

lemma keyFunc_ok: "keys_ok (keys c) \<Longrightarrow> keyFunc L now later resp hdr c = (r, c') \<Longrightarrow> keys_ok (keys c')"
  by (auto simp: keyFunc_def Let_def dest: keyFor_ok split: prod.splits sum.splits if_splits pubkey.splits)

lemma keySet_ok:
  assumes "verifier_ok v" "keySet L now disc v = (r, v')"
  shows "case r of Inr c \<Rightarrow> keys_ok (keys c) \<and> cache v' = Some c | Inl None \<Rightarrow> False | Inl (Some e) \<Rightarrow> verifier_ok v' \<and> cache v' = None"
  using assms
  by (auto simp: keySet_def verifier_ok_def newKeyCache_def keys_ok_def Let_def split: option.splits if_splits sum.splits)

lemma oidcVerify_ok:
  assumes "verifier_ok v" "oidcVerify L now later disc resp raw v = (r, v')"
  shows "verifier_ok v' \<and> fst (keySet L now disc v) \<noteq> Inl None"
proof -
  obtain q u where q: "keySet L now disc v = (q, u)" by (cases "keySet L now disc v")
  note k = keySet_ok [OF assms(1) q]
  have ok: "keys_ok (keys c) \<Longrightarrow> verifier_ok (w\<lparr>cache := Some c\<rparr>)" for c w
    by (simp add: verifier_ok_def)
  show ?thesis
  proof (cases "trim_space raw = []")
    case True
    then show ?thesis using assms q k by (auto simp: oidcVerify_def split: option.splits)
  next
    case False
    show ?thesis
    proof (cases q)
      case (Inl e)
      then show ?thesis using assms(2) False q k by (auto simp: oidcVerify_def split: option.splits)
    next
      case (Inr c)
      then have c: "keys_ok (keys c)" "verifier_ok u" using k by (auto simp: verifier_ok_def)
      then show ?thesis
        using assms(2) False q Inr keyFunc_ok [OF c(1), of L now later resp] ok
        by (auto simp: oidcVerify_def split: sum.splits if_splits prod.splits)
    qed
  qed
qed

lemma oidcVerify_Inr:
  assumes "oidcVerify L now later disc resp raw v = (Inr p, v')"
  shows "\<exists>hdr c pk claims. jwtHeader L raw = Inr hdr \<and> cache v' = Some c
    \<and> map_of (keys c) (headerString hdr ''kid'') = Some pk
    \<and> headerString hdr ''alg'' \<in> set signingAlgorithms
    \<and> (palg pk = [] \<or> palg pk = headerString hdr ''alg'')
    \<and> fits (pkey pk) (headerString hdr ''alg'')
    \<and> jwtVerify L raw (pkey pk) \<lparr>Issuer = oIssuerURL (opts v'), Audience = oAudience (opts v'), Leeway = oLeeway (opts v'), ExpirationRequired = True\<rparr> = Inr claims
    \<and> principalFrom (claim_options.truncate (opts v')) claims = Inr p"
proof -
  obtain u c hdr k c' claims where q: "keySet L now disc v = (Inr c, u)" and h: "jwtHeader L raw = Inr hdr"
    and a: "headerString hdr ''alg'' \<in> set signingAlgorithms" and k: "keyFunc L now later resp hdr c = (Inr k, c')"
    and j: "jwtVerify L raw k \<lparr>Issuer = oIssuerURL (opts u), Audience = oAudience (opts u), Leeway = oLeeway (opts u), ExpirationRequired = True\<rparr> = Inr claims"
    and p: "principalFrom (claim_options.truncate (opts u)) claims = Inr p" and v': "v' = u\<lparr>cache := Some c'\<rparr>"
    using assms by (auto simp: oidcVerify_def split: if_splits prod.splits sum.splits option.splits)
  obtain pk where pk: "keyFor L now later resp (headerString hdr ''kid'') c = (Inr pk, c')" "pkey pk = k"
      "palg pk = [] \<or> palg pk = headerString hdr ''alg''" "fits k (headerString hdr ''alg'')"
    using keyFunc_Inr [OF k] by blast
  from keyFor_found [OF pk(1)] pk h a j p v' show ?thesis by auto
qed

text \<open>No call changes the options.\<close>

lemma oidcVerify_opts: "oidcVerify L now later disc resp raw v = (r, v') \<Longrightarrow> opts v' = opts v"
  by (auto simp: oidcVerify_def keySet_def Let_def split: if_splits prod.splits sum.splits option.splits)

section \<open>Properties\<close>

text \<open>
  The verifier never holds a key that could be forged with. Whatever the discovery document and
  the key endpoint answer, call after call, every cached key has an id and is an RSA key between
  2048 and 8192 bits with an odd exponent of at least 3, or an elliptic curve key on a supported
  curve; symmetric keys never enter. And the verifier never works without a key set: a request
  without one is refused with a real error.
\<close>

theorem verifier_invariant:
  assumes "verifier_ok v" "oidcVerify L now later disc resp raw v = (r, v')"
  shows "verifier_ok v' \<and> fst (keySet L now disc v) \<noteq> Inl None"
  using oidcVerify_ok [OF assms] .

text \<open>A library stub that accepts one token under one key, for the witnesses.\<close>

definition sampleHdr :: "(string \<times> json) list" where
  "sampleHdr = [(''alg'', JString ''ES256''), (''kid'', JString ''k1'')]"

definition sampleClaims :: "(string \<times> json) list" where
  "sampleClaims = [(''sub'', JString ''alice''), (''tenant_id'', JString ''acme''), (''scope'', JString ''orders:read'')]"

definition sampleLib :: jwtlib where
  "sampleLib = \<lparr>jwtHeader = (\<lambda>raw. if raw = ''tok'' then Inr sampleHdr else Inl (Plain ''malformed'')),
     jwtVerify = (\<lambda>raw k o'. if raw = ''tok'' then Inr sampleClaims else Inl (Plain ''bad signature'')),
     urlParse = (\<lambda>u. Inr (''https'', ''idp'')), isLoopbackIP = (\<lambda>h. False), ecdhCheck = (\<lambda>c p. None)\<rparr>"

definition sampleKey :: parsedKey where
  "sampleKey = \<lparr>pkey = ECKey ''P-256'' 5 7, palg = ''ES256''\<rparr>"

definition sampleCache :: keyCache where
  "sampleCache = \<lparr>minRefresh = 30, maxAge = 900, keys = [(''k1'', sampleKey)], fetchedAt = Some 0, lastAttempt = Some 0, warm = True\<rparr>"

definition sampleVerifier :: OIDCVerifier where
  "sampleVerifier = \<lparr>opts = \<lparr>TenantClaim = ''tenant_id'', ScopeClaim = ''scope'', ServiceClaim = [], oIssuerURL = ''https://idp'',
     oAudience = ''orderd'', oJWKSURL = [], oLeeway = 0, oAllowInsecureIssuer = False, oMaxKeyAge = 900, oMinRefresh = 30\<rparr>,
     lastDiscovery = Some 0, cache = Some sampleCache, discoverErr = None\<rparr>"

lemma sampleVerifier_ok: "verifier_ok sampleVerifier"
  by (simp add: verifier_ok_def sampleVerifier_def sampleCache_def keys_ok_def sampleKey_def)

lemma trim_tok: "trim_space ''tok'' \<noteq> []"
  by code_simp

lemma trim_acme: "trim_space ''acme'' \<noteq> []"
  by code_simp

lemma sample_verify:
  "\<exists>p v'. oidcVerify sampleLib 10 10 (DoErr (Plain ''down'')) (DoErr (Plain ''down'')) ''tok'' sampleVerifier = (Inr p, v')
     \<and> pTenantID p = ''acme''"
  using trim_tok trim_acme
  by (simp add: oidcVerify_def keySet_def sampleVerifier_def sampleCache_def sampleLib_def sampleHdr_def headerString_def
      signingAlgorithms_def keyFunc_def keyFor_def lookup_def since_def sampleKey_def principalFrom_def sampleClaims_def
      stringClaim_def lookupClaim_def claim_options.truncate_def Let_def)

theorem verifier_invariant_witness:
  "\<exists>v'. snd (oidcVerify sampleLib 10 10 (DoErr (Plain ''down'')) (DoErr (Plain ''down'')) ''tok'' sampleVerifier) = v'
     \<and> verifier_ok v'"
  using verifier_invariant [OF sampleVerifier_ok prod.collapse [symmetric]] by blast

text \<open>
  C28: an accepted token was verified with a key the issuer publishes, under an algorithm fit for it.
  When \<open>Verify\<close> returns a principal, the header's algorithm is on the allowlist and of the family
  of the key, equals the algorithm published for the key if there is one, the key is the cached key
  with the header's key id, the signature and claims were checked with exactly that key, issuer and
  audience, and the principal is what the checked claims say.
\<close>

theorem verify_sound:
  assumes "oidcVerify L now later disc resp raw v = (Inr p, v')"
  shows "\<exists>hdr c pk claims. jwtHeader L raw = Inr hdr \<and> cache v' = Some c
    \<and> map_of (keys c) (headerString hdr ''kid'') = Some pk
    \<and> headerString hdr ''alg'' \<in> set signingAlgorithms
    \<and> (palg pk = [] \<or> palg pk = headerString hdr ''alg'')
    \<and> fits (pkey pk) (headerString hdr ''alg'')
    \<and> jwtVerify L raw (pkey pk) \<lparr>Issuer = oIssuerURL (opts v'), Audience = oAudience (opts v'), Leeway = oLeeway (opts v'), ExpirationRequired = True\<rparr> = Inr claims
    \<and> principalFrom (claim_options.truncate (opts v')) claims = Inr p"
  using oidcVerify_Inr [OF assms] .

theorem verify_sound_witness:
  "\<exists>p v' (pk :: parsedKey). oidcVerify sampleLib 10 10 (DoErr (Plain ''down'')) (DoErr (Plain ''down'')) ''tok'' sampleVerifier = (Inr p, v')
     \<and> (palg pk = [] \<or> palg pk = ''ES256'') \<and> pTenantID p = ''acme''"
proof -
  obtain p v' where v: "oidcVerify sampleLib 10 10 (DoErr (Plain ''down'')) (DoErr (Plain ''down'')) ''tok'' sampleVerifier = (Inr p, v')"
    "pTenantID p = ''acme''" using sample_verify by blast
  from verify_sound [OF v(1)] obtain hdr and pk :: parsedKey where "jwtHeader sampleLib ''tok'' = Inr hdr"
    "palg pk = [] \<or> palg pk = headerString hdr ''alg''" by blast
  moreover from this(1) have "hdr = sampleHdr" by (simp add: sampleLib_def)
  ultimately show ?thesis using v by (auto simp: sampleHdr_def headerString_def)
qed

text \<open>Key lookups one after another (time, arrival time of an answer, the endpoint's answer, key
  id); the result lists the times at which the endpoint was asked.\<close>

fun attempts :: "jwtlib \<Rightarrow> (int \<times> int \<times> jwk list fetched \<times> string) list \<Rightarrow> keyCache \<Rightarrow> int list \<times> keyCache" where
  "attempts L [] c = ([], c)"
| "attempts L ((now, later, resp, kid) # reqs) c =
     (let (r, c1) = keyFor L now later resp kid c;
          (ts, c2) = attempts L reqs c1;
          asked = (case lookup now c kid of (Some _, True) \<Rightarrow> False | _ \<Rightarrow> \<not> rateLimited now c)
      in (if asked then now # ts else ts, c2))"

lemma keyFor_asked:
  assumes "keyFor L now later resp kid c = (r, c1)"
  shows "(if (case lookup now c kid of (Some _, True) \<Rightarrow> False | _ \<Rightarrow> \<not> rateLimited now c)
     then lastAttempt c1 = Some now else c1 = c) \<and> minRefresh c1 = minRefresh c"
  using assms
  by (auto simp: keyFor_def Let_def refresh_def split: prod.splits option.splits if_splits bool.splits sum.splits)

lemma attempts_spaced:
  assumes "0 < minRefresh c" "fst (attempts L reqs c) = ts"
  shows "successively (\<lambda>a b. a + minRefresh c \<le> b) ts \<and> (\<forall>t. lastAttempt c = Some t \<longrightarrow> ts \<noteq> [] \<longrightarrow> t + minRefresh c \<le> hd ts)"
  using assms
proof (induction L reqs c arbitrary: ts rule: attempts.induct)
  case (1 L c)
  then show ?case by simp
next
  case (2 L now later resp kid reqs c)
  obtain r c1 where k: "keyFor L now later resp kid c = (r, c1)" by (cases "keyFor L now later resp kid c")
  obtain us c2 where u: "attempts L reqs c1 = (us, c2)" by (cases "attempts L reqs c1")
  note a = keyFor_asked [OF k]
  have IH: "successively (\<lambda>a b. a + minRefresh c \<le> b) us"
    "\<And>t. lastAttempt c1 = Some t \<Longrightarrow> us \<noteq> [] \<Longrightarrow> t + minRefresh c \<le> hd us"
    using "2.IH" [OF k [symmetric] refl, of us] "2.prems"(1) u a by auto
  show ?case
  proof (cases "case lookup now c kid of (Some _, True) \<Rightarrow> False | _ \<Rightarrow> \<not> rateLimited now c")
    case True
    then have "\<not> rateLimited now c" by (auto split: prod.splits option.splits if_splits bool.splits)
    then have "\<forall>t. lastAttempt c = Some t \<longrightarrow> t + minRefresh c \<le> now"
      using "2.prems"(1) by (auto simp: rateLimited_def since_def)
    moreover have "ts = now # us" using True "2.prems"(2) k u by simp
    moreover have "lastAttempt c1 = Some now" using a True by simp
    ultimately show ?thesis using IH by (cases us) auto
  next
    case False
    then have "ts = us" "c1 = c" using "2.prems"(2) k u a by (auto split: if_splits)
    then show ?thesis using IH by simp
  qed
qed

text \<open>
  The key endpoint is asked at most once per refresh window, however many tokens arrive and
  whatever key ids they name: over any sequence of lookups, consecutive requests to the endpoint are
  at least \<open>minRefresh\<close> apart, the first one counted from the attempt before.
\<close>

theorem jwks_fetch_rate_limited:
  assumes "0 < minRefresh c" "fst (attempts L reqs c) = ts"
  shows "successively (\<lambda>a b. a + minRefresh c \<le> b) ts \<and> (\<forall>t. lastAttempt c = Some t \<longrightarrow> ts \<noteq> [] \<longrightarrow> t + minRefresh c \<le> hd ts)"
  by (rule attempts_spaced [OF assms])

theorem jwks_fetch_rate_limited_witness:
  "let ts = fst (attempts sampleLib [(31, 31, DoErr (Plain ''down''), ''zz''), (40, 40, DoErr (Plain ''down''), ''zz''),
       (61, 61, DoErr (Plain ''down''), ''zz'')] sampleCache)
   in ts = [31, 61] \<and> successively (\<lambda>a b. a + 30 \<le> b) ts"
proof -
  let ?ts = "fst (attempts sampleLib [(31, 31, DoErr (Plain ''down''), ''zz''), (40, 40, DoErr (Plain ''down''), ''zz''),
       (61, 61, DoErr (Plain ''down''), ''zz'')] sampleCache)"
  have m: "minRefresh sampleCache = 30" by (simp add: sampleCache_def)
  have "?ts = [31, 61]"
    by (simp add: sampleCache_def keyFor_def lookup_def refresh_def rateLimited_def since_def fetchKeys_def)
  with jwks_fetch_rate_limited [of sampleCache sampleLib _ ?ts] m show ?thesis by (simp add: Let_def)
qed

text \<open>
  Revocation takes effect and an outage does not lock callers out. Once a cached key set is
  older than its maximum age and the endpoint may be asked again, a key the endpoint no longer
  publishes (but publishes others) is refused; while the endpoint fails, a key already cached is
  still served, and an unknown key is always refused.
\<close>

theorem revocation_and_outage:
  assumes "0 < maxAge c" "maxAge c \<le> since now (fetchedAt c)" "\<not> rateLimited now c"
  shows "case fetchKeys L resp of
      Inr ks \<Rightarrow> ks \<noteq> [] \<longrightarrow> (case map_of ks kid of
          None \<Rightarrow> \<exists>e. fst (keyFor L now later resp kid c) = Inl e
        | Some k \<Rightarrow> fst (keyFor L now later resp kid c) = Inr k)
    | Inl _ \<Rightarrow> (case map_of (keys c) kid of
          None \<Rightarrow> \<exists>e. fst (keyFor L now later resp kid c) = Inl e
        | Some k \<Rightarrow> fst (keyFor L now later resp kid c) = Inr k)"
  using assms
  by (auto simp: keyFor_def lookup_def refresh_def Let_def split: sum.splits option.splits)

theorem revocation_and_outage_witness:
  "fst (keyFor sampleLib 1000 1000 (DoErr (Plain ''down'')) ''k1'' sampleCache) = Inr sampleKey"
proof -
  have "0 < maxAge sampleCache" "maxAge sampleCache \<le> since 1000 (fetchedAt sampleCache)" "\<not> rateLimited 1000 sampleCache"
    by (simp_all add: sampleCache_def since_def rateLimited_def)
  from revocation_and_outage [OF this, where L = sampleLib and resp = "DoErr (Plain ''down'')" and kid = "''k1''" and later = 1000]
  show ?thesis
    by (simp add: fetchKeys_def sampleCache_def)
qed

text \<open>
  Revoking every key has no effect on a running process. When the endpoint answers with a
  document that holds no usable key, the refresh is treated as a failure and the old keys stay: a
  cached key is served however old it is.
\<close>

theorem empty_jwks_keeps_old_keys:
  assumes "fetchKeys L resp = Inr []" "map_of (keys c) kid = Some k"
  shows "fst (keyFor L now later resp kid c) = Inr k"
  using assms by (auto simp: keyFor_def lookup_def refresh_def Let_def split: bool.splits)

theorem empty_jwks_keeps_old_keys_witness:
  "fst (keyFor sampleLib 10 10 (Document []) ''k1'' (sampleCache\<lparr>fetchedAt := Some (- 1000000)\<rparr>)) = Inr sampleKey"
  by (rule empty_jwks_keeps_old_keys) (simp_all add: fetchKeys_def sampleCache_def)

end
