(* ===== verification/Testissuer.thy ===== *)
theory Testissuer
  imports Oidc "HOL-Library.AList"
begin

text \<open>
  The in-process OIDC issuer (\<open>internal/platform/auth/testjwks/testjwks.go\<close>) and what happens when
  the verifier of \<open>Oidc\<close> meets it: the tokens the issuer mints honestly, and the forgeries it can
  mint. A JSON value stands for its text, and a raw message that is no JSON for \<^const>\<open>None\<close>; strings are
  UTF-8, which the encoder leaves as they are. Key generation, the signer of \<open>golang-jwt\<close> and the PEM
  encoding are arguments; \<open>t.Fatalf\<close> is the error value.
\<close>

section \<open>Keys and signer\<close>

text \<open>\<open>ecdsa.PrivateKey\<close> on P-256 and \<open>rsa.PrivateKey\<close>.\<close>

record ecdsaKey =
  ecX :: nat
  ecY :: nat
  ecD :: nat

record rsaKeyPair =
  rsaN :: nat
  rsaE :: nat
  rsaD :: nat

datatype signingKey = ECDSAKey ecdsaKey | RSAPrivateKey rsaKeyPair | HMACKey string | UnsafeAllowNone

text \<open>\<open>Token.SignedString\<close> for a method, a header and claims; \<open>publicPEM\<close> is
  \<open>x509.MarshalPKIXPublicKey\<close> followed by \<open>pem.EncodeToMemory\<close>.\<close>

record jwtsigner =
  SignedString :: "string \<Rightarrow> (string \<times> json) list \<Rightarrow> (string \<times> json) list \<Rightarrow> signingKey \<Rightarrow> string res"
  publicPEM :: "nat \<Rightarrow> nat \<Rightarrow> string res"

section \<open>The issuer\<close>

record TestIssuer =
  iURL :: string
  iClosed :: bool
  ecKey :: ecdsaKey
  ecKid :: string
  rsaKey :: rsaKeyPair
  rsaKid :: string
  extraKeys :: "json option list"
  jwksFetches :: int
  offline :: bool
  jwksDelay :: int
  discoveryIssuer :: "string option"
  iAudience :: string
  iTenantClaim :: string
  iScopeClaim :: string

definition NewIssuer :: "ecdsaKey res \<Rightarrow> rsaKeyPair res \<Rightarrow> string \<Rightarrow> TestIssuer res" where
  "NewIssuer ecGen rsaGen srvURL = (case ecGen of
     Inl err \<Rightarrow> Inl (Errorf (''generate ec key: '' @ errorText err) [])
   | Inr ek \<Rightarrow> (case rsaGen of
       Inl err \<Rightarrow> Inl (Errorf (''generate rsa key: '' @ errorText err) [])
     | Inr rk \<Rightarrow> Inr \<lparr>iURL = srvURL, iClosed = False, ecKey = ek, ecKid = ''ec-key-1'', rsaKey = rk, rsaKid = ''rsa-key-1'',
         extraKeys = [], jwksFetches = 0, offline = False, jwksDelay = 0, discoveryIssuer = None,
         iAudience = ''orderd'', iTenantClaim = ''tenant_id'', iScopeClaim = ''scope''\<rparr>))"

definition JWKSURL :: "TestIssuer \<Rightarrow> string" where
  "JWKSURL i = iURL i @ ''/jwks.json''"

definition closeIssuer :: "TestIssuer \<Rightarrow> TestIssuer" where
  "closeIssuer i = i\<lparr>iClosed := True\<rparr>"

definition SetOffline :: "bool \<Rightarrow> TestIssuer \<Rightarrow> TestIssuer" where
  "SetOffline b i = i\<lparr>offline := b\<rparr>"

definition SetJWKSDelay :: "int \<Rightarrow> TestIssuer \<Rightarrow> TestIssuer" where
  "SetJWKSDelay d i = i\<lparr>jwksDelay := d\<rparr>"

definition SetDiscoveryIssuer :: "string \<Rightarrow> TestIssuer \<Rightarrow> TestIssuer" where
  "SetDiscoveryIssuer u i = i\<lparr>discoveryIssuer := Some u\<rparr>"

definition Rotate :: "ecdsaKey res \<Rightarrow> string \<Rightarrow> TestIssuer \<Rightarrow> TestIssuer res" where
  "Rotate ecGen newKid i = (case ecGen of
     Inl err \<Rightarrow> Inl (Errorf (''rotate: '' @ errorText err) [])
   | Inr key \<Rightarrow> Inr (i\<lparr>ecKey := key, ecKid := newKid\<rparr>))"

definition PublishRawKey :: "json option \<Rightarrow> TestIssuer \<Rightarrow> TestIssuer" where
  "PublishRawKey raw i = i\<lparr>extraKeys := extraKeys i @ [raw]\<rparr>"

text \<open>\<open>big.Int\<close>: \<open>FillBytes\<close> into a buffer of a given size, and the shortest form \<open>Bytes\<close>.\<close>

fun fillBytes :: "nat \<Rightarrow> nat \<Rightarrow> string" where
  "fillBytes 0 n = []"
| "fillBytes (Suc k) n = fillBytes k (n div 256) @ [char_of (n mod 256)]"

fun bigBytes :: "nat \<Rightarrow> string" where
  "bigBytes n = (if n = 0 then [] else bigBytes (n div 256) @ [char_of (n mod 256)])"

declare bigBytes.simps [simp del]

definition ecJWK :: "ecdsaKey \<Rightarrow> string \<Rightarrow> (string \<times> json) list" where
  "ecJWK key kid = [(''kty'', JString ''EC''), (''crv'', JString ''P-256''), (''kid'', JString kid),
     (''alg'', JString ''ES256''), (''use'', JString ''sig''),
     (''x'', JString (EncodeToString (fillBytes 32 (ecX key)))),
     (''y'', JString (EncodeToString (fillBytes 32 (ecY key))))]"

definition rsaJWK :: "rsaKeyPair \<Rightarrow> string \<Rightarrow> (string \<times> json) list" where
  "rsaJWK key kid = [(''kty'', JString ''RSA''), (''kid'', JString kid), (''alg'', JString ''RS256''), (''use'', JString ''sig''),
     (''n'', JString (EncodeToString (bigBytes (rsaN key)))),
     (''e'', JString (EncodeToString (bigBytes (rsaE key))))]"

definition PublishSymmetricKey :: "string \<Rightarrow> string \<Rightarrow> TestIssuer \<Rightarrow> TestIssuer" where
  "PublishSymmetricKey kid secret i =
     PublishRawKey (Some (JObject [(''kty'', JString ''oct''), (''kid'', JString kid), (''alg'', JString ''HS256''),
       (''use'', JString ''sig''), (''k'', JString (EncodeToString secret))])) i"

definition PublishWeakRSAKey :: "rsaKeyPair res \<Rightarrow> string \<Rightarrow> TestIssuer \<Rightarrow> (rsaKeyPair \<times> TestIssuer) res" where
  "PublishWeakRSAKey rsaGen kid i = (case rsaGen of
     Inl err \<Rightarrow> Inl (Errorf (''generate weak rsa key: '' @ errorText err) [])
   | Inr key \<Rightarrow> Inr (key, PublishRawKey (Some (JObject (rsaJWK key kid))) i))"

section \<open>Endpoints\<close>

text \<open>\<open>guard\<close>, in front of both handlers; a closed server refuses the connection.\<close>

definition guardIssuer :: "(TestIssuer \<Rightarrow> json fetched \<times> TestIssuer) \<Rightarrow> TestIssuer \<Rightarrow> json fetched \<times> TestIssuer" where
  "guardIssuer next i =
     (if iClosed i then (DoErr (Plain ''connect: connection refused''), i)
      else if offline i then (BadStatus ''503 Service Unavailable'', i)
      else next i)"

definition handleDiscovery :: "TestIssuer \<Rightarrow> json fetched \<times> TestIssuer" where
  "handleDiscovery i =
     (Document (JObject [(''issuer'', JString (case discoveryIssuer i of Some override \<Rightarrow> override | None \<Rightarrow> iURL i)),
        (''jwks_uri'', JString (JWKSURL i))]), i)"

text \<open>The encoder refuses a raw message that is no JSON, and then writes nothing.\<close>

definition handleJWKS :: "TestIssuer \<Rightarrow> json fetched \<times> TestIssuer" where
  "handleJWKS i =
     (let i' = i\<lparr>jwksFetches := jwksFetches i + 1\<rparr>;
          ks = [Some (JObject (ecJWK (ecKey i) (ecKid i))), Some (JObject (rsaJWK (rsaKey i) (rsaKid i)))] @ extraKeys i
      in if None \<in> set ks then (BadJSON (Plain ''unexpected end of JSON input''), i')
         else (Document (JObject [(''keys'', JArray (map the ks))]), i'))"

section \<open>Tokens\<close>

text \<open>A composite literal of a map: a later entry with the same key wins.\<close>

definition mapLiteral :: "(string \<times> json) list \<Rightarrow> (string \<times> json) list" where
  "mapLiteral kvs = foldl (\<lambda>m (k, v). AList.update k v m) [] kvs"

definition unixSeconds :: "int \<Rightarrow> string" where
  "unixSeconds t = show_int (t div 1000000000)"

definition DefaultClaims :: "int \<Rightarrow> TestIssuer \<Rightarrow> (string \<times> json) list" where
  "DefaultClaims now i = mapLiteral [(''iss'', JString (iURL i)), (''aud'', JString (iAudience i)), (''sub'', JString ''user-123''),
     (''exp'', JNumber (unixSeconds (now + 3600 * 1000000000))), (''iat'', JNumber (unixSeconds now)),
     (''nbf'', JNumber (unixSeconds (now - 60 * 1000000000))),
     (iTenantClaim i, JString ''tenant-a''), (iScopeClaim i, JString ''orders:read orders:write'')]"

text \<open>\<open>jwt.NewWithClaims\<close> fills in \<open>typ\<close> and \<open>alg\<close>.\<close>

definition tokenHeader :: "string \<Rightarrow> string \<Rightarrow> (string \<times> json) list" where
  "tokenHeader alg kid = [(''typ'', JString ''JWT''), (''alg'', JString alg), (''kid'', JString kid)]"

definition signToken :: "jwtsigner \<Rightarrow> string \<Rightarrow> signingKey \<Rightarrow> string \<Rightarrow> (string \<times> json) list \<Rightarrow> string res" where
  "signToken S method key kid claims = (case SignedString S method (tokenHeader method kid) claims key of
     Inl err \<Rightarrow> Inl (Errorf (''sign token: '' @ errorText err) [])
   | Inr tok \<Rightarrow> Inr tok)"

definition Sign :: "jwtsigner \<Rightarrow> TestIssuer \<Rightarrow> (string \<times> json) list \<Rightarrow> string res" where
  "Sign S i claims = signToken S ''ES256'' (ECDSAKey (ecKey i)) (ecKid i) claims"

definition SignRSA :: "jwtsigner \<Rightarrow> TestIssuer \<Rightarrow> (string \<times> json) list \<Rightarrow> string res" where
  "SignRSA S i claims = signToken S ''RS256'' (RSAPrivateKey (rsaKey i)) (rsaKid i) claims"

definition SignPS256 :: "jwtsigner \<Rightarrow> TestIssuer \<Rightarrow> (string \<times> json) list \<Rightarrow> string res" where
  "SignPS256 S i claims = signToken S ''PS256'' (RSAPrivateKey (rsaKey i)) (rsaKid i) claims"

definition SignWithKid :: "jwtsigner \<Rightarrow> TestIssuer \<Rightarrow> string \<Rightarrow> (string \<times> json) list \<Rightarrow> string res" where
  "SignWithKid S i kid claims = signToken S ''ES256'' (ECDSAKey (ecKey i)) kid claims"

definition SignNone :: "jwtsigner \<Rightarrow> TestIssuer \<Rightarrow> (string \<times> json) list \<Rightarrow> string res" where
  "SignNone S i claims = signToken S ''none'' UnsafeAllowNone (ecKid i) claims"

definition SignHS256WithRSAPublicKey :: "jwtsigner \<Rightarrow> TestIssuer \<Rightarrow> (string \<times> json) list \<Rightarrow> string res" where
  "SignHS256WithRSAPublicKey S i claims = (case publicPEM S (rsaN (rsaKey i)) (rsaE (rsaKey i)) of
     Inl err \<Rightarrow> Inl (Errorf (''marshal public key: '' @ errorText err) [])
   | Inr secret \<Rightarrow> signToken S ''HS256'' (HMACKey secret) (rsaKid i) claims)"

definition SignHMAC :: "jwtsigner \<Rightarrow> string \<Rightarrow> string \<Rightarrow> (string \<times> json) list \<Rightarrow> string res" where
  "SignHMAC S kid secret claims = signToken S ''HS256'' (HMACKey secret) kid claims"

definition SignRSAWith :: "jwtsigner \<Rightarrow> rsaKeyPair \<Rightarrow> string \<Rightarrow> (string \<times> json) list \<Rightarrow> string res" where
  "SignRSAWith S key kid claims = signToken S ''RS256'' (RSAPrivateKey key) kid claims"

section \<open>What the verifier reads\<close>

text \<open>\<open>json.Unmarshal\<close> into a struct of strings: members are matched by name up to case (the Kelvin
  sign and the long s fold to ASCII letters), a later member overwrites, \<open>null\<close> leaves the field
  alone, another type is an error, and unknown members are skipped.\<close>

fun foldName :: "string \<Rightarrow> string" where
  "foldName (a # b # c # r) =
     (if a = CHR 0xE2 \<and> b = CHR 0x84 \<and> c = CHR 0xAA then CHR ''k'' # foldName r
      else if a = CHR 0xC5 \<and> b = CHR 0xBF then CHR ''s'' # foldName (c # r)
      else (if 65 \<le> byte a \<and> byte a \<le> 90 then char_of (byte a + 32) else a) # foldName (b # c # r))"
| "foldName (a # b # []) =
     (if a = CHR 0xC5 \<and> b = CHR 0xBF then [CHR ''s'']
      else (if 65 \<le> byte a \<and> byte a \<le> 90 then char_of (byte a + 32) else a) # foldName [b])"
| "foldName [a] = [if 65 \<le> byte a \<and> byte a \<le> 90 then char_of (byte a + 32) else a]"
| "foldName [] = []"

declare foldName.simps [simp del]

definition unmarshalTypeError :: goerr where
  "unmarshalTypeError = Plain ''json: cannot unmarshal: type mismatch''"

fun setField :: "string \<Rightarrow> (string \<Rightarrow> 'r \<Rightarrow> 'r) \<Rightarrow> string \<times> json \<Rightarrow> 'r res \<Rightarrow> 'r res" where
  "setField name upd (k, v) r =
     (if foldName k \<noteq> name then r
      else (case r of
          Inl e \<Rightarrow> Inl e
        | Inr x \<Rightarrow> (case v of JString s \<Rightarrow> Inr (upd s x) | JNull \<Rightarrow> Inr x | _ \<Rightarrow> Inl unmarshalTypeError)))"

definition zeroJwk :: jwk where
  "zeroJwk = \<lparr>Kty = [], Kid = [], Use = [], Alg = [], N = [], E = [], Crv = [], X = [], Y = []\<rparr>"

definition jwkFields :: "(string \<times> (string \<Rightarrow> jwk \<Rightarrow> jwk)) list" where
  "jwkFields = [(''kty'', \<lambda>s x. x\<lparr>Kty := s\<rparr>), (''kid'', \<lambda>s x. x\<lparr>Kid := s\<rparr>), (''use'', \<lambda>s x. x\<lparr>Use := s\<rparr>),
     (''alg'', \<lambda>s x. x\<lparr>Alg := s\<rparr>), (''n'', \<lambda>s x. x\<lparr>N := s\<rparr>), (''e'', \<lambda>s x. x\<lparr>E := s\<rparr>),
     (''crv'', \<lambda>s x. x\<lparr>Crv := s\<rparr>), (''x'', \<lambda>s x. x\<lparr>X := s\<rparr>), (''y'', \<lambda>s x. x\<lparr>Y := s\<rparr>)]"

definition jwkMember :: "string \<times> json \<Rightarrow> jwk res \<Rightarrow> jwk res" where
  "jwkMember kv r = foldl (\<lambda>r (name, upd). setField name upd kv r) r jwkFields"

fun decodeJwk :: "json \<Rightarrow> jwk res" where
  "decodeJwk (JObject kvs) = fold jwkMember kvs (Inr zeroJwk)"
| "decodeJwk JNull = Inr zeroJwk"
| "decodeJwk v = Inl unmarshalTypeError"

fun decodeEach :: "json list \<Rightarrow> jwk list res" where
  "decodeEach [] = Inr []"
| "decodeEach (v # vs) = (case decodeJwk v of
     Inl e \<Rightarrow> Inl e
   | Inr j \<Rightarrow> (case decodeEach vs of Inl e \<Rightarrow> Inl e | Inr js \<Rightarrow> Inr (j # js)))"

text \<open>The two documents, as the issuer writes them.\<close>

definition decodeJwks :: "json fetched \<Rightarrow> jwk list fetched" where
  "decodeJwks resp = (case resp of
     Document (JObject [(_, JArray vs)]) \<Rightarrow> (case decodeEach vs of Inl e \<Rightarrow> BadJSON e | Inr js \<Rightarrow> Document js)
   | Document _ \<Rightarrow> BadJSON unmarshalTypeError
   | ReqErr e \<Rightarrow> ReqErr e | DoErr e \<Rightarrow> DoErr e | BadStatus st \<Rightarrow> BadStatus st | ReadErr e \<Rightarrow> ReadErr e | BadJSON e \<Rightarrow> BadJSON e)"

definition decodeDiscovery :: "json fetched \<Rightarrow> discoveryDocument fetched" where
  "decodeDiscovery resp = (case resp of
     Document (JObject [(_, JString iss), (_, JString uri)]) \<Rightarrow> Document \<lparr>dIssuer = iss, JWKSURI = uri\<rparr>
   | Document _ \<Rightarrow> BadJSON unmarshalTypeError
   | ReqErr e \<Rightarrow> ReqErr e | DoErr e \<Rightarrow> DoErr e | BadStatus st \<Rightarrow> BadStatus st | ReadErr e \<Rightarrow> ReadErr e | BadJSON e \<Rightarrow> BadJSON e)"

definition askDiscovery :: "TestIssuer \<Rightarrow> discoveryDocument fetched" where
  "askDiscovery i = decodeDiscovery (fst (guardIssuer handleDiscovery i))"

definition askJWKS :: "TestIssuer \<Rightarrow> jwk list fetched" where
  "askJWKS i = decodeJwks (fst (guardIssuer handleJWKS i))"

section \<open>Published keys are read back\<close>

lemma b64char_not_pad: "n < 64 \<Longrightarrow> b64char n \<noteq> CHR ''=''"
  using b64_roundtrip_char(1) [of n] by (auto simp: b64val_def b64alphabet_def)

lemma trimRightEq_id: "CHR ''='' \<notin> set s \<Longrightarrow> trimRightEq s = s"
  by (cases "rev s") (auto simp: trimRightEq_def)

lemma b64_encode: "s \<noteq> [] \<Longrightarrow> b64 (EncodeToString s) = Inr s"
proof -
  assume ne: "s \<noteq> []"
  have "list_all (\<lambda>a. a < 64) (sextets (map byte s))"
    by (rule sextets_range) (simp add: list_all_iff byte_less)
  then have "CHR ''='' \<notin> set (EncodeToString s)"
    using b64char_not_pad by (fastforce simp: EncodeToString_def list_all_iff)
  then show ?thesis
    using ne by (simp add: b64_def EncodeToString_nonempty trimRightEq_id base64_roundtrip)
qed

lemma setBytes_snoc: "setBytes (b @ [c]) = setBytes b * 256 + byte c"
  by (simp add: setBytes_def)

lemma byte_mod: "byte (char_of n) = n mod 256"
  by (simp add: byte_def)

lemma length_fillBytes [simp]: "length (fillBytes k n) = k"
  by (induction k n rule: fillBytes.induct) auto

lemma setBytes_fillBytes: "n < 256 ^ k \<Longrightarrow> setBytes (fillBytes k n) = n"
proof (induction k n rule: fillBytes.induct)
  case (1 n)
  then show ?case by (simp add: setBytes_def)
next
  case (2 k n)
  then have "n div 256 < 256 ^ k" by (simp add: less_mult_imp_div_less mult.commute)
  with 2 show ?case by (simp add: setBytes_snoc byte_mod)
qed

lemma setBytes_bigBytes: "setBytes (bigBytes n) = n"
proof (induction n rule: bigBytes.induct)
  case (1 n)
  then show ?case
    by (subst bigBytes.simps) (simp add: setBytes_snoc byte_mod setBytes_def [of "[]"])
qed

lemma bigBytes_Nil: "bigBytes n = [] \<longleftrightarrow> n = 0"
  by (subst bigBytes.simps) simp

lemma length_bigBytes: "n < 256 ^ k \<Longrightarrow> length (bigBytes n) \<le> k"
proof (induction k arbitrary: n)
  case (Suc k)
  then have "n div 256 < 256 ^ k" by (simp add: less_mult_imp_div_less mult.commute)
  with Suc.IH show ?case by (subst bigBytes.simps) simp
qed (simp add: bigBytes_Nil)

lemma bitLen_bounds: "2 ^ k \<le> n \<Longrightarrow> n < 2 ^ Suc k \<Longrightarrow> bitLen n = Suc k"
proof (induction k arbitrary: n)
  case 0
  then have "n = 1" by simp
  then show ?case by (simp add: bitLen.simps)
next
  case (Suc k)
  then have "bitLen (n div 2) = Suc k" by (intro Suc.IH) auto
  moreover have "0 < n" using Suc.prems(1) by (metis neq0_conv not_less power_eq_0_iff zero_less_power zero_less_numeral)
  ultimately show ?case by (subst bitLen.simps) simp
qed

lemma foldName_names [simp]:
  "foldName ''kty'' = ''kty''" "foldName ''kid'' = ''kid''" "foldName ''use'' = ''use''" "foldName ''alg'' = ''alg''"
  "foldName ''n'' = ''n''" "foldName ''e'' = ''e''" "foldName ''crv'' = ''crv''" "foldName ''x'' = ''x''"
  "foldName ''y'' = ''y''" "foldName ''k'' = ''k''"
  by code_simp+

lemma setField_other: "foldName k \<noteq> name \<Longrightarrow> setField name upd (k, v) r = r"
  by simp

lemma setField_string: "foldName k = name \<Longrightarrow> setField name upd (k, JString s) (Inr x) = Inr (upd s x)"
  by simp

declare setField.simps [simp del]

lemma jwkMember_string [simp]:
  "jwkMember (''kty'', JString s) (Inr x) = Inr (x\<lparr>Kty := s\<rparr>)"
  "jwkMember (''kid'', JString s) (Inr x) = Inr (x\<lparr>Kid := s\<rparr>)"
  "jwkMember (''use'', JString s) (Inr x) = Inr (x\<lparr>Use := s\<rparr>)"
  "jwkMember (''alg'', JString s) (Inr x) = Inr (x\<lparr>Alg := s\<rparr>)"
  "jwkMember (''n'', JString s) (Inr x) = Inr (x\<lparr>N := s\<rparr>)"
  "jwkMember (''e'', JString s) (Inr x) = Inr (x\<lparr>E := s\<rparr>)"
  "jwkMember (''crv'', JString s) (Inr x) = Inr (x\<lparr>Crv := s\<rparr>)"
  "jwkMember (''x'', JString s) (Inr x) = Inr (x\<lparr>X := s\<rparr>)"
  "jwkMember (''y'', JString s) (Inr x) = Inr (x\<lparr>Y := s\<rparr>)"
  "jwkMember (''k'', JString s) (Inr x) = Inr x"
  by (simp_all add: jwkMember_def jwkFields_def setField_other setField_string)

lemma decode_ecJWK: "decodeJwk (JObject (ecJWK key kid)) = Inr \<lparr>Kty = ''EC'', Kid = kid, Use = ''sig'', Alg = ''ES256'', N = [], E = [],
    Crv = ''P-256'', X = EncodeToString (fillBytes 32 (ecX key)), Y = EncodeToString (fillBytes 32 (ecY key))\<rparr>"
  by (simp add: ecJWK_def zeroJwk_def)

lemma decode_rsaJWK: "decodeJwk (JObject (rsaJWK key kid)) = Inr \<lparr>Kty = ''RSA'', Kid = kid, Use = ''sig'', Alg = ''RS256'',
    N = EncodeToString (bigBytes (rsaN key)), E = EncodeToString (bigBytes (rsaE key)), Crv = [], X = [], Y = []\<rparr>"
  by (simp add: rsaJWK_def zeroJwk_def)

lemma decode_octJWK:
  "decodeJwk (JObject [(''kty'', JString ''oct''), (''kid'', JString kid), (''alg'', JString ''HS256''), (''use'', JString ''sig''), (''k'', JString s)])
     = Inr \<lparr>Kty = ''oct'', Kid = kid, Use = ''sig'', Alg = ''HS256'', N = [], E = [], Crv = [], X = [], Y = []\<rparr>"
  by (simp add: zeroJwk_def)

declare decodeJwk.simps [simp del]

text \<open>What \<open>GenerateKey\<close> promises: a point of the curve, and a modulus of the asked size with the
  exponent 65537.\<close>

definition ecUsable :: "jwtlib \<Rightarrow> ecdsaKey \<Rightarrow> bool" where
  "ecUsable L k \<longleftrightarrow> ecX k < 256 ^ 32 \<and> ecY k < 256 ^ 32
     \<and> ecdhCheck L ''P-256'' (CHR 0x04 # fillBytes 32 (ecX k) @ fillBytes 32 (ecY k)) = None"

definition rsaSized :: "nat \<Rightarrow> rsaKeyPair \<Rightarrow> bool" where
  "rsaSized bits k \<longleftrightarrow> bitLen (rsaN k) = bits \<and> rsaE k = 65537"

lemma fillBytes_Nil [simp]: "fillBytes 32 n \<noteq> []"
  using length_fillBytes [of 32 n] by (metis list.size(3) zero_neq_numeral)

lemma parse_ecJWK:
  assumes "ecUsable L key"
  shows "parseJwk L \<lparr>Kty = ''EC'', Kid = kid, Use = ''sig'', Alg = ''ES256'', N = [], E = [],
    Crv = ''P-256'', X = EncodeToString (fillBytes 32 (ecX key)), Y = EncodeToString (fillBytes 32 (ecY key))\<rparr>
    = Inr (ECKey ''P-256'' (ecX key) (ecY key))"
  using assms by (simp add: parseJwk_def parseEC_def curveSize_def b64_encode ecUsable_def setBytes_fillBytes)

lemma parseRSA_sized:
  assumes "rsaSized bits key" "0 < bits" "N j = EncodeToString (bigBytes (rsaN key))" "E j = EncodeToString (bigBytes (rsaE key))"
  shows "parseRSA j = (if 2048 \<le> bits \<and> bits \<le> 8192 then Inr (RSAKey (rsaN key) (rsaE key))
    else Inl (Errorf (''modulus is '' @ show_nat bits @ '' bits, want between '' @ show_nat minRSABits @ '' and '' @ show_nat maxRSABits) []))"
proof -
  have n: "rsaN key \<noteq> 0" using assms(1,2) by (auto simp: rsaSized_def bitLen.simps [of 0] intro: ccontr)
  have e: "length (bigBytes 65537) \<le> 8" "bigBytes 65537 \<noteq> []"
    by (rule length_bigBytes) (simp_all add: bigBytes_Nil)
  show ?thesis
    using assms n e
    by (simp add: parseRSA_def b64_encode bigBytes_Nil setBytes_bigBytes rsaSized_def Let_def minRSABits_def maxRSABits_def not_less)
qed

lemma parse_rsaJWK:
  assumes "rsaSized bits key" "0 < bits"
  shows "parseJwk L \<lparr>Kty = ''RSA'', Kid = kid, Use = ''sig'', Alg = ''RS256'', N = EncodeToString (bigBytes (rsaN key)),
    E = EncodeToString (bigBytes (rsaE key)), Crv = [], X = [], Y = []\<rparr>
    = (if 2048 \<le> bits \<and> bits \<le> 8192 then Inr (RSAKey (rsaN key) (rsaE key))
       else Inl (Errorf (''modulus is '' @ show_nat bits @ '' bits, want between '' @ show_nat minRSABits @ '' and '' @ show_nat maxRSABits) []))"
  using parseRSA_sized [OF assms] by (simp add: parseJwk_def)

section \<open>Runs of an issuer and a verifier\<close>

text \<open>Whether verifying a token asks the key endpoint.\<close>

definition fetchesJWKS :: "jwtlib \<Rightarrow> int \<Rightarrow> TestIssuer \<Rightarrow> string \<Rightarrow> OIDCVerifier \<Rightarrow> bool" where
  "fetchesJWKS L now i raw v \<longleftrightarrow> trim_space raw \<noteq> [] \<and> (case fst (keySet L now (askDiscovery i) v) of
     Inl _ \<Rightarrow> False
   | Inr c \<Rightarrow> (case jwtHeader L raw of
       Inl _ \<Rightarrow> False
     | Inr hdr \<Rightarrow> headerString hdr ''alg'' \<in> set signingAlgorithms \<and> headerString hdr ''kid'' \<noteq> []
         \<and> (case lookup now c (headerString hdr ''kid'') of (Some _, True) \<Rightarrow> False | _ \<Rightarrow> \<not> rateLimited now c)))"

definition countFetch :: "jwtlib \<Rightarrow> int \<Rightarrow> string \<Rightarrow> OIDCVerifier \<Rightarrow> TestIssuer \<Rightarrow> TestIssuer" where
  "countFetch L now raw v i = (if fetchesJWKS L now i raw v then snd (guardIssuer handleJWKS i) else i)"

definition verifierFor :: "TestIssuer \<Rightarrow> OIDCOptions \<Rightarrow> bool" where
  "verifierFor i o' \<longleftrightarrow> oIssuerURL o' = iURL i \<and> oAudience o' = iAudience i \<and> TenantClaim o' = iTenantClaim i
     \<and> ScopeClaim o' = iScopeClaim i \<and> (oJWKSURL o' = [] \<or> oJWKSURL o' = JWKSURL i)"

text \<open>A published message that gives the verifier no key under a reserved id: it is no JSON, it does not
  decode, its key is refused, or it has another id.\<close>

definition harmless :: "jwtlib \<Rightarrow> string set \<Rightarrow> json option \<Rightarrow> bool" where
  "harmless L K raw = (case raw of None \<Rightarrow> True
     | Some r \<Rightarrow> (case decodeJwk r of Inl _ \<Rightarrow> True
         | Inr j \<Rightarrow> \<not> isl (parseJwk L j) \<longrightarrow> Kid j \<notin> insert ''rsa-key-1'' K))"

text \<open>
  Every history of an issuer and a verifier configured for it: rotations, publications, outages, and
  verifications of arbitrary tokens at arbitrary times, in any order. \<open>K\<close> is a set of key ids under
  which no usable key is ever published.
\<close>

inductive sysrun :: "jwtlib \<Rightarrow> string set \<Rightarrow> TestIssuer \<Rightarrow> OIDCVerifier \<Rightarrow> bool" for L K where
  start: "\<lbrakk>NewIssuer (Inr ek) (Inr rk) url = Inr i; ecUsable L ek; rsaSized 2048 rk; K \<inter> {''ec-key-1'', ''rsa-key-1''} = {};
      NewOIDCVerifier L o' = Inr v; verifierFor i o'\<rbrakk> \<Longrightarrow> sysrun L K i v"
| rotate: "\<lbrakk>sysrun L K i v; Rotate (Inr key) newKid i = Inr i'; ecUsable L key; newKid \<notin> insert ''rsa-key-1'' K\<rbrakk> \<Longrightarrow> sysrun L K i' v"
| publish: "\<lbrakk>sysrun L K i v; harmless L K raw\<rbrakk> \<Longrightarrow> sysrun L K (PublishRawKey raw i) v"
| symmetric: "sysrun L K i v \<Longrightarrow> sysrun L K (PublishSymmetricKey kid secret i) v"
| weak: "\<lbrakk>sysrun L K i v; PublishWeakRSAKey (Inr key) kid i = Inr (k, i'); rsaSized 1024 key\<rbrakk> \<Longrightarrow> sysrun L K i' v"
| outage: "sysrun L K i v \<Longrightarrow> sysrun L K (SetOffline b i) v"
| delay: "sysrun L K i v \<Longrightarrow> sysrun L K (SetJWKSDelay d i) v"
| mismatch: "sysrun L K i v \<Longrightarrow> sysrun L K (SetDiscoveryIssuer u i) v"
| close: "sysrun L K i v \<Longrightarrow> sysrun L K (closeIssuer i) v"
| verify: "\<lbrakk>sysrun L K i v; oidcVerify L now later (askDiscovery i) (askJWKS i) raw v = (r, v')\<rbrakk>
    \<Longrightarrow> sysrun L K (countFetch L now raw v i) v'"

section \<open>The invariant of a run\<close>

definition issuer_inv :: "jwtlib \<Rightarrow> string set \<Rightarrow> TestIssuer \<Rightarrow> bool" where
  "issuer_inv L K i \<longleftrightarrow> rsaKid i = ''rsa-key-1'' \<and> ''rsa-key-1'' \<notin> K \<and> ecKid i \<notin> insert ''rsa-key-1'' K
     \<and> ecUsable L (ecKey i) \<and> rsaSized 2048 (rsaKey i) \<and> (\<forall>raw \<in> set (extraKeys i). harmless L K raw)
     \<and> iAudience i = ''orderd'' \<and> iTenantClaim i = ''tenant_id'' \<and> iScopeClaim i = ''scope''"

definition safe_keys :: "string set \<Rightarrow> (string \<times> parsedKey) list \<Rightarrow> bool" where
  "safe_keys K ks \<longleftrightarrow> (\<forall>kid pk. map_of ks kid = Some pk \<longrightarrow> kid \<notin> K \<and> (kid = ''rsa-key-1'' \<longrightarrow> palg pk = ''RS256''))"

definition safe_verifier :: "string set \<Rightarrow> OIDCVerifier \<Rightarrow> bool" where
  "safe_verifier K v = (case cache v of None \<Rightarrow> True | Some c \<Rightarrow> safe_keys K (keys c))"

lemma collectKeys_origin:
  assumes "map_of (collectKeys L js out) kid = Some pk"
  shows "(\<exists>j \<in> set js. Kid j = kid \<and> parseJwk L j = Inr (pkey pk) \<and> palg pk = Alg j) \<or> map_of out kid = Some pk"
  using assms
proof (induction L js out rule: collectKeys.induct)
  case (2 L j js out)
  show ?case
  proof (cases "parseJwk L j")
    case (Inl e)
    then show ?thesis using "2.IH"(1) "2.prems" by auto
  next
    case (Inr k)
    then show ?thesis
      using "2.IH"(2,3) [OF Inr] "2.prems" by (auto simp: map_of_filter_neq split: if_splits)
  qed
qed simp

lemma decodeEach_mem: "decodeEach vs = Inr js \<Longrightarrow> j \<in> set js \<Longrightarrow> \<exists>r \<in> set vs. decodeJwk r = Inr j"
  by (induction vs arbitrary: js) (auto split: sum.splits)

lemma askJWKS_cases:
  "askJWKS i = Document js \<Longrightarrow> \<not> iClosed i \<and> \<not> offline i \<and> None \<notin> set (extraKeys i)
     \<and> decodeEach (JObject (ecJWK (ecKey i) (ecKid i)) # JObject (rsaJWK (rsaKey i) (rsaKid i)) # map the (extraKeys i)) = Inr js"
  by (auto simp: askJWKS_def decodeJwks_def guardIssuer_def handleJWKS_def Let_def split: if_splits sum.splits)

lemma the_mem: "None \<notin> set xs \<Longrightarrow> r \<in> set (map the xs) \<Longrightarrow> Some r \<in> set xs"
  by (induction xs) auto

lemma fetched_safe:
  assumes "issuer_inv L K i" "fetchKeys L (askJWKS i) = Inr ks"
  shows "safe_keys K ks"
proof -
  obtain js where js: "askJWKS i = Document js" "ks = collectKeys L js []"
    using assms(2) by (auto simp: fetchKeys_def split: fetched.splits)
  note a = askJWKS_cases [OF js(1)]
  have "kid \<notin> K \<and> (kid = ''rsa-key-1'' \<longrightarrow> palg pk = ''RS256'')" if m: "map_of ks kid = Some pk" for kid pk
  proof -
    obtain j where j: "j \<in> set js" "Kid j = kid" "parseJwk L j = Inr (pkey pk)" "palg pk = Alg j"
      using collectKeys_origin [of L js "[]" kid pk] m js(2) by auto
    obtain r where r: "r \<in> set (JObject (ecJWK (ecKey i) (ecKid i)) # JObject (rsaJWK (rsaKey i) (rsaKid i)) # map the (extraKeys i))"
        "decodeJwk r = Inr j"
      using decodeEach_mem [OF conjunct2 [OF conjunct2 [OF conjunct2 [OF a]]] j(1)] by blast
    from r(1) consider "r = JObject (ecJWK (ecKey i) (ecKid i))" | "r = JObject (rsaJWK (rsaKey i) (rsaKid i))"
      | "Some r \<in> set (extraKeys i)" using a the_mem [of "extraKeys i" r] by auto
    then show ?thesis
    proof cases
      case 1
      then show ?thesis using r j assms(1) by (auto simp: decode_ecJWK issuer_inv_def)
    next
      case 2
      then show ?thesis using r j assms(1) by (auto simp: decode_rsaJWK issuer_inv_def)
    next
      case 3
      then have "harmless L K (Some r)" using assms(1) by (auto simp: issuer_inv_def)
      then show ?thesis using r(2) j by (auto simp: harmless_def)
    qed
  qed
  then show ?thesis by (simp add: safe_keys_def)
qed

lemma keySet_new:
  assumes "keySet L now disc v = (Inr c, v')"
  shows "cache v = Some c \<or> keys c = []"
  using assms by (auto simp: keySet_def newKeyCache_def Let_def split: option.splits if_splits sum.splits)

lemma keySet_refused:
  assumes "keySet L now disc v = (Inl e, v')"
  shows "cache v = None \<and> cache v' = None"
  using assms by (auto simp: keySet_def Let_def split: option.splits if_splits sum.splits)

lemma keySet_caches: "keySet L now disc v = (Inr c, v') \<Longrightarrow> cache v' = Some c"
  by (auto simp: keySet_def Let_def split: option.splits if_splits sum.splits)

text \<open>After a call the keys are the ones before, none, or what the endpoint just published.\<close>

lemma keyFunc_keys:
  assumes "keyFunc L now later resp hdr c = (r, c')"
  shows "keys c' = keys c \<or> fetchKeys L resp = Inr (keys c')"
proof -
  have "c' = c \<or> (\<exists>q. keyFor L now later resp (headerString hdr ''kid'') c = (q, c'))"
    using assms by (auto simp: keyFunc_def Let_def split: if_splits prod.splits sum.splits pubkey.splits)
  then show ?thesis using keyFor_keys refresh_keys by metis
qed

lemma oidcVerify_keys:
  assumes "oidcVerify L now later disc resp raw v = (r, v')" "cache v' = Some c'"
  shows "keys c' = [] \<or> (\<exists>c. cache v = Some c \<and> keys c' = keys c) \<or> fetchKeys L resp = Inr (keys c')"
proof -
  obtain q u where q: "keySet L now disc v = (q, u)" by (cases "keySet L now disc v")
  show ?thesis
  proof (cases q)
    case (Inl e)
    with q have "cache v = None" "cache u = None" using keySet_refused by blast+
    then show ?thesis using assms q Inl by (auto simp: oidcVerify_def split: if_splits option.splits)
  next
    case (Inr c)
    note old = keySet_new [OF q [unfolded Inr]] keySet_caches [OF q [unfolded Inr]]
    have "v' = v \<or> v' = u \<or> (\<exists>hdr k c'. keyFunc L now later resp hdr c = (k, c') \<and> v' = u\<lparr>cache := Some c'\<rparr>)"
      using assms(1) q Inr by (auto simp: oidcVerify_def split: if_splits sum.splits prod.splits)
    then show ?thesis
    proof (elim disjE exE conjE)
      fix hdr k d
      assume k: "keyFunc L now later resp hdr c = (k, d)" and v': "v' = u\<lparr>cache := Some d\<rparr>"
      from v' assms(2) have "d = c'" by simp
      with keyFunc_keys [OF k] old show ?thesis by metis
    qed (use assms(2) old in auto)
  qed
qed

lemma verify_keeps_safe:
  assumes "issuer_inv L K i" "safe_verifier K v" "oidcVerify L now later disc (askJWKS i) raw v = (r, v')"
  shows "safe_verifier K v'"
proof (cases "cache v'")
  case (Some c')
  from oidcVerify_keys [OF assms(3) Some] have "safe_keys K (keys c')"
    using fetched_safe [OF assms(1)] assms(2) by (auto simp: safe_keys_def safe_verifier_def)
  then show ?thesis by (simp add: safe_verifier_def Some)
qed (simp add: safe_verifier_def)

lemma countFetch_same:
  "\<exists>n. countFetch L now raw v i = i\<lparr>jwksFetches := n\<rparr>"
  by (auto simp: countFetch_def guardIssuer_def handleJWKS_def Let_def intro: exI [of _ "jwksFetches i"])

lemma symmetric_harmless: "harmless L K (Some (JObject [(''kty'', JString ''oct''), (''kid'', JString kid), (''alg'', JString ''HS256''),
       (''use'', JString ''sig''), (''k'', JString s)]))"
  unfolding harmless_def option.case decode_octJWK sum.case by (simp add: parseJwk_def)

lemma weak_harmless: "rsaSized 1024 key \<Longrightarrow> harmless L K (Some (JObject (rsaJWK key kid)))"
  unfolding harmless_def option.case decode_rsaJWK sum.case by (simp add: parse_rsaJWK)

lemmas issuer_ops = Rotate_def PublishRawKey_def PublishSymmetricKey_def PublishWeakRSAKey_def SetOffline_def SetJWKSDelay_def
  SetDiscoveryIssuer_def closeIssuer_def

lemma sysrun_inv:
  assumes "sysrun L K i v"
  shows "issuer_inv L K i \<and> safe_verifier K v \<and> verifierFor i (opts v)"
  using assms
proof (induction rule: sysrun.induct)
  case (start ek rk url i o' v)
  then show ?case
    by (auto simp: NewIssuer_def NewOIDCVerifier_def issuer_inv_def safe_verifier_def verifierFor_def JWKSURL_def Let_def split: if_splits)
next
  case (verify i v now later raw r v')
  obtain n where n: "countFetch L now raw v i = i\<lparr>jwksFetches := n\<rparr>" using countFetch_same by blast
  have "safe_verifier K v'" using verify_keeps_safe verify by blast
  moreover have "opts v' = opts v" using oidcVerify_opts verify.hyps(2) by blast
  ultimately show ?case using verify.IH by (auto simp: n issuer_inv_def verifierFor_def JWKSURL_def)
qed (auto simp: issuer_ops issuer_inv_def verifierFor_def JWKSURL_def symmetric_harmless weak_harmless)

section \<open>The promises of the JWT library\<close>

text \<open>A signed token carries the header it was signed with, and is not blank.\<close>

definition signed_header :: "jwtlib \<Rightarrow> jwtsigner \<Rightarrow> bool" where
  "signed_header L S \<longleftrightarrow> (\<forall>alg hdr cl key tok. SignedString S alg hdr cl key = Inr tok \<longrightarrow>
     jwtHeader L tok = Inr hdr \<and> trim_space tok \<noteq> [])"

text \<open>The registered claims as \<open>ParseWithClaims\<close> checks them at \<open>now\<close>, with the leeway in its
  favour: issuer, audience, an expiry that is present (as \<open>ExpirationRequired\<close> demands) and ahead, and a
  start that has passed.\<close>

definition claims_valid :: "int \<Rightarrow> parse_options \<Rightarrow> (string \<times> json) list \<Rightarrow> bool" where
  "claims_valid now o' cl \<longleftrightarrow> map_of cl ''iss'' = Some (JString (Issuer o')) \<and> map_of cl ''aud'' = Some (JString (Audience o'))
     \<and> (\<exists>x. map_of cl ''exp'' = Some (JNumber (show_int x)) \<and> now < x * 1000000000 + Leeway o')
     \<and> (\<exists>x. map_of cl ''nbf'' = Some (JNumber (show_int x)) \<and> x * 1000000000 - Leeway o' \<le> now)"

fun publicOf :: "signingKey \<Rightarrow> pubkey option" where
  "publicOf (ECDSAKey k) = Some (ECKey ''P-256'' (ecX k) (ecY k))"
| "publicOf (RSAPrivateKey k) = Some (RSAKey (rsaN k) (rsaE k))"
| "publicOf _ = None"

text \<open>Verification of a token whose header names the algorithm it was signed with, under the public half of
  the key that signed it and with valid claims, gives the claims back.\<close>

definition signature_verifies :: "jwtlib \<Rightarrow> jwtsigner \<Rightarrow> int \<Rightarrow> bool" where
  "signature_verifies L S now \<longleftrightarrow> (\<forall>alg hdr cl key tok pub o'. SignedString S alg hdr cl key = Inr tok \<longrightarrow>
     headerString hdr ''alg'' = alg \<longrightarrow> publicOf key = Some pub \<longrightarrow> claims_valid now o' cl \<longrightarrow> jwtVerify L tok pub o' = Inr cl)"

lemma signToken_Inr: "signToken S alg key kid cl = Inr tok \<longleftrightarrow> SignedString S alg (tokenHeader alg kid) cl key = Inr tok"
  by (auto simp: signToken_def split: sum.splits)

lemma headerString_tokenHeader [simp]:
  "headerString (tokenHeader alg kid) ''alg'' = alg" "headerString (tokenHeader alg kid) ''kid'' = kid"
  by (simp_all add: headerString_def tokenHeader_def)

lemma signToken_header:
  assumes "signed_header L S" "signToken S alg key kid cl = Inr tok"
  shows "jwtHeader L tok = Inr (tokenHeader alg kid) \<and> trim_space tok \<noteq> []"
  using assms unfolding signed_header_def signToken_Inr by blast

section \<open>Forgeries\<close>

text \<open>The tokens an attacker can mint with this issuer: unsigned, signed with the public key as an HMAC
  secret, signed with a published symmetric key, signed with the RSA key under another algorithm
  than the published one, and signed under an id with no usable key.\<close>

inductive forgery :: "jwtsigner \<Rightarrow> string set \<Rightarrow> TestIssuer \<Rightarrow> string \<Rightarrow> bool" for S K i where
  unsigned: "SignNone S i cl = Inr tok \<Longrightarrow> forgery S K i tok"
| confusion: "SignHS256WithRSAPublicKey S i cl = Inr tok \<Longrightarrow> forgery S K i tok"
| shared: "SignHMAC S kid secret cl = Inr tok \<Longrightarrow> forgery S K i tok"
| substituted: "SignPS256 S i cl = Inr tok \<Longrightarrow> forgery S K i tok"
| unknown: "kid \<in> K \<Longrightarrow> SignWithKid S i kid cl = Inr tok \<Longrightarrow> forgery S K i tok"
| undersized: "kid \<in> K \<Longrightarrow> SignRSAWith S key kid cl = Inr tok \<Longrightarrow> forgery S K i tok"

lemmas sign_defs = Sign_def SignRSA_def SignPS256_def SignWithKid_def SignNone_def SignHS256WithRSAPublicKey_def SignHMAC_def SignRSAWith_def

lemma forgery_header:
  assumes "signed_header L S" "forgery S K i tok"
  shows "trim_space tok \<noteq> [] \<and> (\<exists>alg kid. jwtHeader L tok = Inr (tokenHeader alg kid)
     \<and> (alg \<in> {''none'', ''HS256''} \<or> alg = ''PS256'' \<and> kid = rsaKid i \<or> kid \<in> K))"
  using assms(2)
proof cases
  case (confusion cl)
  then show ?thesis using signToken_header [OF assms(1)] by (auto simp: sign_defs split: sum.splits)
qed (use signToken_header [OF assms(1)] in \<open>auto simp: sign_defs\<close>)

lemma oidcVerify_Inl:
  assumes "oidcVerify L now later disc resp raw v = (Inl e, v')" "trim_space raw \<noteq> []"
  shows "errorsIs e ErrInvalidToken"
proof -
  have "errorsIs (invalidToken e') ErrInvalidToken" for e' by (simp add: invalidToken_def)
  moreover have "principalFrom o' cl = Inl e' \<Longrightarrow> errorsIs e' ErrInvalidToken" for o' cl e'
    by (auto simp: principalFrom_def Let_def split: sum.splits if_splits)
  ultimately show ?thesis
    using assms by (auto simp: oidcVerify_def split: if_splits prod.splits sum.splits option.splits)
qed

text \<open>
  C6: No forgery gets in. Whatever the issuer and the verifier went through - rotations, outages, hostile
  publications, other tokens - an unsigned token, a token signed with the public key or any other
  secret as an HMAC key, a token that uses the RSA key under an algorithm it was not published for,
  and a token under a key id with no usable key (unknown, or published with an undersized or symmetric
  key) is refused as an invalid token.
\<close>

theorem forged_tokens_refused:
  assumes lib: "signed_header L S" and minted: "sysrun L K i\<^sub>0 v\<^sub>0" "forgery S K i\<^sub>0 tok" and run: "sysrun L K i v"
  shows "\<exists>e v'. oidcVerify L now later (askDiscovery i) (askJWKS i) tok v = (Inl e, v') \<and> errorsIs e ErrInvalidToken"
proof -
  obtain r v' where ver: "oidcVerify L now later (askDiscovery i) (askJWKS i) tok v = (r, v')"
    by (cases "oidcVerify L now later (askDiscovery i) (askJWKS i) tok v")
  obtain alg kid where h: "trim_space tok \<noteq> []" "jwtHeader L tok = Inr (tokenHeader alg kid)"
      "alg \<in> {''none'', ''HS256''} \<or> alg = ''PS256'' \<and> kid = rsaKid i\<^sub>0 \<or> kid \<in> K"
    using forgery_header [OF lib minted(2)] by blast
  have rsa: "rsaKid i\<^sub>0 = ''rsa-key-1''" using sysrun_inv [OF minted(1)] by (simp add: issuer_inv_def)
  show ?thesis
  proof (cases r)
    case (Inr p)
    obtain c pk where c: "cache v' = Some c" "map_of (keys c) kid = Some pk" "alg \<in> set signingAlgorithms"
        "palg pk = [] \<or> palg pk = alg"
      using oidcVerify_Inr [OF ver [unfolded Inr]] h(2) by auto
    have "safe_keys K (keys c)"
      using sysrun_inv [OF sysrun.verify [OF run ver]] c(1) by (simp add: safe_verifier_def)
    with c(2) have "kid \<notin> K" "kid = ''rsa-key-1'' \<longrightarrow> palg pk = ''RS256''" by (auto simp: safe_keys_def)
    with c(3,4) h(3) rsa show ?thesis by (auto simp: signingAlgorithms_def)
  qed (use ver oidcVerify_Inl [OF _ h(1)] in auto)
qed

section \<open>Honest tokens\<close>

lemma mapLiteral_lookup: "map_of (mapLiteral kvs) = map_of (rev kvs)"
  by (induction kvs rule: rev_induct) (auto simp: mapLiteral_def update_conv')

lemma DefaultClaims_lookup:
  assumes "iTenantClaim i = ''tenant_id''" "iScopeClaim i = ''scope''"
  shows "map_of (DefaultClaims t i) ''iss'' = Some (JString (iURL i))" "map_of (DefaultClaims t i) ''aud'' = Some (JString (iAudience i))"
    "map_of (DefaultClaims t i) ''sub'' = Some (JString ''user-123'')"
    "map_of (DefaultClaims t i) ''exp'' = Some (JNumber (unixSeconds (t + 3600 * 1000000000)))"
    "map_of (DefaultClaims t i) ''nbf'' = Some (JNumber (unixSeconds (t - 60 * 1000000000)))"
    "map_of (DefaultClaims t i) ''tenant_id'' = Some (JString ''tenant-a'')"
    "map_of (DefaultClaims t i) ''scope'' = Some (JString ''orders:read orders:write'')"
  by (simp_all add: DefaultClaims_def mapLiteral_lookup assms)

lemma DefaultClaims_valid:
  assumes "iTenantClaim i = ''tenant_id''" "iScopeClaim i = ''scope''" "t \<le> now" "now < t + 3599 * 1000000000" "0 \<le> lw"
  shows "claims_valid now \<lparr>Issuer = iURL i, Audience = iAudience i, Leeway = lw, ExpirationRequired = True\<rparr> (DefaultClaims t i)"
proof -
  have "now < (t + 3600 * 1000000000) div 1000000000 * 1000000000 + lw" using assms(4,5) by linarith
  moreover have "(t - 60 * 1000000000) div 1000000000 * 1000000000 - lw \<le> now" using assms(3,5) by linarith
  ultimately show ?thesis
    unfolding claims_valid_def parse_options.simps DefaultClaims_lookup [OF assms(1,2)] unixSeconds_def by blast
qed

lemma DefaultClaims_principal:
  assumes "iTenantClaim i = ''tenant_id''" "iScopeClaim i = ''scope''" "TenantClaim o' = ''tenant_id''" "ScopeClaim o' = ''scope''"
  shows "\<exists>p. principalFrom o' (DefaultClaims t i) = Inr p \<and> Subject p = ''user-123'' \<and> pTenantID p = ''tenant-a''
    \<and> Scopes p = [''orders:read'', ''orders:write'']"
proof -
  have "trim_space ''tenant-a'' \<noteq> []" "str_fields ''orders:read orders:write'' = [''orders:read'', ''orders:write'']"
    by code_simp+
  then show ?thesis
    by (simp add: principalFrom_def assms DefaultClaims_lookup stringClaim_def scopesClaim_def lookupClaim_def Let_def)
qed

lemma collectKeys_keeps:
  assumes "map_of out kid = Some pk" "\<forall>j \<in> set js. isl (parseJwk L j) \<or> Kid j \<noteq> kid"
  shows "map_of (collectKeys L js out) kid = Some pk"
  using assms
  by (induction L js out rule: collectKeys.induct) (auto simp: map_of_filter_neq split: sum.splits)

lemma decodeEach_total: "\<forall>r \<in> set vs. \<exists>j. decodeJwk r = Inr j \<and> P j \<Longrightarrow> \<exists>js. decodeEach vs = Inr js \<and> (\<forall>j \<in> set js. P j)"
  by (induction vs) fastforce+

text \<open>The issuer answers, and nothing else it publishes takes the place of its signing key.\<close>

definition answering :: "jwtlib \<Rightarrow> TestIssuer \<Rightarrow> bool" where
  "answering L i \<longleftrightarrow> \<not> iClosed i \<and> \<not> offline i \<and> discoveryIssuer i = None \<and> ecKid i \<noteq> [] \<and> None \<notin> set (extraKeys i)
     \<and> (\<forall>r \<in> set (map the (extraKeys i)). \<exists>j. decodeJwk r = Inr j \<and> (isl (parseJwk L j) \<or> Kid j \<noteq> ecKid i))"

lemma published_key_found:
  assumes "issuer_inv L K i" "answering L i"
  shows "\<exists>ks. fetchKeys L (askJWKS i) = Inr ks \<and> ks \<noteq> []
    \<and> map_of ks (ecKid i) = Some \<lparr>pkey = ECKey ''P-256'' (ecX (ecKey i)) (ecY (ecKey i)), palg = ''ES256''\<rparr>"
proof -
  let ?pk = "\<lparr>pkey = ECKey ''P-256'' (ecX (ecKey i)) (ecY (ecKey i)), palg = ''ES256''\<rparr>"
  obtain js where js: "decodeEach (map the (extraKeys i)) = Inr js" "\<forall>j \<in> set js. isl (parseJwk L j) \<or> Kid j \<noteq> ecKid i"
    using decodeEach_total [of "map the (extraKeys i)" "\<lambda>j. isl (parseJwk L j) \<or> Kid j \<noteq> ecKid i"] assms(2)
    unfolding answering_def by blast
  have ec: "ecUsable L (ecKey i)" and rsa: "rsaSized 2048 (rsaKey i)" "rsaKid i \<noteq> ecKid i"
    using assms(1) by (auto simp: issuer_inv_def)
  have "fetchKeys L (askJWKS i) = Inr (collectKeys L js [(rsaKid i, \<lparr>pkey = RSAKey (rsaN (rsaKey i)) (rsaE (rsaKey i)), palg = ''RS256''\<rparr>), (ecKid i, ?pk)])"
    using assms js(1) rsa
    by (auto simp: askJWKS_def guardIssuer_def handleJWKS_def decodeJwks_def answering_def decode_ecJWK decode_rsaJWK fetchKeys_def
        parse_ecJWK [OF ec] parse_rsaJWK [OF rsa(1)] issuer_inv_def)
  moreover have "map_of (collectKeys L js [(rsaKid i, \<lparr>pkey = RSAKey (rsaN (rsaKey i)) (rsaE (rsaKey i)), palg = ''RS256''\<rparr>), (ecKid i, ?pk)]) (ecKid i)
      = Some ?pk"
    by (rule collectKeys_keeps) (use js(2) rsa(2) in auto)
  ultimately show ?thesis by (metis map_of.simps(1) option.distinct(1))
qed

text \<open>The verifier may ask: its cache has no key under the id and its refresh window is open, or it has no
  cache yet and may discover.\<close>

definition ready :: "int \<Rightarrow> string \<Rightarrow> OIDCVerifier \<Rightarrow> bool" where
  "ready now kid v = (case cache v of
     Some c \<Rightarrow> map_of (keys c) kid = None \<and> \<not> rateLimited now c
   | None \<Rightarrow> oJWKSURL (opts v) \<noteq> [] \<or> oMinRefresh (opts v) \<le> since now (lastDiscovery v) \<or> lastDiscovery v = None)"

lemma keySet_ready:
  assumes "ready now kid v" "verifierFor i (opts v)" "answering L i"
    "requireSecureURL L (JWKSURL i) ''jwks_uri'' (oAllowInsecureIssuer (opts v)) = None"
  shows "\<exists>c v'. keySet L now (askDiscovery i) v = (Inr c, v') \<and> opts v' = opts v \<and> map_of (keys c) kid = None \<and> \<not> rateLimited now c"
proof (cases "cache v")
  case None
  have d: "discover L (opts v) (askDiscovery i) = Inr (JWKSURL i)"
    using assms(2-4) by (auto simp: discover_def askDiscovery_def guardIssuer_def handleDiscovery_def decodeDiscovery_def answering_def
        verifierFor_def Let_def JWKSURL_def)
  show ?thesis
    using assms(1) None d by (auto simp: ready_def keySet_def Let_def newKeyCache_def rateLimited_def)
qed (use assms(1) in \<open>auto simp: ready_def keySet_def\<close>)

lemma keyFor_fetches:
  assumes "map_of (keys c) kid = None" "\<not> rateLimited now c" "fetchKeys L resp = Inr ks" "map_of ks kid = Some pk"
  shows "\<exists>c'. keyFor L now later resp kid c = (Inr pk, c')"
proof -
  have "ks \<noteq> []" using assms(4) by auto
  then show ?thesis using assms by (simp add: keyFor_def lookup_def refresh_def Let_def)
qed

text \<open>
  C9: An honest token is accepted, also right after a rotation. When the issuer answers and the verifier may
  ask it (it is cold, or it does not hold the signing key yet and its refresh window is open), a token
  signed with the issuer's current key and its default claims, within the hour it is valid for, yields
  the principal of those claims: the verifier fetches the key it did not know instead of refusing.
\<close>

theorem minted_token_accepted:
  assumes lib: "signed_header L S" "signature_verifies L S now" and run: "sysrun L K i v"
    and up: "answering L i" "ready now (ecKid i) v"
    and url: "requireSecureURL L (JWKSURL i) ''jwks_uri'' (oAllowInsecureIssuer (opts v)) = None"
    and tok: "Sign S i (DefaultClaims t i) = Inr tok" "t \<le> now" "now < t + 3599 * 1000000000" "0 \<le> oLeeway (opts v)"
  shows "\<exists>p v'. oidcVerify L now later (askDiscovery i) (askJWKS i) tok v = (Inr p, v') \<and> Subject p = ''user-123''
    \<and> pTenantID p = ''tenant-a'' \<and> Scopes p = [''orders:read'', ''orders:write'']"
proof -
  have inv: "issuer_inv L K i" "verifierFor i (opts v)" using sysrun_inv [OF run] by blast+
  then have cl: "iTenantClaim i = ''tenant_id''" "iScopeClaim i = ''scope''" by (simp_all add: issuer_inv_def)
  obtain c u where c: "keySet L now (askDiscovery i) v = (Inr c, u)" "opts u = opts v" "map_of (keys c) (ecKid i) = None" "\<not> rateLimited now c"
    using keySet_ready [OF up(2) inv(2) up(1) url] by blast
  obtain ks where ks: "fetchKeys L (askJWKS i) = Inr ks"
      "map_of ks (ecKid i) = Some \<lparr>pkey = ECKey ''P-256'' (ecX (ecKey i)) (ecY (ecKey i)), palg = ''ES256''\<rparr>"
    using published_key_found [OF inv(1) up(1)] by blast
  obtain c' where k: "keyFor L now later (askJWKS i) (ecKid i) c = (Inr \<lparr>pkey = ECKey ''P-256'' (ecX (ecKey i)) (ecY (ecKey i)), palg = ''ES256''\<rparr>, c')"
    using keyFor_fetches [OF c(3,4) ks] by blast
  have h: "jwtHeader L tok = Inr (tokenHeader ''ES256'' (ecKid i))" "trim_space tok \<noteq> []"
    using signToken_header [OF lib(1) tok(1) [unfolded Sign_def]] by simp_all
  have "claims_valid now \<lparr>Issuer = oIssuerURL (opts u), Audience = oAudience (opts u), Leeway = oLeeway (opts u), ExpirationRequired = True\<rparr> (DefaultClaims t i)"
    using DefaultClaims_valid [OF cl tok(2-4)] inv(2) c(2) by (simp add: verifierFor_def)
  then have j: "jwtVerify L tok (ECKey ''P-256'' (ecX (ecKey i)) (ecY (ecKey i)))
      \<lparr>Issuer = oIssuerURL (opts u), Audience = oAudience (opts u), Leeway = oLeeway (opts u), ExpirationRequired = True\<rparr> = Inr (DefaultClaims t i)"
    using tok(1) unfolding Sign_def signToken_Inr
    by (intro lib(2) [unfolded signature_verifies_def, rule_format, of "''ES256''" "tokenHeader ''ES256'' (ecKid i)" _ "ECDSAKey (ecKey i)"]) simp_all
  have o': "TenantClaim (claim_options.truncate (opts u)) = ''tenant_id''" "ScopeClaim (claim_options.truncate (opts u)) = ''scope''"
    using inv(2) cl c(2) by (simp_all add: verifierFor_def claim_options.truncate_def)
  have "ecKid i \<noteq> []" using up(1) by (simp add: answering_def)
  then show ?thesis
    using DefaultClaims_principal [OF cl o', of t] c(1) h k j
    by (auto simp: oidcVerify_def keyFunc_def signingAlgorithms_def Let_def)
qed

text \<open>
  C29: Rotation cuts off the tokens of the old key. The issuer publishes only its current key and a refresh
  replaces the whole key set, so once the verifier has fetched after a rotation, every token signed with
  the key before it is refused, however long its claims are still valid: the verifier has thrown
  the old key away.
\<close>

theorem rotation_refuses_old_tokens:
  assumes lib: "signed_header L S" and run: "sysrun L K i v\<^sub>0" and tok: "Sign S i cl = Inr tok"
    and rot: "Rotate (Inr key) newKid i = Inr i'" "ecUsable L key" "newKid \<notin> {''rsa-key-1'', ecKid i}"
    and extra: "\<forall>raw \<in> set (extraKeys i). harmless L {ecKid i} raw"
    and fetched: "cache v = Some c" "fetchKeys L (askJWKS i') = Inr (keys c)"
  shows "\<exists>e v'. oidcVerify L now later (askDiscovery i') (askJWKS i') tok v = (Inl e, v') \<and> errorsIs e ErrInvalidToken"
proof -
  obtain r v' where ver: "oidcVerify L now later (askDiscovery i') (askJWKS i') tok v = (r, v')"
    by (cases "oidcVerify L now later (askDiscovery i') (askJWKS i') tok v")
  have inv: "issuer_inv L {ecKid i} i'"
    using sysrun_inv [OF run] rot extra by (auto simp: Rotate_def issuer_inv_def)
  have h: "jwtHeader L tok = Inr (tokenHeader ''ES256'' (ecKid i))" "trim_space tok \<noteq> []"
    using signToken_header [OF lib tok [unfolded Sign_def]] by simp_all
  have "safe_verifier {ecKid i} v" using fetched_safe [OF inv fetched(2)] fetched(1) by (simp add: safe_verifier_def)
  then have safe: "safe_verifier {ecKid i} v'" using verify_keeps_safe [OF inv _ ver] by blast
  show ?thesis
  proof (cases r)
    case (Inr p)
    then obtain c pk where "cache v' = Some c" "map_of (keys c) (ecKid i) = Some pk"
      using oidcVerify_Inr [OF ver [unfolded Inr]] h(1) by auto
    with safe show ?thesis by (auto simp: safe_verifier_def safe_keys_def)
  qed (use ver oidcVerify_Inl [OF _ h(2)] in auto)
qed

section \<open>A run on concrete keys\<close>

definition sampleEC :: ecdsaKey where
  "sampleEC = \<lparr>ecX = 5, ecY = 7, ecD = 3\<rparr>"

definition sampleRSA :: rsaKeyPair where
  "sampleRSA = \<lparr>rsaN = 2 ^ 2047 + 1, rsaE = 65537, rsaD = 11\<rparr>"

definition sampleIssuer :: TestIssuer where
  "sampleIssuer = \<lparr>iURL = ''http://127.0.0.1:1'', iClosed = False, ecKey = sampleEC, ecKid = ''ec-key-1'', rsaKey = sampleRSA,
     rsaKid = ''rsa-key-1'', extraKeys = [], jwksFetches = 0, offline = False, jwksDelay = 0, discoveryIssuer = None,
     iAudience = ''orderd'', iTenantClaim = ''tenant_id'', iScopeClaim = ''scope''\<rparr>"

text \<open>A library that knows one honest token and one unsigned one.\<close>

definition demoSigner :: jwtsigner where
  "demoSigner = \<lparr>SignedString = (\<lambda>alg hdr cl key.
       if hdr = tokenHeader ''ES256'' ''ec-key-1'' \<and> cl = DefaultClaims 0 sampleIssuer \<and> key = ECDSAKey sampleEC then Inr ''tok''
       else if hdr = tokenHeader ''none'' ''ec-key-1'' \<and> cl = [] \<and> key = UnsafeAllowNone then Inr ''forged''
       else Inl (Plain ''unsupported'')),
     publicPEM = (\<lambda>n e. Inl (Plain ''unsupported''))\<rparr>"

definition demoLib :: jwtlib where
  "demoLib = \<lparr>jwtHeader = (\<lambda>raw. if raw = ''tok'' then Inr (tokenHeader ''ES256'' ''ec-key-1'')
        else if raw = ''forged'' then Inr (tokenHeader ''none'' ''ec-key-1'') else Inl (Plain ''malformed'')),
     jwtVerify = (\<lambda>raw k o'. if raw = ''tok'' \<and> k = ECKey ''P-256'' 5 7 then Inr (DefaultClaims 0 sampleIssuer) else Inl (Plain ''bad signature'')),
     urlParse = (\<lambda>u. Inr (''http'', ''127.0.0.1'')), isLoopbackIP = (\<lambda>h. h = ''127.0.0.1''), ecdhCheck = (\<lambda>c p. None)\<rparr>"

definition demoVerifier :: OIDCVerifier where
  "demoVerifier = \<lparr>opts = \<lparr>TenantClaim = ''tenant_id'', ScopeClaim = ''scope'', ServiceClaim = [], oIssuerURL = ''http://127.0.0.1:1'',
     oAudience = ''orderd'', oJWKSURL = [], oLeeway = 0, oAllowInsecureIssuer = False, oMaxKeyAge = 900, oMinRefresh = 30\<rparr>,
     lastDiscovery = None, cache = None, discoverErr = None\<rparr>"

lemma demo_header: "signed_header demoLib demoSigner"
proof -
  have "trim_space ''tok'' \<noteq> []" "trim_space ''forged'' \<noteq> []" by code_simp+
  then show ?thesis by (simp add: signed_header_def demoLib_def demoSigner_def)
qed

lemma demo_signature: "signature_verifies demoLib demoSigner now"
  by (auto simp: signature_verifies_def demoLib_def demoSigner_def sampleEC_def split: if_splits)

lemma demo_usable: "ecUsable demoLib sampleEC"
  by (simp add: ecUsable_def demoLib_def sampleEC_def)

lemma demo_sized: "rsaSized 2048 sampleRSA"
proof -
  have "(2::nat) ^ 2047 + 1 < 2 ^ Suc 2047" by (simp add: power_add [symmetric])
  then have "bitLen (2 ^ 2047 + 1) = Suc 2047" by (intro bitLen_bounds) simp_all
  then show ?thesis by (simp add: rsaSized_def sampleRSA_def)
qed

lemma demo_run: "sysrun demoLib {''unknown''} sampleIssuer demoVerifier"
proof (rule sysrun.start [OF _ demo_usable demo_sized, where o' = "opts demoVerifier" and url = "''http://127.0.0.1:1''"])
  show "NewIssuer (Inr sampleEC) (Inr sampleRSA) ''http://127.0.0.1:1'' = Inr sampleIssuer"
    by (simp add: NewIssuer_def sampleIssuer_def)
  show "NewOIDCVerifier demoLib (opts demoVerifier) = Inr demoVerifier"
    by (simp add: NewOIDCVerifier_def demoVerifier_def demoLib_def requireSecureURL_def isLoopback_def)
qed (simp_all add: verifierFor_def demoVerifier_def sampleIssuer_def)

lemma demo_tokens: "SignNone demoSigner sampleIssuer [] = Inr ''forged''" "Sign demoSigner sampleIssuer (DefaultClaims 0 sampleIssuer) = Inr ''tok''"
  by (simp_all add: sign_defs signToken_def demoSigner_def sampleIssuer_def tokenHeader_def)

theorem forged_tokens_refused_witness:
  "\<exists>e v'. oidcVerify demoLib 5 6 (askDiscovery sampleIssuer) (askJWKS sampleIssuer) ''forged'' demoVerifier = (Inl e, v') \<and> errorsIs e ErrInvalidToken"
  by (rule forged_tokens_refused [OF demo_header demo_run forgery.unsigned [OF demo_tokens(1)] demo_run])

theorem minted_token_accepted_witness:
  "\<exists>p v'. oidcVerify demoLib 5 6 (askDiscovery sampleIssuer) (askJWKS sampleIssuer) ''tok'' demoVerifier = (Inr p, v')
    \<and> Subject p = ''user-123'' \<and> pTenantID p = ''tenant-a'' \<and> Scopes p = [''orders:read'', ''orders:write'']"
  by (rule minted_token_accepted [OF demo_header demo_signature demo_run _ _ _ demo_tokens(2)])
    (simp_all add: answering_def ready_def demoVerifier_def sampleIssuer_def requireSecureURL_def demoLib_def isLoopback_def JWKSURL_def)

text \<open>A verifier that fetched after the rotation to a second key.\<close>

definition rotatedIssuer :: TestIssuer where
  "rotatedIssuer = sampleIssuer\<lparr>ecKey := sampleEC, ecKid := ''ec-key-2''\<rparr>"

lemma demo_fetched: "\<exists>ks. fetchKeys demoLib (askJWKS rotatedIssuer) = Inr ks"
proof -
  have "sysrun demoLib {''unknown''} rotatedIssuer demoVerifier"
    by (rule sysrun.rotate [OF demo_run _ demo_usable, where newKid = "''ec-key-2''"]) (simp_all add: Rotate_def rotatedIssuer_def)
  then have "issuer_inv demoLib {''unknown''} rotatedIssuer" using sysrun_inv by blast
  moreover have "answering demoLib rotatedIssuer" by (simp add: answering_def rotatedIssuer_def sampleIssuer_def)
  ultimately show ?thesis using published_key_found by blast
qed

theorem rotation_refuses_old_tokens_witness:
  "\<exists>v e v'. oidcVerify demoLib 5 6 (askDiscovery rotatedIssuer) (askJWKS rotatedIssuer) ''tok'' v = (Inl e, v') \<and> errorsIs e ErrInvalidToken"
proof -
  obtain ks where ks: "fetchKeys demoLib (askJWKS rotatedIssuer) = Inr ks" using demo_fetched by blast
  let ?c = "(newKeyCache 30 900)\<lparr>keys := ks\<rparr>"
  have "Rotate (Inr sampleEC) ''ec-key-2'' sampleIssuer = Inr rotatedIssuer" by (simp add: Rotate_def rotatedIssuer_def)
  from rotation_refuses_old_tokens [OF demo_header demo_run demo_tokens(2) this demo_usable, where v = "demoVerifier\<lparr>cache := Some ?c\<rparr>" and c = ?c]
  show ?thesis using ks by (fastforce simp: sampleIssuer_def)
qed

end
