(* ===== verification/Edge.thy ===== *)
theory Edge
  imports Interceptors
begin

text \<open>
  The REST edge (\<open>internal/gateway\<close>): how a gRPC error becomes an HTTP response, which metadata
  reaches the client, which headers of a request become metadata, and the body limit. \<open>handleError\<close> starts
  from the error of the RPC and the header metadata the server sent, as the runtime hands them over; the
  generated transcoding is in \<open>Transcode\<close>.
\<close>

section \<open>Headers\<close>

text \<open>\<open>textproto.CanonicalMIMEHeaderKey\<close>: a key with a byte that no header field name may contain
  stays as it is.\<close>

definition validHeaderFieldByte :: "char \<Rightarrow> bool" where
  "validHeaderFieldByte c \<longleftrightarrow> (48 \<le> byte c \<and> byte c \<le> 57) \<or> (65 \<le> byte c \<and> byte c \<le> 90) \<or> (97 \<le> byte c \<and> byte c \<le> 122)
     \<or> c \<in> set ''!#$%&*+-.^_`|~'' \<or> byte c = 39"

fun canonicalFrom :: "bool \<Rightarrow> string \<Rightarrow> string" where
  "canonicalFrom upper [] = []"
| "canonicalFrom upper (c # cs) = (if upper then upper_byte c else lower_byte c) # canonicalFrom (c = CHR ''-'') cs"

definition CanonicalMIMEHeaderKey :: "string \<Rightarrow> string" where
  "CanonicalMIMEHeaderKey k = (if k = [] \<or> \<not> list_all validHeaderFieldByte k then k else canonicalFrom True k)"

text \<open>\<open>incomingHeaders\<close>; the matcher of grpc-gateway is the argument \<open>dflt\<close>.\<close>

definition incomingHeaders :: "(string \<Rightarrow> string option) \<Rightarrow> string \<Rightarrow> string option" where
  "incomingHeaders dflt key =
     (if CanonicalMIMEHeaderKey key \<in> {''Traceparent'', ''Tracestate''} then Some (map lower_byte key) else dflt key)"

definition isForwardable :: "string \<Rightarrow> bool" where
  "isForwardable key \<longleftrightarrow> key = ''retry-after'' \<or> key = ''x-request-id''"

definition isStandardHTTPHeader :: "string \<Rightarrow> bool" where
  "isStandardHTTPHeader key \<longleftrightarrow> key = ''retry-after''"

definition MetadataHeaderPrefix :: string where
  "MetadataHeaderPrefix = ''Grpc-Metadata-''"

text \<open>\<open>writeGRPCMetadata\<close>: the header lines it adds (\<open>Header.Add\<close> canonicalises the name); the list
  is the order of one iteration over the metadata.\<close>

fun writeGRPCMetadata :: "(string \<times> string list) list option \<Rightarrow> (string \<times> string) list" where
  "writeGRPCMetadata None = []"
| "writeGRPCMetadata (Some []) = []"
| "writeGRPCMetadata (Some ((key, vs) # md)) =
     (if \<not> isForwardable key then []
      else (let name = (if isStandardHTTPHeader key then key else MetadataHeaderPrefix @ key)
            in map (Pair (CanonicalMIMEHeaderKey name)) vs))
     @ writeGRPCMetadata (Some md)"

section \<open>Errors\<close>

record errorDetail =
  edCode :: string
  edReason :: string
  edMessage :: string
  edDetails :: "string list"
  edDomain :: string

record httpResponse =
  hStatus :: int
  hHeaders :: "(string \<times> string) list"
  hBody :: errorDetail
  hFallback :: bool

text \<open>\<open>status.Convert\<close>: an error that holds no status is \<open>Unknown\<close>.\<close>

definition statusConvert :: "goerr \<Rightarrow> codes \<times> string \<times> detail list" where
  "statusConvert e = (case statusFromError e of Some st \<Rightarrow> st | None \<Rightarrow> (Unknown, errorText e, []))"

text \<open>The loop over the details; \<open>protojson.Marshal\<close> is the argument, \<^const>\<open>None\<close> where it fails.\<close>

fun addDetails :: "(detail \<Rightarrow> string option) \<Rightarrow> detail list \<Rightarrow> errorDetail \<Rightarrow> errorDetail" where
  "addDetails toJSON [] b = b"
| "addDetails toJSON (d # ds) b = (case d of
     ErrorInfo r dm md \<Rightarrow> addDetails toJSON ds (b\<lparr>edReason := r, edDomain := dm\<rparr>)
   | _ \<Rightarrow> (case toJSON d of
       None \<Rightarrow> addDetails toJSON ds b
     | Some raw \<Rightarrow> addDetails toJSON ds (b\<lparr>edDetails := edDetails b @ [raw]\<rparr>)))"

text \<open>\<open>handleError\<close>: \<open>rows\<close> is the order in which the table of \<open>apperr\<close> is met, \<open>encErr\<close>
  whether writing the body fails, after which a plain error text follows.\<close>

definition handleError :: "(Kind \<times> kind_row) list \<Rightarrow> (detail \<Rightarrow> string option) \<Rightarrow> bool \<Rightarrow> (string \<times> string list) list option \<Rightarrow> goerr \<Rightarrow> httpResponse" where
  "handleError rows toJSON encErr md err = (case statusConvert err of (code, message, details) \<Rightarrow>
     \<lparr>hStatus = HTTPStatusFromCode rows code,
      hHeaders = (''Content-Type'', ''application/json'') # writeGRPCMetadata md,
      hBody = addDetails toJSON details \<lparr>edCode = code_name code, edReason = [], edMessage = message, edDetails = [], edDomain = []\<rparr>,
      hFallback = encErr\<rparr>)"

section \<open>Bodies\<close>

definition maxRequestBytes :: nat where
  "maxRequestBytes = 4 * 1024 * 1024"

text \<open>\<open>Handler\<close> over the mux, which reads the whole body: a longer one is an error of the read.\<close>

definition Handler :: "(goerr + string \<Rightarrow> 'r) \<Rightarrow> string \<Rightarrow> 'r" where
  "Handler mux body = mux (if maxRequestBytes < length body then Inl (Errorf ''http: request body too large'' []) else Inr body)"

section \<open>Lemmas\<close>

lemma canonical_lower: "map lower_byte (canonicalFrom u k) = map lower_byte k"
proof (induction u k rule: canonicalFrom.induct)
  case (2 upper c cs)
  then show ?case by (simp add: lower_byte_idem lower_upper_byte)
qed simp

lemma canonical_trace:
  assumes "CanonicalMIMEHeaderKey key = name" "name \<in> {''Traceparent'', ''Tracestate''}"
  shows "map lower_byte key = map lower_byte name"
  using assms canonical_lower [of True key] by (auto simp: CanonicalMIMEHeaderKey_def split: if_splits)

lemma writeGRPCMetadata_names:
  assumes "(n, v) \<in> set (writeGRPCMetadata md)"
  shows "(n = ''Retry-After'' \<and> (\<exists>m vs. md = Some m \<and> (''retry-after'', vs) \<in> set m \<and> v \<in> set vs))
    \<or> (n = ''Grpc-Metadata-X-Request-Id'' \<and> (\<exists>m vs. md = Some m \<and> (''x-request-id'', vs) \<in> set m \<and> v \<in> set vs))"
proof -
  have names: "CanonicalMIMEHeaderKey ''retry-after'' = ''Retry-After''"
      "CanonicalMIMEHeaderKey (MetadataHeaderPrefix @ ''x-request-id'') = ''Grpc-Metadata-X-Request-Id''" by code_simp+
  show ?thesis using assms
  proof (induction md rule: writeGRPCMetadata.induct)
    case (3 key vs md)
    then consider "(n, v) \<in> set (writeGRPCMetadata (Some md))" | "isForwardable key" "v \<in> set vs"
        "n = CanonicalMIMEHeaderKey (if isStandardHTTPHeader key then key else MetadataHeaderPrefix @ key)"
      by (auto simp: Let_def split: if_splits)
    then show ?case
    proof cases
      case 1
      then show ?thesis using 3(1) by auto
    next
      case 2
      then show ?thesis using names by (auto simp: isForwardable_def isStandardHTTPHeader_def)
    qed
  qed simp_all
qed

lemma writeGRPCMetadata_kept:
  "(''retry-after'', vs) \<in> set md \<Longrightarrow> v \<in> set vs \<Longrightarrow> (''Retry-After'', v) \<in> set (writeGRPCMetadata (Some md))"
proof (induction md)
  case (Cons a md)
  have "CanonicalMIMEHeaderKey ''retry-after'' = ''Retry-After''" by code_simp
  then show ?case using Cons by (cases a) (auto simp: isForwardable_def isStandardHTTPHeader_def Let_def)
qed simp

lemma addDetails_other:
  assumes "\<forall>d \<in> set ds. \<forall>r dm md. d \<noteq> ErrorInfo r dm md"
  shows "addDetails toJSON ds b = b\<lparr>edDetails := edDetails b @ List.map_filter toJSON ds\<rparr>"
  using assms
proof (induction ds arbitrary: b)
  case (Cons d ds)
  then show ?case by (cases d) (auto simp: List.map_filter_simps split: option.splits)
qed (simp add: List.map_filter_simps)

lemma handleError_own:
  assumes "mset rows = mset kindInfo" "mapErr ms err service = Some e" "statusFromError err = None \<or> asApp err \<noteq> None"
    and "k = KindOf (Some err)"
  shows "hStatus (handleError rows toJSON encErr md e) = HTTPStatus k"
    "hBody (handleError rows toJSON encErr md e) = addDetails toJSON (StDetails (ToStatus ms (Some err) service))
       \<lparr>edCode = code_name (GRPCCode k), edReason = [], edMessage = StMessage (ToStatus ms (Some err) service), edDetails = [], edDomain = []\<rparr>"
proof -
  have "ToError ms (Some err) service = Some e" using assms(2,3) by (auto simp: mapErr_def split: if_splits)
  then have "statusConvert e = (GRPCCode k, StMessage (ToStatus ms (Some err) service), StDetails (ToStatus ms (Some err) service))"
    unfolding ToError_StatusErr StCode_ToStatus assms(4) by (auto simp: statusConvert_def statusFromError_def)
  then show "hStatus (handleError rows toJSON encErr md e) = HTTPStatus k"
    "hBody (handleError rows toJSON encErr md e) = addDetails toJSON (StDetails (ToStatus ms (Some err) service))
       \<lparr>edCode = code_name (GRPCCode k), edReason = [], edMessage = StMessage (ToStatus ms (Some err) service), edDetails = [], edDomain = []\<rparr>"
    using http_status_of_code_agrees [OF assms(1), of k] by (simp_all add: handleError_def)
qed

lemma addDetails_code: "edCode (addDetails toJSON ds b) = edCode b" "edMessage (addDetails toJSON ds b) = edMessage b"
  by (induction toJSON ds b rule: addDetails.induct) (auto split: detail.splits option.splits)

lemma own_details:
  assumes "toApp err = AppErr k reason m meta ds w" "list_all ms (ErrorInfo reason service (if Redacts k then [] else meta) # ds)"
    and "\<forall>d \<in> set ds. \<forall>r dm md. d \<noteq> ErrorInfo r dm md"
  shows "addDetails toJSON (StDetails (ToStatus ms (Some err) service)) b
    = b\<lparr>edReason := reason, edDomain := service, edDetails := edDetails b @ List.map_filter toJSON ds\<rparr>"
  using assms GRPCCode_not_OK [of k] by (simp add: ToStatus_def Let_def addDetails_other)

section \<open>Properties\<close>

text \<open>
  C26: REST tells the client what gRPC tells it. An error of the service's own leaves the error
  interceptor as a gRPC status and the edge as an HTTP response: for every iteration order of the
  table the HTTP status is the one of the error's kind, the symbolic code is that of the gRPC
  status, a redacted kind says \<open>internal error\<close> only, and when its details marshal the reason, the
  service as domain and every other detail are in the body. Beside the content type, only
  \<open>retry-after\<close> and \<open>x-request-id\<close> of the server's metadata become headers.
\<close>

theorem rest_error_mirrors_grpc:
  assumes "mset rows = mset kindInfo" "mapErr ms err service = Some e" "statusFromError err = None \<or> asApp err \<noteq> None"
    and "toApp err = AppErr k reason m meta ds w" "R = handleError rows toJSON encErr md e"
  shows "hStatus R = HTTPStatus k \<and> edCode (hBody R) = code_name (GRPCCode k)
    \<and> edMessage (hBody R) = (if Redacts k then ''internal error'' else m)
    \<and> (list_all ms (ErrorInfo reason service (if Redacts k then [] else meta) # ds) \<and> (\<forall>d \<in> set ds. \<forall>r dm md. d \<noteq> ErrorInfo r dm md) \<longrightarrow>
         edReason (hBody R) = reason \<and> edDomain (hBody R) = service \<and> edDetails (hBody R) = List.map_filter toJSON ds)
    \<and> (\<forall>(n, v) \<in> set (hHeaders R). n = ''Content-Type''
         \<or> (\<exists>m' vs. md = Some m' \<and> v \<in> set vs \<and> (n = ''Retry-After'' \<and> (''retry-after'', vs) \<in> set m'
              \<or> n = ''Grpc-Metadata-X-Request-Id'' \<and> (''x-request-id'', vs) \<in> set m')))"
proof -
  have k: "k = KindOf (Some err)" by (rule toApp_cases [of err]) (use assms(4) in simp)
  note own = handleError_own [OF assms(1-3) k, of toJSON encErr md, folded assms(5)]
  have msg: "StMessage (ToStatus ms (Some err) service) = (if Redacts k then ''internal error'' else m)"
    by (simp add: ToStatus_def assms(4) Let_def)
  have "edReason (hBody R) = reason \<and> edDomain (hBody R) = service \<and> edDetails (hBody R) = List.map_filter toJSON ds"
    if "list_all ms (ErrorInfo reason service (if Redacts k then [] else meta) # ds)" "\<forall>d \<in> set ds. \<forall>r dm md. d \<noteq> ErrorInfo r dm md"
    unfolding own(2) own_details [OF assms(4) that] by simp
  moreover have "n = ''Content-Type'' \<or> (\<exists>m' vs. md = Some m' \<and> v \<in> set vs \<and> (n = ''Retry-After'' \<and> (''retry-after'', vs) \<in> set m'
              \<or> n = ''Grpc-Metadata-X-Request-Id'' \<and> (''x-request-id'', vs) \<in> set m'))" if "(n, v) \<in> set (hHeaders R)" for n v
  proof -
    have "hHeaders R = (''Content-Type'', ''application/json'') # writeGRPCMetadata md" by (simp add: assms(5) handleError_def split: prod.split)
    then have "n = ''Content-Type'' \<or> (n, v) \<in> set (writeGRPCMetadata md)" using that by auto
    then show ?thesis using writeGRPCMetadata_names [of n v md] by blast
  qed
  ultimately show ?thesis using own(1) by (auto simp: own(2) addDetails_code msg)
qed

theorem rest_error_mirrors_grpc_witness:
  "hStatus (handleError kindInfo (\<lambda>_. Some ''{}'') False None (StatusErr NotFound ''no such order'' [ErrorInfo ''ORDER_NOT_FOUND'' ''orderd'' []])) = 404"
proof -
  let ?err = "appNew KindNotFound ''ORDER_NOT_FOUND'' ''no such order''"
  have m: "mapErr (\<lambda>_. True) ?err ''orderd'' = Some (StatusErr NotFound ''no such order'' [ErrorInfo ''ORDER_NOT_FOUND'' ''orderd'' []])" by code_simp
  have a: "toApp ?err = AppErr KindNotFound ''ORDER_NOT_FOUND'' ''no such order'' [] [] None" by (simp add: toApp_def appNew_def)
  have "HTTPStatus KindNotFound = 404" by code_simp
  moreover have "statusFromError ?err = None \<or> asApp ?err \<noteq> None" by (simp add: appNew_def)
  ultimately show ?thesis using rest_error_mirrors_grpc [OF refl m _ a refl, of "\<lambda>_. Some ''{}''" False None] by presburger
qed

text \<open>
  C32: A client over its quota learns when to come back, on REST as on gRPC. When the rate limiter refuses
  a request, the response of the edge is 429 with the reason \<open>RATE_LIMITED\<close> and a
  \<open>Retry-After\<close> header of at least one second, never earlier than the limiter's own delay.
\<close>

theorem rate_limited_over_rest:
  assumes "mset rows = mset kindInfo" "checkQuota sd lim c mth w = (Some err, w')" "mapErr ms err service = Some e"
    and "\<forall>d. ms d" "\<forall>(k, v) \<in> set (headers w'). \<exists>vs. (k, vs) \<in> set md \<and> v \<in> set vs"
  shows "\<exists>p r b. PrincipalFrom c = Some p \<and> lim (limitKey (pTenantID p) mth) (backend w) = (Inr r, b) \<and> \<not> Allowed r
    \<and> hStatus (handleError rows toJSON encErr (Some md) e) = 429
    \<and> edReason (hBody (handleError rows toJSON encErr (Some md) e)) = ''RATE_LIMITED''
    \<and> (''Retry-After'', show_int (retrySeconds r)) \<in> set (hHeaders (handleError rows toJSON encErr (Some md) e))
    \<and> 1 \<le> retrySeconds r \<and> RetryAfter r \<le> retrySeconds r * 1000000000"
proof -
  obtain p r b where q: "PrincipalFrom c = Some p" "lim (limitKey (pTenantID p) mth) (backend w) = (Inr r, b)" "\<not> Allowed r"
      "err = quotaExceeded sd r" "w' = setRetryHeaders r (w\<lparr>backend := b\<rparr>)"
    using assms(2) by (auto simp: checkQuota_def split: option.splits if_splits prod.splits sum.splits)
  let ?R = "handleError rows toJSON encErr (Some md) e"
  have a: "toApp err = AppErr KindResourceExhausted ''RATE_LIMITED'' ''request quota exceeded'' [(''retry_after'', sd (RetryAfter r))] [RetryInfo (RetryAfter r)] None"
    by (simp add: q(4) quotaExceeded_def appNew_def toApp_def)
  have s: "statusFromError err = None \<or> asApp err \<noteq> None" by (simp add: q(4) quotaExceeded_def appNew_def)
  have k: "KindResourceExhausted = KindOf (Some err)" by (simp add: q(4) quotaExceeded_def appNew_def KindOf_def)
  note own = handleError_own [OF assms(1,3) s k, of toJSON encErr "Some md"]
  have st: "hStatus ?R = 429" unfolding own(1) by code_simp
  have re: "edReason (hBody ?R) = ''RATE_LIMITED''"
    unfolding own(2) by (subst own_details [OF a]) (simp_all add: assms(4))
  obtain vs where vs: "(''retry-after'', vs) \<in> set md" "show_int (retrySeconds r) \<in> set vs"
    using assms(5) by (auto simp: q(5) setRetryHeaders_def)
  have h: "(''Retry-After'', show_int (retrySeconds r)) \<in> set (hHeaders ?R)"
    using writeGRPCMetadata_kept [OF vs] by (auto simp: handleError_def split: prod.split)
  have one: "1 \<le> retrySeconds r" by (simp add: retrySeconds_def Let_def)
  have "RetryAfter r \<le> retrySeconds r * 1000000000"
  proof (cases "0 \<le> RetryAfter r")
    case True
    then show ?thesis using sdiv_smod_nonneg(1) [of "RetryAfter r" 1000000000] by (simp add: retrySeconds_def Let_def) linarith
  qed (use one in linarith)
  with one show ?thesis using q(1-3) st re h by blast
qed

definition overQuota :: Result where
  "overQuota = \<lparr>Allowed = False, RetryAfter = 2500000000, Remaining = 0\<rparr>"

theorem rate_limited_over_rest_witness:
  "\<exists>e. mapErr (\<lambda>_. True) (quotaExceeded show_int overQuota) ''orderd'' = Some e
     \<and> (''Retry-After'', ''3'') \<in> set (hHeaders (handleError kindInfo (\<lambda>_. Some ''{}'') False (Some [(''retry-after'', [''3''])]) e))
     \<and> hStatus (handleError kindInfo (\<lambda>_. Some ''{}'') False (Some [(''retry-after'', [''3''])]) e) = 429"
proof -
  let ?w = "\<lparr>inflight = 0, logs = [], headers = [], clock = 0, backend = ()\<rparr>"
  let ?c = "\<lparr>principal = Some \<lparr>Subject = ''u'', pTenantID = ''acme'', Scopes = [], IsService = False\<rparr>, metadata = None\<rparr>"
  have three: "show_int (retrySeconds overQuota) = ''3''" by code_simp
  have q: "checkQuota show_int (\<lambda>k b. (Inr overQuota, b)) ?c ''/s/m'' ?w = (Some (quotaExceeded show_int overQuota), setRetryHeaders overQuota ?w)"
    by (simp add: checkQuota_def PrincipalFrom_def overQuota_def)
  obtain e where e: "mapErr (\<lambda>_. True) (quotaExceeded show_int overQuota) ''orderd'' = Some e"
    using mapErr_not_None [of "\<lambda>_. True" "quotaExceeded show_int overQuota" "''orderd''"] by blast
  have h: "\<forall>(k, v) \<in> set (headers (setRetryHeaders overQuota ?w)). \<exists>vs. (k, vs) \<in> set [(''retry-after'', [''3''])] \<and> v \<in> set vs"
    by (simp add: setRetryHeaders_def three)
  from rate_limited_over_rest [OF refl q e _ h, of "\<lambda>_. Some ''{}''" False] e three show ?thesis by auto
qed

text \<open>An error that is the context's own, and no status, is not rendered as a cancellation.\<close>

theorem cancelled_context_is_500:
  assumes "mset rows = mset kindInfo"
  shows "hStatus (handleError rows toJSON encErr md (Sentinel ContextCanceled)) = 500
    \<and> edCode (hBody (handleError rows toJSON encErr md (Sentinel ContextCanceled))) = ''Unknown''"
proof -
  have rows: "set rows = set kindInfo" using assms by (metis set_mset_mset)
  have "\<forall>(k, i) \<in> set rows. Code i \<noteq> Unknown" unfolding rows by (simp add: kindInfo_def)
  then have "HTTPStatusFromCode rows Unknown = 500" using HTTPStatusFromCode_unlisted [of rows Unknown] by simp
  then show ?thesis by (simp add: handleError_def statusConvert_def statusFromError_def addDetails_code)
qed

end
