(* ===== verification/Grpcapi.thy ===== *)
theory Grpcapi
  imports Interceptors Ordermem
begin

text \<open>
  The proto boundary (\<open>internal/grpcapi\<close>): the mapping of domain errors (\<open>errmap.go\<close>), the
  authorisation policy (\<open>policy.go\<close>), the conversions between messages and domain values
  (\<open>convert.go\<close>) and the handlers (\<open>server.go\<close>). A message pointer is an option; a
  protobuf enum is its number.
\<close>

section \<open>Domain errors\<close>

definition DomainErrorKind :: "goerr option \<Rightarrow> Kind" where
  "DomainErrorKind err = (case err of
     None \<Rightarrow> KindUnknown
   | Some e \<Rightarrow>
       if errorsIs e ErrNotFound then KindNotFound
       else if errorsIs e ErrDuplicate then KindAlreadyExists
       else if errorsIs e ErrInvalidTransition then KindFailedPrecondition
       else if errorsIs e ErrNoItems \<or> errorsIs e ErrInvalidItem \<or> errorsIs e ErrInvalidPageToken
         \<or> errorsIs e ErrCurrencyMismatch \<or> errorsIs e ErrInvalidCurrencyCode
         \<or> errorsIs e ErrInvalidMoney \<or> errorsIs e ErrMoneyOverflow then KindInvalidArgument
       else if errorsIs e ErrMissingTenant then KindInternal
       else KindInternal)"

definition reasonFor :: "goerr \<Rightarrow> string" where
  "reasonFor e =
     (if errorsIs e ErrNotFound then ''ORDER_NOT_FOUND''
      else if errorsIs e ErrDuplicate then ''ORDER_ALREADY_EXISTS''
      else if errorsIs e ErrInvalidTransition then ''ORDER_INVALID_STATUS_TRANSITION''
      else if errorsIs e ErrNoItems then ''ORDER_HAS_NO_ITEMS''
      else if errorsIs e ErrInvalidItem then ''ORDER_ITEM_INVALID''
      else if errorsIs e ErrInvalidPageToken then ''PAGE_TOKEN_INVALID''
      else if errorsIs e ErrCurrencyMismatch then ''CURRENCY_MISMATCH''
      else if errorsIs e ErrInvalidCurrencyCode \<or> errorsIs e ErrInvalidMoney \<or> errorsIs e ErrMoneyOverflow
        then ''MONEY_INVALID''
      else if errorsIs e ErrMissingTenant then ''TENANT_MISSING''
      else ''INTERNAL'')"

definition asAppError :: "goerr \<Rightarrow> goerr" where
  "asAppError e = (case asApp e of
     Some ae \<Rightarrow> ae
   | None \<Rightarrow> appWrap e (DomainErrorKind (Some e)) (reasonFor e) (errorText e))"

section \<open>Policy\<close>

definition ScopeOrdersRead :: string where
  "ScopeOrdersRead = ''orders:read''"

definition ScopeOrdersWrite :: string where
  "ScopeOrdersWrite = ''orders:write''"

definition DefaultPolicy :: Policy where
  "DefaultPolicy =
    [(''/order.v1.OrderService/GetOrder'', \<lparr>Public = False, ruleScopes = [ScopeOrdersRead]\<rparr>),
     (''/order.v1.OrderService/ListOrders'', \<lparr>Public = False, ruleScopes = [ScopeOrdersRead]\<rparr>),
     (''/order.v1.OrderService/WatchOrders'', \<lparr>Public = False, ruleScopes = [ScopeOrdersRead]\<rparr>),
     (''/order.v1.OrderService/CreateOrder'', \<lparr>Public = False, ruleScopes = [ScopeOrdersWrite]\<rparr>),
     (''/order.v1.OrderService/CancelOrder'', \<lparr>Public = False, ruleScopes = [ScopeOrdersWrite]\<rparr>),
     (''/grpc.health.v1.Health/Check'', \<lparr>Public = True, ruleScopes = []\<rparr>),
     (''/grpc.health.v1.Health/Watch'', \<lparr>Public = True, ruleScopes = []\<rparr>),
     (''/grpc.health.v1.Health/List'', \<lparr>Public = False, ruleScopes = []\<rparr>),
     (''/grpc.reflection.v1.ServerReflection/ServerReflectionInfo'', \<lparr>Public = False, ruleScopes = []\<rparr>),
     (''/grpc.reflection.v1alpha.ServerReflection/ServerReflectionInfo'', \<lparr>Public = False, ruleScopes = []\<rparr>)]"

text \<open>\<open>GetServiceInfo\<close>: service names with their methods, in the order the Go map yields.\<close>

definition servedMethods :: "(string \<times> string list) list \<Rightarrow> string list" where
  "servedMethods info = concat (map (\<lambda>(name, ms). map (\<lambda>m. ''/'' @ name @ ''/'' @ m) ms) info)"

text \<open>The refusals of \<open>NewServer\<close> (an absent verifier or limiter is \<open>False\<close>), up to the server
  it would return.\<close>

definition ownedProtoPackages :: "string list" where
  "ownedProtoPackages = [''order.v1'']"

definition NewServer :: "bool \<Rightarrow> bool \<Rightarrow> Policy \<Rightarrow> (string \<times> string list) list \<Rightarrow> registry \<Rightarrow> goerr option" where
  "NewServer hasVerifier hasLimiter p info files =
     (if \<not> hasVerifier then Some (Plain ''grpcapi.NewServer: Deps.Verifier is nil; build one with auth.NewVerifier'')
      else if p = [] then Some (Plain ''grpcapi.NewServer: Deps.Policy is empty; every RPC would be denied'')
      else if \<not> hasLimiter then
        Some (Plain (''grpcapi.NewServer: Deps.Limiter is nil; pass ratelimit.AllowAll{} ''
          @ ''to run without quotas, so that choice is visible at the call site''))
      else ValidateCoverage p (servedMethods info) (MethodsInPackages files ownedProtoPackages))"

section \<open>Messages and conversions\<close>

record pMoney =
  pCurrencyCode :: string
  pUnits :: int
  pNanos :: int

record pItem =
  pSku :: string
  pQuantity :: int
  pUnitPrice :: "pMoney option"

record pTimestamp =
  tsSeconds :: int
  tsNanos :: int

record pOrder =
  pOrderId :: string
  pTenantId :: string
  pCustomerId :: string
  pStatus :: int
  pItems :: "pItem option list"
  pTotal :: "pMoney option"
  pCreatedAt :: "pTimestamp option"
  pUpdatedAt :: "pTimestamp option"

definition toProtoMoney :: "money \<Rightarrow> pMoney" where
  "toProtoMoney m = \<lparr>pCurrencyCode = CurrencyCode m, pUnits = Units m, pNanos = Nanos m\<rparr>"

definition fromProtoMoney :: "pMoney option \<Rightarrow> money res" where
  "fromProtoMoney pm = (case pm of
     None \<Rightarrow> Inl (Errorf (sentinel_text ErrInvalidItem @ '': money is required'') [Sentinel ErrInvalidItem])
   | Some m \<Rightarrow>
       (let money = \<lparr>CurrencyCode = pCurrencyCode m, Units = pUnits m, Nanos = pNanos m\<rparr>
        in case Validate money of Some err \<Rightarrow> Inl err | None \<Rightarrow> Inr money))"

fun toProtoStatus :: "Status \<Rightarrow> int" where
  "toProtoStatus StatusPending = 1"
| "toProtoStatus StatusConfirmed = 2"
| "toProtoStatus StatusShipped = 3"
| "toProtoStatus StatusCancelled = 4"
| "toProtoStatus _ = 0"

definition fromProtoStatus :: "int \<Rightarrow> Status" where
  "fromProtoStatus s =
     (if s = 1 then StatusPending else if s = 2 then StatusConfirmed else if s = 3 then StatusShipped
      else if s = 4 then StatusCancelled else StatusUnspecified)"

definition toProtoItem :: "Item \<Rightarrow> pItem" where
  "toProtoItem i = \<lparr>pSku = SKU i, pQuantity = Quantity i, pUnitPrice = Some (toProtoMoney (UnitPrice i))\<rparr>"

definition fromProtoItem :: "pItem option \<Rightarrow> Item res" where
  "fromProtoItem pi' = (case pi' of
     None \<Rightarrow> Inl (Errorf (sentinel_text ErrInvalidItem @ '': item is nil'') [Sentinel ErrInvalidItem])
   | Some i \<Rightarrow> (case fromProtoMoney (pUnitPrice i) of
       Inl err \<Rightarrow> Inl err
     | Inr price \<Rightarrow> Inr \<lparr>SKU = pSku i, Quantity = pQuantity i, UnitPrice = price\<rparr>))"

fun fromProtoItemsFrom :: "nat \<Rightarrow> pItem option list \<Rightarrow> Item list res" where
  "fromProtoItemsFrom idx [] = Inr []"
| "fromProtoItemsFrom idx (pi' # rest) = (case fromProtoItem pi' of
     Inl err \<Rightarrow> Inl (Errorf (''item '' @ show_nat idx @ '': '' @ errorText err) [err])
   | Inr item \<Rightarrow> (case fromProtoItemsFrom (Suc idx) rest of Inl err \<Rightarrow> Inl err | Inr out \<Rightarrow> Inr (item # out)))"

definition fromProtoItems :: "pItem option list \<Rightarrow> Item list res" where
  "fromProtoItems xs = fromProtoItemsFrom 0 xs"

text \<open>\<open>timestamppb.New\<close> and \<open>AsTime\<close>; a nil timestamp reads as the epoch.\<close>

definition newTimestamp :: "int \<Rightarrow> pTimestamp" where
  "newTimestamp t = \<lparr>tsSeconds = t div 1000000000, tsNanos = t mod 1000000000\<rparr>"

definition asTime :: "pTimestamp option \<Rightarrow> int" where
  "asTime p = (case p of None \<Rightarrow> 0 | Some ts \<Rightarrow> tsSeconds ts * 1000000000 + tsNanos ts)"

definition toProtoOrder :: "Order \<Rightarrow> pOrder" where
  "toProtoOrder o' = \<lparr>pOrderId = ID o', pTenantId = TenantID o', pCustomerId = CustomerID o',
     pStatus = toProtoStatus (Status o'), pItems = map (\<lambda>i. Some (toProtoItem i)) (Items o'),
     pTotal = Some (toProtoMoney (Total o')), pCreatedAt = Some (newTimestamp (CreatedAt o')),
     pUpdatedAt = Some (newTimestamp (UpdatedAt o'))\<rparr>"

definition toProtoOrders :: "Order list \<Rightarrow> pOrder list" where
  "toProtoOrders os = map toProtoOrder os"

definition fromProtoOrder :: "pOrder option \<Rightarrow> Order res" where
  "fromProtoOrder po = (case po of
     None \<Rightarrow> Inl (Errorf ''order is nil'' [])
   | Some p \<Rightarrow> (case fromProtoItems (pItems p) of
       Inl err \<Rightarrow> Inl err
     | Inr items \<Rightarrow> (case fromProtoMoney (pTotal p) of
         Inl err \<Rightarrow> Inl err
       | Inr tot \<Rightarrow>
           Inr \<lparr>ID = pOrderId p, TenantID = pTenantId p, CustomerID = pCustomerId p,
                Status = fromProtoStatus (pStatus p), Items = items, Total = tot,
                CreatedAt = asTime (pCreatedAt p), UpdatedAt = asTime (pUpdatedAt p)\<rparr>)))"

section \<open>Handlers\<close>

record CreateOrderRequest =
  reqCustomerId :: string
  reqItems :: "pItem option list"

record ListOrdersRequest =
  reqStatus :: int
  lreqCustomerId :: string
  reqPageSize :: int
  reqPageToken :: string

text \<open>The state below the interceptors: the verifier's, the limiter's and the order store's. The
  domain service reads the clock of the process; \<open>newID\<close> is what its id generator answers.\<close>

record ('v, 'l, 's) backend =
  vstate :: 'v
  lstate :: 'l
  ostate :: 's

record 's OrderServer =
  svc :: "'s Service"
  newID :: "int \<Rightarrow> 's \<Rightarrow> string res"

definition tenantOf :: "ctx \<Rightarrow> string res" where
  "tenantOf c = (case TenantFrom c of
     None \<Rightarrow> Inl (appNew KindUnauthenticated ''NO_PRINCIPAL'' ''request reached a handler without a verified principal'')
   | Some t \<Rightarrow> Inr t)"

definition onStore :: "('a \<times> 's) \<Rightarrow> ('v, 'l, 's) backend world \<Rightarrow> ('v, 'l, 's) backend world" where
  "onStore r w = w\<lparr>backend := (backend w)\<lparr>ostate := snd r\<rparr>\<rparr>"

definition CreateOrder :: "'s OrderServer \<Rightarrow> (CreateOrderRequest, pOrder, ('v, 'l, 's) backend) handler" where
  "CreateOrder S c q w = (case tenantOf (callCtx c) of
     Inl err \<Rightarrow> (Failed err, w)
   | Inr tenant \<Rightarrow> (case fromProtoItems (reqItems q) of
       Inl err \<Rightarrow> (Failed (asAppError err), w)
     | Inr items \<Rightarrow>
         (let s = ostate (backend w);
              r = svcCreate (svc S) (newID S (clock w) s) (clock w)
                    \<lparr>cmdTenantID = tenant, cmdCustomerID = reqCustomerId q, cmdItems = items\<rparr> s
          in case fst r of
               Inl err \<Rightarrow> (Failed (asAppError err), onStore r w)
             | Inr created \<Rightarrow> (Reply (toProtoOrder created), onStore r w))))"

definition GetOrder :: "'s OrderServer \<Rightarrow> (string, pOrder, ('v, 'l, 's) backend) handler" where
  "GetOrder S c orderId w = (case tenantOf (callCtx c) of
     Inl err \<Rightarrow> (Failed err, w)
   | Inr tenant \<Rightarrow> (case svcGet (svc S) tenant orderId (ostate (backend w)) of
       Inl err \<Rightarrow> (Failed (asAppError err), w)
     | Inr got \<Rightarrow> (Reply (toProtoOrder got), w)))"

definition ListOrders :: "'s OrderServer \<Rightarrow> (ListOrdersRequest, pOrder list \<times> string, ('v, 'l, 's) backend) handler" where
  "ListOrders S c q w = (case tenantOf (callCtx c) of
     Inl err \<Rightarrow> (Failed err, w)
   | Inr tenant \<Rightarrow>
       (case svcList (svc S) tenant \<lparr>fStatus = fromProtoStatus (reqStatus q), fCustomerID = lreqCustomerId q,
               PageSize = reqPageSize q, PageToken = reqPageToken q\<rparr> (ostate (backend w)) of
          Inl err \<Rightarrow> (Failed (asAppError err), w)
        | Inr page \<Rightarrow> (Reply (toProtoOrders (Orders page), NextPageToken page), w)))"

definition CancelOrder :: "'s OrderServer \<Rightarrow> (string, pOrder, ('v, 'l, 's) backend) handler" where
  "CancelOrder S c orderId w = (case tenantOf (callCtx c) of
     Inl err \<Rightarrow> (Failed err, w)
   | Inr tenant \<Rightarrow>
       (let r = svcCancel (svc S) (clock w) tenant orderId (ostate (backend w))
        in case fst r of
             Inl err \<Rightarrow> (Failed (asAppError err), onStore r w)
           | Inr cancelled \<Rightarrow> (Reply (toProtoOrder cancelled), onStore r w)))"

text \<open>
  \<open>WatchOrders\<close>: what the stream has sent when it ends, and the error it ends with. The argument
  lists the results of \<open>Send\<close> and of \<open>ctx.Err()\<close> after it, message by message; \<open>done\<close> is
  \<open>ctx.Err()\<close> once the context is done.
\<close>

fun sendAll :: "pOrder list \<Rightarrow> (goerr option \<times> goerr option) list \<Rightarrow> goerr option \<Rightarrow> pOrder list \<times> goerr option" where
  "sendAll [] env done' = ([], done')"
| "sendAll (o' # os) env done' = (case env of
     [] \<Rightarrow> (let (sent, e) = sendAll os [] done' in (o' # sent, e))
   | (Some err, _) # _ \<Rightarrow> ([], Some err)
   | (None, Some err) # _ \<Rightarrow> ([o'], Some err)
   | (None, None) # env' \<Rightarrow> (let (sent, e) = sendAll os env' done' in (o' # sent, e)))"

definition WatchOrders :: "'s OrderServer \<Rightarrow> call \<Rightarrow> int \<Rightarrow> (goerr option \<times> goerr option) list \<Rightarrow> goerr option
    \<Rightarrow> ('v, 'l, 's) backend world \<Rightarrow> pOrder list \<times> goerr option" where
  "WatchOrders S c status env done' w = (case tenantOf (callCtx c) of
     Inl err \<Rightarrow> ([], Some err)
   | Inr tenant \<Rightarrow>
       (case svcList (svc S) tenant \<lparr>fStatus = fromProtoStatus status, fCustomerID = [], PageSize = 0, PageToken = []\<rparr>
               (ostate (backend w)) of
          Inl err \<Rightarrow> ([], Some (asAppError err))
        | Inr page \<Rightarrow> sendAll (toProtoOrders (Orders page)) env done'))"

section \<open>Lemmas\<close>

lemma newTimestamp_roundtrip: "asTime (Some (newTimestamp t)) = t"
  by (simp add: asTime_def newTimestamp_def)

lemma status_roundtrip: "StatusValid s \<Longrightarrow> fromProtoStatus (toProtoStatus s) = s"
  by (cases s) (simp_all add: fromProtoStatus_def StatusValid_def)

lemma money_roundtrip: "valid_money m \<Longrightarrow> fromProtoMoney (Some (toProtoMoney m)) = Inr m"
  by (cases m) (simp add: fromProtoMoney_def toProtoMoney_def)

lemma items_roundtrip:
  "list_all (\<lambda>i. valid_money (UnitPrice i)) items \<Longrightarrow>
     fromProtoItemsFrom idx (map (\<lambda>i. Some (toProtoItem i)) items) = Inr items"
  by (induction items arbitrary: idx)
    (simp_all add: fromProtoItem_def toProtoItem_def money_roundtrip)

text \<open>Errors of the money arithmetic, on any input, carry a sentinel the boundary knows.\<close>

definition client_error :: "goerr \<Rightarrow> bool" where
  "client_error e \<longleftrightarrow> asApp e = None \<and> DomainErrorKind (Some e) = KindInvalidArgument"

lemma client_error_wrap: "client_error e \<Longrightarrow> client_error (Errorf t [e])"
  by (auto simp: client_error_def DomainErrorKind_def split: if_splits)

lemma totalNanos_error: "totalNanos m = Inl e \<Longrightarrow> client_error e"
  by (auto simp: totalNanos_def client_error_def DomainErrorKind_def split: if_splits)

lemma fromTotalNanos_error: "fromTotalNanos c t = Inl e \<Longrightarrow> client_error e"
  by (auto simp: fromTotalNanos_def Let_def client_error_def DomainErrorKind_def split: if_splits)

lemma Mul_client_error: "Mul m n = Inl e \<Longrightarrow> client_error e"
  by (auto simp: Mul_def Let_def dest: totalNanos_error fromTotalNanos_error split: sum.splits if_splits)
    (simp add: client_error_def DomainErrorKind_def)

lemma Add_client_error: "Add a b = Inl e \<Longrightarrow> client_error e"
  by (auto simp: Add_def combine_def requireSameCurrency_def Let_def dest: totalNanos_error fromTotalNanos_error
      split: sum.splits if_splits option.splits)
    (simp_all add: client_error_def DomainErrorKind_def)

lemma sumLines_client_error: "sumLines idx acc items = Inl e \<Longrightarrow> client_error e"
  by (induction idx acc items rule: sumLines.induct)
    (auto simp: LineTotal_def dest!: Mul_client_error Add_client_error intro: client_error_wrap split: sum.splits)

lemma ComputeTotal_client_error: "ComputeTotal items = Inl e \<Longrightarrow> client_error e"
  using sumLines_client_error
  by (cases items) (auto simp: ComputeTotal_def client_error_def DomainErrorKind_def simp del: sumLines.simps)

lemma Validate_client_error: "Validate m = Some e \<Longrightarrow> client_error e"
  by (auto simp: Validate_def client_error_def DomainErrorKind_def split: if_splits)

lemma itemValidate_client_error: "itemValidate i = Some e \<Longrightarrow> client_error e"
  by (auto simp: itemValidate_def client_error_def DomainErrorKind_def dest!: Validate_client_error
      split: if_splits option.splits)

lemma validateItems_client_error: "validateItems idx items = Some e \<Longrightarrow> client_error e"
  by (induction idx items rule: validateItems.induct)
    (auto dest!: itemValidate_client_error intro: client_error_wrap split: option.splits)

lemma fromProtoItem_client_error: "fromProtoItem pi' = Inl e \<Longrightarrow> client_error e"
  by (auto simp: fromProtoItem_def fromProtoMoney_def Let_def dest: Validate_client_error split: option.splits sum.splits)
    (simp_all add: client_error_def DomainErrorKind_def)

lemma fromProtoItems_client_error: "fromProtoItemsFrom idx items = Inl e \<Longrightarrow> client_error e"
  by (induction idx items rule: fromProtoItemsFrom.induct)
    (auto dest!: fromProtoItem_client_error intro: client_error_wrap split: sum.splits)

lemma orderValidate_client_error:
  assumes "orderValidate ord = Some e" "TenantID ord \<noteq> []" "StatusValid (Status ord)" "ComputeTotal (Items ord) = Inr (Total ord)"
  shows "client_error e"
proof (cases "CustomerID ord = [] \<or> Items ord = []")
  case True
  then have "e = Sentinel ErrNoItems \<or> (\<exists>t. e = Errorf t [Sentinel ErrInvalidItem])"
    using assms(1,2) by (auto simp: orderValidate_def split: if_splits)
  then show ?thesis by (auto simp: client_error_def DomainErrorKind_def)
next
  case False
  then show ?thesis using assms validateItems_client_error by (auto simp: orderValidate_def split: option.splits)
qed

text \<open>An error of the create path is about the input or a duplicate.\<close>

definition create_error :: "goerr \<Rightarrow> bool" where
  "create_error e \<longleftrightarrow> asApp e = None \<and> DomainErrorKind (Some e) \<in> {KindInvalidArgument, KindAlreadyExists}"

lemma client_create_error: "client_error e \<Longrightarrow> create_error e"
  by (simp add: client_error_def create_error_def)

lemma KindOf_asAppError: "create_error e \<Longrightarrow> KindOf (Some (asAppError e)) \<in> {KindInvalidArgument, KindAlreadyExists}"
  by (auto simp: create_error_def asAppError_def appWrap_def KindOf_def)

lemma InTx_create_error:
  assumes "InTx K (createBody ord now) s = (Inl e, s')" "TenantID ord \<noteq> []"
  shows "create_error e \<and> s' = s"
  using assms
  by (auto simp: InTx_def createBody_def memStore_def memPublisher_def viewCreate_def viewPublish_def Let_def
      create_error_def DomainErrorKind_def split: option.splits)

lemma svcCreate_error:
  assumes "svcCreate (memService K) (Inr i) now cmd s = (Inl e, s')" "cmdTenantID cmd \<noteq> []"
  shows "create_error e \<and> s' = s"
proof (cases "cmdItems cmd = []")
  case True
  then show ?thesis using assms by (auto simp: svcCreate_def create_error_def DomainErrorKind_def)
next
  case False
  show ?thesis
  proof (cases "ComputeTotal (cmdItems cmd)")
    case (Inl err)
    then show ?thesis using assms False ComputeTotal_client_error client_create_error by (auto simp: svcCreate_def)
  next
    case (Inr tot)
    let ?o = "\<lparr>ID = i, TenantID = cmdTenantID cmd, CustomerID = cmdCustomerID cmd, Status = StatusPending,
      Items = cmdItems cmd, Total = tot, CreatedAt = now, UpdatedAt = now\<rparr>"
    have ov: "client_error err" if "orderValidate ?o = Some err" for err
      using orderValidate_client_error [OF that] assms(2) Inr by (simp add: StatusValid_def)
    show ?thesis
    proof (cases "orderValidate ?o")
      case None
      then show ?thesis using assms False Inr InTx_create_error [of K ?o now s e s']
        by (simp add: svcCreate_def Let_def memAtomic_def)
    next
      case (Some err)
      then show ?thesis using assms False Inr ov client_create_error by (simp add: svcCreate_def Let_def)
    qed
  qed
qed

section \<open>Requests and the store below the chain\<close>

text \<open>A verifier and a limiter that keep state of their own, beside the order store.\<close>

definition liftVerifier :: "(string \<Rightarrow> 'v \<Rightarrow> Principal res \<times> 'v) \<Rightarrow> ('v, 'l, 's) backend verifier" where
  "liftVerifier v raw b = (let (r, v') = v raw (vstate b) in (r, b\<lparr>vstate := v'\<rparr>))"

definition liftLimiter :: "(string \<Rightarrow> 'l \<Rightarrow> Result res \<times> 'l) \<Rightarrow> ('v, 'l, 's) backend limiter" where
  "liftLimiter l k b = (let (r, l') = l k (lstate b) in (r, b\<lparr>lstate := l'\<rparr>))"

definition withStore :: "'s \<Rightarrow> ('v, 'l, 's) backend world \<Rightarrow> ('v, 'l, 's) backend world" where
  "withStore s w = w\<lparr>backend := (backend w)\<lparr>ostate := s\<rparr>\<rparr>"

definition stepsAlike :: "'s \<Rightarrow> ('q, 'p, ('v, 'l, 's) backend) handler \<Rightarrow> call \<Rightarrow> 'q \<Rightarrow> ('v, 'l, 's) backend world \<Rightarrow> bool" where
  "stepsAlike s h c q w \<longleftrightarrow> h c q (withStore s w) = map_prod id (withStore s) (h c q w)"

lemma withStore_fields [simp]:
  "inflight (withStore s w) = inflight w" "logs (withStore s w) = logs w" "headers (withStore s w) = headers w"
  "clock (withStore s w) = clock w" "vstate (backend (withStore s w)) = vstate (backend w)"
  "lstate (backend (withStore s w)) = lstate (backend w)" "ostate (backend (withStore s w)) = s"
  by (simp_all add: withStore_def)

lemma withStore_addLog: "addLog r (withStore s w) = withStore s (addLog r w)"
  by (simp add: withStore_def addLog_def)

lemma withStore_headers:
  "setRetryHeaders r (withStore s w) = withStore s (setRetryHeaders r w)"
  "setRemainingHeader r (withStore s w) = withStore s (setRemainingHeader r w)"
  by (simp_all add: withStore_def setRetryHeaders_def setRemainingHeader_def)

lemma withStore_inflight: "(withStore s w)\<lparr>inflight := n\<rparr> = withStore s (w\<lparr>inflight := n\<rparr>)"
  by (simp add: withStore_def)

lemma withStore_backend:
  "(withStore s w)\<lparr>backend := (backend (withStore s w))\<lparr>vstate := v\<rparr>\<rparr> = withStore s (w\<lparr>backend := (backend w)\<lparr>vstate := v\<rparr>\<rparr>)"
  "(withStore s w)\<lparr>backend := (backend (withStore s w))\<lparr>lstate := l\<rparr>\<rparr> = withStore s (w\<lparr>backend := (backend w)\<lparr>lstate := l\<rparr>\<rparr>)"
  by (simp_all add: withStore_def)

lemmas withStore_push = withStore_addLog withStore_headers withStore_inflight withStore_backend

lemma stepsAlike_outer:
  assumes "stepsAlike s h c q w"
  shows "stepsAlike s (ErrorMap ms np dmn h) c q w" "stepsAlike s (Logging h) c q w" "stepsAlike s (Recovery ms dmn h) c q w"
  using assms
  by (auto simp: stepsAlike_def ErrorMap_def Logging_def Recovery_def recordRpc_def withStore_push Let_def
      split: prod.splits outcome.splits option.splits)

lemma stepsAlike_Admission:
  assumes "\<And>n. stepsAlike s h c q (w\<lparr>inflight := n\<rparr>)"
  shows "stepsAlike s (Admission lim h) c q w"
proof -
  have "stepsAlike s h c q w" using assms [of "inflight w"] by simp
  with assms [of "inflight w + 1"] show ?thesis
    by (cases "deadline c") (auto simp: stepsAlike_def Admission_def withStore_push split: prod.splits)
qed

lemma checkQuota_withStore:
  "checkQuota sd (liftLimiter l) c m (withStore s w) = map_prod id (withStore s) (checkQuota sd (liftLimiter l) c m w)"
  by (auto simp: checkQuota_def liftLimiter_def withStore_push Let_def split: option.splits prod.splits sum.splits)

lemma checkQuota_ostate:
  "checkQuota sd (liftLimiter l) c m w = (r, w') \<Longrightarrow> ostate (backend w') = ostate (backend w)"
  by (auto simp: checkQuota_def liftLimiter_def addLog_def setRetryHeaders_def setRemainingHeader_def Let_def
      split: option.splits if_splits prod.splits sum.splits)

text \<open>The inner chain calls its handler with the verified principal in the context and the order
  store as it was.\<close>

definition callsWith :: "Principal \<Rightarrow> 's \<Rightarrow> call \<Rightarrow> ('v, 'l, 's) backend world \<Rightarrow> bool" where
  "callsWith p s c w \<longleftrightarrow> principal (callCtx c) = Some p \<and> ostate (backend w) = s"

lemma authorize_lifted:
  assumes "map_of pol m = Some rule" "\<not> Public rule"
  shows "authorize (liftVerifier v) pol c m (withStore s w) = map_prod id (withStore s) (authorize (liftVerifier v) pol c m w)"
    and "authorize (liftVerifier v) pol c m w = (Inr c', w') \<Longrightarrow>
      \<exists>p. fst (v (bearerToken c) (vstate (backend w))) = Inr p \<and> principal c' = Some p \<and> ostate (backend w') = ostate (backend w)"
  using assms
  by (auto simp: authorize_def liftVerifier_def withStore_push WithPrincipal_def Let_def
      split: prod.splits sum.splits option.splits)

lemma stepsAlike_inner:
  assumes rule: "map_of (policy d) (FullMethod c) = Some rule" "\<not> Public rule"
    and lifted: "verifier d = liftVerifier v" "limiter d = liftLimiter l"
    and h: "\<And>p c' w'. \<lbrakk>fst (v (bearerToken (callCtx c)) (vstate (backend w))) = Inr p;
      callsWith p (ostate (backend w)) c' w'\<rbrakk> \<Longrightarrow> stepsAlike s h c' q w'"
  shows "stepsAlike s (inner d h) c q w"
proof (cases "authorize (liftVerifier v) (policy d) (callCtx c) (FullMethod c) w")
  case (Pair r w1)
  show ?thesis
  proof (cases r)
    case (Inl e)
    then show ?thesis using Pair authorize_lifted(1) [OF rule, of v "callCtx c" s w]
      by (simp add: stepsAlike_def inner_def authInterceptor_def lifted)
  next
    case (Inr c1)
    obtain p where p: "fst (v (bearerToken (callCtx c)) (vstate (backend w))) = Inr p" "principal c1 = Some p"
        "ostate (backend w1) = ostate (backend w)"
      using authorize_lifted(2) [OF rule Pair [unfolded Inr]] by blast
    obtain q' w2 where cq: "checkQuota (showDuration d) (liftLimiter l) c1 (FullMethod c) w1 = (q', w2)" by fastforce
    let ?c = "c\<lparr>callCtx := c1, deadline := applyDeadline (clock w2) (deadline c) (defaultTimeout d) (maxTimeout d)\<rparr>"
    have "stepsAlike s h ?c q w2"
      using p checkQuota_ostate [OF cq] by (intro h) (simp_all add: callsWith_def)
    then show ?thesis
      using Pair Inr cq authorize_lifted(1) [OF rule, of v "callCtx c" s w]
        checkQuota_withStore [of "showDuration d" l c1 "FullMethod c" s w1]
      by (auto simp: stepsAlike_def inner_def authInterceptor_def lifted RateLimit_def Deadline_def ValidateRequest_def
          split: option.splits)
  qed
qed

lemma stepsAlike_unary:
  assumes "transparent (metrics d)"
    and rule: "map_of (policy d) (FullMethod c) = Some rule" "\<not> Public rule"
    and lifted: "verifier d = liftVerifier v" "limiter d = liftLimiter l"
    and h: "\<And>p c' w'. \<lbrakk>fst (v (bearerToken (callCtx c)) (vstate (backend w))) = Inr p;
      callsWith p (ostate (backend w)) c' w'\<rbrakk> \<Longrightarrow> stepsAlike s h c' q w'"
  shows "stepsAlike s (unary d h) c q w"
  unfolding unary_def transparentD [OF assms(1)] inner_def [symmetric]
  by (intro stepsAlike_outer stepsAlike_Admission stepsAlike_inner [OF rule lifted]) (use h in simp)

text \<open>A reply of the chain is a reply of the handler, called that way.\<close>

lemma unary_Reply:
  assumes "transparent (metrics d)" "fst (unary d h c q w) = Reply r"
    and rule: "map_of (policy d) (FullMethod c) = Some rule" "\<not> Public rule"
    and lifted: "verifier d = liftVerifier v" "limiter d = liftLimiter l"
  obtains p c' w' where "fst (v (bearerToken (callCtx c)) (vstate (backend w))) = Inr p"
    "callsWith p (ostate (backend w)) c' w'" "fst (h c' q w') = Reply r"
proof -
  have outer: "fst (Admission n (inner d h) c q w) = Reply r" if "n = admissionLimit d" for n
    using assms(2) that unfolding unary_def transparentD [OF assms(1)] inner_def [symmetric]
    by (auto simp: Recovery_def Logging_def ErrorMap_def mapErr_not_None split: prod.splits outcome.splits option.splits)
  then obtain u where u: "fst (inner d h c q u) = Reply r" "backend u = backend w"
    by (auto simp: Admission_def split: if_splits prod.splits)
      (metis fst_conv world.select_convs(5) world.surjective world.update_convs(1))+
  obtain c1 w1 where a: "authorize (liftVerifier v) (policy d) (callCtx c) (FullMethod c) u = (Inr c1, w1)"
    using u(1) by (auto simp: inner_def authInterceptor_def lifted split: prod.splits sum.splits)
  obtain w2 where cq: "checkQuota (showDuration d) (liftLimiter l) c1 (FullMethod c) w1 = (None, w2)"
    using u(1) a by (auto simp: inner_def authInterceptor_def lifted RateLimit_def split: prod.splits option.splits)
  let ?c = "c\<lparr>callCtx := c1, deadline := applyDeadline (clock w2) (deadline c) (defaultTimeout d) (maxTimeout d)\<rparr>"
  have "fst (h ?c q w2) = Reply r"
    using u(1) a cq by (auto simp: inner_def authInterceptor_def lifted RateLimit_def Deadline_def ValidateRequest_def
        split: option.splits)
  moreover obtain p where p: "fst (v (bearerToken (callCtx c)) (vstate (backend w))) = Inr p" "principal c1 = Some p"
      "ostate (backend w1) = ostate (backend w)"
    using authorize_lifted(2) [OF rule a] u(2) by auto
  ultimately show thesis using that [OF p(1), of ?c w2] checkQuota_ostate [OF cq] by (simp add: callsWith_def)
qed

text \<open>A chain as \<open>app.go\<close> wires it: the shipped policy, a verifier and a limiter beside the store.\<close>

definition wired :: "('q, 'p, ('v, 'l, 's) backend) chain \<Rightarrow> (string \<Rightarrow> 'v \<Rightarrow> Principal res \<times> 'v)
    \<Rightarrow> (string \<Rightarrow> 'l \<Rightarrow> Result res \<times> 'l) \<Rightarrow> bool" where
  "wired d v l \<longleftrightarrow> transparent (metrics d) \<and> policy d = DefaultPolicy \<and> verifier d = liftVerifier v
     \<and> limiter d = liftLimiter l"

lemma wiredD:
  assumes "wired d v l"
  shows "transparent (metrics d)" "policy d = DefaultPolicy" "verifier d = liftVerifier v" "limiter d = liftLimiter l"
  using assms by (simp_all add: wired_def)

lemma nonPublic: "\<not> Public \<lparr>Public = False, ruleScopes = xs\<rparr>"
  by simp

text \<open>Reading handlers step alike on two stores that agree on the caller's rows.\<close>

lemma GetOrder_alike:
  assumes "svc S = memService K" "no_nul q" "\<forall>i. mem_tab s' (pTenantID p, i) = mem_tab s (pTenantID p, i)"
    and "callsWith p s c w"
  shows "stepsAlike s' (GetOrder S) c q w"
  using assms(4) viewGet_own [OF assms(2), of s' "pTenantID p" s] assms(3)
  by (auto simp: stepsAlike_def GetOrder_def tenantOf_def TenantFrom_def PrincipalFrom_def callsWith_def assms(1)
      svcGet_def memStore_def split: sum.split)

lemma ListOrders_alike:
  assumes "svc S = memService K" "mem_inv s" "mem_inv s'" "\<forall>i. mem_tab s' (pTenantID p, i) = mem_tab s (pTenantID p, i)"
    and "callsWith p s c w"
  shows "stepsAlike s' (ListOrders S) c q w"
  using assms(5) viewList_own [OF assms(2,3,4)]
  by (auto simp: stepsAlike_def ListOrders_def tenantOf_def TenantFrom_def PrincipalFrom_def callsWith_def assms(1)
      svcList_def memStore_def split: sum.split)

lemma sendAll_prefix: "\<exists>n. fst (sendAll ps en dn) = take n ps"
proof (induction ps arbitrary: en)
  case (Cons x ps)
  note IH = Cons.IH
  obtain n where n: "fst (sendAll ps [] dn) = take n ps" using IH by blast
  show ?case
  proof (cases en)
    case Nil
    then show ?thesis using n by (auto simp: split_beta intro: exI [of _ "Suc n"])
  next
    case (Cons a en')
    obtain m where m: "fst (sendAll ps en' dn) = take m ps" using IH by blast
    have s: "\<exists>k. [] = take k (x # ps)" "\<exists>k. [x] = take k (x # ps)" "\<exists>k. x # take m ps = take k (x # ps)"
      by (rule exI [of _ 0], simp, rule exI [of _ "Suc 0"], simp, rule exI [of _ "Suc m"], simp)
    show ?thesis using Cons m s by (cases a) (auto simp: split_beta split: option.splits)
  qed
qed simp

section \<open>Properties\<close>

text \<open>
  Messages lose nothing. Every valid order survives the trip through its protobuf message and back.
\<close>

theorem proto_order_roundtrip:
  assumes "orderValidate ord = None"
  shows "fromProtoOrder (Some (toProtoOrder ord)) = Inr ord"
proof -
  have items: "list_all (\<lambda>i. itemValidate i = None) (Items ord)" "ComputeTotal (Items ord) = Inr (Total ord)"
      "StatusValid (Status ord)"
    using assms validateItems_None_iff [of 0 "Items ord"]
    by (auto simp: orderValidate_def split: if_splits option.splits sum.splits)
  have "valid_money (Total ord)"
    using items by (intro ComputeTotal_valid [of "Items ord"])
  moreover have "list_all (\<lambda>i. valid_money (UnitPrice i)) (Items ord)"
    using items(1) by (auto simp: list_all_iff itemValidate_None_iff)
  ultimately show ?thesis
    by (simp add: fromProtoOrder_def toProtoOrder_def fromProtoItems_def items_roundtrip money_roundtrip
        status_roundtrip items(3) newTimestamp_roundtrip)
qed

theorem proto_order_roundtrip_witness:
  "fromProtoOrder (Some (toProtoOrder sampleOrder)) = Inr sampleOrder"
proof (rule proto_order_roundtrip)
  show "orderValidate sampleOrder = None" by code_simp
qed

text \<open>
  Who may call what. Under the shipped policy an authenticated caller passes the check exactly
  for the two public health methods, for the three reading RPCs with the scope \<open>orders:read\<close>, for
  the two writing RPCs with \<open>orders:write\<close>, and for the health list and the two reflection
  methods; an unauthenticated one exactly for the two health methods. Everything else is denied.
\<close>

theorem default_policy_exact:
  "(Check DefaultPolicy m p True = None \<longleftrightarrow>
      m \<in> {''/grpc.health.v1.Health/Check'', ''/grpc.health.v1.Health/Watch'', ''/grpc.health.v1.Health/List'',
           ''/grpc.reflection.v1.ServerReflection/ServerReflectionInfo'',
           ''/grpc.reflection.v1alpha.ServerReflection/ServerReflectionInfo''}
      \<or> m \<in> {''/order.v1.OrderService/GetOrder'', ''/order.v1.OrderService/ListOrders'',
              ''/order.v1.OrderService/WatchOrders''} \<and> ScopeOrdersRead \<in> set (Scopes p)
      \<or> m \<in> {''/order.v1.OrderService/CreateOrder'', ''/order.v1.OrderService/CancelOrder''}
          \<and> ScopeOrdersWrite \<in> set (Scopes p))
    \<and> (Check DefaultPolicy m p False = None \<longleftrightarrow>
      m \<in> {''/grpc.health.v1.Health/Check'', ''/grpc.health.v1.Health/Watch''})"
  by (simp add: Check_def DefaultPolicy_def HasScope_iff)

text \<open>
  Bad input is never an internal error. A create request of an authenticated tenant (with ids
  being generated) that fails against the in-memory store fails with InvalidArgument or
  AlreadyExists, whatever the request holds, and leaves the state as it was.
\<close>

theorem create_errors_are_client_errors:
  assumes "tenantOf (callCtx c) = Inr t" "newID S (clock w) (ostate (backend w)) = Inr i"
    and "svc S = memService K" "CreateOrder S c q w = (Failed e, w')"
  shows "KindOf (Some e) \<in> {KindInvalidArgument, KindAlreadyExists} \<and> w' = w"
proof (cases "fromProtoItems (reqItems q)")
  case (Inl err)
  then show ?thesis
    using assms(1,4) fromProtoItems_client_error [of 0 "reqItems q" err] KindOf_asAppError client_create_error
    by (auto simp: CreateOrder_def fromProtoItems_def)
next
  case (Inr items)
  let ?cmd = "\<lparr>cmdTenantID = t, cmdCustomerID = reqCustomerId q, cmdItems = items\<rparr>"
  have t: "cmdTenantID ?cmd \<noteq> []" using assms(1) by (auto simp: tenantOf_def TenantFrom_def split: option.splits if_splits)
  obtain err s' where r: "svcCreate (memService K) (Inr i) (clock w) ?cmd (ostate (backend w)) = (Inl err, s')"
      "e = asAppError err" "w' = onStore (Inl err :: Order res, s') w"
    using assms Inr by (auto simp: CreateOrder_def Let_def split: sum.splits) (metis prod.collapse)+
  from svcCreate_error [OF r(1) t] KindOf_asAppError r(2,3) show ?thesis by (simp add: onStore_def)
qed

definition sampleServer :: "memstate OrderServer" where
  "sampleServer = \<lparr>svc = memService sampleCodec, newID = (\<lambda>now s. Inr (ID sampleOrder))\<rparr>"

definition sampleBackend :: "memstate \<Rightarrow> (unit, unit, memstate) backend world" where
  "sampleBackend s = \<lparr>inflight = 0, logs = [], headers = [], clock = 1000,
     backend = \<lparr>vstate = (), lstate = (), ostate = s\<rparr>\<rparr>"

definition devCall :: "string \<Rightarrow> call" where
  "devCall m = \<lparr>callCtx = \<lparr>principal = Some DevPrincipal, metadata = None\<rparr>, deadline = None, FullMethod = m\<rparr>"

theorem create_errors_are_client_errors_witness:
  "\<exists>e. fst (CreateOrder sampleServer (devCall ''/order.v1.OrderService/CreateOrder'')
        \<lparr>reqCustomerId = ''alice'', reqItems = [None]\<rparr> (sampleBackend New)) = Failed e
     \<and> KindOf (Some e) \<in> {KindInvalidArgument, KindAlreadyExists}"
proof -
  let ?c = "devCall ''/order.v1.OrderService/CreateOrder''" and ?q = "\<lparr>reqCustomerId = ''alice'', reqItems = [None]\<rparr>"
  have t: "tenantOf (callCtx ?c) = Inr ''dev-tenant''"
    by (simp add: devCall_def tenantOf_def TenantFrom_def PrincipalFrom_def DevPrincipal_def)
  then obtain e where "CreateOrder sampleServer ?c ?q (sampleBackend New) = (Failed e, sampleBackend New)"
    by (simp add: CreateOrder_def fromProtoItems_def fromProtoItem_def)
  with create_errors_are_client_errors [OF t _ _ this] show ?thesis by (simp add: sampleServer_def)
qed

text \<open>
  End to end, a tenant reads its own orders. When the unary chain over the shipped policy answers
  \<open>GetOrder\<close> with an order, the bearer token verified to a principal, the order belongs to that
  principal's tenant and has the requested id (free of NUL bytes, as validated ids are). The tenant
  comes from the token alone, nothing in the request can choose it.
\<close>

theorem get_order_end_to_end:
  fixes w :: "('v, 'l, memstate) backend world"
  assumes "wired d v l" "FullMethod c = ''/order.v1.OrderService/GetOrder''" "svc S = memService K"
    and "svc_reach (memService K) no_nul New (ostate (backend w))" "no_nul q"
    and "fst (unary d (GetOrder S) c q w) = Reply r"
  shows "\<exists>p. fst (v (bearerToken (callCtx c)) (vstate (backend w))) = Inr p
    \<and> pTenantId r = pTenantID p \<and> pOrderId r = q
    \<and> mem_tab (ostate (backend w)) (pTenantID p, q) \<noteq> None"
proof -
  have rule: "map_of (policy d) (FullMethod c) = Some \<lparr>Public = False, ruleScopes = [ScopeOrdersRead]\<rparr>"
    by (simp add: wiredD(2) [OF assms(1)] assms(2) DefaultPolicy_def)
  obtain p c' and w' :: "('v, 'l, memstate) backend world" where
      p: "fst (v (bearerToken (callCtx c)) (vstate (backend w))) = Inr p"
      "callsWith p (ostate (backend w)) c' w'" "fst (GetOrder S c' q w') = Reply r"
    by (rule unary_Reply [OF wiredD(1) [OF assms(1)] assms(6) rule nonPublic wiredD(3,4) [OF assms(1)]]) blast
  obtain ord where ord: "svcGet (memService K) (pTenantID p) q (ostate (backend w)) = Inr ord" "r = toProtoOrder ord"
    using p(2,3)
    by (auto simp: GetOrder_def tenantOf_def TenantFrom_def PrincipalFrom_def callsWith_def assms(3)
        split: sum.splits if_splits)
  have inv: "mem_inv (ostate (backend w))" using mem_reach_journal [OF assms(4) New_journal] by blast
  from mem.get_tenant_isolated [OF inv assms(5) ord(1)] p(1) ord(2) show ?thesis by (auto simp: toProtoOrder_def)
qed

definition sampleApi :: "string \<Rightarrow> 'p \<Rightarrow> ('q, 'p, (unit, unit, memstate) backend) chain" where
  "sampleApi tn np = \<lparr>marshals = (\<lambda>_. True), serviceName = ''orderd'', nilReply = np,
     metrics = (\<lambda>h. h), admissionLimit = 1, verifier = liftVerifier (\<lambda>raw u. (Inr (DevPrincipal\<lparr>pTenantID := tn\<rparr>), u)),
     policy = DefaultPolicy, limiter = liftLimiter (\<lambda>k u. (Inr allowAll, u)), showDuration = (\<lambda>_. []),
     defaultTimeout = 10, maxTimeout = 60, validator = (\<lambda>q. None)\<rparr>"

definition sampleApiCall :: "string \<Rightarrow> call" where
  "sampleApiCall m = \<lparr>callCtx = \<lparr>principal = None, metadata = None\<rparr>, deadline = None, FullMethod = m\<rparr>"

lemma sample_wired: "wired (sampleApi tn np) (\<lambda>raw u. (Inr (DevPrincipal\<lparr>pTenantID := tn\<rparr>), u)) (\<lambda>k u. (Inr allowAll, u))"
  by (simp add: wired_def sampleApi_def transparent_def)

lemma sample_get_reply:
  "fst (unary (sampleApi ''acme'' (toProtoOrder sampleOrder)) (GetOrder sampleServer)
      (sampleApiCall ''/order.v1.OrderService/GetOrder'') (ID sampleOrder) (sampleBackend sampleState))
     = Reply (toProtoOrder sampleOrder)"
proof -
  have get: "svcGet (memService sampleCodec) ''acme'' (ID sampleOrder) sampleState = Inr sampleOrder"
    by (simp add: svcGet_def memStore_def viewGet_def sampleState_def)
  show ?thesis
    by (simp add: unary_def Recovery_def Logging_def ErrorMap_def Admission_def authInterceptor_def authorize_def RateLimit_def
      checkQuota_def Deadline_def ValidateRequest_def Check_def sampleApi_def sampleApiCall_def sampleBackend_def WithPrincipal_def
      PrincipalFrom_def DevPrincipal_def allowAll_def HealthCheckMethod_def setRemainingHeader_def liftVerifier_def liftLimiter_def
      DefaultPolicy_def ScopeOrdersRead_def GetOrder_def tenantOf_def TenantFrom_def sampleServer_def get)
qed

theorem get_order_end_to_end_witness:
  "\<exists>r. fst (unary (sampleApi ''acme'' (toProtoOrder sampleOrder)) (GetOrder sampleServer)
      (sampleApiCall ''/order.v1.OrderService/GetOrder'') (ID sampleOrder) (sampleBackend sampleState)) = Reply r
     \<and> pTenantId r = ''acme''"
proof -
  have "FullMethod (sampleApiCall ''/order.v1.OrderService/GetOrder'') = ''/order.v1.OrderService/GetOrder''" "svc sampleServer = memService sampleCodec"
    by (simp_all add: sampleApiCall_def sampleServer_def)
  moreover have "svc_reach (memService sampleCodec) no_nul New (ostate (backend (sampleBackend sampleState)))"
    using sampleState_reach by (simp add: sampleBackend_def)
  ultimately show ?thesis
    using get_order_end_to_end [OF sample_wired _ _ _ sample_no_nul sample_get_reply] sample_get_reply by auto
qed

text \<open>
  C4: other tenants are invisible. Two stores the service can reach that agree on the rows of the
  verified caller's tenant give the same outcome, reply or error, for every get and every list
  request through the unary chain, so nothing about other tenants can be observed, not even whether
  an id exists.
\<close>

theorem other_tenants_invisible:
  assumes "wired d v l" "FullMethod c = ''/order.v1.OrderService/GetOrder''" "no_nul q"
    and "wired d2 v l" "FullMethod c2 = ''/order.v1.OrderService/ListOrders''" "callCtx c2 = callCtx c"
    and "svc S = memService K"
    and "svc_reach (memService K) no_nul New (ostate (backend w))" "svc_reach (memService K) no_nul New s'"
    and same: "\<forall>p i. fst (v (bearerToken (callCtx c)) (vstate (backend w))) = Inr p \<longrightarrow>
      mem_tab s' (pTenantID p, i) = mem_tab (ostate (backend w)) (pTenantID p, i)"
  shows "fst (unary d (GetOrder S) c q (withStore s' w)) = fst (unary d (GetOrder S) c q w)
    \<and> fst (unary d2 (ListOrders S) c2 q2 (withStore s' w)) = fst (unary d2 (ListOrders S) c2 q2 w)"
proof -
  have inv: "mem_inv (ostate (backend w))" "mem_inv s'"
    using mem_reach_journal [OF assms(8) New_journal] mem_reach_journal [OF assms(9) New_journal] by blast+
  have rules: "map_of (policy d) (FullMethod c) = Some \<lparr>Public = False, ruleScopes = [ScopeOrdersRead]\<rparr>"
      "map_of (policy d2) (FullMethod c2) = Some \<lparr>Public = False, ruleScopes = [ScopeOrdersRead]\<rparr>"
    by (simp_all add: wiredD(2) [OF assms(1)] wiredD(2) [OF assms(4)] assms(2,5) DefaultPolicy_def)
  have "stepsAlike s' (unary d (GetOrder S)) c q w"
    using same
    by (intro stepsAlike_unary [OF wiredD(1) [OF assms(1)] rules(1) nonPublic wiredD(3,4) [OF assms(1)]])
      (auto intro: GetOrder_alike [OF assms(7,3)])
  moreover have "stepsAlike s' (unary d2 (ListOrders S)) c2 q2 w"
    using same
    by (intro stepsAlike_unary [OF wiredD(1) [OF assms(4)] rules(2) nonPublic wiredD(3,4) [OF assms(4)]])
      (auto intro: ListOrders_alike [OF assms(7) inv] simp: assms(6))
  ultimately show ?thesis by (simp add: stepsAlike_def)
qed

theorem other_tenants_invisible_witness:
  "fst (unary (sampleApi ''globex'' (toProtoOrder sampleOrder)) (GetOrder sampleServer)
      (sampleApiCall ''/order.v1.OrderService/GetOrder'') (ID sampleOrder) (withStore sampleState (sampleBackend New)))
   = fst (unary (sampleApi ''globex'' (toProtoOrder sampleOrder)) (GetOrder sampleServer)
      (sampleApiCall ''/order.v1.OrderService/GetOrder'') (ID sampleOrder) (sampleBackend New))"
proof -
  have m: "FullMethod (sampleApiCall x) = x" "callCtx (sampleApiCall x) = callCtx (sampleApiCall y)" for x y
    by (simp_all add: sampleApiCall_def)
  have S: "svc sampleServer = memService sampleCodec" by (simp add: sampleServer_def)
  have n: "svc_reach (memService sampleCodec) no_nul New (ostate (backend (sampleBackend New)))"
    by (simp add: sampleBackend_def svc_reach.start)
  have "mem_tab sampleState (''globex'', i) = mem_tab (ostate (backend (sampleBackend New))) (''globex'', i)" for i
    by (simp add: mem_tab_def sampleState_def sampleBackend_def New_def key_def)
  then show ?thesis
    using other_tenants_invisible [OF sample_wired m(1) sample_no_nul sample_wired m(1) m(2) S n sampleState_reach,
        of "''globex''" "toProtoOrder sampleOrder" "([], [])"]
    by simp
qed

text \<open>
  A watch is one page. Whatever happens on the wire, \<open>WatchOrders\<close> sends at most the default
  page of 50 orders, each a matching order of the caller's tenant in listing order and none twice;
  it never follows the page token, so the rest of a larger result is never sent.
\<close>

theorem watch_sends_one_page:
  assumes "svc S = memService K" "mem_inv (ostate (backend w))" "tenantOf (callCtx c) = Inr t"
    and "WatchOrders S c status env done' w = (sent, e)"
  shows "length sent \<le> 50
    \<and> (\<exists>os. sent = map toProtoOrder os \<and> sorted_wrt (<) (map sortKey os)
        \<and> (\<forall>x \<in> set os. TenantID x = t \<and> (status \<in> {1, 2, 3, 4} \<longrightarrow> Status x = fromProtoStatus status)))"
proof -
  let ?f = "\<lparr>fStatus = fromProtoStatus status, fCustomerID = [], PageSize = ClampPageSize 0, PageToken = []\<rparr>"
  show ?thesis
  proof (cases "svcList (memService K) t \<lparr>fStatus = fromProtoStatus status, fCustomerID = [], PageSize = 0, PageToken = []\<rparr>
      (ostate (backend w))")
    case (Inl err)
    then show ?thesis using assms by (auto simp: WatchOrders_def)
  next
    case (Inr p)
    then have "viewList K t ?f (ostate (backend w)) = Inr p" by (simp add: svcList_def memStore_def split: if_splits)
    then obtain cur where page: "page_of K t ?f (selected (mem_tab (ostate (backend w))) t ?f cur) p"
      using viewList_page [OF assms(2)] by blast
    obtain n where n: "sent = map toProtoOrder (take n (Orders p))"
      using assms(1,3,4) Inr sendAll_prefix [of "map toProtoOrder (Orders p)" env done']
      by (auto simp: WatchOrders_def toProtoOrders_def take_map)
    have "length (Orders p) \<le> 50" using page by (simp add: page_of_def ClampPageSize_def DefaultPageSize_def MaxPageSize_def)
    moreover have "sorted_wrt (<) (map sortKey (take n (Orders p)))"
      using page by (simp add: page_of_def flip: take_map)
    moreover have "TenantID x = t \<and> matches ?f x" if "x \<in> set (take n (Orders p))" for x
      using that page mem_tab_wf [OF assms(2)] by (auto simp: page_of_def selected_def dest!: in_set_takeD)
    ultimately show ?thesis
      using n by (intro conjI exI [of _ "take n (Orders p)"]) (auto simp: matches_def fromProtoStatus_def)
  qed
qed

theorem watch_sends_one_page_witness:
  "\<exists>sent e. WatchOrders sampleServer (devCall ''/order.v1.OrderService/WatchOrders'') 0 [] None (sampleBackend New) = (sent, e)
     \<and> length sent \<le> 50"
proof -
  let ?c = "devCall ''/order.v1.OrderService/WatchOrders''"
  have t: "tenantOf (callCtx ?c) = Inr ''dev-tenant''"
    by (simp add: devCall_def tenantOf_def TenantFrom_def PrincipalFrom_def DevPrincipal_def)
  obtain sent e where r: "WatchOrders sampleServer ?c 0 [] None (sampleBackend New) = (sent, e)" by fastforce
  have "svc sampleServer = memService sampleCodec" "mem_inv (ostate (backend (sampleBackend New)))"
    by (simp_all add: sampleServer_def sampleBackend_def mem_inv_def New_def)
  from watch_sends_one_page [OF this t r] r show ?thesis by blast
qed

end
