(* ===== verification/Transcode.thy ===== *)
theory Transcode
  imports Edge Grpcapi
begin

text \<open>
  The generated REST transcoder (\<open>gen/go/order/v1/order.pb.gw.go\<close>): how a routed HTTP request becomes
  an RPC, in the mode the gateway uses (a client over a real connection) and in the one it refuses
  (the server implementation called directly). The runtime of grpc-gateway - routing, context
  annotation, decoding and query parameters - is the record \<open>gwRuntime\<close>.
\<close>

section \<open>Requests, replies and the runtime\<close>

type_synonym md = "(string \<times> string list) list"

text \<open>The body is what the limited reader of \<open>Handler\<close> yields.\<close>

record restRequest =
  rBody :: "goerr + string"
  rHeaders :: md
  rQuery :: string

record CancelOrderRequest =
  caOrderId :: string
  caReason :: string
  caIdempotencyKey :: string

text \<open>\<open>AnnotateContext\<close> (request, method, path pattern), \<open>Decode\<close> with the message as it leaves it,
  \<open>errors.Is(err, io.EOF)\<close>, \<open>ParseForm\<close>, \<open>PopulateQueryParameters\<close>, \<open>runtime.String\<close>, and the
  parameters of \<open>handleError\<close>, which \<open>runtime.HTTPError\<close> calls.\<close>

record gwRuntime =
  annotate :: "restRequest \<Rightarrow> string \<Rightarrow> string \<Rightarrow> call res"
  decodeCreate :: "goerr + string \<Rightarrow> goerr option \<times> CreateOrderRequest"
  decodeCancel :: "goerr + string \<Rightarrow> goerr option \<times> CancelOrderRequest"
  isEOF :: "goerr \<Rightarrow> bool"
  parseForm :: "restRequest \<Rightarrow> md res"
  populateList :: "md \<Rightarrow> ListOrdersRequest res"
  populateWatch :: "md \<Rightarrow> int res"
  runtimeString :: "string \<Rightarrow> string res"
  gwRows :: "(Kind \<times> kind_row) list"
  gwJSON :: "detail \<Rightarrow> string option"
  gwEncErr :: bool

text \<open>A client stub: the reply or the error, the header metadata, the state. A stream has its header
  and is read later.\<close>

type_synonym ('q, 'p, 's) rpc = "call \<Rightarrow> 'q \<Rightarrow> 's world \<Rightarrow> 'p res \<times> md \<times> 's world"

record ('st, 's) OrderServiceClient =
  clCreate :: "(CreateOrderRequest, pOrder, 's) rpc"
  clGet :: "(string, pOrder, 's) rpc"
  clList :: "(ListOrdersRequest, pOrder list \<times> string, 's) rpc"
  clCancel :: "(CancelOrderRequest, pOrder, 's) rpc"
  clWatch :: "call \<Rightarrow> int \<Rightarrow> 's world \<Rightarrow> 'st res \<times> 's world"
  streamHeader :: "'st \<Rightarrow> md res"

datatype 'st message = OrderMsg pOrder | ListMsg "pOrder list \<times> string" | StreamMsg 'st

datatype 'm restReply = Forward md 'm | HTTPError httpResponse | Aborted string

section \<open>Transcoding\<close>

definition invalidArgument :: "goerr \<Rightarrow> goerr" where
  "invalidArgument err = StatusErr InvalidArgument (errorText err) []"

text \<open>The decoding of a body: an empty one leaves the zero message.\<close>

definition decoded :: "gwRuntime \<Rightarrow> goerr option \<times> 'q \<Rightarrow> 'q res" where
  "decoded G r = (case r of
     (Some err, q) \<Rightarrow> if \<not> isEOF G err then Inl (invalidArgument err) else Inr q
   | (None, q) \<Rightarrow> Inr q)"

definition pathOrderId :: "gwRuntime \<Rightarrow> (string \<times> string) list \<Rightarrow> string res" where
  "pathOrderId G pathParams = (case map_of pathParams ''order_id'' of
     None \<Rightarrow> Inl (StatusErr InvalidArgument ''missing parameter order_id'' [])
   | Some val \<Rightarrow> (case runtimeString G val of
       Inl err \<Rightarrow> Inl (StatusErr InvalidArgument (''type mismatch, parameter: order_id, error: '' @ errorText err) [])
     | Inr s \<Rightarrow> Inr s))"

definition queryParams :: "gwRuntime \<Rightarrow> (md \<Rightarrow> 'q res) \<Rightarrow> restRequest \<Rightarrow> 'q res" where
  "queryParams G populate req = (case parseForm G req of
     Inl err \<Rightarrow> Inl (invalidArgument err)
   | Inr form \<Rightarrow> (case populate form of Inl err \<Rightarrow> Inl (invalidArgument err) | Inr q \<Rightarrow> Inr q))"

definition request_CreateOrder :: "gwRuntime \<Rightarrow> (CreateOrderRequest, 'p, 's) rpc \<Rightarrow> call \<Rightarrow> restRequest \<Rightarrow> (string \<times> string) list
    \<Rightarrow> 's world \<Rightarrow> 'p res \<times> md \<times> 's world" where
  "request_CreateOrder G client c req pathParams w = (case decoded G (decodeCreate G (rBody req)) of
     Inl err \<Rightarrow> (Inl err, [], w)
   | Inr protoReq \<Rightarrow> client c protoReq w)"

definition request_GetOrder :: "gwRuntime \<Rightarrow> (string, 'p, 's) rpc \<Rightarrow> call \<Rightarrow> restRequest \<Rightarrow> (string \<times> string) list
    \<Rightarrow> 's world \<Rightarrow> 'p res \<times> md \<times> 's world" where
  "request_GetOrder G client c req pathParams w = (case pathOrderId G pathParams of
     Inl err \<Rightarrow> (Inl err, [], w)
   | Inr orderId \<Rightarrow> client c orderId w)"

definition request_ListOrders :: "gwRuntime \<Rightarrow> (ListOrdersRequest, 'p, 's) rpc \<Rightarrow> call \<Rightarrow> restRequest \<Rightarrow> (string \<times> string) list
    \<Rightarrow> 's world \<Rightarrow> 'p res \<times> md \<times> 's world" where
  "request_ListOrders G client c req pathParams w = (case queryParams G (populateList G) req of
     Inl err \<Rightarrow> (Inl err, [], w)
   | Inr protoReq \<Rightarrow> client c protoReq w)"

definition request_CancelOrder :: "gwRuntime \<Rightarrow> (CancelOrderRequest, 'p, 's) rpc \<Rightarrow> call \<Rightarrow> restRequest \<Rightarrow> (string \<times> string) list
    \<Rightarrow> 's world \<Rightarrow> 'p res \<times> md \<times> 's world" where
  "request_CancelOrder G client c req pathParams w = (case decoded G (decodeCancel G (rBody req)) of
     Inl err \<Rightarrow> (Inl err, [], w)
   | Inr protoReq \<Rightarrow> (case pathOrderId G pathParams of
       Inl err \<Rightarrow> (Inl err, [], w)
     | Inr orderId \<Rightarrow> client c (protoReq\<lparr>caOrderId := orderId\<rparr>) w))"

definition request_WatchOrders :: "gwRuntime \<Rightarrow> (call \<Rightarrow> int \<Rightarrow> 's world \<Rightarrow> 'st res \<times> 's world) \<Rightarrow> ('st \<Rightarrow> md res) \<Rightarrow> call \<Rightarrow> restRequest
    \<Rightarrow> (string \<times> string) list \<Rightarrow> 's world \<Rightarrow> 'st res \<times> md \<times> 's world" where
  "request_WatchOrders G client header c req pathParams w = (case queryParams G (populateWatch G) req of
     Inl err \<Rightarrow> (Inl err, [], w)
   | Inr status \<Rightarrow> (case client c status w of
       (Inl err, w') \<Rightarrow> (Inl err, [], w')
     | (Inr stream, w') \<Rightarrow> (case header stream of
         Inl err \<Rightarrow> (Inl err, [], w')
       | Inr mdh \<Rightarrow> (Inr stream, mdh, w'))))"

section \<open>Client mode\<close>

text \<open>The handler registered for a route: annotate, request, and an error or the message. Before the
  request there is no server metadata in the context.\<close>

definition serveClient :: "gwRuntime \<Rightarrow> string \<Rightarrow> string \<Rightarrow> ('p \<Rightarrow> 'm)
    \<Rightarrow> (call \<Rightarrow> restRequest \<Rightarrow> (string \<times> string) list \<Rightarrow> 's world \<Rightarrow> 'p res \<times> md \<times> 's world)
    \<Rightarrow> restRequest \<Rightarrow> (string \<times> string) list \<Rightarrow> 's world \<Rightarrow> 'm restReply \<times> 's world" where
  "serveClient G rpcMethod pathPattern wrap request req pathParams w = (case annotate G req rpcMethod pathPattern of
     Inl err \<Rightarrow> (HTTPError (handleError (gwRows G) (gwJSON G) (gwEncErr G) None err), w)
   | Inr c \<Rightarrow> (case request c req pathParams w of
       (Inl err, mdh, w') \<Rightarrow> (HTTPError (handleError (gwRows G) (gwJSON G) (gwEncErr G) (Some mdh) err), w')
     | (Inr resp, mdh, w') \<Rightarrow> (Forward mdh (wrap resp), w')))"

text \<open>The compiled path patterns: operations, string pool and verb, as passed to \<open>NewPattern\<close>.\<close>

record pattern =
  pOps :: "int list"
  pPool :: "string list"
  pVerb :: string

definition pattern_Orders :: pattern where
  "pattern_Orders = \<lparr>pOps = [2, 0, 2, 1], pPool = [''v1'', ''orders''], pVerb = []\<rparr>"

definition pattern_OrderID :: "string \<Rightarrow> pattern" where
  "pattern_OrderID verb = \<lparr>pOps = [2, 0, 2, 1, 1, 0, 4, 1, 5, 2], pPool = [''v1'', ''orders'', ''order_id''], pVerb = verb\<rparr>"

type_synonym ('st, 's) route =
  "string \<times> pattern \<times> (restRequest \<Rightarrow> (string \<times> string) list \<Rightarrow> 's world \<Rightarrow> 'st message restReply \<times> 's world)"

definition RegisterOrderServiceHandlerClient :: "gwRuntime \<Rightarrow> ('st, 's) OrderServiceClient \<Rightarrow> ('st, 's) route list" where
  "RegisterOrderServiceHandlerClient G client =
    [(''POST'', pattern_Orders, serveClient G ''/order.v1.OrderService/CreateOrder'' ''/v1/orders'' OrderMsg
        (request_CreateOrder G (clCreate client))),
     (''GET'', pattern_OrderID [], serveClient G ''/order.v1.OrderService/GetOrder'' ''/v1/orders/{order_id}'' OrderMsg
        (request_GetOrder G (clGet client))),
     (''GET'', pattern_Orders, serveClient G ''/order.v1.OrderService/ListOrders'' ''/v1/orders'' ListMsg
        (request_ListOrders G (clList client))),
     (''POST'', pattern_OrderID ''cancel'', serveClient G ''/order.v1.OrderService/CancelOrder'' ''/v1/orders/{order_id}:cancel'' OrderMsg
        (request_CancelOrder G (clCancel client))),
     (''GET'', pattern_Orders\<lparr>pVerb := ''watch''\<rparr>, serveClient G ''/order.v1.OrderService/WatchOrders'' ''/v1/orders:watch'' StreamMsg
        (request_WatchOrders G (clWatch client) (streamHeader client)))]"

section \<open>Server mode\<close>

text \<open>The same with the implementation called in place: no connection, no chain, and a panic passes
  through.\<close>

definition localCall :: "('q, 'p, 's) handler \<Rightarrow> call \<Rightarrow> 'q res \<Rightarrow> 's world \<Rightarrow> 'p outcome \<times> 's world" where
  "localCall server c q w = (case q of Inl err \<Rightarrow> (Failed err, w) | Inr protoReq \<Rightarrow> server c protoReq w)"

definition local_request_CreateOrder :: "gwRuntime \<Rightarrow> (CreateOrderRequest, 'p, 's) handler \<Rightarrow> call \<Rightarrow> restRequest \<Rightarrow> (string \<times> string) list
    \<Rightarrow> 's world \<Rightarrow> 'p outcome \<times> 's world" where
  "local_request_CreateOrder G server c req pathParams w = localCall server c (decoded G (decodeCreate G (rBody req))) w"

definition local_request_GetOrder :: "gwRuntime \<Rightarrow> (string, 'p, 's) handler \<Rightarrow> call \<Rightarrow> restRequest \<Rightarrow> (string \<times> string) list
    \<Rightarrow> 's world \<Rightarrow> 'p outcome \<times> 's world" where
  "local_request_GetOrder G server c req pathParams w = localCall server c (pathOrderId G pathParams) w"

definition local_request_ListOrders :: "gwRuntime \<Rightarrow> (ListOrdersRequest, 'p, 's) handler \<Rightarrow> call \<Rightarrow> restRequest \<Rightarrow> (string \<times> string) list
    \<Rightarrow> 's world \<Rightarrow> 'p outcome \<times> 's world" where
  "local_request_ListOrders G server c req pathParams w = localCall server c (queryParams G (populateList G) req) w"

definition local_request_CancelOrder :: "gwRuntime \<Rightarrow> (CancelOrderRequest, 'p, 's) handler \<Rightarrow> call \<Rightarrow> restRequest \<Rightarrow> (string \<times> string) list
    \<Rightarrow> 's world \<Rightarrow> 'p outcome \<times> 's world" where
  "local_request_CancelOrder G server c req pathParams w =
     localCall server c (case decoded G (decodeCancel G (rBody req)) of
         Inl err \<Rightarrow> Inl err
       | Inr protoReq \<Rightarrow> (case pathOrderId G pathParams of Inl err \<Rightarrow> Inl err | Inr orderId \<Rightarrow> Inr (protoReq\<lparr>caOrderId := orderId\<rparr>))) w"

text \<open>Header metadata, gathered from what the handlers set with \<open>grpc.SetHeader\<close>.\<close>

definition mdOf :: "(string \<times> string) list \<Rightarrow> md" where
  "mdOf hs = map (\<lambda>k. (k, map snd (filter (\<lambda>h. fst h = k) hs))) (remdups (map fst hs))"

definition serveLocal :: "gwRuntime \<Rightarrow> string \<Rightarrow> string \<Rightarrow> ('p \<Rightarrow> 'm)
    \<Rightarrow> (call \<Rightarrow> restRequest \<Rightarrow> (string \<times> string) list \<Rightarrow> 's world \<Rightarrow> 'p outcome \<times> 's world)
    \<Rightarrow> restRequest \<Rightarrow> (string \<times> string) list \<Rightarrow> 's world \<Rightarrow> 'm restReply \<times> 's world" where
  "serveLocal G rpcMethod pathPattern wrap request req pathParams w = (case annotate G req rpcMethod pathPattern of
     Inl err \<Rightarrow> (HTTPError (handleError (gwRows G) (gwJSON G) (gwEncErr G) None err), w)
   | Inr c \<Rightarrow> (case request (c\<lparr>FullMethod := rpcMethod\<rparr>) req pathParams (w\<lparr>headers := []\<rparr>) of
       (Failed err, w') \<Rightarrow> (HTTPError (handleError (gwRows G) (gwJSON G) (gwEncErr G) (Some (mdOf (headers w'))) err), w')
     | (Reply resp, w') \<Rightarrow> (Forward (mdOf (headers w')) (wrap resp), w')
     | (Panicked r, w') \<Rightarrow> (Aborted r, w')))"

record 's OrderServiceServer =
  svCreate :: "(CreateOrderRequest, pOrder, 's) handler"
  svGet :: "(string, pOrder, 's) handler"
  svList :: "(ListOrdersRequest, pOrder list \<times> string, 's) handler"
  svCancel :: "(CancelOrderRequest, pOrder, 's) handler"

definition RegisterOrderServiceHandlerServer :: "gwRuntime \<Rightarrow> 's OrderServiceServer \<Rightarrow> ('st, 's) route list" where
  "RegisterOrderServiceHandlerServer G server =
    [(''POST'', pattern_Orders, serveLocal G ''/order.v1.OrderService/CreateOrder'' ''/v1/orders'' OrderMsg
        (local_request_CreateOrder G (svCreate server))),
     (''GET'', pattern_OrderID [], serveLocal G ''/order.v1.OrderService/GetOrder'' ''/v1/orders/{order_id}'' OrderMsg
        (local_request_GetOrder G (svGet server))),
     (''GET'', pattern_Orders, serveLocal G ''/order.v1.OrderService/ListOrders'' ''/v1/orders'' ListMsg
        (local_request_ListOrders G (svList server))),
     (''POST'', pattern_OrderID ''cancel'', serveLocal G ''/order.v1.OrderService/CancelOrder'' ''/v1/orders/{order_id}:cancel'' OrderMsg
        (local_request_CancelOrder G (svCancel server))),
     (''GET'', pattern_Orders\<lparr>pVerb := ''watch''\<rparr>, \<lambda>req pathParams w. (HTTPError (handleError (gwRows G) (gwJSON G) (gwEncErr G) None
        (StatusErr Unimplemented ''streaming calls are not yet supported in the in-process transport'' [])), w))]"

section \<open>The gateway of the service\<close>

text \<open>
  What becomes of a call on its connection besides the server's answer, by method and call: an error
  before the interceptors of the server run (the message cannot be marshalled, for instance because a
  string is not UTF-8, the deadline has passed, the transport fails, the server refuses the frame), and
  an error after they ran, with the header metadata that had arrived (the reply is lost, or the deadline
  passes while the server works).
\<close>

record connection =
  sendErr :: "string \<Rightarrow> call \<Rightarrow> goerr option"
  recvErr :: "string \<Rightarrow> call \<Rightarrow> (goerr \<times> md) option"

text \<open>A stub over the connection: the server sees the metadata of the call, no principal, and
  answers through \<open>h\<close>. A panic that reached the server's goroutine would end the process.\<close>

definition overConn :: "connection \<Rightarrow> string \<Rightarrow> ('q, 'p, 's) handler \<Rightarrow> ('q, 'p, 's) rpc" where
  "overConn N m h c q w = (case sendErr N m c of
     Some err \<Rightarrow> (Inl err, [], w)
   | None \<Rightarrow> (let (r, w') = h (c\<lparr>callCtx := \<lparr>principal = None, metadata = metadata (callCtx c)\<rparr>, FullMethod := m\<rparr>) q (w\<lparr>headers := []\<rparr>)
       in case recvErr N m c of
         Some (err, mdh) \<Rightarrow> (Inl err, mdh, w')
       | None \<Rightarrow> (case r of
           Reply p \<Rightarrow> (Inr p, mdOf (headers w'), w')
         | Failed e \<Rightarrow> (Inl e, mdOf (headers w'), w')
         | Panicked x \<Rightarrow> (Inl (StatusErr Unavailable x []), [], w'))))"

record ('v, 'l, 's) chains =
  chCreate :: "(CreateOrderRequest, pOrder, ('v, 'l, 's) backend) chain"
  chGet :: "(string, pOrder, ('v, 'l, 's) backend) chain"
  chList :: "(ListOrdersRequest, pOrder list \<times> string, ('v, 'l, 's) backend) chain"
  chCancel :: "(CancelOrderRequest, pOrder, ('v, 'l, 's) backend) chain"

text \<open>The chain around each message type is the one chain the server was built with.\<close>

definition chained :: "('v, 'l, 's) chains \<Rightarrow> (string \<Rightarrow> 'v \<Rightarrow> Principal res \<times> 'v) \<Rightarrow> (string \<Rightarrow> 'l \<Rightarrow> Result res \<times> 'l) \<Rightarrow> bool" where
  "chained D v l \<longleftrightarrow> wired (chCreate D) v l \<and> wired (chGet D) v l \<and> wired (chList D) v l \<and> wired (chCancel D) v l"

definition cancelHandler :: "'s OrderServer \<Rightarrow> (CancelOrderRequest, pOrder, ('v, 'l, 's) backend) handler" where
  "cancelHandler S c q w = CancelOrder S c (caOrderId q) w"

definition NewMux :: "gwRuntime \<Rightarrow> connection \<Rightarrow> ('v, 'l, 's) chains \<Rightarrow> (call \<Rightarrow> int \<Rightarrow> ('v, 'l, 's) backend world \<Rightarrow> 'st res \<times> ('v, 'l, 's) backend world)
    \<Rightarrow> ('st \<Rightarrow> md res) \<Rightarrow> 's OrderServer \<Rightarrow> ('st, ('v, 'l, 's) backend) route list" where
  "NewMux G N D watch header S = RegisterOrderServiceHandlerClient G
     \<lparr>clCreate = overConn N ''/order.v1.OrderService/CreateOrder'' (unary (chCreate D) (CreateOrder S)),
      clGet = overConn N ''/order.v1.OrderService/GetOrder'' (unary (chGet D) (GetOrder S)),
      clList = overConn N ''/order.v1.OrderService/ListOrders'' (unary (chList D) (ListOrders S)),
      clCancel = overConn N ''/order.v1.OrderService/CancelOrder'' (unary (chCancel D) (cancelHandler S)),
      clWatch = watch, streamHeader = header\<rparr>"

section \<open>Lemmas\<close>

lemma status_rows:
  assumes "mset rows = mset kindInfo"
  shows "HTTPStatusFromCode rows InvalidArgument = 400" "HTTPStatusFromCode rows Unauthenticated = 401"
    "HTTPStatusFromCode rows ResourceExhausted = 429" "HTTPStatusFromCode rows Unknown = 500"
proof -
  have "GRPCCode KindInvalidArgument = InvalidArgument" "HTTPStatus KindInvalidArgument = 400"
      "GRPCCode KindUnauthenticated = Unauthenticated" "HTTPStatus KindUnauthenticated = 401"
      "GRPCCode KindResourceExhausted = ResourceExhausted" "HTTPStatus KindResourceExhausted = 429"
    by (simp_all add: GRPCCode_def HTTPStatus_def kindInfo_def)
  then show "HTTPStatusFromCode rows InvalidArgument = 400" "HTTPStatusFromCode rows Unauthenticated = 401"
      "HTTPStatusFromCode rows ResourceExhausted = 429"
    using http_status_of_code_agrees [OF assms] by metis+
  have "set rows = set kindInfo" using assms by (metis set_mset_mset)
  then have "\<forall>(k, i) \<in> set rows. Code i \<noteq> Unknown" by (simp add: kindInfo_def)
  then show "HTTPStatusFromCode rows Unknown = 500" using HTTPStatusFromCode_unlisted [of rows Unknown] by simp
qed

lemma handleError_status: "hStatus (handleError rows toJSON encErr mdh (StatusErr code m ds)) = HTTPStatusFromCode rows code"
  by (simp add: handleError_def statusConvert_def statusFromError_def)

lemma decoded_Inl: "decoded G r = Inl err \<Longrightarrow> \<exists>m. err = StatusErr InvalidArgument m []"
  by (auto simp: decoded_def invalidArgument_def split: prod.splits option.splits if_splits)

lemma pathOrderId_Inl: "pathOrderId G ps = Inl err \<Longrightarrow> \<exists>m. err = StatusErr InvalidArgument m []"
  by (auto simp: pathOrderId_def split: option.splits sum.splits)

lemma queryParams_Inl: "queryParams G f req = Inl err \<Longrightarrow> \<exists>m. err = StatusErr InvalidArgument m []"
  by (auto simp: queryParams_def invalidArgument_def split: sum.splits)

text \<open>A refusal: no reply, one of three codes or an error of the connection, and only the verifier's own
  state may have changed.\<close>

definition connFails :: "connection \<Rightarrow> goerr \<Rightarrow> md \<Rightarrow> bool" where
  "connFails N err mdh \<longleftrightarrow> (\<exists>m c. sendErr N m c = Some err \<and> mdh = [] \<or> recvErr N m c = Some (err, mdh))"

definition refused :: "connection \<Rightarrow> ('p res \<times> md \<times> ('v, 'l, 's) backend world) \<Rightarrow> ('v, 'l, 's) backend world \<Rightarrow> bool" where
  "refused N r w \<longleftrightarrow> ((\<exists>code m ds. fst r = Inl (StatusErr code m ds) \<and> code \<in> {InvalidArgument, Unauthenticated, ResourceExhausted})
       \<or> (\<exists>err. fst r = Inl err \<and> connFails N err (fst (snd r))))
     \<and> ostate (backend (snd (snd r))) = ostate (backend w) \<and> lstate (backend (snd (snd r))) = lstate (backend w)"

lemma refused_early: "\<exists>m. err = StatusErr InvalidArgument m [] \<Longrightarrow> refused N (Inl err, [], w) w"
  by (auto simp: refused_def)

lemma overConn_refused:
  assumes "wired d v l" "map_of DefaultPolicy m = Some \<lparr>Public = False, ruleScopes = sc\<rparr>"
    and "v (bearerToken (callCtx c)) (vstate (backend w)) = (Inl err, v')"
  shows "refused N (overConn N m (unary d h) c q w) w"
proof -
  let ?c = "c\<lparr>callCtx := \<lparr>principal = None, metadata = metadata (callCtx c)\<rparr>, FullMethod := m\<rparr>" and ?w = "w\<lparr>headers := []\<rparr>"
  have v: "verifier d (bearerToken (callCtx ?c)) (backend ?w) = (Inl err, (backend w)\<lparr>vstate := v'\<rparr>)"
    using assms(3) by (simp add: wiredD(3) [OF assms(1)] liftVerifier_def bearerToken_def)
  have rule: "map_of (policy d) (FullMethod ?c) = Some \<lparr>Public = False, ruleScopes = sc\<rparr>"
    by (simp add: wiredD(2) [OF assms(1)] assms(2))
  have sent: "connFails N e []" if "sendErr N m c = Some e" for e using that by (auto simp: connFails_def)
  have received: "connFails N e mdh" if "recvErr N m c = Some (e, mdh)" for e mdh using that by (auto simp: connFails_def)
  from unauthenticated_reaches_nothing [OF wiredD(1) [OF assms(1)] rule nonPublic v, of h q]
  show ?thesis
    by (cases "unary d h ?c q ?w") (auto simp: overConn_def refused_def sent received split: option.split)
qed

definition answersRefused :: "gwRuntime \<Rightarrow> connection \<Rightarrow> restRequest \<Rightarrow> 'm restReply \<times> ('v, 'l, 's) backend world \<Rightarrow> ('v, 'l, 's) backend world \<Rightarrow> bool" where
  "answersRefused G N req r w \<longleftrightarrow> (\<exists>resp w'. r = (HTTPError resp, w')
    \<and> (hStatus resp \<in> {400, 401, 429}
        \<or> (\<exists>m p err. annotate G req m p = Inl err \<and> resp = handleError (gwRows G) (gwJSON G) (gwEncErr G) None err)
        \<or> (\<exists>err mdh. connFails N err mdh \<and> resp = handleError (gwRows G) (gwJSON G) (gwEncErr G) (Some mdh) err))
    \<and> ostate (backend w') = ostate (backend w) \<and> lstate (backend w') = lstate (backend w))"

text \<open>The requests that end in a refusal when the token does not verify.\<close>

definition unverified :: "connection \<Rightarrow> (string \<Rightarrow> 'v \<Rightarrow> Principal res \<times> 'v) \<Rightarrow> restRequest \<Rightarrow> (string \<times> string) list \<Rightarrow> ('v, 'l, 's) backend world
    \<Rightarrow> (call \<Rightarrow> restRequest \<Rightarrow> (string \<times> string) list \<Rightarrow> ('v, 'l, 's) backend world \<Rightarrow> 'p res \<times> md \<times> ('v, 'l, 's) backend world) set" where
  "unverified N v req ps w = {request. \<forall>c err v'. v (bearerToken (callCtx c)) (vstate (backend w)) = (Inl err, v') \<longrightarrow> refused N (request c req ps w) w}"

lemma serveClient_refused:
  assumes "mset (gwRows G) = mset kindInfo"
    and "\<forall>m p c. annotate G req m p = Inr c \<longrightarrow> (\<exists>err v'. v (bearerToken (callCtx c)) (vstate (backend w)) = (Inl err, v'))"
    and "request \<in> unverified N v req ps w"
  shows "answersRefused G N req (serveClient G m pat wrap request req ps w) w"
proof (cases "annotate G req m pat")
  case (Inl err)
  then have "\<exists>m p e. annotate G req m p = Inl e \<and> handleError (gwRows G) (gwJSON G) (gwEncErr G) None err
      = handleError (gwRows G) (gwJSON G) (gwEncErr G) None e" by blast
  with Inl show ?thesis by (simp add: serveClient_def answersRefused_def)
next
  case (Inr c)
  then obtain err v' where "v (bearerToken (callCtx c)) (vstate (backend w)) = (Inl err, v')" using assms(2) by meson
  then have "refused N (request c req ps w) w" using assms(3) by (auto simp: unverified_def)
  with Inr status_rows [OF assms(1)] show ?thesis
    by (cases "request c req ps w") (auto simp: serveClient_def refused_def handleError_status answersRefused_def, blast)
qed

lemmas request_defs = request_CreateOrder_def request_GetOrder_def request_ListOrders_def request_CancelOrder_def

text \<open>
  C7: The REST edge has no way around authentication. On every unary route of the mux, whatever the request
  holds and however the connection to the server fails, a caller whose bearer token does not verify never
  gets a message, and neither the order store nor the rate limiter is touched. The answer is a 400, 401 or
  429, or it renders the error with which the runtime refused to annotate the request or with which
  the connection failed (a message that is not UTF-8, a deadline that has passed): the transcoded call
  runs the whole interceptor chain, because it is an RPC over a connection.
\<close>

theorem rest_needs_a_verified_token:
  fixes w :: "('v, 'l, 's) backend world"
  assumes wired: "chained D v l" and rows: "mset (gwRows G) = mset kindInfo"
    and route: "(meth, pat, handle) \<in> set (take 4 (NewMux G N D watch header S))"
    and bad: "\<forall>m p c. annotate G req m p = Inr c \<longrightarrow> (\<exists>err v'. v (bearerToken (callCtx c)) (vstate (backend w)) = (Inl err, v'))"
  shows "\<exists>resp w'. handle req pathParams w = (HTTPError resp, w')
    \<and> (hStatus resp \<in> {400, 401, 429}
        \<or> (\<exists>m p err. annotate G req m p = Inl err \<and> resp = handleError (gwRows G) (gwJSON G) (gwEncErr G) None err)
        \<or> (\<exists>err mdh. connFails N err mdh \<and> resp = handleError (gwRows G) (gwJSON G) (gwEncErr G) (Some mdh) err))
    \<and> ostate (backend w') = ostate (backend w) \<and> lstate (backend w') = lstate (backend w)"
proof -
  note wd = wired [unfolded chained_def]
  have pol: "map_of DefaultPolicy ''/order.v1.OrderService/CreateOrder'' = Some \<lparr>Public = False, ruleScopes = [ScopeOrdersWrite]\<rparr>"
    "map_of DefaultPolicy ''/order.v1.OrderService/GetOrder'' = Some \<lparr>Public = False, ruleScopes = [ScopeOrdersRead]\<rparr>"
    "map_of DefaultPolicy ''/order.v1.OrderService/ListOrders'' = Some \<lparr>Public = False, ruleScopes = [ScopeOrdersRead]\<rparr>"
    "map_of DefaultPolicy ''/order.v1.OrderService/CancelOrder'' = Some \<lparr>Public = False, ruleScopes = [ScopeOrdersWrite]\<rparr>"
    by (simp_all add: DefaultPolicy_def)
  note early = refused_early [OF decoded_Inl] refused_early [OF pathOrderId_Inl] refused_early [OF queryParams_Inl]
  note conn = overConn_refused [OF conjunct1 [OF wd] pol(1)] overConn_refused [OF conjunct1 [OF conjunct2 [OF wd]] pol(2)]
    overConn_refused [OF conjunct1 [OF conjunct2 [OF conjunct2 [OF wd]]] pol(3)]
    overConn_refused [OF conjunct2 [OF conjunct2 [OF conjunct2 [OF wd]]] pol(4)]
  have "request_CreateOrder G (overConn N ''/order.v1.OrderService/CreateOrder'' (unary (chCreate D) (CreateOrder S))) \<in> unverified N v req pathParams w"
    "request_GetOrder G (overConn N ''/order.v1.OrderService/GetOrder'' (unary (chGet D) (GetOrder S))) \<in> unverified N v req pathParams w"
    "request_ListOrders G (overConn N ''/order.v1.OrderService/ListOrders'' (unary (chList D) (ListOrders S))) \<in> unverified N v req pathParams w"
    "request_CancelOrder G (overConn N ''/order.v1.OrderService/CancelOrder'' (unary (chCancel D) (cancelHandler S))) \<in> unverified N v req pathParams w"
    by (auto simp: unverified_def request_defs split: sum.split intro: early conn)
  then have "answersRefused G N req (handle req pathParams w) w"
    using route
    by (auto simp: NewMux_def RegisterOrderServiceHandlerClient_def intro: serveClient_refused [where v = v, OF rows bad])
  then show ?thesis by (simp add: answersRefused_def)
qed

section \<open>Cancelling over REST\<close>

text \<open>The chain leaves the store to the handler, called with the verified principal.\<close>

lemma unary_state:
  assumes "transparent (metrics d)"
    and rule: "map_of (policy d) (FullMethod c) = Some rule" "\<not> Public rule"
    and lifted: "verifier d = liftVerifier v" "limiter d = liftLimiter l"
  shows "ostate (backend (snd (unary d h c q w))) = ostate (backend w)
    \<or> (\<exists>p c' w'. fst (v (bearerToken (callCtx c)) (vstate (backend w))) = Inr p
        \<and> callsWith p (ostate (backend w)) c' w' \<and> ostate (backend (snd (unary d h c q w))) = ostate (backend (snd (h c' q w'))))"
proof -
  let ?P = "\<lambda>x. x = ostate (backend w) \<or> (\<exists>p c' w'. fst (v (bearerToken (callCtx c)) (vstate (backend w))) = Inr p
        \<and> callsWith p (ostate (backend w)) c' w' \<and> x = ostate (backend (snd (h c' q w'))))"
  have inner: "?P (ostate (backend (snd (inner d h c q u))))" if u: "backend u = backend w" for u
  proof (cases "authorize (liftVerifier v) (policy d) (callCtx c) (FullMethod c) u")
    case (Pair r w1)
    show ?thesis
    proof (cases r)
      case (Inl e)
      have "ostate (backend w1) = ostate (backend u)"
        using Pair rule by (auto simp: authorize_def liftVerifier_def addLog_def Let_def split: prod.splits sum.splits option.splits)
      then show ?thesis using Pair Inl u by (simp add: inner_def authInterceptor_def lifted)
    next
      case (Inr c1)
      obtain p where p: "fst (v (bearerToken (callCtx c)) (vstate (backend w))) = Inr p" "principal c1 = Some p"
          "ostate (backend w1) = ostate (backend w)"
        using authorize_lifted(2) [OF rule Pair [unfolded Inr]] u by auto
      obtain q' w2 where cq: "checkQuota (showDuration d) (liftLimiter l) c1 (FullMethod c) w1 = (q', w2)" by fastforce
      let ?c = "c\<lparr>callCtx := c1, deadline := applyDeadline (clock w2) (deadline c) (defaultTimeout d) (maxTimeout d)\<rparr>"
      have "callsWith p (ostate (backend w)) ?c w2" using p checkQuota_ostate [OF cq] by (simp add: callsWith_def)
      moreover have "ostate (backend (snd (inner d h c q u))) = ostate (backend w)
          \<or> snd (inner d h c q u) = snd (h ?c q w2)"
        using Pair Inr cq p(3) checkQuota_ostate [OF cq]
        by (auto simp: inner_def authInterceptor_def lifted RateLimit_def Deadline_def ValidateRequest_def split: option.splits)
      ultimately show ?thesis using p(1) by metis
    qed
  qed
  have adm: "?P (ostate (backend (snd (Admission n (inner d h) c q w))))" for n
    using inner [of w] inner [of "w\<lparr>inflight := inflight w + 1\<rparr>"] by (auto simp: Admission_def split: prod.splits)
  have "ostate (backend (snd (unary d h c q w))) = ostate (backend (snd (Admission (admissionLimit d) (inner d h) c q w)))"
    unfolding unary_def transparentD [OF assms(1)] inner_def [symmetric]
    by (auto simp: Recovery_def Logging_def ErrorMap_def recordRpc_def addLog_def Let_def split: prod.splits outcome.splits option.splits)
  with adm show ?thesis by simp
qed

lemma cancelHandler_touches:
  fixes w :: "('v, 'l, memstate) backend world"
  assumes "svc S = memService K" "mem_inv (ostate (backend w))" "no_nul (caOrderId q)" "principal (callCtx c) = Some p"
    and "mem_tab (ostate (backend (snd (cancelHandler S c q w)))) k \<noteq> mem_tab (ostate (backend w)) k"
  shows "k = (pTenantID p, caOrderId q)"
proof -
  obtain t where t: "tenantOf (callCtx c) = Inr t" "t = pTenantID p"
    using assms(4,5) by (auto simp: cancelHandler_def CancelOrder_def tenantOf_def TenantFrom_def PrincipalFrom_def split: if_splits)
  obtain r s' where r: "svcCancel (memService K) (clock w) t (caOrderId q) (ostate (backend w)) = (r, s')"
    by (cases "svcCancel (memService K) (clock w) t (caOrderId q) (ostate (backend w))")
  have s': "ostate (backend (snd (cancelHandler S c q w))) = s'"
    by (cases r) (simp_all add: cancelHandler_def CancelOrder_def t assms(1) r [unfolded t(2)] onStore_def Let_def)
  have "s' = ostate (backend w) \<or> (\<exists>x. mem_tab s' = (mem_tab (ostate (backend w)))((t, caOrderId q) \<mapsto> x))"
    using mem.cancel_effect [OF assms(2,3) r] by (cases r) (auto simp: mem.cancelled_def)
  then show ?thesis using assms(5) s' t(2) by (auto split: if_splits)
qed

text \<open>
  C8: A cancellation over REST touches only the order named in its path, in the tenant of its token. Whatever
  order id the body carries and whatever the outcome, every other order - of that tenant or another -
  is as before, and with a token that does not verify all of them are.
\<close>

theorem rest_cancel_touches_only_the_path_order:
  fixes w :: "('v, 'l, memstate) backend world"
  assumes wired: "chained D v l" and route: "(''POST'', pattern_OrderID ''cancel'', handle) \<in> set (NewMux G N D watch header S)"
    and mem: "svc S = memService K" "svc_reach (memService K) no_nul New (ostate (backend w))"
    and path: "map_of pathParams ''order_id'' = Some i" "runtimeString G i = Inr i" "no_nul i"
    and changed: "mem_tab (ostate (backend (snd (handle req pathParams w)))) (t, j) \<noteq> mem_tab (ostate (backend w)) (t, j)"
  shows "j = i \<and> (\<exists>c p. annotate G req ''/order.v1.OrderService/CancelOrder'' ''/v1/orders/{order_id}:cancel'' = Inr c
    \<and> fst (v (bearerToken (callCtx c)) (vstate (backend w))) = Inr p \<and> t = pTenantID p)"
proof -
  let ?m = "''/order.v1.OrderService/CancelOrder''" and ?U = "unary (chCancel D) (cancelHandler S)"
  have w': "wired (chCancel D) v l" using wired by (simp add: chained_def)
  have inv: "mem_inv (ostate (backend w))" using mem_reach_journal [OF mem(2) New_journal] by blast
  have h: "handle = serveClient G ?m ''/v1/orders/{order_id}:cancel'' OrderMsg (request_CancelOrder G (overConn N ?m ?U))"
    using route by (auto simp: NewMux_def RegisterOrderServiceHandlerClient_def pattern_OrderID_def pattern_Orders_def)
  obtain c where c: "annotate G req ?m ''/v1/orders/{order_id}:cancel'' = Inr c"
    using changed by (auto simp: h serveClient_def split: sum.splits)
  obtain b where b: "decoded G (decodeCancel G (rBody req)) = Inr b"
    using changed c by (auto simp: h serveClient_def request_CancelOrder_def split: sum.splits)
  let ?c = "c\<lparr>callCtx := \<lparr>principal = None, metadata = metadata (callCtx c)\<rparr>, FullMethod := ?m\<rparr>" and ?q = "b\<lparr>caOrderId := i\<rparr>"
    and ?w = "w\<lparr>headers := []\<rparr>"
  have sent: "sendErr N ?m c = None"
    using changed c b path(1,2)
    by (cases "sendErr N ?m c") (simp_all add: h serveClient_def request_CancelOrder_def pathOrderId_def overConn_def)
  have "ostate (backend (snd (handle req pathParams w))) = ostate (backend (snd (?U ?c ?q ?w)))"
    using c b path(1,2) sent
    by (auto simp: h serveClient_def request_CancelOrder_def pathOrderId_def overConn_def split: prod.splits sum.splits outcome.splits option.splits)
  with changed have "ostate (backend (snd (?U ?c ?q ?w))) \<noteq> ostate (backend ?w)"
      "mem_tab (ostate (backend (snd (?U ?c ?q ?w)))) (t, j) \<noteq> mem_tab (ostate (backend ?w)) (t, j)" by auto
  moreover have "map_of (policy (chCancel D)) (FullMethod ?c) = Some \<lparr>Public = False, ruleScopes = [ScopeOrdersWrite]\<rparr>"
    by (simp add: wiredD(2) [OF w'] DefaultPolicy_def)
  note unary_state [OF wiredD(1) [OF w'] this nonPublic wiredD(3,4) [OF w'], of "cancelHandler S" ?q ?w]
  ultimately obtain p c' and w2 :: "('v, 'l, memstate) backend world" where p: "fst (v (bearerToken (callCtx ?c)) (vstate (backend ?w))) = Inr p"
      "callsWith p (ostate (backend ?w)) c' w2"
      "ostate (backend (snd (?U ?c ?q ?w))) = ostate (backend (snd (cancelHandler S c' ?q w2)))"
      "mem_tab (ostate (backend (snd (?U ?c ?q ?w)))) (t, j) \<noteq> mem_tab (ostate (backend ?w)) (t, j)"
    by blast
  then have q: "mem_tab (ostate (backend (snd (cancelHandler S c' ?q w2)))) (t, j) \<noteq> mem_tab (ostate (backend w2)) (t, j)"
    by (simp add: callsWith_def)
  have "(t, j) = (pTenantID p, caOrderId ?q)"
    by (rule cancelHandler_touches [OF mem(1) _ _ _ q]) (use p(2) inv path(3) in \<open>simp_all add: callsWith_def\<close>)
  then show ?thesis using c p(1) by (simp add: bearerToken_def)
qed

section \<open>Why not server mode\<close>

text \<open>
  In server mode an anonymous request runs the handler itself: no interceptor asks for a token, and what
  comes back is the handler's own refusal, rendered as a 500 because nothing maps it to a status.
\<close>

theorem server_mode_skips_the_chain:
  assumes rows: "mset (gwRows G) = mset kindInfo"
    and route: "(''GET'', pattern_OrderID [], handle) \<in> set (RegisterOrderServiceHandlerServer G
        \<lparr>svCreate = CreateOrder S, svGet = GetOrder S, svList = ListOrders S, svCancel = cancelHandler S\<rparr>)"
    and anonymous: "annotate G req ''/order.v1.OrderService/GetOrder'' ''/v1/orders/{order_id}'' = Inr c" "principal (callCtx c) = None"
    and path: "pathOrderId G pathParams = Inr i"
  shows "\<exists>resp w'. handle req pathParams w = (HTTPError resp, w') \<and> hStatus resp = 500"
proof -
  have h: "handle = serveLocal G ''/order.v1.OrderService/GetOrder'' ''/v1/orders/{order_id}'' OrderMsg (local_request_GetOrder G (GetOrder S))"
    using route by (auto simp: RegisterOrderServiceHandlerServer_def pattern_OrderID_def pattern_Orders_def)
  have "TenantFrom (callCtx c) = None" using anonymous(2) by (simp add: TenantFrom_def PrincipalFrom_def)
  then show ?thesis
    using anonymous(1) path status_rows(4) [OF rows]
    by (simp add: h serveLocal_def local_request_GetOrder_def localCall_def GetOrder_def tenantOf_def handleError_def statusConvert_def
        statusFromError_def appNew_def)
qed

section \<open>Witnesses\<close>

text \<open>A runtime that forwards the token of the headers and decodes one body.\<close>

definition demoRuntime :: gwRuntime where
  "demoRuntime = \<lparr>annotate = (\<lambda>req m p. Inr \<lparr>callCtx = \<lparr>principal = None, metadata = Some (rHeaders req)\<rparr>, deadline = None, FullMethod = m\<rparr>),
     decodeCreate = (\<lambda>b. (None, \<lparr>reqCustomerId = [], reqItems = []\<rparr>)),
     decodeCancel = (\<lambda>b. (None, \<lparr>caOrderId = ''another-order'', caReason = [], caIdempotencyKey = []\<rparr>)),
     isEOF = (\<lambda>e. False), parseForm = (\<lambda>r. Inr []), populateList = (\<lambda>f. Inr \<lparr>reqStatus = 0, lreqCustomerId = [], reqPageSize = 0, reqPageToken = []\<rparr>),
     populateWatch = (\<lambda>f. Inr 0), runtimeString = Inr, gwRows = kindInfo, gwJSON = (\<lambda>d. None), gwEncErr = False\<rparr>"

definition demoVerify :: "string \<Rightarrow> unit \<Rightarrow> Principal res \<times> unit" where
  "demoVerify raw u = (if raw = ''good'' then Inr (DevPrincipal\<lparr>pTenantID := ''acme''\<rparr>) else Inl (Sentinel ErrInvalidToken), u)"

definition demoChain :: "'p \<Rightarrow> ('q, 'p, (unit, unit, memstate) backend) chain" where
  "demoChain np = (sampleApi ''acme'' np)\<lparr>verifier := liftVerifier demoVerify\<rparr>"

definition demoChains :: "(unit, unit, memstate) chains" where
  "demoChains = \<lparr>chCreate = demoChain (toProtoOrder sampleOrder), chGet = demoChain (toProtoOrder sampleOrder),
     chList = demoChain ([], []), chCancel = demoChain (toProtoOrder sampleOrder)\<rparr>"

lemma demo_chained: "chained demoChains demoVerify (\<lambda>k u. (Inr allowAll, u))"
  by (simp add: chained_def demoChains_def demoChain_def wired_def sampleApi_def transparent_def)

definition demoRequest :: "string \<Rightarrow> restRequest" where
  "demoRequest tok = \<lparr>rBody = Inr [], rHeaders = [(''authorization'', [''Bearer '' @ tok])], rQuery = []\<rparr>"

lemma demo_bearer: "bearerToken \<lparr>principal = None, metadata = Some (rHeaders (demoRequest ''good''))\<rparr> = ''good''"
  "bearerToken \<lparr>principal = None, metadata = Some (rHeaders (demoRequest ''bad''))\<rparr> = ''bad''"
  by code_simp+

definition calmConn :: connection where
  "calmConn = \<lparr>sendErr = (\<lambda>m c. None), recvErr = (\<lambda>m c. None)\<rparr>"

definition demoMux :: "(unit, (unit, unit, memstate) backend) route list" where
  "demoMux = NewMux demoRuntime calmConn demoChains (\<lambda>c st w. (Inr (), w)) (\<lambda>u. Inr []) sampleServer"

theorem rest_needs_a_verified_token_witness:
  "\<exists>handle resp w'. (''GET'', pattern_OrderID [], handle) \<in> set (take 4 demoMux)
     \<and> handle (demoRequest ''bad'') [(''order_id'', ID sampleOrder)] (sampleBackend sampleState) = (HTTPError resp, w')
     \<and> hStatus resp \<in> {400, 401, 429} \<and> ostate (backend w') = sampleState"
proof -
  obtain handle where h: "(''GET'', pattern_OrderID [], handle) \<in> set (take 4 demoMux)"
    by (auto simp: demoMux_def NewMux_def RegisterOrderServiceHandlerClient_def)
  have bad: "\<forall>m p c. annotate demoRuntime (demoRequest ''bad'') m p = Inr c
      \<longrightarrow> (\<exists>err v'. demoVerify (bearerToken (callCtx c)) (vstate (backend (sampleBackend sampleState))) = (Inl err, v'))"
    using demo_bearer(2) by (auto simp: demoRuntime_def demoVerify_def)
  have calm: "\<not> connFails calmConn err mdh" "annotate demoRuntime r m p \<noteq> Inl err" for err mdh r m p
    by (simp_all add: connFails_def calmConn_def demoRuntime_def)
  have rows: "mset (gwRows demoRuntime) = mset kindInfo" by (simp add: demoRuntime_def)
  from rest_needs_a_verified_token [OF demo_chained rows h [unfolded demoMux_def] bad, of "[(''order_id'', ID sampleOrder)]"] calm h
  show ?thesis by (auto simp: sampleBackend_def)
qed

lemma demo_cancel:
  "mem_tab (ostate (backend (snd (serveClient demoRuntime ''/order.v1.OrderService/CancelOrder'' ''/v1/orders/{order_id}:cancel'' OrderMsg
     (request_CancelOrder demoRuntime (overConn calmConn ''/order.v1.OrderService/CancelOrder'' (unary (chCancel demoChains) (cancelHandler sampleServer))))
     (demoRequest ''good'') [(''order_id'', ID sampleOrder)] (sampleBackend sampleState))))) (''acme'', ID sampleOrder)
   \<noteq> mem_tab sampleState (''acme'', ID sampleOrder)"
  by code_simp

theorem rest_cancel_touches_only_the_path_order_witness:
  "\<exists>handle. (''POST'', pattern_OrderID ''cancel'', handle) \<in> set demoMux
     \<and> mem_tab (ostate (backend (snd (handle (demoRequest ''good'') [(''order_id'', ID sampleOrder)] (sampleBackend sampleState)))))
         (''acme'', ID sampleOrder) \<noteq> mem_tab sampleState (''acme'', ID sampleOrder)
     \<and> (\<exists>p. fst (demoVerify ''good'' ()) = Inr p \<and> ''acme'' = pTenantID p)"
proof -
  let ?h = "serveClient demoRuntime ''/order.v1.OrderService/CancelOrder'' ''/v1/orders/{order_id}:cancel'' OrderMsg
     (request_CancelOrder demoRuntime (overConn calmConn ''/order.v1.OrderService/CancelOrder'' (unary (chCancel demoChains) (cancelHandler sampleServer))))"
  have h: "(''POST'', pattern_OrderID ''cancel'', ?h) \<in> set demoMux"
    by (simp add: demoMux_def NewMux_def RegisterOrderServiceHandlerClient_def)
  have r: "svc_reach (memService sampleCodec) no_nul New (ostate (backend (sampleBackend sampleState)))"
    using sampleState_reach by (simp add: sampleBackend_def)
  have ch: "mem_tab (ostate (backend (snd (?h (demoRequest ''good'') [(''order_id'', ID sampleOrder)] (sampleBackend sampleState)))))
      (''acme'', ID sampleOrder) \<noteq> mem_tab (ostate (backend (sampleBackend sampleState))) (''acme'', ID sampleOrder)"
    using demo_cancel by (simp add: sampleBackend_def)
  have S: "svc sampleServer = memService sampleCodec" and m: "map_of [(''order_id'', ID sampleOrder)] ''order_id'' = Some (ID sampleOrder)"
    and s: "runtimeString demoRuntime (ID sampleOrder) = Inr (ID sampleOrder)"
    by (simp_all add: sampleServer_def demoRuntime_def)
  note rest_cancel_touches_only_the_path_order [OF demo_chained h [unfolded demoMux_def] S r m s sample_no_nul ch]
  then show ?thesis using h demo_cancel demo_bearer(1) by (auto simp: demoRuntime_def)
qed

end
