(* ===== verification/Startup.thy ===== *)
theory Startup
  imports Appconfig Grpcapi Oidc
begin

text \<open>
  What a process does between its configuration and its first request, and at its end:
  \<open>auth.NewVerifier\<close>, \<open>gormx.Open\<close>, the constructors of package \<open>app\<close> and the ordered
  shutdown. A constructor of a library is an entry of \<open>buildEnv\<close>, the error it returns; the
  trace lists the resources opened and closed and the servers stopped, in order.
\<close>

section \<open>Selecting the verifier\<close>

datatype Verifier = DevVerifier | OIDCMode OIDCVerifier

definition oidcOptions :: "OIDCConfig \<Rightarrow> OIDCOptions" where
  "oidcOptions c = \<lparr>TenantClaim = cTenantClaim c, ScopeClaim = cScopeClaim c, ServiceClaim = cServiceClaim c,
     oIssuerURL = cIssuerURL c, oAudience = cAudience c, oJWKSURL = cJWKSURL c, oLeeway = cLeeway c,
     oAllowInsecureIssuer = cAllowInsecureIssuer c, oMaxKeyAge = cMaxKeyAge c, oMinRefresh = 0\<rparr>"

text \<open>The warnings it logs, and the verifier.\<close>

definition NewVerifier :: "jwtlib \<Rightarrow> AppConfig \<Rightarrow> string list \<times> Verifier res" where
  "NewVerifier L c =
     (if AuthMode c = AuthDev then
        ([''AUTH_MODE=dev: every request is served as a fixed principal and NO credential is verified''], Inr DevVerifier)
      else if AuthMode c = AuthOIDC then
        (if cAllowInsecureIssuer (OIDC c) then
           [''OIDC_ALLOW_INSECURE_ISSUER=true: tokens and signing keys may cross this network in cleartext''] else [],
         map_sum id OIDCMode (NewOIDCVerifier L (oidcOptions (OIDC c))))
      else ([], Inl (Errorf (''unknown AUTH_MODE '' @ quoted (AuthMode c) @ '': no verifier can be built, refusing to start'') [])))"

definition Verify :: "jwtlib \<Rightarrow> int \<Rightarrow> int \<Rightarrow> discoveryDocument fetched \<Rightarrow> jwk list fetched \<Rightarrow> string \<Rightarrow> Verifier
    \<Rightarrow> Principal res \<times> Verifier" where
  "Verify L now later disc resp raw v = (case v of
     DevVerifier \<Rightarrow> (devVerify raw, DevVerifier)
   | OIDCMode u \<Rightarrow> map_prod id OIDCMode (oidcVerify L now later disc resp raw u))"

section \<open>Shutdown\<close>

datatype resource = Tracer | PgPool | RedisClient | GatewayListener | GatewayConn

datatype effect = Opened resource | Closed resource | HealthServing bool | Waited int
  | StoppedHTTP string | GracefulStop | ForcedStop

text \<open>A step's function gets the timeout of its context and returns its error and what it did.\<close>

record step =
  stepName :: string
  stepTimeout :: int
  stepFn :: "(int \<Rightarrow> goerr option \<times> effect list) option"

definition effectiveTimeout :: "step \<Rightarrow> int" where
  "effectiveTimeout st = (if stepTimeout st \<le> 0 then 10 * seconds else stepTimeout st)"

fun runSteps :: "step list \<Rightarrow> goerr list \<times> effect list" where
  "runSteps [] = ([], [])"
| "runSteps (st # sts) = (case stepFn st of
     None \<Rightarrow> runSteps sts
   | Some f \<Rightarrow>
       (let (err, es) = f (effectiveTimeout st);
            (errs, es') = runSteps sts
        in ((case err of None \<Rightarrow> []
               | Some e \<Rightarrow> [Errorf (''shutdown step '' @ quoted (stepName st) @ '': '' @ errorText e) [e]]) @ errs,
            es @ es')))"

definition Shutdown :: "step list \<Rightarrow> goerr option \<times> effect list" where
  "Shutdown steps = (let (errs, es) = runSteps (rev steps) in (if errs = [] then None else Some (errorsJoin errs), es))"

section \<open>Construction\<close>

record buildEnv =
  tracerErr :: "goerr option"
  validatorErr :: "goerr option"
  gormOpenErr :: "goerr option"
  sqlDBErr :: "goerr option"
  guardErr :: "goerr option"
  pingErr :: "goerr option"
  unwrapErr :: "goerr option"
  served :: "(string \<times> string list) list"
  protoFiles :: registry
  dialErr :: "goerr option"
  muxErr :: "goerr option"
  closeErr :: "resource \<Rightarrow> goerr option"
  serverStopErr :: "string \<Rightarrow> goerr option"
  drainTime :: "int option"

definition wrapE :: "string \<Rightarrow> goerr \<Rightarrow> goerr" where
  "wrapE what e = Errorf (what @ '': '' @ errorText e) [e]"

definition closeStep :: "buildEnv \<Rightarrow> string \<Rightarrow> resource \<Rightarrow> step" where
  "closeStep B name r = \<lparr>stepName = name, stepTimeout = 5 * seconds, stepFn = Some (\<lambda>t. (closeErr B r, [Closed r]))\<rparr>"

text \<open>\<open>gormx.Open\<close>: only a failed ping closes the pool it opened.\<close>

definition gormxOpen :: "buildEnv \<Rightarrow> AppConfig \<Rightarrow> goerr option \<times> effect list" where
  "gormxOpen B c =
     (if Reveal (DSN (Postgres c)) = [] then (Some (Plain ''POSTGRES_DSN is empty''), [])
      else (case gormOpenErr B of
          Some e \<Rightarrow> (Some (wrapE ''open postgres'' e), [])
        | None \<Rightarrow> (case sqlDBErr B of
            Some e \<Rightarrow> (Some (wrapE ''unwrap sql.DB'' e), [Opened PgPool])
          | None \<Rightarrow> (case guardErr B of
              Some e \<Rightarrow> (Some (wrapE ''register tenant guard'' e), [Opened PgPool])
            | None \<Rightarrow> (case pingErr B of
                Some e \<Rightarrow> (Some (wrapE ''ping postgres'' e), [Opened PgPool, Closed PgPool])
              | None \<Rightarrow> (None, [Opened PgPool]))))))"

datatype store = MemoryDriver memstate | PostgresDriver

text \<open>The result, the steps it registers and what it did.\<close>

definition buildStore :: "codec \<Rightarrow> int \<Rightarrow> buildEnv \<Rightarrow> AppConfig \<Rightarrow> store res \<times> step list \<times> effect list" where
  "buildStore K now B c =
     (if StoreDriver c = StoreMemory then
        (case Seed (memStore K) now New of
           Some (None, d) \<Rightarrow> (Inr (MemoryDriver d), [], [])
         | Some (Some e, _) \<Rightarrow> (Inl (wrapE ''seed in-memory store'' e), [], [])
         | None \<Rightarrow> (Inl (Plain ''panic in order.Seed''), [], []))
      else if StoreDriver c = StorePostgres then
        (case gormxOpen B c of
           (Some e, es) \<Rightarrow> (Inl (wrapE ''open postgres'' e), [], es)
         | (None, es) \<Rightarrow> (case unwrapErr B of
             Some e \<Rightarrow> (Inl (wrapE ''unwrap sql.DB'' e), [], es)
           | None \<Rightarrow> (Inr PostgresDriver, [closeStep B ''postgres-pool'' PgPool], es)))
      else (Inl (Errorf (''unknown STORE_DRIVER '' @ quoted (StoreDriver c)) []), [], []))"

datatype limiterKind = AllowAll | RedisQuota RedisLimiter

definition buildLimiter :: "(int \<Rightarrow> string) \<Rightarrow> buildEnv \<Rightarrow> AppConfig \<Rightarrow> limiterKind res \<times> step list \<times> effect list" where
  "buildLimiter showDur B c =
     (if rdAddr (Redis c) = [] then (Inr AllowAll, [], [])
      else (case NewRedis showDur \<lparr>Limit = RateLimitPerMinute (Redis c), Period = minutes, Burst = RateLimitBurst (Redis c)\<rparr> of
          Inl e \<Rightarrow> (Inl e, [], [Opened RedisClient, Closed RedisClient])
        | Inr l \<Rightarrow> (Inr (RedisQuota l), [closeStep B ''redis-client'' RedisClient], [Opened RedisClient])))"

definition buildGateway :: "buildEnv \<Rightarrow> AppConfig \<Rightarrow> goerr option \<times> step list \<times> effect list" where
  "buildGateway B c =
     (if GatewayAddr c = [] then (None, [], [])
      else (case dialErr B of
          Some e \<Rightarrow> (Some (wrapE ''dial in-process'' e), [], [Opened GatewayListener])
        | None \<Rightarrow> (case muxErr B of
            Some e \<Rightarrow> (Some (wrapE ''build mux'' e), [], [Opened GatewayListener, Opened GatewayConn])
          | None \<Rightarrow> (None,
              [closeStep B ''gateway-conn'' GatewayConn, closeStep B ''gateway-listener'' GatewayListener],
              [Opened GatewayListener, Opened GatewayConn]))))"

record app =
  appCfg :: AppConfig
  appVerifier :: Verifier
  appStore :: store
  appLimiter :: limiterKind
  appSteps :: "step list"
  gatewaySrv :: bool

text \<open>A failure after the first step runs the steps registered so far (\<open>closeOpened\<close>).\<close>

definition closeOpened :: "goerr \<Rightarrow> step list \<Rightarrow> effect list \<Rightarrow> app res \<times> effect list" where
  "closeOpened e steps es = (Inl e, es @ snd (Shutdown steps))"

definition NewApp :: "jwtlib \<Rightarrow> (int \<Rightarrow> string) \<Rightarrow> codec \<Rightarrow> int \<Rightarrow> buildEnv \<Rightarrow> AppConfig \<Rightarrow> app res \<times> effect list" where
  "NewApp L showDur K now B c = (case snd (NewVerifier L c) of
     Inl e \<Rightarrow> (Inl (wrapE ''build verifier'' e), [])
   | Inr v \<Rightarrow> (case tracerErr B of
       Some e \<Rightarrow> closeOpened (wrapE ''tracing'' e) [] []
     | None \<Rightarrow> (let st1 = [closeStep B ''flush-traces'' Tracer]; es1 = [Opened Tracer] in
         case validatorErr B of
           Some e \<Rightarrow> closeOpened (wrapE ''build protovalidate'' e) st1 es1
         | None \<Rightarrow> (case buildStore K now B c of
             (Inl e, _, es) \<Rightarrow> closeOpened e st1 (es1 @ es)
           | (Inr s, sts, es) \<Rightarrow> (let st2 = st1 @ sts; es2 = es1 @ es in
               case buildLimiter showDur B c of
                 (Inl e, _, es) \<Rightarrow> closeOpened (wrapE ''rate limiter'' e) st2 (es2 @ es)
               | (Inr l, sts, es) \<Rightarrow> (let st3 = st2 @ sts; es3 = es2 @ es in
                   case NewServer True True DefaultPolicy (served B) (protoFiles B) of
                     Some e \<Rightarrow> closeOpened e st3 es3
                   | None \<Rightarrow> (case buildGateway B c of
                       (Some e, _, es) \<Rightarrow> closeOpened (wrapE ''gateway'' e) st3 (es3 @ es)
                     | (None, sts, es) \<Rightarrow>
                         (Inr \<lparr>appCfg = c, appVerifier = v, appStore = s, appLimiter = l, appSteps = st3 @ sts,
                            gatewaySrv = (GatewayAddr c \<noteq> [])\<rparr>, es3 @ es))))))))"

text \<open>The steps of \<open>shutdownSteps\<close>; \<open>GracefulStop\<close> ends when the pending calls have, in \<open>drainTime\<close>.\<close>

definition httpStep :: "buildEnv \<Rightarrow> string \<Rightarrow> step" where
  "httpStep B name = \<lparr>stepName = name, stepTimeout = 5 * seconds,
     stepFn = Some (\<lambda>t. (serverStopErr B name, [StoppedHTTP name]))\<rparr>"

definition grpcStep :: "buildEnv \<Rightarrow> int \<Rightarrow> step" where
  "grpcStep B grace = \<lparr>stepName = ''grpc-server'', stepTimeout = grace,
     stepFn = Some (\<lambda>t. (None, if (case drainTime B of Some d \<Rightarrow> d < t | None \<Rightarrow> False) then [GracefulStop]
       else [GracefulStop, ForcedStop]))\<rparr>"

definition shutdownSteps :: "buildEnv \<Rightarrow> app \<Rightarrow> step list" where
  "shutdownSteps B a = appSteps a @ [httpStep B ''admin-server'', grpcStep B (GracePeriod (ShutdownCfg (appCfg a)))]
     @ (if gatewaySrv a then [httpStep B ''gateway-server''] else [])"

text \<open>\<open>Close\<close>. \<open>Run\<close>, its caller, passes \<open>context.WithoutCancel(ctx)\<close>, whose \<open>Done\<close> never fires, so the
  \<open>select\<close> on it waits for the whole drain delay.\<close>

definition Close :: "buildEnv \<Rightarrow> app \<Rightarrow> goerr option \<times> effect list" where
  "Close B a = (case Shutdown (shutdownSteps B a) of
     (err, es) \<Rightarrow> (err, [HealthServing False, Waited (DrainDelay (ShutdownCfg (appCfg a)))] @ es))"

text \<open>
  \<open>Run\<close>: binding the gRPC listener may fail, and after that a server may stop with an error before
  the context is cancelled; only the cancellation drains.
\<close>

datatype runEvent = ServeError goerr | Cancelled

definition RunApp :: "buildEnv \<Rightarrow> goerr option \<Rightarrow> runEvent \<Rightarrow> app \<Rightarrow> goerr option \<times> effect list" where
  "RunApp B listenErr ev a = (case listenErr of
     Some e \<Rightarrow> (Some (Errorf (''listen on '' @ GRPCAddr (appCfg a) @ '': '' @ errorText e) [e]), [])
   | None \<Rightarrow> (case ev of
       ServeError e \<Rightarrow> (Some e, [HealthServing True])
     | Cancelled \<Rightarrow> (case Close B a of (err, es) \<Rightarrow> (err, HealthServing True # es))))"

section \<open>Lemmas\<close>

text \<open>What a step does when it runs.\<close>

definition stepErr :: "step \<Rightarrow> goerr option" where
  "stepErr st = (case stepFn st of None \<Rightarrow> None | Some f \<Rightarrow> fst (f (effectiveTimeout st)))"

definition stepEffects :: "step \<Rightarrow> effect list" where
  "stepEffects st = (case stepFn st of None \<Rightarrow> [] | Some f \<Rightarrow> snd (f (effectiveTimeout st)))"

lemma runSteps_exact:
  "runSteps sts = (concat (map (\<lambda>st. case stepErr st of None \<Rightarrow> []
       | Some e \<Rightarrow> [Errorf (''shutdown step '' @ quoted (stepName st) @ '': '' @ errorText e) [e]]) sts),
     concat (map stepEffects sts))"
proof (induction sts)
  case (Cons st sts)
  then show ?case
    by (cases "stepFn st"; cases "stepErr st")
      (auto simp: stepErr_def stepEffects_def split: option.splits prod.splits)
qed simp

lemma Shutdown_effects: "snd (Shutdown sts) = concat (map stepEffects (rev sts))"
  by (simp add: Shutdown_def runSteps_exact Let_def split: prod.splits)

lemma Close_effects:
  "snd (Close B a) = [HealthServing False, Waited (DrainDelay (ShutdownCfg (appCfg a)))]
     @ concat (map stepEffects (rev (shutdownSteps B a)))"
  by (simp add: Close_def case_prod_beta flip: Shutdown_effects)

lemma Close_error: "fst (Close B a) = None \<longleftrightarrow> (\<forall>st \<in> set (shutdownSteps B a). stepErr st = None)"
  by (simp add: Close_def case_prod_beta Shutdown_def runSteps_exact Let_def) (auto split: option.splits)

lemma stepEffects_simps [simp]:
  "stepEffects (closeStep B name r) = [Closed r]"
  "stepEffects (httpStep B name) = [StoppedHTTP name]"
  by (simp_all add: stepEffects_def closeStep_def httpStep_def)

text \<open>The resources that a configuration makes \<open>New\<close> open, in the order in which it closes them.\<close>

definition resourcesOf :: "AppConfig \<Rightarrow> resource list" where
  "resourcesOf c = (if GatewayAddr c = [] then [] else [GatewayListener, GatewayConn])
     @ (if rdAddr (Redis c) = [] then [] else [RedisClient])
     @ (if StoreDriver c = StoreMemory then [] else [PgPool]) @ [Tracer]"

lemma buildStore_Inr:
  assumes "buildStore K now B c = (Inr s, sts, es)"
  shows "sts = (if StoreDriver c = StoreMemory then [] else [closeStep B ''postgres-pool'' PgPool])"
    "es = (if StoreDriver c = StoreMemory then [] else [Opened PgPool])"
    "s = PostgresDriver \<longleftrightarrow> StoreDriver c \<noteq> StoreMemory"
  using assms by (auto simp: buildStore_def gormxOpen_def split: if_splits option.splits)

lemma buildLimiter_Inr:
  assumes "buildLimiter sd B c = (Inr l, sts, es)"
  shows "sts = (if rdAddr (Redis c) = [] then [] else [closeStep B ''redis-client'' RedisClient])"
    "es = (if rdAddr (Redis c) = [] then [] else [Opened RedisClient])"
    "l = AllowAll \<longleftrightarrow> rdAddr (Redis c) = []"
  using assms by (auto simp: buildLimiter_def split: if_splits sum.splits)

lemma buildGateway_None:
  assumes "buildGateway B c = (None, sts, es)"
  shows "sts = (if GatewayAddr c = [] then [] else [closeStep B ''gateway-conn'' GatewayConn, closeStep B ''gateway-listener'' GatewayListener])"
    "es = (if GatewayAddr c = [] then [] else [Opened GatewayListener, Opened GatewayConn])"
  using assms by (auto simp: buildGateway_def split: if_splits option.splits)

lemma NewApp_Inr:
  assumes "NewApp L sd K now B c = (Inr a, es)"
  shows "appCfg a = c" "gatewaySrv a \<longleftrightarrow> GatewayAddr c \<noteq> []" "snd (NewVerifier L c) = Inr (appVerifier a)"
    "concat (map stepEffects (rev (appSteps a))) = map Closed (resourcesOf c)"
    "{r. Opened r \<in> set es} = set (resourcesOf c)"
    "appStore a = PostgresDriver \<longleftrightarrow> StoreDriver c \<noteq> StoreMemory"
    "appLimiter a = AllowAll \<longleftrightarrow> rdAddr (Redis c) = []"
proof -
  obtain v s sts1 es1 l sts2 es2 sts3 es3 where v: "snd (NewVerifier L c) = Inr v"
    and s: "buildStore K now B c = (Inr s, sts1, es1)" and l: "buildLimiter sd B c = (Inr l, sts2, es2)"
    and g: "buildGateway B c = (None, sts3, es3)"
    and a: "a = \<lparr>appCfg = c, appVerifier = v, appStore = s, appLimiter = l,
      appSteps = [closeStep B ''flush-traces'' Tracer] @ sts1 @ sts2 @ sts3, gatewaySrv = (GatewayAddr c \<noteq> [])\<rparr>"
    and e: "es = [Opened Tracer] @ es1 @ es2 @ es3"
    using assms unfolding NewApp_def closeOpened_def
    by (auto simp: Let_def split: sum.splits option.splits prod.splits)
  note b = buildStore_Inr [OF s] buildLimiter_Inr [OF l] buildGateway_None [OF g]
  show "appCfg a = c" "gatewaySrv a \<longleftrightarrow> GatewayAddr c \<noteq> []" "snd (NewVerifier L c) = Inr (appVerifier a)"
    "appStore a = PostgresDriver \<longleftrightarrow> StoreDriver c \<noteq> StoreMemory" "appLimiter a = AllowAll \<longleftrightarrow> rdAddr (Redis c) = []"
    using v b(3,6) by (simp_all add: a)
  show "concat (map stepEffects (rev (appSteps a))) = map Closed (resourcesOf c)" by (simp add: a b resourcesOf_def)
  show "{r. Opened r \<in> set es} = set (resourcesOf c)" by (auto simp: e b resourcesOf_def)
qed

text \<open>A resource that was opened and never closed.\<close>

definition leaked :: "effect list \<Rightarrow> resource set" where
  "leaked es = {r. Opened r \<in> set es \<and> Closed r \<notin> set es}"

text \<open>The trace of a failed start, by the constructor that failed.\<close>

lemma NewApp_Inl:
  assumes "NewApp L sd K now B c = (Inl e, es)"
  obtains (early) "es = [] \<or> es = [Opened Tracer, Closed Tracer]"
    | (store) e' sts x where "buildStore K now B c = (Inl e', sts, x)" "es = [Opened Tracer] @ x @ [Closed Tracer]"
    | (limiter) s sts x e' sts' y where "buildStore K now B c = (Inr s, sts, x)" "buildLimiter sd B c = (Inl e', sts', y)"
        "es = [Opened Tracer] @ x @ y @ concat (map stepEffects (rev sts)) @ [Closed Tracer]"
    | (gateway) s sts x l sts' y z where "buildStore K now B c = (Inr s, sts, x)" "buildLimiter sd B c = (Inr l, sts', y)"
        "z = [] \<or> (\<exists>e' w. buildGateway B c = (Some e', w, z))"
        "es = [Opened Tracer] @ x @ y @ z @ concat (map stepEffects (rev sts')) @ concat (map stepEffects (rev sts)) @ [Closed Tracer]"
  using assms unfolding NewApp_def closeOpened_def Shutdown_effects
  by (auto simp: Let_def split: sum.splits option.splits prod.splits)

lemma buildStore_Inl:
  assumes "buildStore K now B c = (Inl e, sts, es)" "sqlDBErr B = None" "guardErr B = None" "unwrapErr B = None"
  shows "leaked es = {}" "{r. Opened r \<in> set es} \<subseteq> {PgPool}"
  using assms by (auto simp: buildStore_def gormxOpen_def leaked_def split: if_splits option.splits)

lemma buildLimiter_Inl:
  assumes "buildLimiter sd B c = (Inl e, sts, es)"
  shows "es = [Opened RedisClient, Closed RedisClient]"
  using assms by (auto simp: buildLimiter_def split: if_splits sum.splits)

text \<open>A URL whose traffic cannot be read on the way: \<open>https\<close>, or a loopback host.\<close>

definition confidential :: "jwtlib \<Rightarrow> string \<Rightarrow> bool" where
  "confidential L u \<longleftrightarrow> (\<exists>scheme host. urlParse L u = Inr (scheme, host)
     \<and> (scheme = ''https'' \<or> scheme = ''http'' \<and> isLoopback L host))"

lemma requireSecureURL_None:
  "requireSecureURL L u field False = None \<Longrightarrow> u \<noteq> [] \<Longrightarrow> confidential L u"
  by (auto simp: requireSecureURL_def confidential_def split: if_splits sum.splits prod.splits)

lemma NewOIDCVerifier_Inr:
  assumes "NewOIDCVerifier L o' = Inr v"
  shows "oIssuerURL o' \<noteq> []" "oAudience o' \<noteq> []" "requireSecureURL L (oIssuerURL o') ''OIDC_ISSUER_URL'' (oAllowInsecureIssuer o') = None"
    "\<exists>m. opts v = o'\<lparr>oMinRefresh := m\<rparr>" "verifier_ok v"
  using assms
  by (auto simp: NewOIDCVerifier_def Let_def verifier_ok_def split: if_splits option.splits intro: exI [of _ "oMinRefresh o'"])

text \<open>The states a verifier passes through, token after token.\<close>

inductive verifies :: "jwtlib \<Rightarrow> Verifier \<Rightarrow> Verifier \<Rightarrow> bool" for L where
  start: "verifies L v v"
| token: "verifies L v w \<Longrightarrow> verifies L v (snd (Verify L now later disc resp raw w))"

lemma verifies_oidc:
  assumes "verifies L v w" "v = OIDCMode u" "verifier_ok u"
  shows "\<exists>u'. w = OIDCMode u' \<and> opts u' = opts u \<and> verifier_ok u'"
  using assms
proof induction
  case (start v)
  then show ?case by simp
next
  case (token v w now later disc resp raw)
  then obtain u' where u': "w = OIDCMode u'" "opts u' = opts u" "verifier_ok u'" by blast
  obtain r u2 where "oidcVerify L now later disc resp raw u' = (r, u2)" by fastforce
  with u' oidcVerify_opts [OF this] oidcVerify_ok [OF u'(3) this] show ?case by (auto simp: Verify_def)
qed

lemma production_verifier:
  assumes "Load osEnv = Inr c" "AppEnv c = EnvProduction" "snd (NewVerifier L c) = Inr v"
  shows "\<exists>u. v = OIDCMode u \<and> NewOIDCVerifier L (oidcOptions (OIDC c)) = Inr u \<and> \<not> cAllowInsecureIssuer (OIDC c)"
proof -
  have p: "ParseFor (environ osEnv) RoleServer = Inr c" using assms(1) by (simp add: Load_def Parse_def)
  have "validateModes c = []" "cRole c = RoleServer" using validateConfig_Nil(1) ParseFor_Inr [OF p] by simp_all
  then have m: "AuthMode c \<noteq> AuthDev" "\<not> cAllowInsecureIssuer (OIDC c)" "AuthMode c = AuthDev \<or> AuthMode c = AuthOIDC"
    using assms(2) by (auto simp: validateModes_def oneOf_def)
  with assms(3) show ?thesis
    by (cases "NewOIDCVerifier L (oidcOptions (OIDC c))") (auto simp: NewVerifier_def)
qed

text \<open>No constructor of a library fails before the gateway is built, and the policy covers the served
  methods; and none fails at all.\<close>

definition buildsCore :: "buildEnv \<Rightarrow> bool" where
  "buildsCore B \<longleftrightarrow> tracerErr B = None \<and> validatorErr B = None \<and> gormOpenErr B = None \<and> sqlDBErr B = None
     \<and> guardErr B = None \<and> pingErr B = None \<and> unwrapErr B = None
     \<and> NewServer True True DefaultPolicy (served B) (protoFiles B) = None"

definition librariesWork :: "buildEnv \<Rightarrow> bool" where
  "librariesWork B \<longleftrightarrow> buildsCore B \<and> dialErr B = None \<and> muxErr B = None"

lemma valid_store:
  assumes "ParseFor vars role = Inr c" "buildsCore B"
  shows "\<exists>s sts es. buildStore K now B c = (Inr s, sts, es)"
proof -
  have "validateModes c = []" using validateConfig_Nil(1) ParseFor_Inr(3) [OF assms(1)] by blast
  then have "StoreDriver c = StoreMemory \<or> (StoreDriver c = StorePostgres \<and> Reveal (DSN (Postgres c)) \<noteq> [])"
    by (auto simp: validateModes_def oneOf_def)
  moreover obtain d where "Seed (memStore K) now New = Some (None, d)" using seed_succeeds by blast
  ultimately show ?thesis
    using assms(2) by (auto simp: buildStore_def gormxOpen_def buildsCore_def StoreMemory_def StorePostgres_def)
qed

lemma valid_limiter:
  assumes "ParseFor vars role = Inr c"
  shows "\<exists>l sts es. buildLimiter sd B c = (Inr l, sts, es)"
proof -
  have "validateRedis c = []" using validateConfig_Nil(4) ParseFor_Inr(3) [OF assms] by blast
  then show ?thesis by (auto simp: validateRedis_def buildLimiter_def NewRedis_def split: if_splits)
qed

lemma valid_verifier:
  assumes "ParseFor vars role = Inr c"
    and "AuthMode c = AuthOIDC \<Longrightarrow> requireSecureURL L (cIssuerURL (OIDC c)) ''OIDC_ISSUER_URL'' (cAllowInsecureIssuer (OIDC c)) = None
      \<and> requireSecureURL L (cJWKSURL (OIDC c)) ''OIDC_JWKS_URL'' (cAllowInsecureIssuer (OIDC c)) = None"
  shows "\<exists>v. snd (NewVerifier L c) = Inr v \<and> (v = DevVerifier \<longleftrightarrow> AuthMode c = AuthDev)"
proof -
  have v: "validateModes c = []" "validateOIDC c = []" using validateConfig_Nil(1,3) ParseFor_Inr(3) [OF assms(1)] by blast+
  then have "AuthMode c = AuthDev \<or> AuthMode c = AuthOIDC" by (auto simp: validateModes_def oneOf_def)
  moreover have "cTenantClaim (OIDC c) \<noteq> []" if "AuthMode c = AuthOIDC"
    using v(2) that trim_space_Nil by (auto simp: validateOIDC_def)
  ultimately show ?thesis
    using v(2) assms(2)
    by (auto simp: NewVerifier_def NewOIDCVerifier_def oidcOptions_def validateOIDC_def AuthDev_def AuthOIDC_def Let_def)
qed

section \<open>Properties\<close>

text \<open>
  C5: In production nothing but a verified token is let in. A server configured from any environment
  with \<open>APP_ENV=production\<close> that starts at all has an OIDC verifier with an audience and an
  issuer that is reached confidentially; whatever it has verified before, a principal it returns
  was read from claims checked with an acceptable key for the configured issuer and audience.
\<close>

theorem production_requires_verified_tokens:
  assumes "Load osEnv = Inr c" "AppEnv c = EnvProduction" "snd (NewVerifier L c) = Inr v" "verifies L v w"
    and "Verify L now later disc resp raw w = (Inr p, w')"
  shows "cAudience (OIDC c) \<noteq> [] \<and> confidential L (cIssuerURL (OIDC c))
    \<and> (\<exists>hdr k claims. jwtHeader L raw = Inr hdr \<and> key_ok k \<and> fits k (headerString hdr ''alg'')
        \<and> headerString hdr ''alg'' \<in> set signingAlgorithms
        \<and> jwtVerify L raw k \<lparr>Issuer = cIssuerURL (OIDC c), Audience = cAudience (OIDC c), Leeway = cLeeway (OIDC c), ExpirationRequired = True\<rparr> = Inr claims
        \<and> principalFrom \<lparr>TenantClaim = cTenantClaim (OIDC c), ScopeClaim = cScopeClaim (OIDC c),
             ServiceClaim = cServiceClaim (OIDC c)\<rparr> claims = Inr p)"
proof -
  obtain u where u: "v = OIDCMode u" "NewOIDCVerifier L (oidcOptions (OIDC c)) = Inr u" "\<not> cAllowInsecureIssuer (OIDC c)"
    using production_verifier [OF assms(1-3)] by blast
  note n = NewOIDCVerifier_Inr [OF u(2)]
  obtain m where m: "opts u = (oidcOptions (OIDC c))\<lparr>oMinRefresh := m\<rparr>" using n(4) by blast
  obtain u1 where u1: "w = OIDCMode u1" "opts u1 = opts u" "verifier_ok u1"
    using verifies_oidc [OF assms(4) u(1) n(5)] by blast
  obtain u2 where u2: "oidcVerify L now later disc resp raw u1 = (Inr p, u2)"
    using assms(5) by (cases "oidcVerify L now later disc resp raw u1") (auto simp: Verify_def u1(1))
  have o2: "opts u2 = (oidcOptions (OIDC c))\<lparr>oMinRefresh := m\<rparr>" using oidcVerify_opts [OF u2] u1(2) m by simp
  obtain hdr kc pk claims where h: "jwtHeader L raw = Inr hdr" "cache u2 = Some kc"
      "map_of (keys kc) (headerString hdr ''kid'') = Some pk" "headerString hdr ''alg'' \<in> set signingAlgorithms"
      "fits (pkey pk) (headerString hdr ''alg'')"
      "jwtVerify L raw (pkey pk) \<lparr>Issuer = oIssuerURL (opts u2), Audience = oAudience (opts u2), Leeway = oLeeway (opts u2), ExpirationRequired = True\<rparr> = Inr claims"
      "principalFrom (claim_options.truncate (opts u2)) claims = Inr p"
    using oidcVerify_Inr [OF u2] by blast
  have "key_ok (pkey pk)"
    using oidcVerify_ok [OF u1(3) u2] h(2) map_of_SomeD [OF h(3)] by (auto simp: verifier_ok_def keys_ok_def)
  moreover have "confidential L (cIssuerURL (OIDC c))"
    using n(1,3) u(3) by (intro requireSecureURL_None [of L _ "''OIDC_ISSUER_URL''"]) (simp_all add: oidcOptions_def)
  ultimately show ?thesis
    using n(2) h unfolding o2 by (auto simp: oidcOptions_def claim_options.truncate_def intro!: exI [of _ "pkey pk"])
qed

text \<open>A production environment, the issuer's discovery document and its key set.\<close>

definition prodEnv :: "string list" where
  "prodEnv = [''APP_ENV=production'', ''AUTH_MODE=oidc'', ''OIDC_ISSUER_URL=https://idp'', ''OIDC_AUDIENCE=orderd'']"

definition prodDiscovery :: "discoveryDocument fetched" where
  "prodDiscovery = Document \<lparr>dIssuer = ''https://idp'', JWKSURI = ''https://idp/keys''\<rparr>"

definition prodKeys :: "jwk list fetched" where
  "prodKeys = Document [\<lparr>Kty = ''EC'', Kid = ''k1'', Use = [], Alg = ''ES256'', N = [], E = [], Crv = ''P-256'',
     X = replicate 43 (CHR ''A''), Y = replicate 43 (CHR ''A'')\<rparr>]"

lemma prod_login:
  "case Load prodEnv of
     Inl _ \<Rightarrow> False
   | Inr c \<Rightarrow> AppEnv c = EnvProduction \<and> cAudience (OIDC c) = ''orderd'' \<and> (case snd (NewVerifier sampleLib c) of
       Inl _ \<Rightarrow> False
     | Inr v \<Rightarrow> (case fst (Verify sampleLib 10 10 prodDiscovery prodKeys ''tok'' v) of
         Inl _ \<Rightarrow> False | Inr p \<Rightarrow> pTenantID p = ''acme''))"
  by code_simp

theorem production_requires_verified_tokens_witness:
  "\<exists>c v p k claims. Load prodEnv = Inr c \<and> snd (NewVerifier sampleLib c) = Inr v
     \<and> fst (Verify sampleLib 10 10 prodDiscovery prodKeys ''tok'' v) = Inr p \<and> pTenantID p = ''acme''
     \<and> key_ok k \<and> jwtVerify sampleLib ''tok'' k \<lparr>Issuer = cIssuerURL (OIDC c), Audience = ''orderd'', Leeway = cLeeway (OIDC c), ExpirationRequired = True\<rparr> = Inr claims"
proof -
  obtain c where c: "Load prodEnv = Inr c" "AppEnv c = EnvProduction" "cAudience (OIDC c) = ''orderd''"
    using prod_login by (auto split: sum.splits)
  obtain v where v: "snd (NewVerifier sampleLib c) = Inr v" using prod_login c by (auto split: sum.splits)
  obtain p where p: "fst (Verify sampleLib 10 10 prodDiscovery prodKeys ''tok'' v) = Inr p" "pTenantID p = ''acme''"
    using prod_login c v by (auto split: sum.splits)
  obtain w where "Verify sampleLib 10 10 prodDiscovery prodKeys ''tok'' v = (Inr p, w)"
    using p(1) by (cases "Verify sampleLib 10 10 prodDiscovery prodKeys ''tok'' v") auto
  from production_requires_verified_tokens [OF c(1,2) v verifies.start this] c v p show ?thesis by auto
qed

text \<open>
  C20: Shutdown releases everything, in the documented order. When the service was built and is closed,
  health is withdrawn first and the drain delay waited, then the REST edge stops, then the gRPC
  server (gracefully, and by force only if the grace period passes), then the admin server, and
  then every resource that was opened is closed once, whatever any of the steps returns; an
  error is reported exactly when some step failed.
\<close>

theorem close_releases_everything_in_order:
  assumes "NewApp L sd K now B c = (Inr a, es)"
  shows "\<exists>stops. snd (Close B a) = [HealthServing False, Waited (DrainDelay (ShutdownCfg c))]
      @ (if GatewayAddr c = [] then [] else [StoppedHTTP ''gateway-server'']) @ stops @ [StoppedHTTP ''admin-server'']
      @ map Closed (resourcesOf c)
    \<and> stops \<in> {[GracefulStop], [GracefulStop, ForcedStop]}
    \<and> {r. Opened r \<in> set es} = set (resourcesOf c) \<and> distinct (resourcesOf c)
    \<and> (fst (Close B a) = None \<longleftrightarrow> (\<forall>st \<in> set (shutdownSteps B a). stepErr st = None))"
proof -
  note a = NewApp_Inr [OF assms]
  let ?g = "grpcStep B (GracePeriod (ShutdownCfg c))"
  have g: "stepEffects ?g \<in> {[GracefulStop], [GracefulStop, ForcedStop]}" by (simp add: stepEffects_def grpcStep_def)
  have "snd (Close B a) = [HealthServing False, Waited (DrainDelay (ShutdownCfg c))]
      @ (if GatewayAddr c = [] then [] else [StoppedHTTP ''gateway-server'']) @ stepEffects ?g @ [StoppedHTTP ''admin-server'']
      @ map Closed (resourcesOf c)"
    using a(1,2,4) by (simp add: Close_effects shutdownSteps_def)
  moreover have "distinct (resourcesOf c)" by (simp add: resourcesOf_def)
  ultimately show ?thesis using g a(5) Close_error by blast
qed

definition sampleBuild :: buildEnv where
  "sampleBuild = \<lparr>tracerErr = None, validatorErr = None, gormOpenErr = None, sqlDBErr = None, guardErr = None, pingErr = None,
     unwrapErr = None,
     served = [(''order.v1.OrderService'', [''GetOrder'', ''ListOrders'', ''WatchOrders'', ''CreateOrder'', ''CancelOrder'']),
       (''grpc.health.v1.Health'', [''Check'', ''Watch'', ''List'']),
       (''grpc.reflection.v1.ServerReflection'', [''ServerReflectionInfo'']),
       (''grpc.reflection.v1alpha.ServerReflection'', [''ServerReflectionInfo''])],
     protoFiles = [], dialErr = None, muxErr = None, closeErr = (\<lambda>_. None), serverStopErr = (\<lambda>_. None), drainTime = Some 1\<rparr>"

lemma sampleBuild_works: "librariesWork sampleBuild"
  by code_simp

text \<open>
  C19: A configuration that was accepted starts. When no constructor of a library fails, every method served
  is covered by the policy (so that \<open>NewServer\<close> accepts it) and, under OIDC, the issuer and key URLs are
  \<open>https\<close>, loopback, or allowed to be insecure (which \<open>Validate\<close> does not check), the service is built,
  with the store, the limiter and the verifier the configuration names.
\<close>

theorem accepted_config_starts:
  assumes "ParseFor vars role = Inr c" "librariesWork B"
    and "AuthMode c = AuthOIDC \<Longrightarrow> requireSecureURL L (cIssuerURL (OIDC c)) ''OIDC_ISSUER_URL'' (cAllowInsecureIssuer (OIDC c)) = None
      \<and> requireSecureURL L (cJWKSURL (OIDC c)) ''OIDC_JWKS_URL'' (cAllowInsecureIssuer (OIDC c)) = None"
  shows "\<exists>a es. NewApp L sd K now B c = (Inr a, es) \<and> appCfg a = c
    \<and> (appVerifier a = DevVerifier \<longleftrightarrow> AuthMode c = AuthDev)
    \<and> (appStore a = PostgresDriver \<longleftrightarrow> StoreDriver c = StorePostgres)
    \<and> (appLimiter a = AllowAll \<longleftrightarrow> rdAddr (Redis c) = [])"
proof -
  obtain v where v: "snd (NewVerifier L c) = Inr v" "v = DevVerifier \<longleftrightarrow> AuthMode c = AuthDev"
    using valid_verifier [OF assms(1,3)] by blast
  have w: "buildsCore B" using assms(2) by (simp add: librariesWork_def)
  obtain s sts es where s: "buildStore K now B c = (Inr s, sts, es)" using valid_store [OF assms(1) w] by blast
  obtain l sts2 es2 where l: "buildLimiter sd B c = (Inr l, sts2, es2)" using valid_limiter [OF assms(1)] by blast
  obtain sts3 es3 where g: "buildGateway B c = (None, sts3, es3)" using assms(2) by (cases "GatewayAddr c = []") (auto simp: buildGateway_def librariesWork_def)
  obtain a es' where a: "NewApp L sd K now B c = (Inr a, es')"
    using v(1) s l g w by (auto simp: NewApp_def buildsCore_def Let_def)
  have "StoreDriver c \<noteq> StoreMemory \<longleftrightarrow> StoreDriver c = StorePostgres"
    using validateConfig_Nil(1) [OF ParseFor_Inr(3) [OF assms(1)]]
    by (auto simp: validateModes_def oneOf_def StoreMemory_def StorePostgres_def)
  with a NewApp_Inr [OF a] v show ?thesis by auto
qed

text \<open>The default configuration, which an empty environment gives.\<close>

lemma default_config:
  "case ParseFor [] RoleServer of Inl _ \<Rightarrow> False
   | Inr c \<Rightarrow> AuthMode c = AuthDev \<and> StoreDriver c = StoreMemory \<and> rdAddr (Redis c) = [] \<and> GatewayAddr c = '':8080''"
  by code_simp

theorem accepted_config_starts_witness:
  "\<exists>c a es. ParseFor [] RoleServer = Inr c \<and> NewApp sampleLib (\<lambda>_. []) sampleCodec 0 sampleBuild c = (Inr a, es)
     \<and> appVerifier a = DevVerifier \<and> appLimiter a = AllowAll \<and> appStore a \<noteq> PostgresDriver"
proof -
  obtain c where c: "ParseFor [] RoleServer = Inr c" "AuthMode c = AuthDev" "StoreDriver c = StoreMemory" "rdAddr (Redis c) = []"
    using default_config by (auto split: sum.splits)
  have "AuthMode c \<noteq> AuthOIDC" "StoreDriver c \<noteq> StorePostgres" using c by (simp_all add: config_names)
  with accepted_config_starts [OF c(1) sampleBuild_works, of sampleLib "\<lambda>_. []" sampleCodec 0] c show ?thesis by blast
qed

theorem close_releases_everything_in_order_witness:
  "\<exists>c a es. NewApp sampleLib (\<lambda>_. []) sampleCodec 0 sampleBuild c = (Inr a, es)
     \<and> {r. Opened r \<in> set es} = {GatewayListener, GatewayConn, Tracer}
     \<and> (\<exists>pre. snd (Close sampleBuild a) = pre @ map Closed [GatewayListener, GatewayConn, Tracer])"
proof -
  obtain c where c: "ParseFor [] RoleServer = Inr c" "AuthMode c = AuthDev" "StoreDriver c = StoreMemory" "rdAddr (Redis c) = []"
      "GatewayAddr c = '':8080''"
    using default_config by (auto split: sum.splits)
  have "snd (NewVerifier sampleLib c) = Inr DevVerifier" using c by (simp add: NewVerifier_def)
  moreover obtain s where "buildStore sampleCodec 0 sampleBuild c = (Inr s, [], [])"
    using seed_succeeds [of sampleCodec 0] c by (auto simp: buildStore_def)
  moreover have "buildLimiter (\<lambda>_. []) sampleBuild c = (Inr AllowAll, [], [])" using c by (simp add: buildLimiter_def)
  ultimately obtain a es where a: "NewApp sampleLib (\<lambda>_. []) sampleCodec 0 sampleBuild c = (Inr a, es)"
    using sampleBuild_works c by (auto simp: NewApp_def librariesWork_def buildsCore_def buildGateway_def Let_def)
  have r: "resourcesOf c = [GatewayListener, GatewayConn, Tracer]" using c by (simp add: resourcesOf_def)
  from close_releases_everything_in_order [OF a] obtain stops where
    "snd (Close sampleBuild a) = ([HealthServing False, Waited (DrainDelay (ShutdownCfg c)), StoppedHTTP ''gateway-server'']
       @ stops @ [StoppedHTTP ''admin-server'']) @ map Closed [GatewayListener, GatewayConn, Tracer]"
    "{r. Opened r \<in> set es} = {GatewayListener, GatewayConn, Tracer}"
    by (auto simp: r c(5))
  with a show ?thesis by blast
qed

lemma NewApp_failed_leaks:
  assumes "NewApp L sd K now B c = (Inl e, es)"
    and "sqlDBErr B = None" "guardErr B = None" "unwrapErr B = None" "dialErr B = None" "muxErr B = None"
  shows "leaked es = {}"
  using assms(1)
proof (cases rule: NewApp_Inl)
  case (store e' sts x)
  with buildStore_Inl [OF store(1) assms(2-4)] show ?thesis by (auto simp: leaked_def)
next
  case (limiter s sts x e' sts' y)
  with buildStore_Inr(1,2) [OF limiter(1)] buildLimiter_Inl [OF limiter(2)] show ?thesis by (auto simp: leaked_def)
next
  case (gateway s sts x l sts' y z)
  have "z = []" using gateway(3) assms(5,6) by (auto simp: buildGateway_def split: if_splits)
  with gateway buildStore_Inr(1,2) [OF gateway(1)] buildLimiter_Inr(1,2) [OF gateway(2)] show ?thesis by (auto simp: leaked_def)
qed (auto simp: leaked_def)

text \<open>
  A failed start releases what it had opened, except in five constructor failures. Unless unwrapping
  the pool, registering the tenant guard, dialling the in-process listener or building the REST mux
  fails, \<open>New\<close> returns its error with nothing left open.
\<close>

theorem failed_start_leaks_nothing:
  assumes "NewApp L sd K now B c = (Inl e, es)"
    and "sqlDBErr B = None" "guardErr B = None" "unwrapErr B = None" "dialErr B = None" "muxErr B = None"
  shows "leaked es = {}"
  by (rule NewApp_failed_leaks [OF assms])

theorem failed_start_leaks_nothing_witness:
  "\<exists>c e es. NewApp sampleLib (\<lambda>_. []) sampleCodec 0 (sampleBuild\<lparr>validatorErr := Some (Plain ''bad rule'')\<rparr>) c = (Inl e, es)
     \<and> Opened Tracer \<in> set es \<and> leaked es = {}"
proof -
  let ?B = "sampleBuild\<lparr>validatorErr := Some (Plain ''bad rule'')\<rparr>"
  obtain c where "ParseFor [] RoleServer = Inr c" "AuthMode c = AuthDev" using default_config by (auto split: sum.splits)
  then have n: "NewApp sampleLib (\<lambda>_. []) sampleCodec 0 ?B c
      = (Inl (wrapE ''build protovalidate'' (Plain ''bad rule'')), [Opened Tracer, Closed Tracer])"
    by (simp add: NewApp_def NewVerifier_def closeOpened_def Shutdown_effects sampleBuild_def)
  have "leaked [Opened Tracer, Closed Tracer] = {}"
    by (rule failed_start_leaks_nothing [OF n]) (simp_all add: sampleBuild_def)
  with n show ?thesis by (intro exI conjI) auto
qed

text \<open>
  The failures that do leak. When everything before it worked and the in-process client or the
  REST mux cannot be built, the start fails and the listener that is already being served stays
  open: no step has been registered for it.
\<close>

theorem gateway_failure_leaks_listener:
  assumes "buildsCore B" "dialErr B \<noteq> None \<or> muxErr B \<noteq> None" "GatewayAddr c \<noteq> []"
    and "ParseFor vars role = Inr c" "snd (NewVerifier L c) = Inr v"
  shows "\<exists>e es. NewApp L sd K now B c = (Inl e, es) \<and> GatewayListener \<in> leaked es"
proof -
  have h: "tracerErr B = None" "validatorErr B = None" "NewServer True True DefaultPolicy (served B) (protoFiles B) = None"
    using assms(1) by (simp_all add: buildsCore_def)
  obtain s sts es where s: "buildStore K now B c = (Inr s, sts, es)" using valid_store [OF assms(4,1)] by blast
  obtain l sts2 es2 where l: "buildLimiter sd B c = (Inr l, sts2, es2)" using valid_limiter [OF assms(4)] by blast
  obtain e z where g: "buildGateway B c = (Some e, [], z)" "Opened GatewayListener \<in> set z" "Closed GatewayListener \<notin> set z"
    using assms(2,3) by (cases "dialErr B"; cases "muxErr B") (auto simp: buildGateway_def)
  have "NewApp L sd K now B c = closeOpened (wrapE ''gateway'' e) ([closeStep B ''flush-traces'' Tracer] @ sts @ sts2)
      ([Opened Tracer] @ es @ es2 @ z)"
    using h s l g(1) assms(5) by (simp add: NewApp_def Let_def)
  then show ?thesis
    using g(2,3) buildStore_Inr(1,2) [OF s] buildLimiter_Inr(1,2) [OF l]
    by (auto simp: closeOpened_def Shutdown_effects leaked_def)
qed

theorem gateway_failure_leaks_listener_witness:
  "\<exists>c e es. NewApp sampleLib (\<lambda>_. []) sampleCodec 0 (sampleBuild\<lparr>muxErr := Some (Plain ''no route'')\<rparr>) c = (Inl e, es)
     \<and> GatewayListener \<in> leaked es"
proof -
  obtain c where c: "ParseFor [] RoleServer = Inr c" "AuthMode c = AuthDev" "GatewayAddr c = '':8080''"
    using default_config by (auto split: sum.splits)
  have h: "buildsCore (sampleBuild\<lparr>muxErr := Some (Plain ''no route'')\<rparr>)"
    using sampleBuild_works by (simp add: librariesWork_def buildsCore_def)
  have "snd (NewVerifier sampleLib c) = Inr DevVerifier" using c(2) by (simp add: NewVerifier_def)
  from gateway_failure_leaks_listener [OF h _ _ c(1) this, of "\<lambda>_. []" sampleCodec 0] c(3) show ?thesis by auto
qed

end
