(* ===== verification/Telemetry.thy ===== *)
theory Telemetry
  imports Appconfig Interceptors
begin

text \<open>
  What operators see: the logger and its trace handler, per-upstream client metrics, the admin
  endpoint and the span filter (\<open>internal/platform/observability\<close>), the statement log and counter of
  the database (\<open>internal/platform/gormx\<close>), the stream wrapper of the interceptors and the schema
  command (\<open>cmd/migrate\<close>, \<open>internal/platform/migrations\<close>).
\<close>

section \<open>Logging\<close>

text \<open>
  A \<open>slog\<close> handler is what was put on it with \<open>WithAttrs\<close> and \<open>WithGroup\<close>, in order. It prints an
  attribute under the groups opened before it; the attributes of a record come last.
\<close>

type_synonym attr = "string \<times> string"

datatype scope = Attrs "attr list" | Group string

record logger =
  lgLevel :: int
  lgSource :: bool
  lgText :: bool
  lgScopes :: "scope list"

record spanctx =
  TraceID :: string
  SpanID :: string

text \<open>\<open>parseLevel\<close> of \<open>logging.go\<close>; \<open>slog\<close>'s levels are numbers.\<close>

definition logLevel :: "string \<Rightarrow> int" where
  "logLevel s = (let l = toLower s in
     if l = ''debug'' then - 4
     else if l = ''warn'' \<or> l = ''warning'' then 4
     else if l = ''error'' then 8
     else 0)"

definition NewLogger :: "AppConfig \<Rightarrow> logger" where
  "NewLogger c = (let level = logLevel (LogLevel c)
     in \<lparr>lgLevel = level, lgSource = (level = - 4), lgText = (toLower (LogFormat c) = ''text''),
         lgScopes = [Attrs [(''service'', ServiceName c), (''version'', Version c), (''env'', AppEnv c)]]\<rparr>)"

definition Enabled :: "logger \<Rightarrow> int \<Rightarrow> bool" where
  "Enabled l level \<longleftrightarrow> lgLevel l \<le> level"

definition WithAttrs :: "attr list \<Rightarrow> logger \<Rightarrow> logger" where
  "WithAttrs as l = l\<lparr>lgScopes := lgScopes l @ [Attrs as]\<rparr>"

text \<open>A group without a name is none.\<close>

definition WithGroup :: "string \<Rightarrow> logger \<Rightarrow> logger" where
  "WithGroup g l = (if g = [] then l else l\<lparr>lgScopes := lgScopes l @ [Group g]\<rparr>)"

text \<open>The printed attributes, each with the groups it stands under.\<close>

fun printed :: "string list \<Rightarrow> scope list \<Rightarrow> attr list \<Rightarrow> (string list \<times> string) list" where
  "printed path [] as = map (\<lambda>(k, v). (path @ [k], v)) as"
| "printed path (Attrs bs # ss) as = map (\<lambda>(k, v). (path @ [k], v)) bs @ printed path ss as"
| "printed path (Group g # ss) as = printed (path @ [g]) ss as"

definition handleRecord :: "spanctx option \<Rightarrow> attr list \<Rightarrow> logger \<Rightarrow> (string list \<times> string) list" where
  "handleRecord sp as l =
     printed [] (lgScopes l) (as @ (case sp of None \<Rightarrow> [] | Some s \<Rightarrow> [(''trace_id'', TraceID s), (''span_id'', SpanID s)]))"

definition logLine :: "spanctx option \<Rightarrow> int \<Rightarrow> attr list \<Rightarrow> logger \<Rightarrow> (string list \<times> string) list option" where
  "logLine sp level as l = (if Enabled l level then Some (handleRecord sp as l) else None)"

definition TraceIDFrom :: "spanctx option \<Rightarrow> string" where
  "TraceIDFrom sp = (case sp of None \<Rightarrow> [] | Some s \<Rightarrow> TraceID s)"

definition SpanIDFrom :: "spanctx option \<Rightarrow> string" where
  "SpanIDFrom sp = (case sp of None \<Rightarrow> [] | Some s \<Rightarrow> SpanID s)"

definition FilterHealthChecks :: "string \<Rightarrow> bool" where
  "FilterHealthChecks fullMethod \<longleftrightarrow> fullMethod \<noteq> HealthCheckMethod"

section \<open>Statements\<close>

definition slowQueryThreshold :: int where
  "slowQueryThreshold = 200 * millis"

text \<open>\<open>slogLogger.Trace\<close>: level, message and attributes of the line; numbers and durations as their
  text.\<close>

definition Trace :: "(int \<Rightarrow> string) \<Rightarrow> int \<Rightarrow> int \<Rightarrow> logger \<Rightarrow> string \<times> int \<Rightarrow> goerr option \<Rightarrow> (int \<times> string \<times> attr list) option" where
  "Trace showDur slow elapsed l stmt err =
     (let sqlAttrs = [(''sql'', fst stmt), (''rows'', show_int (snd stmt)), (''elapsed'', showDur elapsed)]
      in case err of
           Some e \<Rightarrow>
             if \<not> errorsIs e GormErrRecordNotFound then Some (8, ''sql error'', (''error'', errorText e) # sqlAttrs)
             else if slow > 0 \<and> elapsed \<ge> slow then Some (4, ''slow sql'', sqlAttrs @ [(''threshold'', showDur slow)])
             else if Enabled l (- 4) then Some (- 4, ''sql'', sqlAttrs) else None
         | None \<Rightarrow>
             if slow > 0 \<and> elapsed \<ge> slow then Some (4, ''slow sql'', sqlAttrs @ [(''threshold'', showDur slow)])
             else if Enabled l (- 4) then Some (- 4, ''sql'', sqlAttrs) else None)"

record QueryCounter =
  qcCount :: int
  qcSQL :: "string list"
  qcExecuted :: "string list"

definition NewQueryCounter :: QueryCounter where
  "NewQueryCounter = \<lparr>qcCount = 0, qcSQL = [], qcExecuted = []\<rparr>"

text \<open>\<open>record\<close>: the statement, if there is one, with its text, its parameters and the dialect's
  \<open>Explain\<close> (\<^const>\<open>None\<close> without a dialect).\<close>

definition recordQuery :: "(string \<Rightarrow> string list \<Rightarrow> string) option \<Rightarrow> (string \<times> string list) option \<Rightarrow> QueryCounter \<Rightarrow> QueryCounter" where
  "recordQuery explain stmt c = (case stmt of
     None \<Rightarrow> c
   | Some (raw, vars) \<Rightarrow>
       (let interpolated = (case explain of Some f \<Rightarrow> if vars \<noteq> [] then f raw vars else raw | None \<Rightarrow> raw)
        in \<lparr>qcCount = qcCount c + 1, qcSQL = qcSQL c @ [raw], qcExecuted = qcExecuted c @ [interpolated]\<rparr>))"

definition resetQueries :: "QueryCounter \<Rightarrow> QueryCounter" where
  "resetQueries c = \<lparr>qcCount = 0, qcSQL = [], qcExecuted = []\<rparr>"

section \<open>Metrics and the admin endpoint\<close>

text \<open>The client collectors by upstream (\<^const>\<open>None\<close> for a nil map; a collector is a number) and the
  label sets registered. \<open>MustRegister\<close> panics on a label set that is taken: the result is
  \<^const>\<open>None\<close>.\<close>

record Metrics =
  mClients :: "(string \<times> nat) list option"
  mRegistered :: "(string \<times> nat) list"
  mNext :: nat

definition NewMetrics :: Metrics where
  "NewMetrics = \<lparr>mClients = Some [], mRegistered = [], mNext = 0\<rparr>"

definition ClientFor :: "string \<Rightarrow> Metrics \<Rightarrow> (nat \<times> Metrics) option" where
  "ClientFor upstream m =
     (let clients = (case mClients m of None \<Rightarrow> [] | Some cs \<Rightarrow> cs)
      in case map_of clients upstream of
           Some existing \<Rightarrow> Some (existing, m\<lparr>mClients := Some clients\<rparr>)
         | None \<Rightarrow>
             if upstream \<in> fst ` set (mRegistered m) then None
             else Some (mNext m, \<lparr>mClients = Some ((upstream, mNext m) # clients),
               mRegistered = (upstream, mNext m) # mRegistered m, mNext = mNext m + 1\<rparr>))"

definition healthz :: "bool option \<Rightarrow> int \<times> string" where
  "healthz live = (if live = Some False then (503, ''not live'' @ [CHR 0x0A]) else (200, ''ok''))"

section \<open>Streams\<close>

record 'm serverStream =
  ssContext :: call
  ssMessages :: "'m list"

definition WrapServerStream :: "'m serverStream \<Rightarrow> call \<Rightarrow> 'm serverStream" where
  "WrapServerStream ss c = (if ssContext ss = c then ss else ss\<lparr>ssContext := c\<rparr>)"

section \<open>Migrations\<close>

text \<open>What the migration library does to the schema and answers, over the embedded files.\<close>

record 's goose =
  gProvider :: "goerr option"
  gUp :: "'s \<Rightarrow> goerr option \<times> 's"
  gDownTo :: "int \<Rightarrow> 's \<Rightarrow> goerr option \<times> 's"
  gStatus :: "'s \<Rightarrow> (int option \<times> string) list res"
  gVersion :: "'s \<Rightarrow> int res"

definition provider :: "'s goose \<Rightarrow> goerr option" where
  "provider g = map_option (\<lambda>err. Errorf (''build migration provider: '' @ errorText err) [err]) (gProvider g)"

definition Up :: "'s goose \<Rightarrow> 's \<Rightarrow> goerr option \<times> 's" where
  "Up g s = (case provider g of
     Some err \<Rightarrow> (Some err, s)
   | None \<Rightarrow> (case gUp g s of (e, s') \<Rightarrow> (map_option (\<lambda>err. Errorf (''apply migrations: '' @ errorText err) [err]) e, s')))"

definition DownTo :: "'s goose \<Rightarrow> int \<Rightarrow> 's \<Rightarrow> goerr option \<times> 's" where
  "DownTo g version s = (case provider g of
     Some err \<Rightarrow> (Some err, s)
   | None \<Rightarrow> (case gDownTo g version s of (e, s') \<Rightarrow> (map_option (\<lambda>err. Errorf (''roll back migrations: '' @ errorText err) [err]) e, s')))"

definition Status' :: "'s goose \<Rightarrow> 's \<Rightarrow> (int option \<times> string) list res" where
  "Status' g s = (case provider g of Some err \<Rightarrow> Inl err | None \<Rightarrow> gStatus g s)"

definition schemaVersion :: "'s goose \<Rightarrow> 's \<Rightarrow> int res" where
  "schemaVersion g s = (case provider g of Some err \<Rightarrow> Inl err | None \<Rightarrow> gVersion g s)"

definition printVersion :: "'s goose \<Rightarrow> 's \<Rightarrow> goerr option \<times> string list" where
  "printVersion g s = (case schemaVersion g s of Inl err \<Rightarrow> (Some err, []) | Inr v \<Rightarrow> (None, [''schema version: '' @ show_int v]))"

definition padRight :: "nat \<Rightarrow> string \<Rightarrow> string" where
  "padRight n s = s @ replicate (n - length s) (CHR '' '')"

datatype migrateError = BadMigrateConfig "cfgerr list" | MigrateErr goerr

text \<open>\<open>run\<close>: the arguments, the environment, the answers of opening and pinging the database, how a time
  is printed, and the schema; the error, the lines printed and the schema afterwards.\<close>

definition migrateRun :: "'s goose \<Rightarrow> (int \<Rightarrow> string) \<Rightarrow> string list \<Rightarrow> goerr option \<Rightarrow> goerr option \<Rightarrow> string list \<Rightarrow> 's
    \<Rightarrow> migrateError option \<times> string list \<times> 's" where
  "migrateRun g showTime osEnviron openErr pingErr args s =
     (let arg = (\<lambda>i. if i < length args then args ! i else []);
          err = (\<lambda>e. (Some (MigrateErr e), [], s));
          finish = (\<lambda>s'. case printVersion g s' of (e, ls) \<Rightarrow> (map_option MigrateErr e, ls, s'))
      in if arg 0 = [] then err (Errorf ''no command given'' [])
         else (case Load osEnviron of
           Inl es \<Rightarrow> (Some (BadMigrateConfig es), [], s)
         | Inr c \<Rightarrow>
             if Reveal (DSN (Postgres c)) = [] then err (Errorf ''POSTGRES_DSN is required'' [])
             else (case openErr of
               Some e \<Rightarrow> err (Errorf (''open database: '' @ errorText e) [e])
             | None \<Rightarrow> (case pingErr of
               Some e \<Rightarrow> err (Errorf (''connect to database: '' @ errorText e) [e])
             | None \<Rightarrow>
                 if arg 0 = ''up'' then (case Up g s of (Some e, s') \<Rightarrow> (Some (MigrateErr e), [], s') | (None, s') \<Rightarrow> finish s')
                 else if arg 0 = ''status'' then (case Status' g s of
                     Inl e \<Rightarrow> err e
                   | Inr sts \<Rightarrow> (None, map (\<lambda>(t, path). padRight 10 (case t of None \<Rightarrow> ''pending'' | Some x \<Rightarrow> showTime x) @ '' '' @ path) sts, s))
                 else if arg 0 = ''version'' then finish s
                 else if arg 0 = ''down-to'' then
                   (if arg 1 = [] then err (Errorf ''down-to requires a version (see `migrate status`); use 0 to undo everything'' [])
                    else (case Atoi (arg 1) of
                        None \<Rightarrow> err (Errorf (''version '' @ quoted (arg 1) @ '' is not a number'') [])
                      | Some v \<Rightarrow> (case DownTo g v s of (Some e, s') \<Rightarrow> (Some (MigrateErr e), [], s') | (None, s') \<Rightarrow> finish s')))
                 else err (Errorf (''unknown command '' @ quoted (arg 0)) [])))))"

section \<open>Lemmas\<close>

text \<open>The groups that are open when a record is printed.\<close>

fun openGroups :: "scope list \<Rightarrow> string list" where
  "openGroups [] = []"
| "openGroups (Attrs as # ss) = openGroups ss"
| "openGroups (Group g # ss) = g # openGroups ss"

lemma printed_record: "\<exists>pre. printed path ss as = pre @ map (\<lambda>(k, v). (path @ openGroups ss @ [k], v)) as"
proof (induction path ss as rule: printed.induct)
  case (2 path bs ss as)
  then obtain pre where "printed path ss as = pre @ map (\<lambda>(k, v). (path @ openGroups ss @ [k], v)) as" by blast
  then show ?case by (intro exI [of _ "map (\<lambda>(k, v). (path @ [k], v)) bs @ pre"]) simp
next
  case (3 path g ss as)
  then obtain pre where "printed (path @ [g]) ss as = pre @ map (\<lambda>(k, v). ((path @ [g]) @ openGroups ss @ [k], v)) as" by blast
  then show ?case by (intro exI [of _ pre]) simp
qed simp

lemma printed_first: "set (map (\<lambda>(k, v). (path @ [k], v)) bs) \<subseteq> set (printed path (Attrs bs # ss) as)"
  by auto

text \<open>Loggers derived from one.\<close>

inductive derived :: "logger \<Rightarrow> logger \<Rightarrow> bool" for base where
  self: "derived base base"
| attrs: "derived base l \<Longrightarrow> derived base (WithAttrs as l)"
| group: "derived base l \<Longrightarrow> derived base (WithGroup g l)"

lemma derived_scopes: "derived base l \<Longrightarrow> lgLevel l = lgLevel base \<and> (\<exists>ss. lgScopes l = lgScopes base @ ss)"
  by (induction rule: derived.induct) (auto simp: WithAttrs_def WithGroup_def)

definition counter_ok :: "QueryCounter \<Rightarrow> bool" where
  "counter_ok c \<longleftrightarrow> qcCount c = int (length (qcSQL c)) \<and> length (qcExecuted c) = length (qcSQL c)"

lemma counter_ok_steps: "counter_ok NewQueryCounter" "counter_ok c \<Longrightarrow> counter_ok (recordQuery explain stmt c)" "counter_ok (resetQueries c)"
  by (auto simp: counter_ok_def NewQueryCounter_def recordQuery_def resetQueries_def Let_def split: option.splits)

definition metrics_ok :: "Metrics \<Rightarrow> bool" where
  "metrics_ok m \<longleftrightarrow> mRegistered m = (case mClients m of None \<Rightarrow> [] | Some cs \<Rightarrow> cs) \<and> distinct (map fst (mRegistered m))
     \<and> distinct (map snd (mRegistered m)) \<and> (\<forall>c \<in> snd ` set (mRegistered m). c < mNext m)"

lemma ClientFor_ok:
  assumes "metrics_ok m"
  shows "\<exists>c m'. ClientFor upstream m = Some (c, m') \<and> metrics_ok m' \<and> map_of (mRegistered m') upstream = Some c
    \<and> (\<forall>u d. map_of (mRegistered m) u = Some d \<longrightarrow> map_of (mRegistered m') u = Some d)"
proof (cases "map_of (mRegistered m) upstream")
  case None
  then have "upstream \<notin> fst ` set (mRegistered m)" by (simp add: map_of_eq_None_iff)
  with None assms show ?thesis by (fastforce simp: ClientFor_def metrics_ok_def Let_def split: option.splits)
next
  case (Some c)
  with assms show ?thesis by (auto simp: ClientFor_def metrics_ok_def Let_def split: option.splits)
qed

fun dials :: "string list \<Rightarrow> Metrics \<Rightarrow> (nat list \<times> Metrics) option" where
  "dials [] m = Some ([], m)"
| "dials (u # us) m = (case ClientFor u m of None \<Rightarrow> None
     | Some (c, m1) \<Rightarrow> (case dials us m1 of None \<Rightarrow> None | Some (cs, m2) \<Rightarrow> Some (c # cs, m2)))"

lemma dials_ok:
  assumes "metrics_ok m"
  shows "\<exists>cs m'. dials us m = Some (cs, m') \<and> metrics_ok m' \<and> map (map_of (mRegistered m')) us = map Some cs
    \<and> (\<forall>u d. map_of (mRegistered m) u = Some d \<longrightarrow> map_of (mRegistered m') u = Some d)"
  using assms
proof (induction us arbitrary: m)
  case (Cons u us)
  obtain c m1 where c: "ClientFor u m = Some (c, m1)" "metrics_ok m1" "map_of (mRegistered m1) u = Some c"
      "\<And>u d. map_of (mRegistered m) u = Some d \<Longrightarrow> map_of (mRegistered m1) u = Some d"
    using ClientFor_ok [OF Cons.prems, of u] by blast
  obtain cs m2 where r: "dials us m1 = Some (cs, m2)" "metrics_ok m2" "map (map_of (mRegistered m2)) us = map Some cs"
      "\<And>u d. map_of (mRegistered m1) u = Some d \<Longrightarrow> map_of (mRegistered m2) u = Some d"
    using Cons.IH [OF c(2)] by blast
  show ?case using c r by (intro exI [of _ "c # cs"] exI [of _ m2]) simp
qed simp

lemma collectors_injective:
  assumes "metrics_ok m" "map_of (mRegistered m) u = Some c" "map_of (mRegistered m) v = Some c"
  shows "u = v"
proof -
  have "inj_on snd (set (mRegistered m))" using assms(1) unfolding metrics_ok_def distinct_map by blast
  then show ?thesis using inj_onD [OF _ _ map_of_SomeD [OF assms(2)] map_of_SomeD [OF assms(3)]] by fastforce
qed

section \<open>Properties\<close>

text \<open>
  Every log line of the service can be tied to its request. A logger built from an accepted
  configuration prints from the level that was validated on; whatever loggers are derived from it
  with attributes and groups, a line printed under a span carries the span's trace id among the
  record's attributes, and the service, version and environment at the top.
\<close>

theorem log_lines_carry_the_trace:
  assumes "ParseFor vars role = Inr c" "derived (NewLogger c) l"
  shows "parseLevel (LogLevel c) = Inr (lgLevel l)
    \<and> (logLine (Some s) level as l = None \<longleftrightarrow> level < lgLevel l)
    \<and> (\<forall>out. logLine (Some s) level as l = Some out \<longrightarrow>
         (openGroups (lgScopes l) @ [''trace_id''], TraceIDFrom (Some s)) \<in> set out
         \<and> (openGroups (lgScopes l) @ [''span_id''], SpanIDFrom (Some s)) \<in> set out
         \<and> ([''service''], ServiceName c) \<in> set out \<and> ([''version''], Version c) \<in> set out \<and> ([''env''], AppEnv c) \<in> set out)"
proof -
  have "validateRest c = []" by (rule validateConfig_Nil(8) [OF ParseFor_Inr(3) [OF assms(1)]])
  then have "\<exists>x. parseLevel (LogLevel c) = Inr x" by (auto simp: validateRest_def split: sum.splits)
  then have lev: "parseLevel (LogLevel c) = Inr (logLevel (LogLevel c))" by (auto simp: parseLevel_def logLevel_def Let_def split: if_splits)
  let ?top = "[(''service'', ServiceName c), (''version'', Version c), (''env'', AppEnv c)]"
  obtain ss where ss: "lgScopes l = Attrs ?top # ss" and l: "lgLevel l = logLevel (LogLevel c)"
    using derived_scopes [OF assms(2)] by (auto simp: NewLogger_def Let_def)
  let ?out = "handleRecord (Some s) as l"
  have rec: "(openGroups (lgScopes l) @ [k], v) \<in> set ?out" if "(k, v) \<in> {(''trace_id'', TraceID s), (''span_id'', SpanID s)}" for k v
    using printed_record [of "[]" "lgScopes l" "as @ [(''trace_id'', TraceID s), (''span_id'', SpanID s)]"] that
    unfolding handleRecord_def by auto
  have top: "([k], v) \<in> set ?out" if "(k, v) \<in> set ?top" for k v
    using printed_first [of "[]" ?top ss] that unfolding handleRecord_def ss by force
  show ?thesis using lev l rec top by (auto simp: logLine_def Enabled_def TraceIDFrom_def SpanIDFrom_def)
qed

lemma default_logger: "case ParseFor [] RoleServer of Inl _ \<Rightarrow> False | Inr c \<Rightarrow> lgLevel (NewLogger c) = 0"
  by code_simp

theorem log_lines_carry_the_trace_witness:
  "\<exists>c out. ParseFor [] RoleServer = Inr c
     \<and> logLine (Some \<lparr>TraceID = ''4bf9'', SpanID = ''00f0''\<rparr>) 0 [] (WithGroup ''db'' (NewLogger c)) = Some out
     \<and> ([''db'', ''trace_id''], ''4bf9'') \<in> set out"
proof -
  obtain c where c: "ParseFor [] RoleServer = Inr c" "lgLevel (NewLogger c) = 0" using default_logger by (auto split: sum.splits)
  let ?l = "WithGroup ''db'' (NewLogger c)" and ?s = "\<lparr>TraceID = ''4bf9'', SpanID = ''00f0''\<rparr>"
  have g: "openGroups (lgScopes ?l) = [''db'']" by (simp add: WithGroup_def NewLogger_def Let_def)
  have "logLine (Some ?s) 0 [] ?l = Some (handleRecord (Some ?s) [] ?l)" using c(2) by (simp add: logLine_def Enabled_def WithGroup_def)
  with log_lines_carry_the_trace [OF c(1) derived.group [OF derived.self, of _ "''db''"], where s = ?s and level = 0 and as = "[]"] c(1) g
  show ?thesis by (auto simp: TraceIDFrom_def)
qed

text \<open>
  Any number of connections to any upstreams can be instrumented: \<open>ClientFor\<close> never registers twice,
  so it does not panic; two connections share a collector exactly if they have the same upstream.
\<close>

theorem client_metrics_never_collide:
  "\<exists>cs m. dials us NewMetrics = Some (cs, m) \<and> length cs = length us
    \<and> (\<forall>i < length us. \<forall>j < length us. cs ! i = cs ! j \<longleftrightarrow> us ! i = us ! j)
    \<and> distinct (map fst (mRegistered m))"
proof -
  have "metrics_ok NewMetrics" by (simp add: metrics_ok_def NewMetrics_def)
  from dials_ok [OF this, of us] obtain cs m where d: "dials us NewMetrics = Some (cs, m)" "metrics_ok m"
      "map (map_of (mRegistered m)) us = map Some cs" by blast
  have len: "length cs = length us" using d(3) by (metis length_map)
  have at: "map_of (mRegistered m) (us ! i) = Some (cs ! i)" if "i < length us" for i
    using d(3) that len by (metis nth_map)
  have "cs ! i = cs ! j \<longleftrightarrow> us ! i = us ! j" if "i < length us" "j < length us" for i j
    using at [OF that(1)] at [OF that(2)] collectors_injective [OF d(2)] by (metis option.inject)
  then show ?thesis using d(1,2) len by (auto simp: metrics_ok_def)
qed

text \<open>
  The schema changes only on command: whatever the arguments, the environment and the answers,
  \<open>cmd/migrate\<close> leaves it alone unless it was asked to go up, or down to a version given as a
  number, and the database is configured.
\<close>

theorem schema_changes_only_on_command:
  assumes "migrateRun g showTime osEnviron openErr pingErr args s = (e, ls, s')" "s' \<noteq> s"
  shows "\<exists>c. Load osEnviron = Inr c \<and> Reveal (DSN (Postgres c)) \<noteq> [] \<and> gProvider g = None
    \<and> (args ! 0 = ''up'' \<and> s' = snd (gUp g s)
       \<or> (\<exists>v. args ! 0 = ''down-to'' \<and> Atoi (args ! 1) = Some v \<and> s' = snd (gDownTo g v s)))"
proof -
  have f: "snd (snd (case printVersion g t of (e, ls) \<Rightarrow> (map_option MigrateErr e, ls, t))) = t" for t by (simp split: prod.split)
  show ?thesis using assms f
    by (auto simp: migrateRun_def Let_def Up_def DownTo_def provider_def split: if_splits sum.splits option.splits prod.splits)
qed

definition sampleGoose :: "int goose" where
  "sampleGoose = \<lparr>gProvider = None, gUp = (\<lambda>s. (None, 5)), gDownTo = (\<lambda>v s. (None, v)), gStatus = (\<lambda>s. Inr []), gVersion = Inr\<rparr>"

lemma sample_migration:
  "migrateRun sampleGoose show_int [''POSTGRES_DSN=x''] None None [''up''] 0 = (None, [''schema version: 5''], 5)"
  by code_simp

theorem schema_changes_only_on_command_witness:
  "\<exists>c. Load [''POSTGRES_DSN=x''] = Inr c \<and> Reveal (DSN (Postgres c)) \<noteq> []"
  using schema_changes_only_on_command [OF sample_migration] by auto

text \<open>The command loads the server's configuration: in production it refuses to run without the
  settings of the token verifier, although its help names \<open>POSTGRES_DSN\<close> only.\<close>

lemma production_migration_config: "isl (Load [''APP_ENV=production'', ''POSTGRES_DSN=x''])"
  by code_simp

theorem migrate_needs_server_settings:
  "\<exists>es. migrateRun g showTime [''APP_ENV=production'', ''POSTGRES_DSN=x''] openErr pingErr [''up''] s = (Some (BadMigrateConfig es), [], s)"
  using production_migration_config by (cases "Load [''APP_ENV=production'', ''POSTGRES_DSN=x'']") (simp_all add: migrateRun_def Let_def)

end
