(* ===== verification/Commands.thy ===== *)
theory Commands
  imports Startup Telemetry
begin

text \<open>
  The commands: the server binary with its own health probe (\<open>cmd/orderd/main.go\<close>) and the
  cross-platform half of the task runner (\<open>cmd/devtool/main.go\<close>). The environment, the file
  system, the answers of the tools that are run and of the health service are arguments.
\<close>

section \<open>orderd\<close>

datatype servingStatus = UNKNOWN | SERVING | NOT_SERVING | SERVICE_UNKNOWN

fun statusText :: "servingStatus \<Rightarrow> string" where
  "statusText UNKNOWN = ''UNKNOWN''"
| "statusText SERVING = ''SERVING''"
| "statusText NOT_SERVING = ''NOT_SERVING''"
| "statusText SERVICE_UNKNOWN = ''SERVICE_UNKNOWN''"

datatype cmdError = BadSettings "cfgerr list" | CmdErr goerr

text \<open>A listen address without a host becomes a dial address.\<close>

definition healthTarget :: "string \<Rightarrow> string" where
  "healthTarget addr = (if has_prefix addr '':'' then ''localhost'' @ addr else addr)"

text \<open>\<open>grpc.NewClient\<close> and the \<open>Check\<close> call, by target.\<close>

definition checkHealth :: "(string \<Rightarrow> goerr option) \<Rightarrow> (string \<Rightarrow> servingStatus res) \<Rightarrow> string list \<Rightarrow> cmdError option" where
  "checkHealth newClient check osEnviron = (case Load osEnviron of
     Inl es \<Rightarrow> Some (BadSettings es)
   | Inr c \<Rightarrow>
       (let target = healthTarget (GRPCAddr c)
        in case newClient target of
             Some err \<Rightarrow> Some (CmdErr (wrapE (''dial '' @ target) err))
           | None \<Rightarrow> (case check target of
               Inl err \<Rightarrow> Some (CmdErr (wrapE (''health check against '' @ target) err))
             | Inr st \<Rightarrow> if st \<noteq> SERVING then Some (CmdErr (Errorf (''status is '' @ statusText st @ '', not SERVING'') [])) else None)))"

text \<open>\<open>run\<close>; what happened to the resources is the second component.\<close>

definition runOrderd :: "jwtlib \<Rightarrow> (int \<Rightarrow> string) \<Rightarrow> codec \<Rightarrow> int \<Rightarrow> buildEnv \<Rightarrow> goerr option \<Rightarrow> runEvent \<Rightarrow> string list
    \<Rightarrow> cmdError option \<times> effect list" where
  "runOrderd L showDur K now B listenErr ev osEnviron = (case Load osEnviron of
     Inl es \<Rightarrow> (Some (BadSettings es), [])
   | Inr c \<Rightarrow> (case NewApp L showDur K now B c of
       (Inl err, es) \<Rightarrow> (Some (CmdErr err), es)
     | (Inr application, es) \<Rightarrow>
         (case RunApp B listenErr ev application of (err, es') \<Rightarrow> (map_option CmdErr err, es @ es'))))"

text \<open>\<open>main\<close>: the exit status, what is printed to standard output, and the effects.\<close>

definition orderdMain :: "jwtlib \<Rightarrow> (int \<Rightarrow> string) \<Rightarrow> codec \<Rightarrow> int \<Rightarrow> buildEnv \<Rightarrow> goerr option \<Rightarrow> runEvent
    \<Rightarrow> (string \<Rightarrow> goerr option) \<Rightarrow> (string \<Rightarrow> servingStatus res) \<Rightarrow> bool \<Rightarrow> string list \<Rightarrow> int \<times> string list \<times> effect list" where
  "orderdMain L showDur K now B listenErr ev newClient check health osEnviron =
     (if health then (case checkHealth newClient check osEnviron of
          Some _ \<Rightarrow> (1, [], [])
        | None \<Rightarrow> (0, [''SERVING''], []))
      else (case runOrderd L showDur K now B listenErr ev osEnviron of
          (Some _, es) \<Rightarrow> (1, [], es)
        | (None, es) \<Rightarrow> (0, [], es)))"

section \<open>devtool\<close>

text \<open>\<open>os.RemoveAll\<close> on the files of a tree, by path; \<open>rmErr\<close> is what it returns.\<close>

definition below :: "string \<Rightarrow> string \<Rightarrow> bool" where
  "below target path \<longleftrightarrow> path = target \<or> has_prefix path (target @ ''/'')"

definition removeAll :: "string \<Rightarrow> string list \<Rightarrow> string list" where
  "removeAll target fs = filter (\<lambda>p. \<not> below target p) fs"

fun removeTargets :: "(string \<Rightarrow> goerr option) \<Rightarrow> string list \<Rightarrow> string list \<Rightarrow> goerr option \<times> string list" where
  "removeTargets rmErr [] fs = (None, fs)"
| "removeTargets rmErr (t # ts) fs = (case rmErr t of
     Some err \<Rightarrow> (Some (wrapE (''remove '' @ t) err), fs)
   | None \<Rightarrow> removeTargets rmErr ts (removeAll t fs))"

definition cleanTargets :: "string list" where
  "cleanTargets = [''bin'', ''covdata'', ''coverage.out'', ''coverage.html'']"

definition clean :: "(string \<Rightarrow> goerr option) \<Rightarrow> goerr option \<Rightarrow> string list \<Rightarrow> goerr option \<times> string list" where
  "clean rmErr testcacheErr fs = (case removeTargets rmErr cleanTargets fs of
     (Some err, fs') \<Rightarrow> (Some err, fs')
   | (None, fs') \<Rightarrow> (map_option (wrapE ''go clean -testcache'') testcacheErr, fs'))"

text \<open>\<open>race\<close>: the long message for Windows is abbreviated to its first line. The last argument is what
  \<open>go test -race\<close> returns.\<close>

definition race :: "bool \<Rightarrow> string \<Rightarrow> goerr option \<Rightarrow> goerr option" where
  "race gccFound goos testErr =
     (if \<not> gccFound then
        (if goos = ''windows'' then Some (Plain ''the race detector needs cgo, and no C compiler was found on PATH.'')
         else Some (Plain ''no C compiler found on PATH; the race detector requires cgo''))
      else testErr)"

definition reportTool :: "(string \<Rightarrow> string option) \<Rightarrow> string \<Rightarrow> string \<Rightarrow> string" where
  "reportTool lookPath name purpose = padRight 13 name @ '' ''
     @ (case lookPath name of Some path \<Rightarrow> path | None \<Rightarrow> ''NOT FOUND -- needed for: '' @ purpose)"

text \<open>The lines of \<open>doctor\<close>. \<open>dockerContext\<close> is the trimmed output of
  \<open>docker context show\<close>, \<open>inOneDrive\<close> the test on the working directory.\<close>

definition doctor :: "(string \<Rightarrow> string option) \<Rightarrow> string \<Rightarrow> string option \<Rightarrow> string \<Rightarrow> bool \<Rightarrow> string list" where
  "doctor lookPath goVersion dockerContext dockerHost inOneDrive =
     [''go            '' @ goVersion, reportTool lookPath ''docker'' ''integration and e2e tiers'',
      reportTool lookPath ''kubectl'' ''task k8s:render'', reportTool lookPath ''grpcurl'' ''manual gRPC poking (optional)'',
      if lookPath ''gcc'' = None then ''cgo           NOT available -- `task test:race` will explain the options''
      else ''cgo           available -- `task test:race` works natively'']
     @ (case dockerContext of
          None \<Rightarrow> []
        | Some ctxName \<Rightarrow> [''docker ctx    '' @ ctxName]
            @ (if ctxName \<noteq> ''default'' \<and> dockerHost = [] then
                 [''              note: testcontainers ignores docker contexts and probes the'',
                  ''              default pipe. If the integration tier skips while docker works,'',
                  ''              set DOCKER_HOST to this context's endpoint.''] else []))
     @ (if inOneDrive then
          [[], ''WARNING: this repository is inside OneDrive.'',
           ''  OneDrive's sync filter driver causes intermittent 'Access is denied' during'',
           ''  builds and git checkouts, and syncing .git across machines corrupts the index.'',
           ''  Move the repository outside OneDrive.''] else [])
     @ [[], ''test tiers:'', ''  task verify       always runs (no Docker, no network, no cgo)'', ''  task verify:int   needs Docker'',
        ''  task verify:e2e   needs Docker, builds the real image'']"

text \<open>\<open>main\<close>: the exit status, with the results of the three commands.\<close>

definition devtoolMain :: "goerr option \<Rightarrow> goerr option \<Rightarrow> string list \<Rightarrow> int" where
  "devtoolMain cleanErr raceErr args =
     (if length args < 2 then 2
      else if args ! 1 = ''doctor'' then 0
      else if args ! 1 = ''clean'' then (if cleanErr = None then 0 else 1)
      else if args ! 1 = ''race'' then (if raceErr = None then 0 else 1)
      else 2)"

section \<open>Properties\<close>

text \<open>The probe answers for the server and starts nothing: it exits with 0 exactly when the server's own
  configuration loads and the health service at its address says SERVING.\<close>

theorem health_probe_exact:
  "snd (snd (orderdMain L sd K now B le ev newClient check True osEnviron)) = []
   \<and> (fst (orderdMain L sd K now B le ev newClient check True osEnviron) = 0 \<longleftrightarrow>
      (\<exists>c. Load osEnviron = Inr c \<and> newClient (healthTarget (GRPCAddr c)) = None \<and> check (healthTarget (GRPCAddr c)) = Inr SERVING))"
proof (cases "Load osEnviron")
  case (Inr c)
  then show ?thesis by (simp add: orderdMain_def checkHealth_def Let_def split: option.split sum.split)
qed (simp add: orderdMain_def checkHealth_def)

lemma Close_closes:
  assumes "NewApp L sd K now B c = (Inr a, es)" "\<forall>r. Opened r \<notin> set pre"
  shows "leaked (es @ pre @ snd (Close B a)) = {}"
proof -
  note a = NewApp_Inr [OF assms(1)]
  have g: "set (stepEffects (grpcStep B d)) \<subseteq> {GracefulStop, ForcedStop}" for d by (auto simp: stepEffects_def grpcStep_def)
  have o: "Opened r \<in> set (snd (Close B a)) \<longleftrightarrow> False" "Closed r \<in> set (snd (Close B a)) \<longleftrightarrow> r \<in> set (resourcesOf c)" for r
    using a(1,2,4) g [of "GracePeriod (ShutdownCfg c)"] by (auto simp: Close_effects shutdownSteps_def)
  show ?thesis using a(5) o assms(2) by (auto simp: leaked_def)
qed

lemma RunApp_Cancelled: "RunApp B None Cancelled a = (fst (Close B a), HealthServing True # snd (Close B a))"
  by (simp add: RunApp_def split: prod.split)

text \<open>
  C21: A server ended by a signal leaves nothing behind. When \<open>orderd\<close> got its listener and runs until
  the signal, every resource it opened has been closed when the process exits, whatever the steps of
  the shutdown returned, and it exits with 0 exactly when all of them succeeded; when the service
  could not be built (with libraries that unwrap, register, dial and build) nothing stays open either.
\<close>

theorem orderd_releases_everything:
  assumes "orderdMain L sd K now B None Cancelled newClient check False osEnviron = (code, out, es)"
    and "sqlDBErr B = None" "guardErr B = None" "unwrapErr B = None" "dialErr B = None" "muxErr B = None"
  shows "leaked es = {} \<and> (code = 0 \<longleftrightarrow> (\<exists>c a es'. Load osEnviron = Inr c \<and> NewApp L sd K now B c = (Inr a, es')
    \<and> (\<forall>st \<in> set (shutdownSteps B a). stepErr st = None)))"
proof (cases "Load osEnviron")
  case (Inl errs)
  then show ?thesis using assms(1) by (auto simp: orderdMain_def runOrderd_def leaked_def)
next
  case (Inr c)
  obtain r es' where n: "NewApp L sd K now B c = (r, es')" by (cases "NewApp L sd K now B c")
  show ?thesis
  proof (cases r)
    case (Inl e)
    then show ?thesis
      using assms(1) Inr n NewApp_failed_leaks [OF n [unfolded Inl] assms(2-6)] by (auto simp: orderdMain_def runOrderd_def)
  next
    case a: (Inr a)
    have "leaked es = leaked (es' @ [HealthServing True] @ snd (Close B a))" "code = 0 \<longleftrightarrow> fst (Close B a) = None"
      using assms(1) Inr n a
      by (auto simp: orderdMain_def runOrderd_def RunApp_Cancelled split: option.splits)
    then show ?thesis
      using Close_closes [OF n [unfolded a], of "[HealthServing True]"] Close_error Inr n a by auto
  qed
qed

lemma quiet_orderd:
  "case orderdMain sampleLib (\<lambda>_. []) sampleCodec 0 sampleBuild None Cancelled (\<lambda>t. None) (\<lambda>t. Inr SERVING) False [] of
     (code, out, es) \<Rightarrow> code = 0 \<and> Opened GatewayConn \<in> set es"
  by code_simp

theorem orderd_releases_everything_witness:
  "\<exists>out es. orderdMain sampleLib (\<lambda>_. []) sampleCodec 0 sampleBuild None Cancelled (\<lambda>t. None) (\<lambda>t. Inr SERVING) False [] = (0, out, es)
     \<and> Opened GatewayConn \<in> set es \<and> leaked es = {}"
proof -
  obtain out es where o: "orderdMain sampleLib (\<lambda>_. []) sampleCodec 0 sampleBuild None Cancelled (\<lambda>t. None) (\<lambda>t. Inr SERVING) False [] = (0, out, es)"
      "Opened GatewayConn \<in> set es" using quiet_orderd by (auto split: prod.splits)
  have "leaked es = {}"
    using orderd_releases_everything [OF o(1)] by (simp add: sampleBuild_def)
  with o show ?thesis by blast
qed

text \<open>\<open>clean\<close> removes what lies in its four targets, and nothing else; when it succeeds nothing is left
  of them.\<close>

lemma removeTargets_subset: "set (snd (removeTargets rmErr ts fs)) \<subseteq> set fs"
  by (induction rmErr ts fs rule: removeTargets.induct) (auto simp: removeAll_def split: option.splits)

lemma removeTargets_keeps: "p \<in> set fs \<Longrightarrow> \<forall>t \<in> set ts. \<not> below t p \<Longrightarrow> p \<in> set (snd (removeTargets rmErr ts fs))"
  by (induction rmErr ts fs rule: removeTargets.induct) (auto simp: removeAll_def split: option.splits)

lemma removeTargets_removes:
  "fst (removeTargets rmErr ts fs) = None \<Longrightarrow> p \<in> set (snd (removeTargets rmErr ts fs)) \<Longrightarrow> t \<in> set ts \<Longrightarrow> \<not> below t p"
proof (induction rmErr ts fs rule: removeTargets.induct)
  case (2 rmErr u ts fs)
  then show ?case
    using removeTargets_subset [of rmErr ts "removeAll u fs"] by (auto simp: removeAll_def split: option.splits)
qed simp

theorem clean_removes_only_artifacts:
  assumes "clean rmErr testcacheErr fs = (err, fs')"
  shows "set fs' \<subseteq> set fs \<and> (\<forall>p \<in> set fs. (\<forall>t \<in> {''bin'', ''covdata'', ''coverage.out'', ''coverage.html''}. \<not> below t p) \<longrightarrow> p \<in> set fs')
    \<and> (err = None \<longrightarrow> (\<forall>p \<in> set fs'. \<forall>t \<in> {''bin'', ''covdata'', ''coverage.out'', ''coverage.html''}. \<not> below t p))"
proof -
  have t: "{''bin'', ''covdata'', ''coverage.out'', ''coverage.html''} = set cleanTargets" by (simp add: cleanTargets_def)
  show ?thesis
    using assms removeTargets_subset [of rmErr cleanTargets fs] removeTargets_keeps [of _ fs cleanTargets rmErr]
      removeTargets_removes [of rmErr cleanTargets fs] unfolding t by (cases "removeTargets rmErr cleanTargets fs") (auto simp: clean_def split: option.splits)
qed

theorem clean_removes_only_artifacts_witness:
  "snd (clean (\<lambda>t. None) None [''bin/orderd'', ''main.go'', ''bin2'']) = [''main.go'', ''bin2'']"
proof -
  have c: "clean (\<lambda>t. None) None [''bin/orderd'', ''main.go'', ''bin2''] = (None, [''main.go'', ''bin2''])" by code_simp
  with clean_removes_only_artifacts [OF c] show ?thesis by simp
qed

end
