(* ===== verification/Testsupport.thy ===== *)
theory Testsupport
  imports Commands Eventbus
begin

text \<open>
  The shared test support: the database of the integration tier (\<open>internal/platform/testdb/testdb.go\<close>),
  the embedded broker (\<open>internal/platform/events/eventstest/eventstest.go\<close>), the in-process servers and
  the repository helpers (\<open>internal/testutil\<close>). Docker, NATS and the toolchain are arguments;
  \<open>t.Fatalf\<close> is the error value.
\<close>

section \<open>testdb\<close>

text \<open>A PostgreSQL cluster: its databases with their schema and data, and the database of every open
  session. \<open>CREATE DATABASE\<close> refuses a name that exists, and a template that does not exist or has a
  session connected.\<close>

record 's cluster =
  databases :: "(string \<times> 's) list"
  sessions :: "string list"

definition createDatabase :: "string \<Rightarrow> string option \<Rightarrow> 's \<Rightarrow> 's cluster \<Rightarrow> goerr option \<times> 's cluster" where
  "createDatabase name template blank cl =
     (if map_of (databases cl) name \<noteq> None then (Some (Plain ''database already exists''), cl)
      else (case template of
          None \<Rightarrow> (None, cl\<lparr>databases := (name, blank) # databases cl\<rparr>)
        | Some t \<Rightarrow> (case map_of (databases cl) t of
            None \<Rightarrow> (Some (Plain ''template database does not exist''), cl)
          | Some s \<Rightarrow>
              if t \<in> set (sessions cl) then (Some (Plain ''source database is being accessed by other users''), cl)
              else (None, cl\<lparr>databases := (name, s) # databases cl\<rparr>))))"

definition templateDB :: string where
  "templateDB = ''gomicro_template''"

record Instance =
  adminDSN :: string
  counter :: int

text \<open>\<open>strings.LastIndex\<close> of the slash; after it, what follows the first question mark is kept.\<close>

definition replaceDBName :: "string \<Rightarrow> string \<Rightarrow> string" where
  "replaceDBName dsn name =
     (if CHR ''/'' \<notin> set dsn then dsn
      else (let tail = rev (takeWhile (\<lambda>c. c \<noteq> CHR ''/'') (rev dsn))
            in take (length dsn - length tail) dsn @ name @ dropWhile (\<lambda>c. c \<noteq> CHR ''?'') tail))"

text \<open>What the libraries answer: the container, its connection string, the two connections, the
  statement that creates the template, the migrations (with the database they leave), and the close.\<close>

record 's startEnv =
  seRun :: "goerr option"
  seConn :: "string res"
  seOpenAdmin :: "goerr option"
  seExec :: "goerr option"
  seOpenTemplate :: "goerr option"
  seMigrate :: "'s \<Rightarrow> goerr option \<times> 's"
  seClose :: "goerr option"
  seEmpty :: 's

definition putDatabase :: "string \<Rightarrow> 's \<Rightarrow> 's cluster \<Rightarrow> 's cluster" where
  "putDatabase name s cl = cl\<lparr>databases := (name, s) # filter (\<lambda>(n, _). n \<noteq> name) (databases cl)\<rparr>"

text \<open>\<open>sql.Open\<close> connects nothing; the first statement over the handle does, and the connection stays in
  the handle's pool until the handle is closed. (The handle on the database \<open>postgres\<close> is closed when
  the function returns.)\<close>

definition connect :: "string \<Rightarrow> 's cluster \<Rightarrow> 's cluster" where
  "connect name cl = cl\<lparr>sessions := name # sessions cl\<rparr>"

definition disconnect :: "string \<Rightarrow> 's cluster \<Rightarrow> 's cluster" where
  "disconnect name cl = cl\<lparr>sessions := remove1 name (sessions cl)\<rparr>"

definition buildTemplate :: "'s startEnv \<Rightarrow> 's cluster \<Rightarrow> goerr option \<times> 's cluster" where
  "buildTemplate V cl = (case seOpenAdmin V of
     Some e \<Rightarrow> (Some (wrapE ''open admin connection'' e), cl)
   | None \<Rightarrow> (case (case seExec V of Some e \<Rightarrow> (Some e, cl) | None \<Rightarrow> createDatabase templateDB None (seEmpty V) cl) of
     (Some e, cl1) \<Rightarrow> (Some (wrapE ''create template database'' e), cl1)
   | (None, cl1) \<Rightarrow> (case seOpenTemplate V of
     Some e \<Rightarrow> (Some (wrapE ''open template connection'' e), cl1)
   | None \<Rightarrow> (let (err, s) = seMigrate V (seEmpty V); cl2 = putDatabase templateDB s (connect templateDB cl1)
       in case err of
     Some e \<Rightarrow> (Some (wrapE ''migrate template'' e), if seClose V = None then disconnect templateDB cl2 else cl2)
   | None \<Rightarrow> (case seClose V of
     Some e \<Rightarrow> (Some (wrapE ''close template connection'' e), cl2)
   | None \<Rightarrow> (None, disconnect templateDB cl2))))))"

text \<open>\<open>Start\<close>; the second component is whether the container still runs when it returns.\<close>

definition startDB :: "'s startEnv \<Rightarrow> 's cluster \<Rightarrow> Instance res \<times> bool \<times> 's cluster" where
  "startDB V cl = (case seRun V of
     Some e \<Rightarrow> (Inl (wrapE ''start postgres container'' e), False, cl)
   | None \<Rightarrow> (case seConn V of
     Inl e \<Rightarrow> (Inl (wrapE ''container connection string'' e), True, cl)
   | Inr dsn \<Rightarrow> (case buildTemplate V cl of
     (Some e, cl') \<Rightarrow> (Inl e, False, cl')
   | (None, cl') \<Rightarrow> (Inr \<lparr>adminDSN = dsn, counter = 0\<rparr>, True, cl'))))"

definition freshName :: "int \<Rightarrow> string" where
  "freshName n = ''gomicro_t'' @ show_int n"

definition Fresh :: "goerr option \<Rightarrow> goerr option \<Rightarrow> 's \<Rightarrow> Instance \<Rightarrow> 's cluster \<Rightarrow> string res \<times> Instance \<times> 's cluster" where
  "Fresh openErr execErr blank i cl =
     (let i' = i\<lparr>counter := counter i + 1\<rparr>; name = freshName (counter i')
      in case openErr of
           Some e \<Rightarrow> (Inl (wrapE ''open admin connection'' e), i', cl)
         | None \<Rightarrow> (case (case execErr of Some e \<Rightarrow> (Some e, cl) | None \<Rightarrow> createDatabase name (Some templateDB) blank cl) of
             (Some e, cl') \<Rightarrow> (Inl (wrapE ''clone template database'' e), i', cl')
           | (None, cl') \<Rightarrow> (Inr (replaceDBName (adminDSN i) name), i', cl')))"

text \<open>\<open>Terminate\<close> of an instance that may be nil, and what \<open>RequireDocker\<close> skips with.\<close>

definition Terminate :: "goerr option \<Rightarrow> Instance option \<Rightarrow> goerr option" where
  "Terminate stopErr i = (case i of None \<Rightarrow> None | Some _ \<Rightarrow> stopErr)"

definition activeDockerContext :: "string res \<Rightarrow> string" where
  "activeDockerContext out = (case out of Inl _ \<Rightarrow> ''unknown (docker CLI not on PATH)'' | Inr s \<Rightarrow> trim_space s)"

definition RequireDocker :: "goerr option \<Rightarrow> goerr option \<Rightarrow> string res \<Rightarrow> string option" where
  "RequireDocker providerErr healthErr contextOut =
     (let err = (case providerErr of None \<Rightarrow> healthErr | Some e \<Rightarrow> Some e)
      in map_option (\<lambda>e. ''skipping: Docker is not reachable ('' @ errorText e @ '')'' @ [CHR 0x0A] @ ''  active docker context: ''
           @ activeDockerContext contextOut) err)"

section \<open>Runs of a test package\<close>

text \<open>A package after \<open>Start\<close> on a new container: calls of \<open>Fresh\<close>, successful or not, and tests that
  change the database they got and leave sessions of it open. The last argument lists the databases
  handed out.\<close>

inductive dbrun :: "'s startEnv \<Rightarrow> Instance \<Rightarrow> 's cluster \<Rightarrow> string list \<Rightarrow> bool" for V where
  start: "startDB V \<lparr>databases = [(''postgres'', s)], sessions = ss\<rparr> = (Inr i, up, cl) \<Longrightarrow> templateDB \<notin> set ss \<Longrightarrow> dbrun V i cl []"
| fresh: "dbrun V i cl names \<Longrightarrow> Fresh openErr execErr (seEmpty V) i cl = (Inr dsn, i', cl')
    \<Longrightarrow> dbrun V i' cl' (freshName (counter i') # names)"
| failed: "dbrun V i cl names \<Longrightarrow> Fresh openErr execErr (seEmpty V) i cl = (Inl e, i', cl') \<Longrightarrow> dbrun V i' cl' names"
| test: "dbrun V i cl names \<Longrightarrow> name \<in> set names \<Longrightarrow> dbrun V i ((putDatabase name s cl)\<lparr>sessions := name # sessions cl\<rparr>) names"

lemma map_of_putDatabase: "map_of (databases (putDatabase name s cl)) = (map_of (databases cl))(name \<mapsto> s)"
  by (auto simp: putDatabase_def fun_eq_iff map_of_filter_neq)

lemma freshName_inj: "0 \<le> m \<Longrightarrow> 0 \<le> n \<Longrightarrow> freshName m = freshName n \<longleftrightarrow> m = n"
  by (auto simp: freshName_def show_int_def show_nat_inj)

lemma show_nat_digits: "c \<in> set (show_nat n) \<Longrightarrow> byte c \<le> 57"
proof (induction n rule: show_nat.induct)
  case (1 n)
  have "byte (char_of (48 + k :: nat)) \<le> 57" if "k < 10" for k using that by (simp add: byte_def)
  from this [of n] this [of "n mod 10"] 1 show ?case by (subst (asm) (2) show_nat.simps) (auto split: if_splits)
qed

lemma freshName_template: "freshName n \<noteq> templateDB"
proof
  assume "freshName n = templateDB"
  then have "show_int n = ''emplate''" by (simp add: freshName_def templateDB_def)
  then have "CHR ''e'' \<in> set (show_int n)" by simp
  then show False using show_nat_digits [of "CHR ''e''"] by (auto simp: show_int_def byte_def split: if_splits)
qed

lemma freshName_postgres: "freshName n \<noteq> ''postgres''"
  by (simp add: freshName_def)

text \<open>What holds throughout a run: nobody is connected to the template, which is as migrated, and the
  names given out are numbered up to the counter, as are all databases.\<close>

definition dbinv :: "'s startEnv \<Rightarrow> Instance \<Rightarrow> 's cluster \<Rightarrow> string list \<Rightarrow> bool" where
  "dbinv V i cl names \<longleftrightarrow> 0 \<le> counter i \<and> seConn V = Inr (adminDSN i) \<and> templateDB \<notin> set (sessions cl)
     \<and> map_of (databases cl) templateDB = Some (snd (seMigrate V (seEmpty V)))
     \<and> (\<forall>n s. map_of (databases cl) n = Some s \<longrightarrow> n \<in> {templateDB, ''postgres''} \<union> freshName ` {1..counter i})
     \<and> (\<forall>n \<in> set names. n \<in> freshName ` {1..counter i} \<and> map_of (databases cl) n \<noteq> None)"

lemma names_grow: "0 \<le> n \<Longrightarrow> freshName ` {1..n + 1} = insert (freshName (n + 1)) (freshName ` {1..n})"
proof -
  assume "0 \<le> n"
  then have "{1..n + 1} = insert (n + 1) {1..n}" by auto
  then show ?thesis by simp
qed

lemma freshName_new: "0 \<le> n \<Longrightarrow> freshName (n + 1) \<notin> freshName ` {1..n}"
  by (auto simp: freshName_inj)

lemma clone_succeeds:
  assumes "dbinv V i cl names"
  shows "createDatabase (freshName (counter i + 1)) (Some templateDB) x cl
    = (None, cl\<lparr>databases := (freshName (counter i + 1), snd (seMigrate V (seEmpty V))) # databases cl\<rparr>)"
proof -
  have "map_of (databases cl) (freshName (counter i + 1)) = None"
    using assms freshName_new [of "counter i"] freshName_template freshName_postgres
    unfolding dbinv_def by (cases "map_of (databases cl) (freshName (counter i + 1))") blast+
  then show ?thesis using assms by (simp add: createDatabase_def dbinv_def)
qed

lemma dbinv_bump: "dbinv V i cl names \<Longrightarrow> dbinv V (i\<lparr>counter := counter i + 1\<rparr>) cl names"
  unfolding dbinv_def by (auto simp: names_grow)

lemma dbinv_put:
  assumes "dbinv V i cl names" "name \<in> freshName ` {1..counter i}" "map_of (databases cl') = (map_of (databases cl))(name \<mapsto> s)"
    and "sessions cl' = sessions cl \<or> sessions cl' = name # sessions cl" "set names' \<subseteq> insert name (set names)"
  shows "dbinv V i cl' names'"
proof -
  have "name \<noteq> templateDB" using assms(2) freshName_template by auto
  with assms show ?thesis unfolding dbinv_def by auto
qed

lemma dbrun_inv: "dbrun V i cl names \<Longrightarrow> dbinv V i cl names"
proof (induction rule: dbrun.induct)
  case (start s ss i up cl)
  then show ?case
    by (auto simp: startDB_def buildTemplate_def createDatabase_def dbinv_def putDatabase_def connect_def disconnect_def templateDB_def Let_def
        split: option.splits sum.splits prod.splits if_splits)
next
  case (fresh i cl names openErr execErr dsn i' cl')
  have i': "i' = i\<lparr>counter := counter i + 1\<rparr>" "cl' = cl\<lparr>databases := (freshName (counter i + 1), snd (seMigrate V (seEmpty V))) # databases cl\<rparr>"
    using fresh.hyps(2) clone_succeeds [OF fresh.IH] by (auto simp: Fresh_def Let_def split: option.splits prod.splits)
  have "freshName (counter i + 1) \<in> freshName ` {1..counter (i\<lparr>counter := counter i + 1\<rparr>)}"
    using fresh.IH by (simp add: dbinv_def)
  then show ?case
    unfolding i' by (rule dbinv_put [OF dbinv_bump [OF fresh.IH]]) auto
next
  case (failed i cl names openErr execErr e i' cl')
  have "i' = i\<lparr>counter := counter i + 1\<rparr>" "cl' = cl"
    using failed.hyps(2) clone_succeeds [OF failed.IH] by (auto simp: Fresh_def Let_def split: option.splits prod.splits)
  then show ?case using dbinv_bump [OF failed.IH] by simp
next
  case (test i cl names name s)
  then have "name \<in> freshName ` {1..counter i}" unfolding dbinv_def by blast
  then show ?case by (rule dbinv_put [OF test.IH, where s = s]) (use test.hyps(2) in \<open>auto simp: map_of_putDatabase\<close>)
qed

lemma replaceDBName_inj:
  assumes "CHR ''/'' \<in> set dsn"
  shows "replaceDBName dsn m = replaceDBName dsn n \<longleftrightarrow> m = n"
  using assms by (simp add: replaceDBName_def Let_def)

text \<open>
  C40: Every test gets a database of its own. In any run of a test package after a successful \<open>Start\<close>, whatever
  earlier tests did to their databases and whatever sessions they left open on them, the session of the
  migrations on the template is closed, so the next \<open>Fresh\<close> that reaches the server succeeds: it hands out the connection string of a database that did not exist before, equal to the
  migrated template, and no database handed out earlier changes.
\<close>

theorem fresh_databases_are_isolated:
  assumes "dbrun V i cl names" "seConn V = Inr dsn" "CHR ''/'' \<in> set dsn"
  shows "\<exists>name i' cl'. Fresh None None (seEmpty V) i cl = (Inr (replaceDBName dsn name), i', cl')
    \<and> map_of (databases cl) name = None \<and> map_of (databases cl') name = Some (snd (seMigrate V (seEmpty V)))
    \<and> (\<forall>other \<in> set names. replaceDBName dsn other \<noteq> replaceDBName dsn name
        \<and> map_of (databases cl') other = map_of (databases cl) other)"
proof -
  note inv = dbrun_inv [OF assms(1)]
  let ?n = "freshName (counter i + 1)"
  have new: "map_of (databases cl) ?n = None"
    using inv freshName_new [of "counter i"] freshName_template freshName_postgres
    unfolding dbinv_def by (cases "map_of (databases cl) ?n") blast+
  then have "?n \<notin> set names" using inv unfolding dbinv_def by blast
  moreover have "adminDSN i = dsn" using inv assms(2) by (simp add: dbinv_def)
  ultimately show ?thesis
    using new clone_succeeds [OF inv, of "seEmpty V"] replaceDBName_inj [OF assms(3)]
    by (intro exI [of _ ?n]) (auto simp: Fresh_def Let_def)
qed

definition calmStart :: "nat startEnv" where
  "calmStart = \<lparr>seRun = None, seConn = Inr ''postgres://u:p@h:5432/postgres?sslmode=disable'', seOpenAdmin = None, seExec = None,
     seOpenTemplate = None, seMigrate = (\<lambda>s. (None, 7)), seClose = None, seEmpty = 0\<rparr>"

theorem fresh_databases_are_isolated_witness:
  "\<exists>name i cl i' cl'. Fresh None None 0 i cl = (Inr (replaceDBName ''postgres://u:p@h:5432/postgres?sslmode=disable'' name), i', cl')
     \<and> map_of (databases cl') name = Some (7 :: nat)"
proof -
  obtain i up cl where s: "startDB calmStart \<lparr>databases = [(''postgres'', 0)], sessions = []\<rparr> = (Inr i, up, cl)"
    by (auto simp: startDB_def calmStart_def buildTemplate_def createDatabase_def templateDB_def Let_def)
  then have "dbrun calmStart i cl []" by (rule dbrun.start) simp
  from fresh_databases_are_isolated [OF this] show ?thesis by (fastforce simp: calmStart_def)
qed

text \<open>The connection string keeps its parameters.\<close>

lemma replaceDBName_example:
  "replaceDBName ''postgres://u:p@h:5432/postgres?sslmode=disable'' ''gomicro_t1'' = ''postgres://u:p@h:5432/gomicro_t1?sslmode=disable''"
  by code_simp

text \<open>
  A container outlives a failed start when its connection string cannot be built: that is the one
  error path after the container runs that does not terminate it.
\<close>

theorem startDB_leaks_container:
  assumes "seRun V = None"
  shows "(\<exists>e cl'. startDB V cl = (Inl e, True, cl')) \<longleftrightarrow> isl (seConn V)"
  using assms by (auto simp: startDB_def split: sum.splits option.splits prod.splits)

section \<open>eventstest\<close>

text \<open>What the embedded server does to the machine, and the cleanups, which run last in, first out.\<close>

datatype natsEffect = MadeTempDir | StartedServer | Connected | SignalledShutdown | WaitedForShutdown | ClosedConn | RemovedTempDir

record brokerEnv =
  neNew :: "goerr option"
  neReady :: bool
  neConnect :: "goerr option"
  neJetStream :: "goerr option"

text \<open>\<open>Start\<close>: the error, what happened, and the stack of registered cleanups.\<close>

definition startNATS :: "brokerEnv \<Rightarrow> goerr option \<times> natsEffect list \<times> natsEffect list list" where
  "startNATS V =
     (let st1 = [[RemovedTempDir]]; es1 = [MadeTempDir]
      in case neNew V of
           Some e \<Rightarrow> (Some (Errorf (''start the embedded nats server: '' @ errorText e) []), es1, st1)
         | None \<Rightarrow>
             if \<not> neReady V then (Some (Plain ''the embedded nats server did not become ready within 15s''), es1 @ [StartedServer, SignalledShutdown], st1)
             else (let st2 = [SignalledShutdown, WaitedForShutdown] # st1; es2 = es1 @ [StartedServer]
                   in case neConnect V of
                        Some e \<Rightarrow> (Some (Errorf (''connect to the embedded nats server: '' @ errorText e) []), es2, st2)
                      | None \<Rightarrow> (let st3 = [ClosedConn] # st2; es3 = es2 @ [Connected]
                          in case neJetStream V of
                               Some e \<Rightarrow> (Some (Errorf (''jetstream: '' @ errorText e) []), es3, st3)
                             | None \<Rightarrow> (None, es3, st3))))"

text \<open>The whole life of a server: start, and the cleanups at the end of the test.\<close>

definition natsLife :: "brokerEnv \<Rightarrow> natsEffect list" where
  "natsLife V = (case startNATS V of (_, es, stack) \<Rightarrow> es @ concat stack)"

text \<open>\<open>Messages\<close>: the answers of the stream, the consumer and its info, the batch and its error.\<close>

record 'm reader =
  rdStream :: "goerr option"
  rdConsumer :: "goerr option"
  rdPending :: "nat res"
  rdFetch :: "nat \<Rightarrow> 'm list res"
  rdBatch :: "goerr option"

definition Messages :: "'m reader \<Rightarrow> string \<Rightarrow> string \<Rightarrow> 'm list res" where
  "Messages R stream subject = (case rdStream R of
     Some e \<Rightarrow> Inl (Errorf (''open stream '' @ quoted stream @ '': '' @ errorText e) [])
   | None \<Rightarrow> (case rdConsumer R of
     Some e \<Rightarrow> Inl (Errorf (''create a reader for '' @ quoted subject @ '': '' @ errorText e) [])
   | None \<Rightarrow> (case rdPending R of
     Inl e \<Rightarrow> Inl (Errorf (''consumer info: '' @ errorText e) [])
   | Inr left \<Rightarrow>
       if left = 0 then Inr []
       else (case rdFetch R left of
         Inl e \<Rightarrow> Inl (Errorf (''fetch from '' @ quoted subject @ '': '' @ errorText e) [])
       | Inr out \<Rightarrow> (case rdBatch R of
         Some e \<Rightarrow> Inl (Errorf (''read '' @ quoted subject @ '': '' @ errorText e) [])
       | None \<Rightarrow> Inr out)))))"

definition countMessages :: "'m reader \<Rightarrow> string \<Rightarrow> string \<Rightarrow> nat res" where
  "countMessages R stream subject = (case Messages R stream subject of Inl e \<Rightarrow> Inl e | Inr ms \<Rightarrow> Inr (length ms))"

text \<open>
  The store directory is removed last, after a server that became ready has ended: its life always
  ends with the wait for the shutdown and the removal. A server that never became ready is only
  told to stop, and the directory is removed without the wait.
\<close>

theorem broker_ends_before_its_store:
  "if neNew V = None \<and> neReady V then \<exists>es. natsLife V = es @ [SignalledShutdown, WaitedForShutdown, RemovedTempDir]
     \<and> (Connected \<in> set es \<longleftrightarrow> last es = ClosedConn)
   else last (natsLife V) = RemovedTempDir \<and> WaitedForShutdown \<notin> set (natsLife V)"
  by (auto simp: natsLife_def startNATS_def Let_def split: option.splits)

section \<open>testutil\<close>

definition testSettings :: "(string \<times> string) list" where
  "testSettings = [(''APP_ENV'', EnvDevelopment), (''SERVICE_NAME'', ''orderd-test''), (''STORE_DRIVER'', StoreMemory),
     (''AUTH_MODE'', AuthDev), (''SHUTDOWN_DRAIN_DELAY'', ''0s''), (''SHUTDOWN_GRACE_PERIOD'', ''2s'')]"

text \<open>\<open>TestConfig\<close>; \<^const>\<open>None\<close> is its panic.\<close>

definition TestConfig :: "(AppConfig \<Rightarrow> AppConfig) list \<Rightarrow> AppConfig option" where
  "TestConfig mutate = (case Parse testSettings of Inl _ \<Rightarrow> None | Inr c \<Rightarrow> Some (fold (\<lambda>f c. f c) mutate c))"

datatype labEffect = AppDid effect | ClientClosed | ListenerClosed | HTTPClosed | MarkedServing

text \<open>\<open>serve\<close> up to the end of the test, and the harness over it: an error of \<open>app.New\<close> or of the client
  ends the test before a cleanup is registered.\<close>

definition serveTest :: "buildEnv \<Rightarrow> goerr option \<Rightarrow> app \<Rightarrow> goerr option \<times> labEffect list" where
  "serveTest B clientErr a = (case clientErr of
     Some e \<Rightarrow> (Some (Errorf (''grpc.NewClient: '' @ errorText e) []), [MarkedServing])
   | None \<Rightarrow> (None, [MarkedServing, ClientClosed] @ map AppDid (snd (Close B a)) @ [ListenerClosed]))"

definition NewTestServer :: "jwtlib \<Rightarrow> (int \<Rightarrow> string) \<Rightarrow> codec \<Rightarrow> int \<Rightarrow> buildEnv \<Rightarrow> goerr option \<Rightarrow> AppConfig
    \<Rightarrow> goerr option \<times> labEffect list" where
  "NewTestServer L showDur K now B clientErr c = (case NewApp L showDur K now B c of
     (Inl e, es) \<Rightarrow> (Some (Errorf (''app.New: '' @ errorText e) []), map AppDid es)
   | (Inr a, es) \<Rightarrow> (case serveTest B clientErr a of (err, ls) \<Rightarrow> (err, map AppDid es @ ls)))"

definition NewTestServerListener :: "jwtlib \<Rightarrow> (int \<Rightarrow> string) \<Rightarrow> codec \<Rightarrow> int \<Rightarrow> buildEnv \<Rightarrow> AppConfig \<Rightarrow> goerr option \<times> labEffect list" where
  "NewTestServerListener L showDur K now B c = (case NewApp L showDur K now B c of
     (Inl e, es) \<Rightarrow> (Some (Errorf (''app.New: '' @ errorText e) []), map AppDid es)
   | (Inr a, es) \<Rightarrow> (None, map AppDid es @ [MarkedServing] @ map AppDid (snd (Close B a)) @ [ListenerClosed]))"

definition NewTestGateway :: "jwtlib \<Rightarrow> (int \<Rightarrow> string) \<Rightarrow> codec \<Rightarrow> int \<Rightarrow> buildEnv \<Rightarrow> AppConfig \<Rightarrow> goerr option \<times> labEffect list" where
  "NewTestGateway L showDur K now B c = (case NewApp L showDur K now B c of
     (Inl e, es) \<Rightarrow> (Some (Errorf (''app.New: '' @ errorText e) []), map AppDid es)
   | (Inr a, es) \<Rightarrow>
       if \<not> gatewaySrv a then (Some (Plain ''the app has no gateway handler; GATEWAY_ADDR must be set for this harness''), map AppDid es @ [MarkedServing])
       else (None, map AppDid es @ [MarkedServing, HTTPClosed] @ map AppDid (snd (Close B a))))"

definition appEffects :: "labEffect list \<Rightarrow> effect list" where
  "appEffects es = concat (map (\<lambda>e. case e of AppDid x \<Rightarrow> [x] | _ \<Rightarrow> []) es)"

lemma appEffects_simps [simp]:
  "appEffects (es @ es') = appEffects es @ appEffects es'" "appEffects (map AppDid xs) = xs" "appEffects [] = []"
  "appEffects (ClientClosed # es) = appEffects es" "appEffects (ListenerClosed # es) = appEffects es"
  "appEffects (HTTPClosed # es) = appEffects es" "appEffects (MarkedServing # es) = appEffects es"
  by (simp_all add: appEffects_def comp_def)

lemma test_config_valid:
  "case Parse testSettings of Inl _ \<Rightarrow> False | Inr c \<Rightarrow> AuthMode c = AuthDev \<and> StoreDriver c = StoreMemory \<and> GatewayAddr c \<noteq> []
     \<and> DrainDelay (ShutdownCfg c) = 0"
  by code_simp

text \<open>
  The test configuration never panics, and a test server that came up leaves nothing open: every
  resource of the application is closed when its test ends, for each of the three harnesses.
\<close>

theorem test_servers_leak_nothing:
  "(\<exists>c. TestConfig [] = Some c \<and> AuthMode c = AuthDev \<and> StoreDriver c = StoreMemory)
   \<and> (\<forall>c es. NewTestServer L sd K now B None c = (None, es) \<longrightarrow> leaked (appEffects es) = {})
   \<and> (\<forall>c es. NewTestServerListener L sd K now B c = (None, es) \<longrightarrow> leaked (appEffects es) = {})
   \<and> (\<forall>c es. NewTestGateway L sd K now B c = (None, es) \<longrightarrow> leaked (appEffects es) = {})"
proof -
  have nil: "\<forall>r. Opened r \<notin> set []" by simp
  note cl = Close_closes [OF _ nil, simplified]
  have "\<exists>c. TestConfig [] = Some c \<and> AuthMode c = AuthDev \<and> StoreDriver c = StoreMemory"
    using test_config_valid by (auto simp: TestConfig_def split: sum.splits)
  moreover have "leaked (appEffects es) = {}" if "NewTestServer L sd K now B None c = (None, es)" for c es
    using that cl by (auto simp: NewTestServer_def serveTest_def split: prod.splits sum.splits)
  moreover have "leaked (appEffects es) = {}" if "NewTestServerListener L sd K now B c = (None, es)" for c es
    using that cl by (auto simp: NewTestServerListener_def split: prod.splits sum.splits)
  moreover have "leaked (appEffects es) = {}" if "NewTestGateway L sd K now B c = (None, es)" for c es
    using that cl by (auto simp: NewTestGateway_def split: prod.splits sum.splits if_splits)
  ultimately show ?thesis by blast
qed

text \<open>A gateway harness without a gateway address fails after the application was built, and leaves it
  open.\<close>

lemma NewApp_closes_nothing: "NewApp L sd K now B c = (Inr a, es) \<Longrightarrow> Closed r \<notin> set es"
  unfolding NewApp_def closeOpened_def
  by (auto simp: Let_def split: sum.splits option.splits prod.splits if_splits dest!: buildStore_Inr(2) buildLimiter_Inr(2) buildGateway_None(2))

theorem gateway_harness_leaks:
  assumes "NewApp L sd K now B c = (Inr a, es)" "GatewayAddr c = []"
  shows "Tracer \<in> leaked (appEffects (snd (NewTestGateway L sd K now B c)))"
proof -
  have "Tracer \<in> {r. Opened r \<in> set es}" unfolding NewApp_Inr(5) [OF assms(1)] by (simp add: resourcesOf_def)
  then show ?thesis
    using assms NewApp_Inr(2) [OF assms(1)] NewApp_closes_nothing [OF assms(1)] by (simp add: NewTestGateway_def leaked_def)
qed

text \<open>\<open>RepoRoot\<close>: up from a directory, given by its components, to the one that holds \<open>go.mod\<close>; the root
  is its own parent.\<close>

function RepoRoot :: "(string list \<Rightarrow> bool) \<Rightarrow> string list \<Rightarrow> string list option" where
  "RepoRoot hasMod dir = (if hasMod dir then Some dir else if dir = [] then None else RepoRoot hasMod (butlast dir))"
  by auto

termination by (relation "measure (\<lambda>(_, dir). length dir)") auto

declare RepoRoot.simps [simp del]

text \<open>It finds the nearest directory with a \<open>go.mod\<close>, and fails only when there is none on the way up.\<close>

theorem RepoRoot_nearest:
  "case RepoRoot hasMod dir of
     Some found \<Rightarrow> hasMod found \<and> (\<exists>sub. dir = found @ sub \<and> (\<forall>k. 0 < k \<longrightarrow> k \<le> length sub \<longrightarrow> \<not> hasMod (found @ take k sub)))
   | None \<Rightarrow> \<forall>k \<le> length dir. \<not> hasMod (take k dir)"
proof (induction hasMod dir rule: RepoRoot.induct)
  case (1 hasMod dir)
  show ?case
  proof (cases "hasMod dir \<or> dir = []")
    case True
    then show ?thesis by (subst RepoRoot.simps) auto
  next
    case False
    then obtain d x where d: "dir = d @ [x]" by (cases dir rule: rev_cases) auto
    then have bd: "butlast dir = d" by simp
    have r: "RepoRoot hasMod dir = RepoRoot hasMod d" using False d by (subst RepoRoot.simps) simp
    have IH: "case RepoRoot hasMod d of
       Some found \<Rightarrow> hasMod found \<and> (\<exists>sub. d = found @ sub \<and> (\<forall>k. 0 < k \<longrightarrow> k \<le> length sub \<longrightarrow> \<not> hasMod (found @ take k sub)))
     | None \<Rightarrow> \<forall>k \<le> length d. \<not> hasMod (take k d)" using "1.IH" False unfolding bd by blast
    show ?thesis
    proof (cases "RepoRoot hasMod d")
      case None
      then show ?thesis using IH False r d by (auto simp: le_Suc_eq)
    next
      case (Some found)
      then obtain sub where sub: "hasMod found" "d = found @ sub" "\<forall>k. 0 < k \<longrightarrow> k \<le> length sub \<longrightarrow> \<not> hasMod (found @ take k sub)"
        using IH by auto
      have "\<not> hasMod (found @ take k (sub @ [x]))" if "0 < k" "k \<le> Suc (length sub)" for k
        using sub that False d by (cases "k = Suc (length sub)") auto
      then show ?thesis using Some r sub d by (auto intro!: exI [of _ "sub @ [x]"])
    qed
  qed
qed

fun dropCR :: "string \<Rightarrow> string" where
  "dropCR (a # b # r) = (if a = CHR 0x0D \<and> b = CHR 0x0A then CHR 0x0A # dropCR r else a # dropCR (b # r))"
| "dropCR r = r"

definition nonEmptyLines :: "string \<Rightarrow> string list" where
  "nonEmptyLines s = filter (\<lambda>line. line \<noteq> []) (map trim_space (split_on (CHR 0x0A) (dropCR s)))"

text \<open>\<open>GoList\<close> and \<open>TrackedFiles\<close> over the output of their commands, run in the repository's root; the
  latter skips the test (\<^const>\<open>None\<close>) where git fails.\<close>

definition GoList :: "(goerr \<times> string) + string \<Rightarrow> string list \<Rightarrow> string list res" where
  "GoList output args = (case output of
     Inl (err, stderr) \<Rightarrow> Inl (Errorf (''go list '' @ join '' '' args @ '': '' @ errorText err @ [CHR 0x0A] @ stderr) [])
   | Inr out \<Rightarrow> Inr (nonEmptyLines out))"

definition TrackedFiles :: "string res \<Rightarrow> string list option" where
  "TrackedFiles output = (case output of Inl _ \<Rightarrow> None | Inr out \<Rightarrow> Some (nonEmptyLines out))"

text \<open>No line a guard test sees is blank.\<close>

theorem nonEmptyLines_nonempty: "line \<in> set (nonEmptyLines s) \<Longrightarrow> line \<noteq> []"
  by (simp add: nonEmptyLines_def)

end
