(* ===== verification/Spec2Isabelle.thy ===== *)
theory Spec2Isabelle
  imports Operations Outbound Forkrename Conformance Testissuer Transcode Testsupport
begin

text \<open>
  A model of the order service of this repository and the theorems that make it correct.

  \<^bold>\<open>The program.\<close> A multi-tenant gRPC service in Go. A request passes a chain of interceptors
  (recovery, metrics, logging, error mapping, admission, authentication and policy, quota,
  deadline, validation), reaches a handler that translates protobuf messages to domain values, and
  runs a use case of the order service, which reads and writes orders and appends events in one
  transaction of a store. A relay publishes the events from the outbox table to a NATS stream, and a
  worker consumes them into a read model. Callers are identified by a bearer token that an OIDC verifier checks
  against keys fetched from the issuer; quotas are kept in Redis by a GCRA script.

  \<^bold>\<open>Theories and sources\<close> (all under \<^verbatim>\<open>src/internal\<close>).

  \<^item> \<open>Prelude\<close>: byte strings, 64- and 32-bit wrap-around, Go's division, white space, sorting lemmas.
  \<^item> \<open>Errors\<close>: \<^verbatim>\<open>platform/apperr\<close>. Error trees, \<open>errors.Is/As\<close>, kinds, redaction, \<open>ToStatus\<close>.
  \<^item> \<open>Money\<close>: \<^verbatim>\<open>order/money.go\<close>. Every operation with the wrap-around of \<open>int64\<close> and \<open>int32\<close>.
  \<^item> \<open>OrderDomain\<close>: \<^verbatim>\<open>order/order.go, order/errors.go\<close>. Items, totals, status machine, validation.
  \<^item> \<open>Cursor\<close>: \<^verbatim>\<open>order/cursor.go\<close>. Page tokens with base64 and FNV-1a written out.
  \<^item> \<open>Store\<close>: \<^verbatim>\<open>order/store.go\<close>. The ports as records of functions, their contract as the locale
    \<open>order_store\<close> (create, get, list, update, publish and transactions over an abstract table and
    event log), its extension \<open>exact_store\<close> for adapters that report every outcome as it is, and the
    correctness of following page tokens, proved from the contract.
  \<^item> \<open>Service\<close>: \<^verbatim>\<open>order/service.go, order/seed.go\<close>. The use cases; atomicity, the agreement of log and
    table and tenant isolation, proved for every adapter that meets the contract.
  \<^item> \<open>Ordermem\<close>: \<^verbatim>\<open>order/ordermem\<close>. The in-memory adapter, the interpretation \<open>mem\<close> of the
    contract on it, and the properties of service and adapter together.
  \<^item> \<open>Gormx\<close>: \<^verbatim>\<open>platform/gormx/tenant.go\<close>. The guard that scopes statements to a tenant, its registration,
    and how GORM joins the conditions of a statement, those added by \<open>Or\<close> included.
  \<^item> \<open>Orderpg\<close>: \<^verbatim>\<open>order/orderpg\<close>. The Postgres adapter statement by statement over the tables of the
    migrations, each statement with its own failures, and the proof that it meets the contract.
  \<^item> \<open>Orderpgtx\<close>: the service over Postgres, the agreement of the two adapters, and concurrent
    transactions at READ COMMITTED as a step relation.
  \<^item> \<open>Conformance\<close>: \<^verbatim>\<open>order/ordertest\<close>. The contract suite as executable subtests; what it needs beyond the
    contract is the locale \<open>conforming_store\<close>, in which every subtest is shown to pass.
  \<^item> \<open>Outbox\<close>: \<^verbatim>\<open>platform/outbox\<close>. The relay (claim, publish, quarantine, mark), its loop, pruning and
    the observer's counts; any number of relays as a step relation; the broker as the locale
    \<open>broker_contract\<close>.
  \<^item> \<open>Eventbus\<close>: \<^verbatim>\<open>platform/events\<close>. Subjects, messages, publishing to JetStream, what the wire makes of header
    values (\<open>onWire\<close>, as \<open>http.Header.Write\<close> writes them), and what the consumer does with a delivery:
    acknowledge, retry, dead-letter, with acknowledgements that may be lost.
  \<^item> \<open>Orderproj\<close>: \<^verbatim>\<open>order/orderproj\<close>. The projection's transaction and its counts.
  \<^item> \<open>Readmodel\<close>: service, Postgres, relay, stream and projection together.
  \<^item> \<open>Ratelimit\<close>: \<^verbatim>\<open>platform/ratelimit\<close>. The GCRA script on a Redis state with expiring keys.
  \<^item> \<open>Auth\<close>: \<^verbatim>\<open>platform/auth\<close> (principal, dev, policy, claims).
  \<^item> \<open>Oidc\<close>: \<^verbatim>\<open>platform/auth/oidc.go, jwks.go\<close>. Discovery, key cache, key parsing, verification.
  \<^item> \<open>Interceptors\<close>: \<^verbatim>\<open>platform/interceptor\<close> and the chains of \<^verbatim>\<open>grpcapi/chain.go\<close>.
  \<^item> \<open>Grpcapi\<close>: \<^verbatim>\<open>grpcapi\<close>. Error mapping, policy, message conversion, handlers, and the properties
    of the whole request path from token to store.

  \<^item> \<open>Float64\<close>, \<open>Strconv\<close>: the standard library's \<open>float64\<close> (correctly rounded) and the parsers of
    integers, booleans, floating point numbers and durations.
  \<^item> \<open>Appconfig\<close>: \<^verbatim>\<open>platform/config\<close>. Every setting, its default, the parser as a state monad, validation.
  \<^item> \<open>Startup\<close>: \<^verbatim>\<open>platform/auth/verifier.go, platform/gormx/gormx.go (Open), app\<close>. From the
    configuration to a wired service, with every constructor's failure, and the ordered shutdown.
  \<^item> \<open>Operations\<close>: the rest of \<^verbatim>\<open>platform/events\<close> (connecting, stream, consumer), the observer's loop,
    \<^verbatim>\<open>cmd/worker\<close> and \<^verbatim>\<open>cmd/prune\<close>, and the background processes under an accepted configuration.
  \<^item> \<open>Outbound\<close>: \<^verbatim>\<open>platform/client\<close>. Deadline budget, identity, upstream errors, retry policy, \<open>Dial\<close>.
  \<^item> \<open>Edge\<close>: \<^verbatim>\<open>gateway\<close>. REST error responses, headers in both directions, the body limit.
  \<^item> \<open>Transcode\<close>: \<^verbatim>\<open>gen/go/order/v1/order.pb.gw.go\<close> and \<^verbatim>\<open>gateway/gateway.go (NewMux)\<close>. From a routed HTTP
    request to the RPC through the chain, and the server mode the gateway refuses to use.
  \<^item> \<open>Telemetry\<close>: \<^verbatim>\<open>platform/observability\<close>, the statement log and counter of \<^verbatim>\<open>platform/gormx\<close>, the stream
    wrapper of \<^verbatim>\<open>platform/interceptor\<close>, \<^verbatim>\<open>platform/migrations\<close> and \<^verbatim>\<open>cmd/migrate\<close>.
  \<^item> \<open>Forkrename\<close>: \<^verbatim>\<open>cmd/rename\<close> over a repository as a list of files, with what git and the operating
    system answer as arguments.
  \<^item> \<open>Testissuer\<close>: \<^verbatim>\<open>platform/auth/testjwks\<close>. The in-process issuer with its honest and its forged tokens,
    every history of it and a verifier as an inductive relation.
  \<^item> \<open>Commands\<close>: \<^verbatim>\<open>cmd/orderd\<close> with its health probe, and \<^verbatim>\<open>cmd/devtool\<close>.
  \<^item> \<open>Testsupport\<close>: \<^verbatim>\<open>platform/testdb, platform/events/eventstest, testutil\<close>. Databases, brokers and
    servers of the tests, and what is left of them when a test ends.

  \<^bold>\<open>How Go is modelled.\<close> A string is a list of bytes (\<open>char\<close>); an integer is an \<open>int\<close> with the
  wrap-around written out where the code can reach it; a time is an \<open>int\<close> of nanoseconds; a pair
  \<open>(T, error)\<close> is a sum with the error on the left and errors are trees with the wrapping structure
  \<open>errors.Is\<close> walks; a nil pointer is \<open>None\<close>; a Go map is an association list, in the order
  \<open>range\<close> visits it. Stateful code passes its state explicitly. A mutex makes an operation one step.
  A panic is an outcome of a handler. Every function is total and no fuel is used; the one loop whose
  end is not structural, the pruner's, is a \<open>partial_function\<close> that is proved to return. Loops
  that run until shutdown take the list of their iterations. What a database, a broker or a peer
  answers to each statement, an error included, is an argument, and a commit that reports an error
  may have taken effect.

  \<^bold>\<open>Parameters.\<close> Code that is not in the repository is an argument with named hypotheses: the JSON
  codec of the page cursor and \<open>uuid.Validate\<close> (\<open>codec\<close>, \<open>codec_ok\<close>, for the suite \<open>codec_serves\<close>), the JWT library, curve
  arithmetic and URL parsing (\<open>jwtlib\<close>), HTTP responses (\<open>fetched\<close>), the metrics interceptor
  (\<open>transparent\<close>), \<open>uuid\<close>, text and JSON of the order tables (\<open>pglib\<close>, \<open>pglib_ok\<close>), the printing of
  times (\<open>timefmt_ok\<close>, for the years 0 to 9999), JetStream (\<open>jetstream_ok\<close>, and how it matches a filter,
  \<open>filter_ok\<close>), the connection under the stubs of the gateway, which may fail before or after the server
  ran (\<open>connection\<close>), the conversion of a float that has no integer value, the signer of the JWT library (\<open>jwtsigner\<close>, \<open>signed_header\<close>,
  \<open>signature_verifies\<close>), the runtime of grpc-gateway (\<open>gwRuntime\<close>), protojson, protovalidate, \<open>anypb\<close> and the printing of durations. Clocks (read
  as often as the code reads them), generated ids and what the network answers are arguments of the steps, so the
  theorems hold for all of them.

  \<^bold>\<open>What is shown.\<close> Money and totals are exact or report overflow. Every reachable state of service and
  store has one creation event per order and at most one cancellation, and the log replays to the
  table. Pages neither skip nor repeat rows while others write, and a walk ends. A tenant sees and
  changes only its own rows, end to end through the chain, and cannot observe others. A handler
  runs only for an authorised, admitted, bounded and valid request; every outcome is a reply or a
  status; panics and unclassified errors reveal nothing. Only keys of safe size and type verify
  tokens, fetches are rate limited, revocation takes effect. The limiter bounds every window and
  its retry time is exact. Over Postgres the outbox and the table agree whatever fails as long as transactions do
  not overlap, both adapters answer requests that are text for the database alike and pass the repository's
  contract suite, and no guarded statement without \<open>Or\<close> escapes its tenant. The outbox loses no event however many relays
  run and crash, its code refines that protocol, a backlog is cleared, pruning ends and keeps what is
  undelivered. An event arrives as the wire carries it and is handled or dead-lettered while dead letters are
  accepted; the projection counts each order once, and agrees with the orders table when everything is delivered. A configuration that
  is accepted is in range and starts; in production only tokens verified for the configured issuer and
  audience are admitted; shutdown releases everything in order and a failed start leaks nothing,
  with the exceptions named. Under an accepted configuration pruning never makes the projection count
  twice, as long as the copies of an event are stored close together, and dead letters are not consumed again
  unless the prefixes nest. A unary outgoing call carries no credential but the
  service's own, ends before its caller's deadline with the reserve kept (rounding of \<open>float64\<close> and
  two readings of the clock included), is retried only where listed, and the failure of the upstream is never taken
  for the service's own; the
  REST edge answers with the status, reason and retry time of the gRPC error. Log lines carry the trace of their
  request, client metrics never collide, the schema changes only on command, and the rename tool rewrites exactly
  the repository's own files, what it cleans up after itself aside. No forged token passes the verifier whatever its issuer goes through, and an honest
  one does, right after a rotation too; a REST call needs the same token as an RPC and cancels only the order its path
  names. A server ended by a signal, and every test server, leaves nothing open, and every test gets a database of its
  own. Where the
  code departs from its comments the departure is a theorem
  (\<open>key_crosses_tenants\<close>, \<open>burst_exceeded_by_truncation\<close>, \<open>sub_microsecond_quota_unenforced\<close>,
  \<open>empty_jwks_keeps_old_keys\<close>, \<open>watch_sends_one_page\<close>, \<open>concurrent_cancels_both_succeed\<close>,
  \<open>created_order_reads_back\<close>, \<open>run_stops_on_publish_timeout\<close>, \<open>refused_dead_letter_is_dropped\<close>,
  \<open>gateway_failure_leaks_listener\<close>, \<open>worker_outlives_its_relay\<close>, \<open>nested_dead_letters_loop\<close>,
  \<open>nan_reserve_refuses_calls\<close>, \<open>stream_status_leaks\<close>, \<open>cancelled_context_is_500\<close>,
  \<open>migrate_needs_server_settings\<close>, \<open>no_taskfile_keeps_docs\<close>,
  \<open>module_check_accepts_empty_element\<close>, \<open>rotation_refuses_old_tokens\<close>, \<open>startDB_leaks_container\<close>,
  \<open>broker_ends_before_its_store\<close>, \<open>gateway_harness_leaks\<close>, \<open>wire_renames_tenant\<close>, \<open>late_copy_counts_twice\<close>,
  \<open>or_condition_escapes_guard\<close>, \<open>credential_status_leaks\<close>, \<open>clean_up_reaches_others\<close>,
  \<open>text_filter_divides_adapters\<close>).

  \<^bold>\<open>Not modelled.\<close> Transport options of the gRPC server, tracing and metrics export, the SQL of the migrations,
  the generated message types and stubs, the routing of grpc-gateway's mux and the forwarding of a stream over
  it, the rendering of the retry policy as JSON, flags and signals of the commands: all of it configures or is
  generated for libraries the repository does not contain, and has no logic of its own.
\<close>

end
